(* ===== verification/Json.thy ===== *)
theory Json
  imports Prelude
begin

text \<open>
  The JSON values the engine passes around and the parts of Python's \<open>json\<close> module it uses on them:
  \<open>dumps\<close> with its separators, \<open>ensure_ascii\<close> and \<open>sort_keys\<close>, and \<open>loads\<close> with the hooks
  \<open>parse_float\<close>, \<open>parse_constant\<close> and \<open>object_pairs_hook\<close>. A float is represented by the text
  \<open>float.__repr__\<close> gives it (JSON spelling for the three non-finite values). The main result is that
  \<open>loads\<close> reads back exactly what \<open>dumps\<close> wrote; the parser runs on fuel, and the length of the text
  is shown to be enough.
\<close>

section \<open>Values\<close>

datatype json =
    JNull
  | JBool bool
  | JInt int
  | JFloat string
  | JStr string
  | JArr "json list"
  | JObj "(string \<times> json) list"

type_synonym jobj = "(string \<times> json) list"

abbreviation jget :: "jobj \<Rightarrow> string \<Rightarrow> json option" where
  "jget d k \<equiv> map_of d k"

text \<open>\<open>d.get(k)\<close>: a missing key reads as \<open>None\<close>.\<close>

definition jget_or_null :: "jobj \<Rightarrow> string \<Rightarrow> json" where
  "jget_or_null d k = (case map_of d k of None \<Rightarrow> JNull | Some v \<Rightarrow> v)"

text \<open>\<open>set(d) == {...}\<close>: the object has exactly the listed keys.\<close>

definition exact_keys :: "jobj \<Rightarrow> string list \<Rightarrow> bool" where
  "exact_keys d ks \<longleftrightarrow> set (keys d) = set ks"

definition json_finite_float :: "string \<Rightarrow> bool" where
  "json_finite_float t \<longleftrightarrow> t \<notin> {''NaN'', ''Infinity'', ''-Infinity''}"

text \<open>Python's \<open>v == n\<close> for an integer \<open>n\<close>: \<open>True\<close> and \<open>False\<close> equal 1 and 0, and a float with the
  same value is equal.\<close>

definition py_eq_int :: "json \<Rightarrow> int \<Rightarrow> bool" where
  "py_eq_int v n =
     (case v of
        JInt i \<Rightarrow> i = n
      | JBool b \<Rightarrow> (if b then 1 else 0) = n
      | JFloat t \<Rightarrow> t = show_int n @ ''.0'' \<or> (n = 0 \<and> t = ''-0.0'')
      | _ \<Rightarrow> False)"

text \<open>Python truth value.\<close>

fun truthy :: "json \<Rightarrow> bool" where
  "truthy JNull = False"
| "truthy (JBool b) = b"
| "truthy (JInt i) = (i \<noteq> 0)"
| "truthy (JFloat t) = (t \<notin> {''0.0'', ''-0.0''})"
| "truthy (JStr s) = (s \<noteq> [])"
| "truthy (JArr xs) = (xs \<noteq> [])"
| "truthy (JObj kvs) = (kvs \<noteq> [])"

section \<open>Writing\<close>

record json_fmt =
  item_sep :: string
  key_sep :: string
  ascii_only :: bool

definition compact_fmt :: json_fmt where
  "compact_fmt = \<lparr>item_sep = '','', key_sep = '':'', ascii_only = False\<rparr>"

definition compact_ascii_fmt :: json_fmt where
  "compact_ascii_fmt = \<lparr>item_sep = '','', key_sep = '':'', ascii_only = True\<rparr>"

definition plain_fmt :: json_fmt where
  "plain_fmt = \<lparr>item_sep = '', '', key_sep = '': '', ascii_only = False\<rparr>"

definition ascii_fmt :: json_fmt where
  "ascii_fmt = \<lparr>item_sep = '', '', key_sep = '': '', ascii_only = True\<rparr>"

text \<open>Items of an object at depth one with \<open>indent=2\<close>.\<close>

definition indent_fmt :: json_fmt where
  "indent_fmt = \<lparr>item_sep = CHR '','' # LF # ''  '', key_sep = '': '', ascii_only = False\<rparr>"

definition hex_digit :: "nat \<Rightarrow> char" where
  "hex_digit n = (if n < 10 then char_of (48 + n) else char_of (87 + n))"

definition esc_char :: "bool \<Rightarrow> char \<Rightarrow> string" where
  "esc_char asc c =
     (if c = DQ then [BS, DQ]
      else if c = BS then [BS, BS]
      else if c = LF then [BS, CHR ''n'']
      else if c = CR then [BS, CHR ''r'']
      else if c = CHR 0x09 then [BS, CHR ''t'']
      else if c = CHR 0x08 then [BS, CHR ''b'']
      else if c = CHR 0x0C then [BS, CHR ''f'']
      else if code c < 32 \<or> (asc \<and> 126 < code c)
        then [BS, CHR ''u'', CHR ''0'', CHR ''0'', hex_digit (code c div 16), hex_digit (code c mod 16)]
      else [c])"

definition json_str :: "bool \<Rightarrow> string \<Rightarrow> string" where
  "json_str asc s = DQ # concat (map (esc_char asc) s) @ [DQ]"

fun render :: "json_fmt \<Rightarrow> json \<Rightarrow> string" where
  "render f JNull = ''null''"
| "render f (JBool b) = (if b then ''true'' else ''false'')"
| "render f (JInt i) = show_int i"
| "render f (JFloat t) = t"
| "render f (JStr s) = json_str (ascii_only f) s"
| "render f (JArr xs) = CHR ''['' # join (item_sep f) (map (render f) xs) @ '']''"
| "render f (JObj kvs) = CHR ''{'' #
     join (item_sep f) (map (\<lambda>(k, v). json_str (ascii_only f) k @ key_sep f @ render f v) kvs) @ ''}''"

text \<open>\<open>sort_keys=True\<close> sorts the items of every object, nested ones included.\<close>

fun canon :: "json \<Rightarrow> json" where
  "canon (JArr xs) = JArr (map canon xs)"
| "canon (JObj kvs) = JObj (sorted_items (map (\<lambda>(k, v). (k, canon v)) kvs))"
| "canon v = v"

definition dumps :: "json_fmt \<Rightarrow> json \<Rightarrow> string" where
  "dumps f v = render f v"

definition dumps_sorted :: "json_fmt \<Rightarrow> json \<Rightarrow> string" where
  "dumps_sorted f v = render f (canon v)"

text \<open>With \<open>allow_nan=False\<close> a non-finite float anywhere makes \<open>dumps\<close> raise.\<close>

fun all_finite :: "json \<Rightarrow> bool" where
  "all_finite (JFloat t) = json_finite_float t"
| "all_finite (JArr xs) = list_all all_finite xs"
| "all_finite (JObj kvs) = list_all (\<lambda>(k, v). all_finite v) kvs"
| "all_finite v = True"

section \<open>Reading\<close>

record json_hooks =
  float_hook :: "string \<Rightarrow> string option"
  const_hook :: "string \<Rightarrow> json option"
  pairs_hook :: "jobj \<Rightarrow> jobj option"

definition is_json_ws :: "char \<Rightarrow> bool" where
  "is_json_ws c \<longleftrightarrow> c = SP \<or> c = CHR 0x09 \<or> c = LF \<or> c = CR"

abbreviation skip_ws :: "string \<Rightarrow> string" where
  "skip_ws \<equiv> dropWhile is_json_ws"

definition hex_val :: "char \<Rightarrow> nat option" where
  "hex_val c =
     (if 48 \<le> code c \<and> code c \<le> 57 then Some (code c - 48)
      else if 97 \<le> code c \<and> code c \<le> 102 then Some (code c - 87)
      else if 65 \<le> code c \<and> code c \<le> 70 then Some (code c - 55)
      else None)"

text \<open>A four-digit escape; only code points below 256 are in the modelled text range.\<close>

definition unicode_escape :: "char \<Rightarrow> char \<Rightarrow> char \<Rightarrow> char \<Rightarrow> char option" where
  "unicode_escape a b c d =
     (case (hex_val a, hex_val b, hex_val c, hex_val d) of
        (Some h3, Some h2, Some h1, Some h0) \<Rightarrow>
          (if h3 = 0 \<and> h2 = 0 then Some (char_of (h1 * 16 + h0)) else None)
      | _ \<Rightarrow> None)"

definition simple_escape :: "char \<Rightarrow> char option" where
  "simple_escape e =
     (if e = DQ then Some DQ else if e = BS then Some BS else if e = CHR ''/'' then Some (CHR ''/'')
      else if e = CHR ''n'' then Some LF else if e = CHR ''r'' then Some CR
      else if e = CHR ''t'' then Some (CHR 0x09) else if e = CHR ''b'' then Some (CHR 0x08)
      else if e = CHR ''f'' then Some (CHR 0x0C) else None)"

fun parse_str :: "string \<Rightarrow> (string \<times> string) option" where
  "parse_str [] = None"
| "parse_str (c # cs) =
     (if c = DQ then Some ([], cs)
      else if c = BS then
        (case cs of
           [] \<Rightarrow> None
         | e # r \<Rightarrow>
             if e = CHR ''u'' then
               (case r of
                  h3 # h2 # h1 # h0 # r' \<Rightarrow>
                    (case unicode_escape h3 h2 h1 h0 of
                       None \<Rightarrow> None
                     | Some x \<Rightarrow> map_option (\<lambda>(s, q). (x # s, q)) (parse_str r'))
                | _ \<Rightarrow> None)
             else
               (case simple_escape e of
                  None \<Rightarrow> None
                | Some x \<Rightarrow> map_option (\<lambda>(s, q). (x # s, q)) (parse_str r)))
      else if code c < 32 then None
      else map_option (\<lambda>(s, q). (c # s, q)) (parse_str cs))"

definition digits_val :: "string \<Rightarrow> nat" where
  "digits_val ds = foldl (\<lambda>a c. a * 10 + (code c - 48)) 0 ds"

text \<open>The number pattern of the decoder, an optional minus, an integer part without leading zeros,
  an optional fraction and an optional exponent: an integer when the last two are absent.\<close>

definition int_part :: "string \<Rightarrow> (string \<times> string) option" where
  "int_part s =
     (case s of
        [] \<Rightarrow> None
      | c # cs \<Rightarrow> if c = CHR ''0'' then Some ([c], cs)
          else if is_ascii_digit c then Some (takeWhile is_ascii_digit s, dropWhile is_ascii_digit s)
          else None)"

definition frac_part :: "string \<Rightarrow> string \<times> string" where
  "frac_part s =
     (case s of
        c # d # cs \<Rightarrow> if c = CHR ''.'' \<and> is_ascii_digit d
          then (c # takeWhile is_ascii_digit (d # cs), dropWhile is_ascii_digit (d # cs)) else ([], s)
      | _ \<Rightarrow> ([], s))"

definition exp_part :: "string \<Rightarrow> string \<times> string" where
  "exp_part s =
     (case s of
        e # r \<Rightarrow>
          if e = CHR ''e'' \<or> e = CHR ''E'' then
            (let (sg, ds) = (case r of g # r' \<Rightarrow> if g = CHR ''+'' \<or> g = CHR ''-'' then ([g], r') else ([], r)
                                     | [] \<Rightarrow> ([], r))
             in if takeWhile is_ascii_digit ds = [] then ([], s)
                else (e # sg @ takeWhile is_ascii_digit ds, dropWhile is_ascii_digit ds))
          else ([], s)
      | [] \<Rightarrow> ([], s))"

definition parse_num :: "json_hooks \<Rightarrow> string \<Rightarrow> (json \<times> string) option" where
  "parse_num h s =
     (let (sg, s1) = (case s of c # cs \<Rightarrow> if c = CHR ''-'' then ([c], cs) else ([], s) | [] \<Rightarrow> ([], s))
      in case int_part s1 of
           None \<Rightarrow> None
         | Some (ip, s2) \<Rightarrow>
             (let (fp, s3) = frac_part s2; (ep, s4) = exp_part s3
              in if fp = [] \<and> ep = []
                 then Some (JInt (if sg = [] then int (digits_val ip) else - int (digits_val ip)), s4)
                 else map_option (\<lambda>t. (JFloat t, s4)) (float_hook h (sg @ ip @ fp @ ep))))"

definition parse_const :: "json_hooks \<Rightarrow> string \<Rightarrow> (json \<times> string) option" where
  "parse_const h s =
     (if prefix ''null'' s then Some (JNull, drop 4 s)
      else if prefix ''true'' s then Some (JBool True, drop 4 s)
      else if prefix ''false'' s then Some (JBool False, drop 5 s)
      else case parse_num h s of
        Some r \<Rightarrow> Some r
      | None \<Rightarrow>
          if prefix ''NaN'' s then map_option (\<lambda>v. (v, drop 3 s)) (const_hook h ''NaN'')
          else if prefix ''Infinity'' s then map_option (\<lambda>v. (v, drop 8 s)) (const_hook h ''Infinity'')
          else if prefix ''-Infinity'' s then map_option (\<lambda>v. (v, drop 9 s)) (const_hook h ''-Infinity'')
          else None)"

text \<open>Each call spends one unit of fuel; running out is a parse failure.\<close>

fun parse_value :: "json_hooks \<Rightarrow> nat \<Rightarrow> string \<Rightarrow> (json \<times> string) option"
  and parse_items :: "json_hooks \<Rightarrow> nat \<Rightarrow> string \<Rightarrow> (json list \<times> string) option"
  and parse_members :: "json_hooks \<Rightarrow> nat \<Rightarrow> string \<Rightarrow> (jobj \<times> string) option" where
  "parse_value h 0 s = None"
| "parse_value h (Suc n) s =
     (case s of
        [] \<Rightarrow> None
      | c # cs \<Rightarrow>
          if c = DQ then map_option (\<lambda>(t, q). (JStr t, q)) (parse_str cs)
          else if c = CHR ''{'' then
            (case skip_ws cs of
               [] \<Rightarrow> None
             | d # ds \<Rightarrow>
                 if d = CHR ''}'' then map_option (\<lambda>o'. (JObj o', ds)) (pairs_hook h [])
                 else (case parse_members h n (d # ds) of
                         None \<Rightarrow> None
                       | Some (ps, q) \<Rightarrow> map_option (\<lambda>o'. (JObj o', q)) (pairs_hook h ps)))
          else if c = CHR ''['' then
            (case skip_ws cs of
               [] \<Rightarrow> None
             | d # ds \<Rightarrow>
                 if d = CHR '']'' then Some (JArr [], ds)
                 else map_option (\<lambda>(vs, q). (JArr vs, q)) (parse_items h n (d # ds)))
          else parse_const h s)"
| "parse_items h 0 s = None"
| "parse_items h (Suc n) s =
     (case parse_value h n s of
        None \<Rightarrow> None
      | Some (v, r) \<Rightarrow>
          (case skip_ws r of
             [] \<Rightarrow> None
           | d # ds \<Rightarrow>
               if d = CHR '']'' then Some ([v], ds)
               else if d = CHR '','' then map_option (\<lambda>(vs, q). (v # vs, q)) (parse_items h n (skip_ws ds))
               else None))"
| "parse_members h 0 s = None"
| "parse_members h (Suc n) s =
     (case s of
        [] \<Rightarrow> None
      | c # cs \<Rightarrow>
          if c \<noteq> DQ then None
          else (case parse_str cs of
            None \<Rightarrow> None
          | Some (k, r) \<Rightarrow>
              (case skip_ws r of
                 [] \<Rightarrow> None
               | d # ds \<Rightarrow>
                   if d \<noteq> CHR '':'' then None
                   else (case parse_value h n (skip_ws ds) of
                     None \<Rightarrow> None
                   | Some (v, r') \<Rightarrow>
                       (case skip_ws r' of
                          [] \<Rightarrow> None
                        | e # es \<Rightarrow>
                            if e = CHR ''}'' then Some ([(k, v)], es)
                            else if e = CHR '','' then
                              map_option (\<lambda>(ps, q). ((k, v) # ps, q)) (parse_members h n (skip_ws es))
                            else None)))))"

definition loads_with :: "json_hooks \<Rightarrow> string \<Rightarrow> json option" where
  "loads_with h s =
     (case parse_value h (Suc (length s)) (skip_ws s) of
        None \<Rightarrow> None
      | Some (v, r) \<Rightarrow> if skip_ws r = [] then Some v else None)"

text \<open>The default hooks: \<open>dict(pairs)\<close> keeps the last value of a repeated key at its first position,
  the three constants read as floats, and \<open>float\<close> itself is the argument \<open>flt\<close> (it gives the
  representation text of the number read).\<close>

definition default_hooks :: "(string \<Rightarrow> string) \<Rightarrow> json_hooks" where
  "default_hooks flt = \<lparr>float_hook = (\<lambda>t. Some (flt t)), const_hook = (\<lambda>t. Some (JFloat t)),
     pairs_hook = (\<lambda>ps. Some (foldl (\<lambda>d (k, v). AList.update k v d) [] ps))\<rparr>"

definition loads :: "(string \<Rightarrow> string) \<Rightarrow> string \<Rightarrow> json option" where
  "loads flt = loads_with (default_hooks flt)"

section \<open>Strings and escapes\<close>

lemma char_eq_code: "(c = d) = (code c = code d)"
  by simp

lemma hex_val_hex_digit: "n < 16 \<Longrightarrow> hex_val (hex_digit n) = Some n"
  by (auto simp: hex_val_def hex_digit_def)

lemma code_lt_256: "code c < 256"
  by (metis of_char_of mod_less_divisor char_of_char zero_less_numeral)

lemma unicode_escape_code:
  "code c < 256 \<Longrightarrow>
   unicode_escape (CHR ''0'') (CHR ''0'') (hex_digit (code c div 16)) (hex_digit (code c mod 16)) = Some c"
proof -
  assume "code c < 256"
  then have "code c div 16 < 16" "code c mod 16 < 16" by (simp_all add: less_mult_imp_div_less)
  then show ?thesis
    by (simp add: unicode_escape_def hex_val_hex_digit) (simp add: hex_val_def)
qed

lemma parse_str_esc_char:
  "parse_str (esc_char a c @ t) = map_option (\<lambda>(s, q). (c # s, q)) (parse_str t)"
  using unicode_escape_code [OF code_lt_256, of c]
  by (auto simp: esc_char_def simple_escape_def)

lemma parse_str_escaped:
  "parse_str (concat (map (esc_char a) s) @ DQ # r) = Some (s, r)"
  by (induction s) (simp_all add: parse_str_esc_char)


section \<open>Numerals\<close>

lemma digit_char_simps [simp]:
  "n < 10 \<Longrightarrow> is_ascii_digit (digit_char n)"
  "n < 10 \<Longrightarrow> code (digit_char n) - 48 = n"
  "n < 10 \<Longrightarrow> digit_char n = CHR ''0'' \<longleftrightarrow> n = 0"
proof -
  assume n: "n < 10"
  have c: "code (digit_char n) = 48 + n"
    using n by (simp add: digit_char_def)
  show "is_ascii_digit (digit_char n)" "code (digit_char n) - 48 = n"
    using n by (simp_all add: is_ascii_digit_def c)
  show "digit_char n = CHR ''0'' \<longleftrightarrow> n = 0"
    by (simp add: char_eq_code c)
qed

lemma show_nat_digits: "list_all is_ascii_digit (show_nat n) \<and> show_nat n \<noteq> []"
proof (induction n rule: show_nat.induct)
  case (1 n)
  then show ?case by (subst show_nat.simps) (auto simp: show_nat.simps [of n])
qed

lemma digits_val_snoc: "digits_val (ds @ [d]) = digits_val ds * 10 + (code d - 48)"
  by (simp add: digits_val_def)

lemma digits_val_show_nat: "digits_val (show_nat n) = n"
proof (induction n rule: show_nat.induct)
  case (1 n)
  show ?case
  proof (cases "n < 10")
    case True
    then show ?thesis by (subst show_nat.simps) (simp add: digits_val_def)
  next
    case False
    with 1 have "digits_val (show_nat (n div 10)) = n div 10" by simp
    with False show ?thesis by (subst show_nat.simps) (simp add: digits_val_snoc)
  qed
qed

lemma hd_show_nat: "hd (show_nat n) = CHR ''0'' \<longleftrightarrow> n = 0"
proof (induction n rule: show_nat.induct)
  case (1 n)
  show ?case
  proof (cases "n < 10")
    case True
    then show ?thesis by (subst show_nat.simps) simp
  next
    case False
    with 1 have "hd (show_nat (n div 10)) = CHR ''0'' \<longleftrightarrow> n div 10 = 0" by simp
    with False show ?thesis using show_nat_digits [of "n div 10"] by (subst show_nat.simps) auto
  qed
qed

lemma show_nat_0: "show_nat 0 = ''0''"
  by (subst show_nat.simps) (simp add: digit_char_def char_eq_code)

text \<open>What may follow a number in a text: nothing that would extend it.\<close>

definition num_stop :: "string \<Rightarrow> bool" where
  "num_stop r \<longleftrightarrow> (case r of [] \<Rightarrow> True
     | c # _ \<Rightarrow> \<not> is_ascii_digit c \<and> c \<noteq> CHR ''.'' \<and> c \<noteq> CHR ''e'' \<and> c \<noteq> CHR ''E'')"

lemma num_stop_parts:
  assumes "num_stop r"
  shows "frac_part r = ([], r)" "exp_part r = ([], r)"
    "takeWhile is_ascii_digit r = []" "dropWhile is_ascii_digit r = r"
  using assms by (cases r; auto simp: num_stop_def frac_part_def exp_part_def split: list.split)+

lemma takeWhile_digits:
  "list_all is_ascii_digit ds \<Longrightarrow> num_stop r \<Longrightarrow>
   takeWhile is_ascii_digit (ds @ r) = ds \<and> dropWhile is_ascii_digit (ds @ r) = r"
  by (induction ds) (auto simp: num_stop_parts)

lemma int_part_show_nat: "num_stop r \<Longrightarrow> int_part (show_nat n @ r) = Some (show_nat n, r)"
proof (cases "n = 0")
  case True
  then show ?thesis by (simp add: show_nat_0 int_part_def)
next
  case False
  assume r: "num_stop r"
  obtain c cs where c: "show_nat n = c # cs" using show_nat_digits [of n] by (cases "show_nat n") auto
  have "c \<noteq> CHR ''0''" using hd_show_nat [of n] False c by simp
  moreover have "is_ascii_digit c" using show_nat_digits [of n] c by simp
  moreover have "takeWhile is_ascii_digit (show_nat n @ r) = show_nat n \<and> dropWhile is_ascii_digit (show_nat n @ r) = r"
    using show_nat_digits [of n] r by (simp add: takeWhile_digits)
  ultimately show ?thesis by (simp add: int_part_def c)
qed

lemma hd_show_nat_minus: "show_nat n @ r = c # cs \<Longrightarrow> c \<noteq> CHR ''-''"
  using show_nat_digits [of n] by (cases "show_nat n") (auto simp: is_ascii_digit_def)

lemma parse_num_show_int: "num_stop r \<Longrightarrow> parse_num h (show_int i @ r) = Some (JInt i, r)"
proof (cases "i < 0")
  case True
  assume "num_stop r"
  then show ?thesis using True
    by (simp add: parse_num_def show_int_def int_part_show_nat num_stop_parts digits_val_show_nat)
next
  case False
  assume r: "num_stop r"
  obtain c cs where c: "show_nat (nat i) @ r = c # cs"
    using show_nat_digits [of "nat i"] by (cases "show_nat (nat i)") auto
  then have "c \<noteq> CHR ''-''" by (rule hd_show_nat_minus)
  then show ?thesis using False r int_part_show_nat [OF r, of "nat i"]
    by (simp add: parse_num_def show_int_def c num_stop_parts digits_val_show_nat)
qed

lemma show_int_hd: "\<exists>c cs. show_int i = c # cs \<and> (c = CHR ''-'' \<or> is_ascii_digit c)"
  using show_nat_digits [of "nat i"] show_nat_digits [of "nat (-i)"]
  by (cases "show_nat (nat i)"; cases "show_nat (nat (-i))") (auto simp: show_int_def)

section \<open>Reading back what was written\<close>

text \<open>Values without floats whose objects have distinct keys, as every dictionary has.\<close>

fun json_plain :: "json \<Rightarrow> bool" where
  "json_plain (JFloat t) = False"
| "json_plain (JArr xs) = list_all json_plain xs"
| "json_plain (JObj kvs) = (distinct (keys kvs) \<and> list_all (\<lambda>(k, v). json_plain v) kvs)"
| "json_plain v = True"

definition fmt_ok :: "json_fmt \<Rightarrow> bool" where
  "fmt_ok f \<longleftrightarrow> item_sep f \<in> {'','', '', '', CHR '','' # LF # ''  ''} \<and> key_sep f \<in> {'':'', '': ''}"

definition dict_pairs :: "json_hooks \<Rightarrow> bool" where
  "dict_pairs h \<longleftrightarrow> (\<forall>ps. distinct (keys ps) \<longrightarrow> pairs_hook h ps = Some ps)"

lemma render_nonempty:
  "json_plain v \<Longrightarrow> \<exists>c cs. render f v = c # cs \<and> \<not> is_json_ws c \<and> c \<noteq> CHR '']'' \<and> c \<noteq> CHR ''}''"
  using show_int_hd [of "(case v of JInt i \<Rightarrow> i | _ \<Rightarrow> 0)"]
  by (cases v) (auto simp: json_str_def is_json_ws_def is_ascii_digit_def)

lemma skip_ws_render [simp]: "json_plain v \<Longrightarrow> skip_ws (render f v @ r) = render f v @ r"
  using render_nonempty [of v f] by auto

lemma length_render: "json_plain v \<Longrightarrow> 1 \<le> length (render f v)"
  using render_nonempty [of v f] by auto

lemma parse_const_int: "num_stop r \<Longrightarrow> parse_const h (show_int i @ r) = Some (JInt i, r)"
  using show_int_hd [of i] parse_num_show_int [of r h i]
  by (auto simp: parse_const_def is_ascii_digit_def prefix_def)

definition value_stop :: "string \<Rightarrow> bool" where
  "value_stop r \<longleftrightarrow> r = [] \<or> hd r \<in> {CHR '','', CHR '']'', CHR ''}'', LF, SP}"

lemma value_stop_num: "value_stop r \<Longrightarrow> num_stop r"
  by (cases r) (auto simp: value_stop_def num_stop_def is_ascii_digit_def)

lemma value_stop_sep [simp]: "fmt_ok f \<Longrightarrow> value_stop (item_sep f @ r)"
  "value_stop (CHR '']'' # r)" "value_stop (CHR ''}'' # r)" "value_stop []" "value_stop (LF # r)"
  by (auto simp: fmt_ok_def value_stop_def)

lemma item_sep_cons: "fmt_ok f \<Longrightarrow> \<exists>w. item_sep f = CHR '','' # w \<and> list_all is_json_ws w"
  "fmt_ok f \<Longrightarrow> \<exists>w. key_sep f = CHR '':'' # w \<and> list_all is_json_ws w"
  by (auto simp: fmt_ok_def is_json_ws_def)

lemma dropWhile_all: "list_all P w \<Longrightarrow> dropWhile P (w @ r) = dropWhile P r"
  by (induction w) auto

definition reads_back :: "json_hooks \<Rightarrow> json_fmt \<Rightarrow> json \<Rightarrow> bool" where
  "reads_back h f v \<longleftrightarrow> (\<forall>n r. length (render f v) \<le> n \<longrightarrow> value_stop r \<longrightarrow>
     parse_value h n (render f v @ r) = Some (v, r))"

lemma reads_backD: "reads_back h f v \<Longrightarrow> length (render f v) \<le> n \<Longrightarrow> value_stop r \<Longrightarrow>
    parse_value h n (render f v @ r) = Some (v, r)"
  by (simp add: reads_back_def)

lemma parse_items_render:
  assumes "fmt_ok f" "xs \<noteq> []" "list_all json_plain xs" "\<And>v. v \<in> set xs \<Longrightarrow> reads_back h f v"
    "length (join (item_sep f) (map (render f) xs)) < n"
  shows "parse_items h n (join (item_sep f) (map (render f) xs) @ CHR '']'' # r) = Some (xs, r)"
  using assms(2-)
proof (induction xs arbitrary: n rule: list_nonempty_induct)
  case (single x)
  then obtain m where "n = Suc m" by (cases n) auto
  with single reads_backD [of h f x m "CHR '']'' # r"] show ?case
    by (simp add: is_json_ws_def)
next
  case (cons x xs)
  then obtain m where n: "n = Suc m" by (cases n) auto
  obtain w where w: "item_sep f = CHR '','' # w" "list_all is_json_ws w"
    using item_sep_cons(1) [OF assms(1)] by auto
  obtain y ys where xs: "xs = y # ys" using cons.hyps by (cases xs) auto
  let ?rest = "join (item_sep f) (map (render f) xs)"
  have j: "join (item_sep f) (map (render f) (x # xs)) = render f x @ item_sep f @ ?rest"
    by (simp add: xs)
  have "parse_value h m (render f x @ item_sep f @ ?rest @ CHR '']'' # r)
      = Some (x, item_sep f @ ?rest @ CHR '']'' # r)"
    using cons.prems(2,3) n j assms(1) by (intro reads_backD) auto
  moreover have "skip_ws (?rest @ CHR '']'' # r) = ?rest @ CHR '']'' # r"
    using cons.prems(1) by (cases ys) (auto simp: xs)
  moreover have "parse_items h m (?rest @ CHR '']'' # r) = Some (xs, r)"
    using cons.prems length_render [of x f] n j by (intro cons.IH) auto
  ultimately show ?case
    unfolding j n using w by (simp add: is_json_ws_def dropWhile_all)
qed

definition render_member :: "json_fmt \<Rightarrow> string \<times> json \<Rightarrow> string" where
  "render_member f = (\<lambda>(k, v). json_str (ascii_only f) k @ key_sep f @ render f v)"

lemma parse_member:
  assumes "fmt_ok f" "json_plain v" "reads_back h f v" "length (render_member f (k, v)) \<le> n" "value_stop r"
  shows "parse_members h (Suc n) (render_member f (k, v) @ r) =
     (case skip_ws r of
        [] \<Rightarrow> None
      | e # es \<Rightarrow>
          if e = CHR ''}'' then Some ([(k, v)], es)
          else if e = CHR '','' then map_option (\<lambda>(ps, q). ((k, v) # ps, q)) (parse_members h n (skip_ws es))
          else None)"
proof -
  obtain w where w: "key_sep f = CHR '':'' # w" "list_all is_json_ws w"
    using item_sep_cons(2) [OF assms(1)] by auto
  have "parse_value h n (render f v @ r) = Some (v, r)"
    using assms(3-5) by (intro reads_backD) (auto simp: render_member_def)
  then show ?thesis
    using w assms(2) by (simp add: render_member_def json_str_def parse_str_escaped is_json_ws_def dropWhile_all)
qed

lemma skip_ws_member [simp]: "skip_ws (render_member f kv @ r) = render_member f kv @ r"
  by (cases kv) (simp add: render_member_def json_str_def is_json_ws_def)

lemma length_member: "1 \<le> length (render_member f kv)"
  by (cases kv) (simp add: render_member_def json_str_def)

lemma parse_members_render:
  assumes "fmt_ok f" "kvs \<noteq> []" "list_all (\<lambda>(k, v). json_plain v) kvs"
    "\<And>k v. (k, v) \<in> set kvs \<Longrightarrow> reads_back h f v"
    "length (join (item_sep f) (map (render_member f) kvs)) < n" and e: "e = [] \<or> e = [LF]"
  shows "parse_members h n (join (item_sep f) (map (render_member f) kvs) @ e @ CHR ''}'' # r) = Some (kvs, r)"
  using assms(2-5)
proof (induction kvs arbitrary: n rule: list_nonempty_induct)
  case (single kv)
  obtain k v where kv: "kv = (k, v)" by (cases kv)
  from single obtain m where "n = Suc m" by (cases n) auto
  with single parse_member [OF assms(1), of v h k m "e @ CHR ''}'' # r"] e show ?case
    by (auto simp: is_json_ws_def kv)
next
  case (cons kv kvs)
  obtain k v where kv: "kv = (k, v)" by (cases kv)
  from cons obtain m where n: "n = Suc m" by (cases n) auto
  obtain w where w: "item_sep f = CHR '','' # w" "list_all is_json_ws w"
    using item_sep_cons(1) [OF assms(1)] by auto
  let ?rest = "join (item_sep f) (map (render_member f) kvs)"
  obtain y ys where kvs: "kvs = y # ys" using cons.hyps by (cases kvs) auto
  have j: "join (item_sep f) (map (render_member f) (kv # kvs)) = render_member f kv @ item_sep f @ ?rest"
    by (simp add: kvs)
  have "skip_ws (?rest @ e @ CHR ''}'' # r) = ?rest @ e @ CHR ''}'' # r"
    by (cases ys) (simp_all add: kvs)
  moreover have "parse_members h m (?rest @ e @ CHR ''}'' # r) = Some (kvs, r)"
    using cons.prems n j length_member [of f kv] by (intro cons.IH) auto
  moreover have "length (render_member f (k, v)) \<le> m"
    using cons.prems(3) n j kv by simp
  moreover have "reads_back h f v" using cons.prems(2) [of k v] kv by simp
  ultimately have "parse_members h (Suc m) (render_member f (k, v) @ item_sep f @ ?rest @ e @ CHR ''}'' # r)
      = Some ((k, v) # kvs, r)"
    using cons.prems(1) w assms(1) kv
    by (subst parse_member [OF assms(1)]) (simp_all del: parse_members.simps add: is_json_ws_def dropWhile_all
        value_stop_def)
  then show ?case unfolding n j by (simp only: kv append_assoc)
qed

lemma render_obj: "render f (JObj kvs) =
    CHR ''{'' # join (item_sep f) (map (render_member f) kvs) @ ''}''"
  by (simp add: render_member_def)

lemma hd_join_member: "kvs \<noteq> [] \<Longrightarrow>
    \<exists>cs. join s (map (render_member f) kvs) @ t = DQ # cs"
  by (cases kvs; cases "tl kvs") (auto simp: render_member_def json_str_def)

lemma hd_join_render: "xs \<noteq> [] \<Longrightarrow> list_all json_plain xs \<Longrightarrow>
    \<exists>c cs. join s (map (render f) xs) @ t = c # cs \<and> \<not> is_json_ws c \<and> c \<noteq> CHR '']''"
proof -
  assume xs: "xs \<noteq> []" "list_all json_plain xs"
  then obtain y ys where y: "xs = y # ys" by (cases xs) auto
  obtain c cs where "render f y = c # cs" "\<not> is_json_ws c" "c \<noteq> CHR '']''"
    using render_nonempty [of y f] xs y by auto
  then show ?thesis by (cases ys) (auto simp: y)
qed

declare render.simps(7) [simp del]

lemma reads_back_atom:
  assumes "render f v \<noteq> []" "\<And>n r. parse_value h (Suc n) (render f v @ r) = Some (v, r)"
  shows "reads_back h f v"
  unfolding reads_back_def
proof (intro allI impI)
  fix n r assume "length (render f v) \<le> n"
  then obtain m where "n = Suc m" using assms(1) by (cases n) auto
  then show "parse_value h n (render f v @ r) = Some (v, r)" using assms(2) by simp
qed

theorem render_reads_back:
  assumes "fmt_ok f" "dict_pairs h" "json_plain v"
  shows "reads_back h f v"
  using assms(3)
proof (induction v)
  case (JInt i)
  show ?case unfolding reads_back_def
  proof (intro allI impI)
    fix n r assume "length (render f (JInt i)) \<le> n" "value_stop r"
    moreover obtain c cs where "show_int i = c # cs" "c = CHR ''-'' \<or> is_ascii_digit c"
      using show_int_hd by blast
    ultimately show "parse_value h n (render f (JInt i) @ r) = Some (JInt i, r)"
      using parse_const_int [OF value_stop_num, of r h i]
      by (cases n) (auto simp: is_ascii_digit_def)
  qed
next
  case (JArr xs)
  show ?case unfolding reads_back_def
  proof (intro allI impI)
    fix n r assume n: "length (render f (JArr xs)) \<le> n" "value_stop r"
    then obtain m where m: "n = Suc m" by (cases n) auto
    show "parse_value h n (render f (JArr xs) @ r) = Some (JArr xs, r)"
    proof (cases "xs = []")
      case True
      then show ?thesis by (simp add: m is_json_ws_def)
    next
      case False
      have "\<And>v. v \<in> set xs \<Longrightarrow> reads_back h f v"
        using JArr by (auto simp: list_all_iff)
      then have "parse_items h m (join (item_sep f) (map (render f) xs) @ CHR '']'' # r) = Some (xs, r)"
        using JArr.prems n m False assms(1) by (intro parse_items_render) auto
      with hd_join_render [OF False, of "item_sep f" f "CHR '']'' # r"] JArr.prems show ?thesis
        by (auto simp: m)
    qed
  qed
next
  case (JObj kvs)
  show ?case unfolding reads_back_def
  proof (intro allI impI)
    fix n r assume n: "length (render f (JObj kvs)) \<le> n" "value_stop r"
    then obtain m where m: "n = Suc m" by (cases n) (auto simp: render_obj)
    have p: "pairs_hook h kvs = Some kvs" using assms(2) JObj.prems by (simp add: dict_pairs_def)
    show "parse_value h n (render f (JObj kvs) @ r) = Some (JObj kvs, r)"
    proof (cases "kvs = []")
      case True
      with p show ?thesis by (simp add: m is_json_ws_def render_obj)
    next
      case False
      have "\<And>k v. (k, v) \<in> set kvs \<Longrightarrow> reads_back h f v"
        using JObj by (fastforce simp: list_all_iff)
      then have "parse_members h m (join (item_sep f) (map (render_member f) kvs) @ CHR ''}'' # r) = Some (kvs, r)"
        using JObj.prems n m False assms(1) by (intro parse_members_render[where e = "[]", simplified]) (auto simp: render_obj)
      with hd_join_member [OF False, of "item_sep f" f "CHR ''}'' # r"] p show ?thesis
        by (auto simp: m render_obj is_json_ws_def)
    qed
  qed
qed (simp_all add: reads_back_atom parse_const_def json_str_def parse_str_escaped)

lemma fold_update_distinct:
  "distinct (keys (d @ ps)) \<Longrightarrow> foldl (\<lambda>d (k, v). AList.update k v d) d ps = d @ ps"
proof (induction ps arbitrary: d)
  case (Cons p ps)
  obtain k v where p: "p = (k, v)" by (cases p)
  from Cons.prems have "AList.update k v d = d @ [(k, v)]"
    by (induction d) (auto simp: p)
  with Cons show ?case by (simp add: p)
qed simp

lemma default_dict_pairs: "dict_pairs (default_hooks flt)"
  using fold_update_distinct [of "[]"] by (auto simp: dict_pairs_def default_hooks_def)

lemma loads_with_dumps:
  assumes "fmt_ok f" "dict_pairs h" "json_plain v"
  shows "loads_with h (dumps f v) = Some v"
  using reads_backD [OF render_reads_back [OF assms], of "Suc (length (render f v))" "[]"]
    skip_ws_render [OF assms(3), of f "[]"]
  by (simp add: loads_with_def dumps_def)

lemma loads_dumps: "fmt_ok f \<Longrightarrow> json_plain v \<Longrightarrow> loads flt (dumps f v) = Some v"
  unfolding loads_def by (rule loads_with_dumps [OF _ default_dict_pairs])

lemma fmt_ok_simps [simp]: "fmt_ok compact_fmt" "fmt_ok compact_ascii_fmt" "fmt_ok plain_fmt" "fmt_ok ascii_fmt" "fmt_ok indent_fmt"
  by (simp_all add: fmt_ok_def compact_fmt_def compact_ascii_fmt_def plain_fmt_def ascii_fmt_def indent_fmt_def)


section \<open>Sorted output\<close>

lemma keys_sorted_items: "distinct (keys d) \<Longrightarrow> distinct (keys (sorted_items d))"
proof -
  assume "distinct (keys d)"
  moreover have "mset (keys (sorted_items d)) = mset (keys d)"
    by (simp add: sorted_items_def)
  ultimately show ?thesis by (metis mset_eq_imp_distinct_iff)
qed

lemma json_plain_canon: "json_plain v \<Longrightarrow> json_plain (canon v)"
  by (induction v rule: canon.induct)
    (auto simp: list_all_iff comp_def case_prod_beta intro!: keys_sorted_items)

lemma loads_dumps_sorted:
  "fmt_ok f \<Longrightarrow> json_plain v \<Longrightarrow> loads flt (dumps_sorted f v) = Some (canon v)"
  using loads_dumps [OF _ json_plain_canon, of f v] by (simp add: dumps_def dumps_sorted_def)

lemma sorted_items_perm:
  assumes "distinct (keys d)" "mset d = mset d'"
  shows "sorted_items d = sorted_items d'"
  unfolding sorted_items_def
  using assms by (intro sort_key_inj_key_eq) (auto simp: distinct_map)

section \<open>Bytes\<close>

text \<open>\<open>json.loads\<close> on bytes decodes UTF-8 first.\<close>

fun utf8_decode :: "string \<Rightarrow> string option" where
  "utf8_decode [] = Some []"
| "utf8_decode [b] = (if code b < 128 then Some [b] else None)"
| "utf8_decode (b # c # bs) =
     (if code b < 128 then map_option (Cons b) (utf8_decode (c # bs))
      else if code b \<in> {194, 195} \<and> 128 \<le> code c \<and> code c \<le> 191
        then map_option (Cons (char_of ((code b - 192) * 64 + (code c - 128)))) (utf8_decode bs)
      else None)"

definition loads_bytes :: "(string \<Rightarrow> string) \<Rightarrow> string \<Rightarrow> json option" where
  "loads_bytes flt bs = Option.bind (utf8_decode bs) (loads flt)"

lemma utf8_decode_char: "utf8_decode (utf8_char c @ bs) = map_option (Cons c) (utf8_decode bs)"
proof (cases "code c < 128")
  case True
  then show ?thesis by (cases bs) (auto simp: utf8_char_def)
next
  case False
  let ?b = "char_of (192 + code c div 64) :: char" and ?d = "char_of (128 + code c mod 64) :: char"
  have lt: "code c < 256" by (rule code_lt_256)
  have b: "code ?b = 192 + code c div 64"
  proof -
    have "192 + code c div 64 < 256" using lt by linarith
    then show ?thesis by (simp add: take_bit_eq_mod)
  qed
  have d: "code ?d = 128 + code c mod 64"
    using mod_less_divisor[of 64 "code c"] by (simp add: take_bit_eq_mod)
  have q: "code c div 64 \<in> {2, 3}" 
  proof -
    have "2 \<le> code c div 64" "code c div 64 < 4" using False lt by linarith+
    then show ?thesis by auto
  qed
  have "code c = code c div 64 * 64 + code c mod 64" by simp
  then have "code c div 64 = n \<Longrightarrow> char_of (n * 64 + code c mod 64) = c" for n
    by (metis char_of_char)
  from this[of 2] this[of 3] show ?thesis
    using False q mod_less_divisor[of 64 "code c"]
    by (auto simp: utf8_char_def b d)
qed

lemma utf8_decode_encode: "utf8_decode (utf8_encode s) = Some s"
  by (induction s) (simp_all add: utf8_encode_def utf8_decode_char)

lemma json_plain_finite: "json_plain v \<Longrightarrow> all_finite v"
  by (induction v) (auto simp: list_all_iff)

lemma loads_bytes_dumps_sorted:
  "fmt_ok f \<Longrightarrow> json_plain v \<Longrightarrow> loads_bytes flt (utf8_encode (dumps_sorted f v)) = Some (canon v)"
  by (simp add: loads_bytes_def utf8_decode_encode loads_dumps_sorted)

text \<open>So the bytes that are hashed determine the value up to the order of keys.\<close>

lemma dumps_sorted_inj:
  assumes "fmt_ok f" "json_plain v" "json_plain w"
  shows "utf8_encode (dumps_sorted f v) = utf8_encode (dumps_sorted f w) \<longleftrightarrow> canon v = canon w"
proof
  assume "utf8_encode (dumps_sorted f v) = utf8_encode (dumps_sorted f w)"
  then show "canon v = canon w"
    using loads_bytes_dumps_sorted[OF assms(1,2), of id] loads_bytes_dumps_sorted[OF assms(1,3), of id] by simp
qed (simp add: dumps_sorted_def)

section \<open>Canonical objects\<close>

lemma map_of_perm: "distinct (keys d) \<Longrightarrow> mset d = mset d' \<Longrightarrow> map_of d = map_of d'"
  by (metis map_of_eqI mset_eq_setD mset_map map_of_inject_set mset_eq_imp_distinct_iff)

lemma map_of_sorted_items: "distinct (keys d) \<Longrightarrow> map_of (sorted_items d) = map_of d"
  by (intro map_of_perm keys_sorted_items) (simp_all add: sorted_items_def)

lemma canon_obj_get:
  assumes "canon (JObj a) = canon (JObj b)" "distinct (keys a)" "distinct (keys b)"
  shows "map_option canon (map_of a k) = map_option canon (map_of b k)"
proof -
  have *: "map_of (sorted_items (map (\<lambda>(k, v). (k, canon v)) d)) k = map_option canon (map_of d k)"
    if "distinct (keys d)" for d
  proof -
    have "keys (map (\<lambda>(k, v). (k, canon v)) d) = keys d" by (simp add: case_prod_unfold)
    with that show ?thesis by (simp add: map_of_sorted_items map_of_map del: map_map)
  qed
  show ?thesis
    using assms *[of a] *[of b] by simp
qed

lemma sorted_items_map: "sorted_items (map (\<lambda>(k, v). (k, f v)) d) = map (\<lambda>(k, v). (k, f v)) (sorted_items d)"
proof (induction d)
  case (Cons x d)
  have "insort_key fst (case x of (k, v) \<Rightarrow> (k, f v)) (map (\<lambda>(k, v). (k, f v)) xs)
      = map (\<lambda>(k, v). (k, f v)) (insort_key fst x xs)" for xs
    by (induction xs) (auto split: prod.split)
  with Cons show ?case by (simp add: sorted_items_def)
qed (simp add: sorted_items_def)

lemma sorted_items_idem: "sorted_items (sorted_items d) = sorted_items d"
  by (simp add: sorted_items_def sorted_sort_id sort_key_id_if_sorted)


section \<open>Documents that end with a newline\<close>

lemma loads_line: "fmt_ok f \<Longrightarrow> json_plain v \<Longrightarrow> loads flt (dumps f v @ [LF]) = Some v"
  using reads_backD [OF render_reads_back [OF _ default_dict_pairs], of f v "Suc (Suc (length (render f v)))" "[LF]" flt]
    skip_ws_render [of v f "[LF]"]
  by (simp add: loads_def loads_with_def dumps_def is_json_ws_def)

text \<open>\<open>json.dumps(d, indent=2)\<close> of a flat dictionary of strings.\<close>

definition dumps_indent2 :: "string dict \<Rightarrow> string" where
  "dumps_indent2 d = (if d = [] then ''{}''
     else CHR ''{'' # LF # ''  '' @ join (item_sep indent_fmt) (map (\<lambda>(k, v). render_member indent_fmt (k, JStr v)) d) @ LF # ''}'')"

lemma loads_indent2:
  assumes "distinct (keys d)"
  shows "loads flt (dumps_indent2 d @ [LF]) = Some (JObj (map (\<lambda>(k, v). (k, JStr v)) d))"
proof (cases "d = []")
  case True
  then show ?thesis using loads_line [of plain_fmt "JObj []" flt] by (simp add: dumps_indent2_def dumps_def render_obj)
next
  case False
  let ?kvs = "map (\<lambda>(k, v). (k, JStr v)) d" and ?h = "default_hooks flt"
  let ?j = "join (item_sep indent_fmt) (map (render_member indent_fmt) ?kvs)"
  have j: "join (item_sep indent_fmt) (map (\<lambda>(k, v). render_member indent_fmt (k, JStr v)) d) = ?j"
    by (simp add: comp_def case_prod_beta')
  have ne: "?kvs \<noteq> []" using False by simp
  have rb: "reads_back ?h indent_fmt v" if "(k, v) \<in> set ?kvs" for k v
    using that by (intro render_reads_back default_dict_pairs) auto
  have pm: "parse_members ?h n (?j @ LF # CHR ''}'' # [LF]) = Some (?kvs, [LF])" if "length ?j < n" for n
  proof -
    have "list_all (\<lambda>(k, v). json_plain v) ?kvs" by (auto simp: list_all_iff)
    from parse_members_render [OF _ ne this rb that, where e = "[LF]" and r = "[LF]"] show ?thesis by simp
  qed
  have keys: "distinct (keys ?kvs)" using assms by (simp add: comp_def case_prod_beta')
  then have ph: "pairs_hook ?h ?kvs = Some ?kvs" using default_dict_pairs by (simp add: dict_pairs_def)
  obtain cs where cs: "?j @ LF # CHR ''}'' # [LF] = DQ # cs" using hd_join_member [OF ne] by blast
  have w: "skip_ws (LF # ''  '' @ DQ # cs) = DQ # cs" by (simp add: is_json_ws_def)
  have pv: "parse_value ?h (Suc n) (CHR ''{'' # LF # ''  '' @ DQ # cs) = Some (JObj ?kvs, [LF])" if "length ?j < n" for n
    using pm [OF that] w ph unfolding cs by simp
  have l: "length ?j < length (dumps_indent2 d @ [LF])" using False by (simp add: dumps_indent2_def j)
  have s: "dumps_indent2 d @ [LF] = CHR ''{'' # LF # ''  '' @ DQ # cs" using False cs by (simp add: dumps_indent2_def j)
  have b: "skip_ws (CHR ''{'' # r) = CHR ''{'' # r" "skip_ws [LF] = []" for r by (simp_all add: is_json_ws_def)
  show ?thesis
    unfolding loads_def loads_with_def s b(1) pv [OF l [unfolded s]] by (simp add: is_json_ws_def)
qed

end
