(* ===== verification/Sha256.thy ===== *)
theory Sha256
  imports Prelude "HOL-Library.Word"
begin

text \<open>
  The digest the engine calls everywhere, \<open>hashlib.sha256(data).hexdigest()\<close>: FIPS 180-4 on 32-bit words, on a
  byte string (a list of characters). The definitions of the other theories take the digest as an argument
  \<open>H\<close>; the contract they rely on, that a digest is 64 lower-case hexadecimal digits, is the locale
  \<open>hexdigest\<close>, interpreted here.
\<close>

unbundle bit_operations_syntax

type_synonym w32 = "32 word"

text \<open>The round constants and the initial state are by definition the first 32 bits of the fractional parts of
  the cube roots of the first 64 primes and of the square roots of the first 8; they are computed here
  bit by bit from integer roots.\<close>

fun root_bits :: "nat \<Rightarrow> nat \<Rightarrow> int \<Rightarrow> int \<Rightarrow> int" where
  "root_bits 0 e n a = a"
| "root_bits (Suc b) e n a = (let c = a + 2 ^ b in root_bits b e n (if c ^ e \<le> n then c else a))"

definition fraction_bits :: "nat \<Rightarrow> int \<Rightarrow> int" where
  "fraction_bits e p = root_bits 37 e (p * 2 ^ (32 * e)) 0 mod 2 ^ 32"

definition sha_primes :: "int list" where
  "sha_primes = filter (\<lambda>p. list_all (\<lambda>d. p mod d \<noteq> 0) [2..p - 1]) [2..311]"

definition sha_k :: "w32 list" where
  "sha_k = map (\<lambda>p. word_of_int (fraction_bits 3 p)) sha_primes"

definition sha_init :: "w32 list" where
  "sha_init = map (\<lambda>p. word_of_int (fraction_bits 2 p)) [2, 3, 5, 7, 11, 13, 17, 19]"

definition rotr :: "nat \<Rightarrow> w32 \<Rightarrow> w32" where
  "rotr n w = drop_bit n w OR push_bit (32 - n) w"

definition big_sigma0 :: "w32 \<Rightarrow> w32" where "big_sigma0 x = rotr 2 x XOR rotr 13 x XOR rotr 22 x"
definition big_sigma1 :: "w32 \<Rightarrow> w32" where "big_sigma1 x = rotr 6 x XOR rotr 11 x XOR rotr 25 x"
definition small_sigma0 :: "w32 \<Rightarrow> w32" where "small_sigma0 x = rotr 7 x XOR rotr 18 x XOR drop_bit 3 x"
definition small_sigma1 :: "w32 \<Rightarrow> w32" where "small_sigma1 x = rotr 17 x XOR rotr 19 x XOR drop_bit 10 x"
definition ch :: "w32 \<Rightarrow> w32 \<Rightarrow> w32 \<Rightarrow> w32" where "ch x y z = (x AND y) XOR (NOT x AND z)"
definition maj :: "w32 \<Rightarrow> w32 \<Rightarrow> w32 \<Rightarrow> w32" where "maj x y z = (x AND y) XOR (x AND z) XOR (y AND z)"

text \<open>Padding to a multiple of 64 bytes: a one bit, zeros, and the bit length in eight bytes.\<close>

fun be_bytes :: "nat \<Rightarrow> int \<Rightarrow> int list" where
  "be_bytes 0 n = []"
| "be_bytes (Suc k) n = be_bytes k (n div 256) @ [n mod 256]"

definition sha_pad :: "string \<Rightarrow> int list" where
  "sha_pad s = (let n = length s; z = (119 - n mod 64) mod 64
     in map (\<lambda>c. int (code c)) s @ 128 # replicate z 0 @ be_bytes 8 (8 * int n))"

fun be_words :: "int list \<Rightarrow> w32 list" where
  "be_words (a # b # c # d # r) = word_of_int (((a * 256 + b) * 256 + c) * 256 + d) # be_words r"
| "be_words _ = []"

fun chunks16 :: "nat \<Rightarrow> 'a list \<Rightarrow> 'a list list" where
  "chunks16 0 xs = []"
| "chunks16 (Suc n) xs = take 16 xs # chunks16 n (drop 16 xs)"

text \<open>The message schedule, newest word first.\<close>

fun extend_schedule :: "nat \<Rightarrow> w32 list \<Rightarrow> w32 list" where
  "extend_schedule 0 ws = ws"
| "extend_schedule (Suc n) ws =
     extend_schedule n ((small_sigma1 (ws ! 1) + ws ! 6 + small_sigma0 (ws ! 14) + ws ! 15) # ws)"

definition schedule :: "w32 list \<Rightarrow> w32 list" where
  "schedule block = rev (extend_schedule 48 (rev block))"

fun sha_round :: "w32 list \<Rightarrow> w32 \<times> w32 \<Rightarrow> w32 list" where
  "sha_round [a, b, c, d, e, f, g, h] (k, w) =
     (let t1 = h + big_sigma1 e + ch e f g + k + w; t2 = big_sigma0 a + maj a b c
      in [t1 + t2, a, b, c, d + t1, e, f, g])"
| "sha_round st kw = st"

definition compress :: "w32 list \<Rightarrow> w32 list \<Rightarrow> w32 list" where
  "compress st block = map2 (+) st (foldl sha_round st (zip sha_k (schedule block)))"

definition sha256 :: "string \<Rightarrow> w32 list" where
  "sha256 s = (let p = sha_pad s in foldl compress sha_init (chunks16 (length p div 64) (be_words p)))"

definition hex_nibble :: "int \<Rightarrow> char" where
  "hex_nibble n = (if n < 10 then char_of (nat (48 + n)) else char_of (nat (87 + n)))"

fun hex_digits :: "nat \<Rightarrow> int \<Rightarrow> string" where
  "hex_digits 0 n = []"
| "hex_digits (Suc k) n = hex_digits k (n div 16) @ [hex_nibble (n mod 16)]"

definition sha256_hex :: "string \<Rightarrow> string" where
  "sha256_hex s = concat (map (\<lambda>w. hex_digits 8 (uint w)) (sha256 s))"

section \<open>The contract of a digest\<close>

locale hexdigest =
  fixes H :: "string \<Rightarrow> string"
  assumes digest_hex: "is_hex64 (H s)"
begin

lemma digest_length: "length (H s) = 64"
  using digest_hex[of s] by (simp add: hex_of_len_def)

lemma digest_prefix: "n \<le> 64 \<Longrightarrow> hex_of_len n (take n (H s))"
  using digest_hex[of s] by (auto simp: hex_of_len_def list_all_iff dest: in_set_takeD)

lemma digest_nonempty: "H s \<noteq> []"
  using digest_length[of s] by auto

end

lemma hex_nibble_hex: "0 \<le> n \<Longrightarrow> n < 16 \<Longrightarrow> is_lower_hex (hex_nibble n)"
  by (auto simp: hex_nibble_def is_lower_hex_def is_ascii_digit_def take_bit_eq_mod)

lemma hex_digits_hex: "hex_of_len k (hex_digits k n)"
  by (induction k arbitrary: n) (auto simp: hex_of_len_def hex_nibble_hex)

lemma sha_round_length: "length st = 8 \<Longrightarrow> length (sha_round st kw) = 8"
  by (induction st kw rule: sha_round.induct) (auto simp: Let_def)

lemma fold_round_length: "length st = 8 \<Longrightarrow> length (foldl sha_round st kws) = 8"
  by (induction kws arbitrary: st) (simp_all add: sha_round_length)

lemma compress_length: "length st = 8 \<Longrightarrow> length (compress st b) = 8"
  by (simp add: compress_def fold_round_length)

lemma sha256_length: "length (sha256 s) = 8"
proof -
  have "length st = 8 \<Longrightarrow> length (foldl compress st bs) = 8" for st bs
    by (induction bs arbitrary: st) (simp_all add: compress_length)
  then show ?thesis by (simp add: sha256_def sha_init_def Let_def)
qed

lemma concat_hex: "\<forall>x \<in> set xs. hex_of_len k x \<Longrightarrow> hex_of_len (k * length xs) (concat xs)"
  by (induction xs) (auto simp: hex_of_len_def)

interpretation sha: hexdigest sha256_hex
proof
  fix s
  show "is_hex64 (sha256_hex s)"
    using concat_hex[of "map (\<lambda>w. hex_digits 8 (uint w)) (sha256 s)" 8]
    by (simp add: sha256_hex_def sha256_length hex_digits_hex)
qed

end
