(* ===== verification/Roles.thy ===== *)
theory Roles
  imports Prelude
begin

text \<open>
  The role table of the gateway (\<open>danus/gateway/roles.py\<close>): which tools a role may see. An unknown
  role falls back to the read-only set of the verifier.
\<close>

definition ALL_TOOLS :: "string list" where
  "ALL_TOOLS = [''gm_add'', ''gm_get'', ''gm_search'', ''fact_submit'', ''fact_search'',
     ''fact_context'', ''fact_revoke'', ''search_arxiv_theorems'']"

definition ROLE_TOOLS :: "string list dict" where
  "ROLE_TOOLS = [
     (''worker'', [''gm_add'', ''gm_get'', ''gm_search'', ''fact_submit'', ''fact_search'',
        ''fact_context'', ''search_arxiv_theorems'']),
     (''main'', [''gm_add'', ''gm_get'', ''gm_search'', ''fact_search'', ''fact_context'',
        ''fact_revoke'', ''search_arxiv_theorems'']),
     (''verifier'', [''search_arxiv_theorems'']),
     (''all'', ALL_TOOLS)]"

definition tools_for :: "string \<Rightarrow> string list" where
  "tools_for role =
     (case map_of ROLE_TOOLS role of
        Some ts \<Rightarrow> ts
      | None \<Rightarrow> the (map_of ROLE_TOOLS ''verifier''))"

text \<open>The tools that write shared state.\<close>

definition write_tools :: "string set" where
  "write_tools = {''gm_add'', ''fact_submit'', ''fact_revoke''}"

lemma tools_for_cases:
  "tools_for r =
     (if r = ''worker'' then [''gm_add'', ''gm_get'', ''gm_search'', ''fact_submit'', ''fact_search'',
        ''fact_context'', ''search_arxiv_theorems'']
      else if r = ''main'' then [''gm_add'', ''gm_get'', ''gm_search'', ''fact_search'', ''fact_context'',
        ''fact_revoke'', ''search_arxiv_theorems'']
      else if r = ''all'' then ALL_TOOLS
      else [''search_arxiv_theorems''])"
  by (simp add: tools_for_def ROLE_TOOLS_def)

lemma tools_for_subset: "set (tools_for r) \<subseteq> set ALL_TOOLS"
  by (simp add: tools_for_cases ALL_TOOLS_def)


end
