(* ===== verification/Policy.thy ===== *)
theory Policy
  imports Json "HOL-Library.Product_Lexorder"
begin

text \<open>
  The pure policy of the reasoning-first coordinator (\<open>danus/coordination/policy.py\<close>): the project's
  coordination payload and its parser, the choice of root, critic and explorer lanes from the roster,
  the bounded directive of a paid round, and which candidate outcomes release the overlay. Every
  raise of \<open>CoordinationConfigError\<close> is a constructor of \<open>policy_error\<close>.
\<close>

section \<open>Constants and types\<close>

definition LEGACY_MODE :: string where "LEGACY_MODE = ''legacy''"
definition REASONING_FIRST_MODE :: string where "REASONING_FIRST_MODE = ''reasoning_first_v1''"
definition DEFAULT_MAX_PAID_WORKERS :: int where "DEFAULT_MAX_PAID_WORKERS = 2"
definition MAX_SUPPORTED_PAID_WORKERS :: int where "MAX_SUPPORTED_PAID_WORKERS = 4"
definition DEFAULT_PHASE_TIMEOUT_SECONDS :: int where "DEFAULT_PHASE_TIMEOUT_SECONDS = 2700"
definition MAX_PHASE_TIMEOUT_SECONDS :: int where "MAX_PHASE_TIMEOUT_SECONDS = 2700"
definition REASONING_PHASE :: string where "REASONING_PHASE = ''root_critic_reasoning''"
definition CRITIC_REVIEW_PHASE :: string where "CRITIC_REVIEW_PHASE = ''critic_obstacle_review''"
definition OWNER_ACTION_REQUIRED_PHASE :: string where
  "OWNER_ACTION_REQUIRED_PHASE = ''owner_action_required''"
definition MAX_DIRECTIVE_BYTES :: nat where "MAX_DIRECTIVE_BYTES = 2048"

definition CANDIDATE_OUTCOMES :: "string list" where
  "CANDIDATE_OUTCOMES = [''correct'', ''wrong'', ''needs_context'', ''error'', ''promotion_unknown'',
     ''outcome_unknown'']"

lemmas policy_consts = LEGACY_MODE_def REASONING_FIRST_MODE_def DEFAULT_MAX_PAID_WORKERS_def
  MAX_SUPPORTED_PAID_WORKERS_def DEFAULT_PHASE_TIMEOUT_SECONDS_def MAX_PHASE_TIMEOUT_SECONDS_def

lemmas phase_consts = REASONING_PHASE_def CRITIC_REVIEW_PHASE_def OWNER_ACTION_REQUIRED_PHASE_def

definition DEFAULT_COORDINATION :: jobj where
  "DEFAULT_COORDINATION = [
     (''mode'', JStr REASONING_FIRST_MODE),
     (''max_paid_workers'', JInt DEFAULT_MAX_PAID_WORKERS),
     (''phase_timeout_seconds'', JInt DEFAULT_PHASE_TIMEOUT_SECONDS)]"

definition EFFORT_RANK :: "int dict" where
  "EFFORT_RANK = [(''none'', 0), (''minimal'', 1), (''low'', 2), (''medium'', 3), (''high'', 4),
     (''xhigh'', 5), (''max'', 6), (''ultra'', 7)]"

datatype policy_error =
    BadActiveExplorers | LegacyExplorers | UnsupportedChoice
  | CoordinationNotObject | LegacyExtraFields | UnsupportedMode | InvalidFieldSet
  | BadMaxPaid | BadTimeout
  | MalformedRoles | EmptyRoles
  | MalformedRoster | RosterDisagrees | RosterTooSmall
  | BadGeneration | BadReviewIdentity | UnexpectedReviewIdentity | UnprotectedLane | DirectiveTooLong
  | UnsupportedOutcome

record coord_config =
  mode :: string
  max_paid_workers :: int
  phase_timeout_seconds :: int

definition reasoning_first :: "coord_config \<Rightarrow> bool" where
  "reasoning_first c \<longleftrightarrow> mode c = REASONING_FIRST_MODE"

record lane_roster =
  root :: string
  critic :: "string option"
  explorers :: "string list"
  lanes :: "string dict"

section \<open>The coordination payload\<close>

text \<open>\<open>active_explorers\<close> is an arbitrary value of the caller; \<open>None\<close> as choice is the default.\<close>

definition coordination_payload :: "string option \<Rightarrow> json \<Rightarrow> policy_error + jobj" where
  "coordination_payload choice active =
     (case active of
        JInt n \<Rightarrow>
          if n \<notin> {0, 1, 2} then Inl BadActiveExplorers
          else if choice \<in> {None, Some ''reasoning-first'', Some REASONING_FIRST_MODE}
            then Inr (AList.update ''max_paid_workers'' (JInt (DEFAULT_MAX_PAID_WORKERS + n)) DEFAULT_COORDINATION)
          else if choice = Some LEGACY_MODE
            then (if n \<noteq> 0 then Inl LegacyExplorers else Inr [(''mode'', JStr LEGACY_MODE)])
          else Inl UnsupportedChoice
      | _ \<Rightarrow> Inl BadActiveExplorers)"

definition json_int_between :: "int \<Rightarrow> int \<Rightarrow> json \<Rightarrow> int option" where
  "json_int_between lo hi v = (case v of JInt n \<Rightarrow> if lo \<le> n \<and> n \<le> hi then Some n else None | _ \<Rightarrow> None)"

definition coordination_config :: "jobj \<Rightarrow> policy_error + coord_config" where
  "coordination_config metadata =
     (case jget_or_null metadata ''coordination'' of
        JNull \<Rightarrow> Inr \<lparr>mode = LEGACY_MODE, max_paid_workers = 0, phase_timeout_seconds = 0\<rparr>
      | JObj raw \<Rightarrow>
          (let m = jget_or_null raw ''mode'' in
           if m = JStr LEGACY_MODE then
             (if \<not> exact_keys raw [''mode''] then Inl LegacyExtraFields
              else Inr \<lparr>mode = LEGACY_MODE, max_paid_workers = 0, phase_timeout_seconds = 0\<rparr>)
           else if m \<noteq> JStr REASONING_FIRST_MODE then Inl UnsupportedMode
           else if \<not> exact_keys raw [''mode'', ''max_paid_workers'', ''phase_timeout_seconds'']
             then Inl InvalidFieldSet
           else
             (case json_int_between 1 MAX_SUPPORTED_PAID_WORKERS (jget_or_null raw ''max_paid_workers'') of
                None \<Rightarrow> Inl BadMaxPaid
              | Some mp \<Rightarrow>
                  (case json_int_between 1 MAX_PHASE_TIMEOUT_SECONDS (jget_or_null raw ''phase_timeout_seconds'') of
                     None \<Rightarrow> Inl BadTimeout
                   | Some t \<Rightarrow> Inr \<lparr>mode = REASONING_FIRST_MODE, max_paid_workers = mp,
                       phase_timeout_seconds = t\<rparr>)))
      | _ \<Rightarrow> Inl CoordinationNotObject)"

section \<open>The roster\<close>

text \<open>One part \<open>effort:count\<close> of the roles text, as the pattern matches it: the first colon ends the
  effort, which starts with a letter; the count is a positive decimal without leading zero.\<close>

definition role_part :: "string \<Rightarrow> (string \<times> nat) option" where
  "role_part part =
     (let e = takeWhile (\<lambda>c. c \<noteq> CHR '':'') part; r = dropWhile (\<lambda>c. c \<noteq> CHR '':'') part
      in if e \<noteq> [] \<and> is_ascii_alpha (hd e) \<and> list_all (\<lambda>c. is_ascii_alnum c \<or> c = CHR ''_'') e
            \<and> r \<noteq> [] \<and> tl r \<noteq> [] \<and> list_all is_ascii_digit (tl r) \<and> hd (tl r) \<noteq> CHR ''0''
         then Some (e, digits_val (tl r)) else None)"

definition role_names :: "string \<times> nat \<Rightarrow> (string \<times> string) list" where
  "role_names ec = (case ec of (e, n) \<Rightarrow>
     map (\<lambda>i. (if i = 1 then e else e @ show_nat i, e)) [1..<Suc n])"

fun role_parts :: "string list \<Rightarrow> policy_error + (string \<times> string) list" where
  "role_parts [] = Inr []"
| "role_parts (raw # rs) =
     (let part = strip raw in
      if part = [] then role_parts rs
      else (case role_part part of
              None \<Rightarrow> Inl MalformedRoles
            | Some ec \<Rightarrow>
                (case role_parts rs of
                   Inl e \<Rightarrow> Inl e
                 | Inr ps \<Rightarrow> Inr (role_names ec @ ps))))"

definition role_pairs :: "string \<Rightarrow> policy_error + (string \<times> string) list" where
  "role_pairs spec =
     (case role_parts (split_on (CHR '','') spec) of
        Inl e \<Rightarrow> Inl e
      | Inr ps \<Rightarrow> if ps = [] then Inl EmptyRoles else Inr ps)"

definition roster_workers :: "json \<Rightarrow> string list option" where
  "roster_workers v =
     (case v of
        JArr xs \<Rightarrow>
          if xs \<noteq> [] \<and> list_all (\<lambda>x. case x of JStr s \<Rightarrow> s \<noteq> [] | _ \<Rightarrow> False) xs
          then (let ws = map (\<lambda>x. case x of JStr s \<Rightarrow> s | _ \<Rightarrow> []) xs
                in if distinct ws then Some ws else None)
          else None
      | _ \<Rightarrow> None)"

text \<open>\<open>dict(pairs)\<close>: a repeated name keeps its last effort.\<close>

definition dict_of :: "(string \<times> 'v) list \<Rightarrow> 'v dict" where
  "dict_of ps = foldl (\<lambda>d (k, v). AList.update k v d) [] ps"

definition effort_rank :: "string dict \<Rightarrow> string \<Rightarrow> int" where
  "effort_rank efforts w =
     (case map_of EFFORT_RANK (py_lower (the (map_of efforts w))) of Some r \<Rightarrow> r | None \<Rightarrow> -1)"

fun index_of :: "'a \<Rightarrow> 'a list \<Rightarrow> nat" where
  "index_of x [] = 0"
| "index_of x (y # ys) = (if x = y then 0 else Suc (index_of x ys))"

definition order_workers :: "string dict \<Rightarrow> string list \<Rightarrow> string list" where
  "order_workers efforts workers =
     sort_key (\<lambda>w. (- effort_rank efforts w, index_of w workers)) workers"

definition explorer_lane :: "nat \<Rightarrow> string" where
  "explorer_lane i = ''explorer'' @ show_nat i"

text \<open>Root, critic and explorers are read off the ordered workers in turn.\<close>

definition assign_lanes :: "string list \<Rightarrow> int \<Rightarrow> lane_roster" where
  "assign_lanes ordered max_paid =
     (let n = int (length ordered);
          r = hd ordered;
          c = (if max_paid > 1 \<and> n > 1 then Some (ordered ! 1) else None);
          k = nat (max 0 (min max_paid n - 2));
          ex = take k (drop 2 ordered);
          l1 = [(r, ''root'')];
          l2 = (case c of None \<Rightarrow> l1 | Some w \<Rightarrow> AList.update w ''critic'' l1);
          l3 = foldl (\<lambda>d (i, w). AList.update w (explorer_lane i) d) l2 (zip [1..<Suc (length ex)] ex)
      in \<lparr>root = r, critic = c, explorers = ex, lanes = l3\<rparr>)"

definition select_lane_roster :: "jobj \<Rightarrow> coord_config \<Rightarrow> policy_error + lane_roster" where
  "select_lane_roster metadata config =
     (case (roster_workers (jget_or_null metadata ''workers''), jget_or_null metadata ''roles'') of
        (Some workers, JStr roles) \<Rightarrow>
          (case role_pairs roles of
             Inl e \<Rightarrow> Inl e
           | Inr pairs \<Rightarrow>
               (let efforts = dict_of pairs;
                    ordered = order_workers efforts workers
                in if set (keys efforts) \<noteq> set workers then Inl RosterDisagrees
                   else if max_paid_workers config > 2 \<and> int (length ordered) < max_paid_workers config
                     then Inl RosterTooSmall
                   else Inr (assign_lanes ordered (max_paid_workers config))))
      | _ \<Rightarrow> Inl MalformedRoster)"

definition required_lanes :: "lane_roster \<Rightarrow> string list" where
  "required_lanes r = map snd (lanes r)"

text \<open>The digest binds mode, limits, roles, workers, root and critic. \<open>H\<close> is the hexadecimal SHA-256
  of a byte string.\<close>

definition roster_digest_text :: "jobj \<Rightarrow> coord_config \<Rightarrow> lane_roster \<Rightarrow> string" where
  "roster_digest_text metadata config r =
     dumps_sorted compact_fmt (JObj [
       (''mode'', JStr (mode config)),
       (''max_paid_workers'', JInt (max_paid_workers config)),
       (''phase_timeout_seconds'', JInt (phase_timeout_seconds config)),
       (''roles'', jget_or_null metadata ''roles''),
       (''workers'', jget_or_null metadata ''workers''),
       (''root'', JStr (root r)),
       (''critic'', (case critic r of None \<Rightarrow> JNull | Some c \<Rightarrow> JStr c))])"

definition roster_digest :: "(string \<Rightarrow> string) \<Rightarrow> jobj \<Rightarrow> coord_config \<Rightarrow> lane_roster \<Rightarrow> string" where
  "roster_digest H metadata config r = H (utf8_encode (roster_digest_text metadata config r))"

section \<open>Directives\<close>

definition directive_prefix :: "string \<Rightarrow> int \<Rightarrow> string \<Rightarrow> string" where
  "directive_prefix lane generation phase =
     ''Coordination lane='' @ lane @ ''; generation='' @ show_int generation @ ''; phase='' @ phase @ ''. ''"

definition review_body :: "string \<Rightarrow> string \<Rightarrow> string" where
  "review_body review_id entry_id =
     ''Protected review_id='' @ review_id @ ''; designated_root_entry_id='' @ entry_id @ ''. '' @
     ''Use this fresh paid round only to retrieve that exact root obstacle with '' @
     ''gm_get(entry_id='' @
     entry_id @
     ''); omit project as a worker, and never substitute gm_search/BM25. If exact lookup '' @
     ''fails, is duplicate, or is oversized, publish no confirmation and terminate '' @
     ''inconclusive. Otherwise stress-test it independently. Confirm it only by publishing '' @
     ''one consolidated obstacle/dead_end whose links.confirms_entry_id is exactly the '' @
     ''designated root entry id. A different id is outside this review and must not be '' @
     ''confirmed.''"

definition root_body :: string where
  "root_body =
     ''Use this paid round for sustained first-principles reasoning on the assigned task. '' @
     ''Prefer one coherent deep route, persist structural progress, and report an obstacle '' @
     ''only when it is concrete.''"

definition critic_body :: string where
  "critic_body =
     ''Independent-first critic directive: derive your own route before reading or '' @
     ''comparing root conclusions, then stress-test the root's structural claims and '' @
     ''confirm only an exact recorded obstacle entry.''"

definition explorer_body :: string where
  "explorer_body =
     ''Independent explorer directive: pursue an alternate route, supporting lemma, or '' @
     ''counterexample distinct from the root and critic assignments. Publish ordinary '' @
     ''findings and submit verifier-gated candidates when warranted. You have no '' @
     ''obstacle-confirmation, critic-review, advisor-recommendation, or owner-gate '' @
     ''authority; never use links.confirms_entry_id.''"

definition bounded_id :: "string option \<Rightarrow> bool" where
  "bounded_id i = (case i of None \<Rightarrow> False | Some s \<Rightarrow> s \<noteq> [] \<and> utf8_len s \<le> 128)"

definition directive_body :: "string \<Rightarrow> string \<Rightarrow> string option \<Rightarrow> string option \<Rightarrow> policy_error + string" where
  "directive_body lane phase review_id entry_id =
     (if phase = CRITIC_REVIEW_PHASE then
        (if lane \<noteq> ''critic'' \<or> \<not> bounded_id review_id \<or> \<not> bounded_id entry_id then Inl BadReviewIdentity
         else Inr (review_body (the review_id) (the entry_id)))
      else if review_id \<noteq> None \<or> entry_id \<noteq> None then Inl UnexpectedReviewIdentity
      else if lane = ''root'' then Inr root_body
      else if lane = ''critic'' then Inr critic_body
      else if lane \<in> {''explorer1'', ''explorer2''} then Inr explorer_body
      else Inl UnprotectedLane)"

definition coordination_directive ::
    "string \<Rightarrow> int \<Rightarrow> string \<Rightarrow> string option \<Rightarrow> string option \<Rightarrow> policy_error + string" where
  "coordination_directive lane generation phase review_id entry_id =
     (if generation < 1 then Inl BadGeneration
      else (case directive_body lane phase review_id entry_id of
              Inl e \<Rightarrow> Inl e
            | Inr body \<Rightarrow>
                (let d = directive_prefix lane generation phase @ body
                 in if utf8_len d > MAX_DIRECTIVE_BYTES then Inl DirectiveTooLong else Inr d)))"

section \<open>Candidate outcomes\<close>

definition candidate_outcome_releases :: "string \<Rightarrow> policy_error + bool" where
  "candidate_outcome_releases outcome =
     (if outcome \<notin> set CANDIDATE_OUTCOMES then Inl UnsupportedOutcome
      else Inr (outcome \<noteq> ''outcome_unknown''))"

section \<open>Facts about the roster\<close>

lemma dict_update_keys: "keys (AList.update k v d) = (if has_key d k then keys d else keys d @ [k])"
  by (induction d) auto

lemma update_new: "\<not> has_key d k \<Longrightarrow> AList.update k v d = d @ [(k, v)]"
  by (induction d) auto

lemma fold_update_fresh:
  "distinct ws \<Longrightarrow> set ws \<inter> set (keys d) = {} \<Longrightarrow> length is = length ws \<Longrightarrow>
   foldl (\<lambda>d (i, w). AList.update w (f i) d) d (zip is ws) = d @ zip ws (map f is)"
proof (induction ws arbitrary: d "is")
  case (Cons w ws)
  then obtain i js where "is = i # js" by (cases "is") auto
  with Cons show ?case by (auto simp: update_new)
qed simp

definition lane_names :: "nat \<Rightarrow> string list" where
  "lane_names n = take n (''root'' # ''critic'' # map explorer_lane [1..<Suc (n - 2)])"

lemma length_lane_names [simp]: "length (lane_names n) = n"
  by (auto simp: lane_names_def)

lemma roster_workers_distinct: "roster_workers v = Some ws \<Longrightarrow> distinct ws \<and> ws \<noteq> []"
  by (auto simp: roster_workers_def Let_def split: json.splits if_splits)

lemma order_workers_set: "set (order_workers e ws) = set ws" "distinct (order_workers e ws) = distinct ws"
    "length (order_workers e ws) = length ws"
  by (simp_all add: order_workers_def)

lemma order_workers_rank:
  assumes "i < j" "j < length ws"
  shows "effort_rank e (order_workers e ws ! j) \<le> effort_rank e (order_workers e ws ! i)"
proof -
  let ?f = "\<lambda>w. (- effort_rank e w, index_of w ws)"
  have "sorted (map ?f (order_workers e ws))" by (simp add: order_workers_def)
  then have "?f (order_workers e ws ! i) \<le> ?f (order_workers e ws ! j)"
    using assms order_workers_set(3) [of e ws]
    by (auto simp: sorted_iff_nth_mono_less)
  then show ?thesis by (auto simp: less_eq_prod_def)
qed

lemma assign_lanes_zip:
  assumes "distinct ord" "ord \<noteq> []" "1 \<le> mp" "m = min (nat mp) (length ord)"
  shows "lanes (assign_lanes ord mp) = zip (take m ord) (lane_names m)"
proof -
  obtain x xs where x: "ord = x # xs" using assms by (cases ord) auto
  show ?thesis
  proof (cases "mp > 1 \<and> xs \<noteq> []")
    case False
    then have "m = 1" using assms x by (cases xs) auto
    with False x show ?thesis by (auto simp: assign_lanes_def lane_names_def)
  next
    case True
    then obtain y ys where y: "xs = y # ys" by (cases xs) auto
    define k where "k = nat (max 0 (min mp (int (length ord)) - 2))"
    have k: "m = Suc (Suc k)" "k \<le> length ys" using True assms x y by (simp_all add: k_def)
    have "lanes (assign_lanes ord mp) = foldl (\<lambda>d (i, w). AList.update w (explorer_lane i) d)
            [(x, ''root''), (y, ''critic'')] (zip [1..<Suc (length (take k ys))] (take k ys))"
      using True assms(1) x y k_def by (simp add: assign_lanes_def Let_def)
    also have "\<dots> = [(x, ''root''), (y, ''critic'')]
        @ zip (take k ys) (map explorer_lane [1..<Suc (length (take k ys))])"
      using assms(1) x y by (intro fold_update_fresh) (auto simp del: upt_Suc dest: in_set_takeD)
    finally show ?thesis using k x y by (simp add: lane_names_def min_absorb2 del: upt_Suc)
  qed
qed

text \<open>The lanes of a selected roster are the best workers in order, under the lane names in order.\<close>

lemma select_lane_roster_lanes:
  assumes sel: "select_lane_roster md cfg = Inr r" and mp: "1 \<le> max_paid_workers cfg"
    and a: "roster_workers (jget_or_null md ''workers'') = Some ws" "jget_or_null md ''roles'' = JStr rs"
      "role_pairs rs = Inr ps"
    and m: "m = min (nat (max_paid_workers cfg)) (length ws)"
  shows "lanes r = zip (take m (order_workers (dict_of ps) ws)) (lane_names m)
    \<and> root r = hd (order_workers (dict_of ps) ws) \<and> 1 \<le> m"
proof -
  let ?o = "order_workers (dict_of ps) ws"
  have r: "r = assign_lanes ?o (max_paid_workers cfg)"
    using sel a by (simp add: select_lane_roster_def Let_def split: if_splits)
  have ws: "distinct ws" "ws \<noteq> []" using roster_workers_distinct [OF a(1)] by auto
  have o: "distinct ?o" "?o \<noteq> []" using ws order_workers_set [of "dict_of ps" ws] by auto
  have "lanes r = zip (take m ?o) (lane_names m)"
    unfolding r by (rule assign_lanes_zip [OF o mp]) (simp add: m order_workers_set)
  moreover have "root r = hd ?o" by (simp add: r assign_lanes_def Let_def)
  moreover have "1 \<le> m" using ws mp m by (simp add: Suc_le_eq)
  ultimately show ?thesis by blast
qed


definition example_project :: jobj where
  "example_project = [(''workers'', JArr [JStr ''high'', JStr ''max'', JStr ''max2'']),
     (''roles'', JStr ''high:1, max:2'')]"

definition example_config :: coord_config where
  "example_config = \<lparr>mode = REASONING_FIRST_MODE, max_paid_workers = 2, phase_timeout_seconds = 2700\<rparr>"

lemma example_roster:
  "select_lane_roster example_project example_config =
     Inr \<lparr>root = ''max'', critic = Some ''max2'', explorers = [], lanes = [(''max'', ''root''), (''max2'', ''critic'')]\<rparr>"
  "role_pairs ''high:1, max:2'' = Inr [(''high'', ''high''), (''max'', ''max''), (''max2'', ''max'')]"
  by code_simp+


lemma payload_simps:
  "AList.update ''max_paid_workers'' v DEFAULT_COORDINATION =
     [(''mode'', JStr REASONING_FIRST_MODE), (''max_paid_workers'', v),
      (''phase_timeout_seconds'', JInt DEFAULT_PHASE_TIMEOUT_SECONDS)]"
  by (simp add: DEFAULT_COORDINATION_def)

lemma payload_cases:
  "coordination_payload choice (JInt n) = Inr p \<Longrightarrow> n \<in> {0, 1, 2} \<and>
   (choice = Some LEGACY_MODE \<and> p = [(''mode'', JStr LEGACY_MODE)]
    \<or> choice \<noteq> Some LEGACY_MODE \<and> p = [(''mode'', JStr REASONING_FIRST_MODE),
        (''max_paid_workers'', JInt (2 + n)), (''phase_timeout_seconds'', JInt 2700)])"
  by (auto simp: coordination_payload_def payload_simps policy_consts split: if_splits)

lemma config_of_payload:
  "coordination_config ((''coordination'', JObj [(''mode'', JStr LEGACY_MODE)]) # rest) =
     Inr \<lparr>mode = LEGACY_MODE, max_paid_workers = 0, phase_timeout_seconds = 0\<rparr>"
  "1 \<le> n \<Longrightarrow> n \<le> 4 \<Longrightarrow>
   coordination_config ((''coordination'', JObj [(''mode'', JStr REASONING_FIRST_MODE),
      (''max_paid_workers'', JInt n), (''phase_timeout_seconds'', JInt 2700)]) # rest) =
     Inr \<lparr>mode = REASONING_FIRST_MODE, max_paid_workers = n, phase_timeout_seconds = 2700\<rparr>"
  by (simp_all add: coordination_config_def jget_or_null_def json_int_between_def exact_keys_def policy_consts)

text \<open>
  Writing and reading the coordination choice agree: whatever payload
  \<open>coordination_payload\<close> writes into \<open>project.json\<close>, \<open>coordination_config\<close> accepts, as the legacy mode
  with no paid workers, or as the reasoning-first mode with two paid workers plus the active explorers
  and the default timeout.
\<close>

theorem payload_config_roundtrip:
  assumes "coordination_payload choice (JInt n) = Inr p"
  shows "coordination_config ((''coordination'', JObj p) # rest) = Inr (
     if choice = Some LEGACY_MODE
     then \<lparr>mode = LEGACY_MODE, max_paid_workers = 0, phase_timeout_seconds = 0\<rparr>
     else \<lparr>mode = REASONING_FIRST_MODE, max_paid_workers = 2 + n, phase_timeout_seconds = 2700\<rparr>)"
  using payload_cases [OF assms] by (auto simp: config_of_payload)

theorem payload_config_roundtrip_witness:
  "coordination_config [(''coordination'', JObj [(''mode'', JStr ''reasoning_first_v1''),
     (''max_paid_workers'', JInt 4), (''phase_timeout_seconds'', JInt 2700)])] =
   Inr \<lparr>mode = ''reasoning_first_v1'', max_paid_workers = 4, phase_timeout_seconds = 2700\<rparr>"
  using payload_config_roundtrip [of None 2 _ "[]"]
  by (simp add: coordination_payload_def payload_simps policy_consts)

lemma config_bounds:
  assumes "coordination_config md = Inr c" "reasoning_first c"
  shows "1 \<le> max_paid_workers c \<and> max_paid_workers c \<le> 4 \<and> 1 \<le> phase_timeout_seconds c
    \<and> phase_timeout_seconds c \<le> 2700"
  using assms
  by (auto simp: coordination_config_def reasoning_first_def json_int_between_def policy_consts Let_def
      split: json.splits if_splits option.splits)

section \<open>Directives are bounded and go to protected lanes only\<close>

lemma utf8_len_simps [simp]: "utf8_len [] = 0" "utf8_len (s @ t) = utf8_len s + utf8_len t"
  by (simp_all add: utf8_len_def utf8_encode_def)

lemma utf8_len_digits: "list_all is_ascii_digit ds \<Longrightarrow> utf8_len ds = length ds"
  by (induction ds) (auto simp: utf8_len_def utf8_encode_def utf8_char_def is_ascii_digit_def)

lemma length_show_nat: "0 < k \<Longrightarrow> n < 10 ^ k \<Longrightarrow> length (show_nat n) \<le> k"
proof (induction n arbitrary: k rule: show_nat.induct)
  case (1 n)
  show ?case
  proof (cases "n < 10")
    case True
    then show ?thesis using 1 by (subst show_nat.simps) simp
  next
    case False
    then obtain k' where k: "k = Suc k'" "0 < k'" using 1(2,3) by (cases k; cases "k - 1") auto
    then have "n div 10 < 10 ^ k'" using 1(3) by (simp add: less_mult_imp_div_less mult.commute)
    then show ?thesis using 1(1) [OF False, of k'] False k by (subst show_nat.simps) simp
  qed
qed

lemma utf8_len_show_int: "0 \<le> g \<Longrightarrow> g < 10 ^ k \<Longrightarrow> 0 < k \<Longrightarrow> utf8_len (show_int g) \<le> k"
  using length_show_nat [of k "nat g"] show_nat_digits [of "nat g"]
  by (simp add: show_int_def utf8_len_digits nat_less_iff)

lemma utf8_len_le: "utf8_len s \<le> 2 * length s"
  by (induction s) (auto simp: utf8_len_def utf8_encode_def utf8_char_def)

lemma body_lengths:
  "utf8_len root_body \<le> 420" "utf8_len critic_body \<le> 420" "utf8_len explorer_body \<le> 820"
proof -
  have "length root_body \<le> 210" "length critic_body \<le> 210" "length explorer_body \<le> 410"
    by (simp_all add: root_body_def critic_body_def explorer_body_def)
  then show "utf8_len root_body \<le> 420" "utf8_len critic_body \<le> 420" "utf8_len explorer_body \<le> 820"
    using utf8_len_le [of root_body] utf8_len_le [of critic_body] utf8_len_le [of explorer_body] by simp_all
qed

lemma review_body_length: "utf8_len (review_body r e) \<le> 1300 + utf8_len r + 2 * utf8_len e"
proof -
  have "length (review_body [] []) \<le> 650" by (simp add: review_body_def)
  then have "utf8_len (review_body [] []) \<le> 1300" using utf8_len_le [of "review_body [] []"] by simp
  moreover have "utf8_len (review_body r e) = utf8_len (review_body [] []) + utf8_len r + 2 * utf8_len e"
    unfolding review_body_def utf8_len_simps append_Nil by linarith
  ultimately show ?thesis by simp
qed

lemma prefix_length: "utf8_len (directive_prefix lane g ph) \<le> 60 + utf8_len lane + utf8_len (show_int g) + utf8_len ph"
proof -
  have "utf8_len ''Coordination lane='' + utf8_len ''; generation='' + utf8_len ''; phase='' + utf8_len ''. '' \<le> 60"
    by code_simp
  then show ?thesis unfolding directive_prefix_def utf8_len_simps by linarith
qed

definition protected_lane :: "string \<Rightarrow> bool" where
  "protected_lane l \<longleftrightarrow> l \<in> {''root'', ''critic'', ''explorer1'', ''explorer2''}"

lemma directive_body_authority:
  "directive_body lane ph rid eid = Inr b \<Longrightarrow>
   protected_lane lane
   \<and> (ph = CRITIC_REVIEW_PHASE \<longrightarrow> lane = ''critic'' \<and>
        (\<exists>r e. rid = Some r \<and> eid = Some e \<and> utf8_len r \<le> 128 \<and> utf8_len e \<le> 128 \<and> b = review_body r e))
   \<and> (ph \<noteq> CRITIC_REVIEW_PHASE \<longrightarrow> rid = None \<and> eid = None)"
  by (auto simp: directive_body_def bounded_id_def protected_lane_def split: if_splits option.splits)

lemma directive_of_body:
  "1 \<le> g \<Longrightarrow> directive_body lane ph rid eid = Inr b \<Longrightarrow> utf8_len (directive_prefix lane g ph) + utf8_len b \<le> 2048
   \<Longrightarrow> \<exists>d. coordination_directive lane g ph rid eid = Inr d"
  by (simp add: coordination_directive_def MAX_DIRECTIVE_BYTES_def Let_def)

text \<open>
  Property C39. A directive never leaves its authority: if one is produced, the generation is
  positive, the text is at most 2048 bytes and starts with the exact lane, generation and phase, the
  lane is protected, and in the review phase the lane is the critic's and the text names the exact
  review and root entry.
\<close>

theorem directive_safe:
  assumes "coordination_directive lane g ph rid eid = Inr d"
  shows "1 \<le> g \<and> utf8_len d \<le> 2048 \<and> prefix (directive_prefix lane g ph) d \<and> protected_lane lane
    \<and> (ph = CRITIC_REVIEW_PHASE \<longrightarrow> lane = ''critic'' \<and>
         (\<exists>r e. rid = Some r \<and> eid = Some e \<and> utf8_len r \<le> 128 \<and> utf8_len e \<le> 128
           \<and> d = directive_prefix lane g ph @ review_body r e))
    \<and> (ph \<noteq> CRITIC_REVIEW_PHASE \<longrightarrow> rid = None \<and> eid = None)"
  using assms directive_body_authority [of lane ph rid eid]
  by (auto simp: coordination_directive_def MAX_DIRECTIVE_BYTES_def Let_def split: if_splits sum.splits)

theorem directive_safe_witness:
  "utf8_len (directive_prefix ''root'' 3 REASONING_PHASE @ root_body) \<le> 2048"
proof -
  have "utf8_len (directive_prefix ''root'' 3 REASONING_PHASE) \<le> 210" by code_simp
  then have "coordination_directive ''root'' 3 REASONING_PHASE None None =
      Inr (directive_prefix ''root'' 3 REASONING_PHASE @ root_body)"
    using body_lengths(1)
    by (simp add: coordination_directive_def directive_body_def MAX_DIRECTIVE_BYTES_def phase_consts Let_def)
  from directive_safe [OF this] show ?thesis by simp
qed

text \<open>
  The byte limit is never what stops a legitimate round: for every generation below
  \<open>10 ^ 100\<close>, every protected lane gets a directive in the reasoning phase, and the critic gets one in
  the review phase for all bounded non-empty review and entry ids.
\<close>

theorem directive_total:
  assumes "1 \<le> g" "g < 10 ^ 100"
  shows "(protected_lane lane \<longrightarrow> (\<exists>d. coordination_directive lane g REASONING_PHASE None None = Inr d))
    \<and> (r \<noteq> [] \<longrightarrow> e \<noteq> [] \<longrightarrow> utf8_len r \<le> 128 \<longrightarrow> utf8_len e \<le> 128 \<longrightarrow>
       (\<exists>d. coordination_directive ''critic'' g CRITIC_REVIEW_PHASE (Some r) (Some e) = Inr d))"
proof -
  have g: "utf8_len (show_int g) \<le> 100" using utf8_len_show_int [of g 100] assms by simp
  have ph: "utf8_len REASONING_PHASE \<le> 30" "utf8_len CRITIC_REVIEW_PHASE \<le> 30" by code_simp+
  have lane: "utf8_len lane \<le> 20" if "protected_lane lane" for lane
  proof -
    have "list_all (\<lambda>l. utf8_len l \<le> 20) [''root'', ''critic'', ''explorer1'', ''explorer2'']" by code_simp
    with that show ?thesis by (auto simp: protected_lane_def)
  qed
  have pre: "utf8_len (directive_prefix lane g p) \<le> 210"
    if "protected_lane lane" "p \<in> {REASONING_PHASE, CRITIC_REVIEW_PHASE}" for lane p
    using prefix_length [of lane g p] g ph lane [OF that(1)] that(2) by auto
  have "\<exists>d. coordination_directive lane g REASONING_PHASE None None = Inr d" if l: "protected_lane lane"
  proof -
    have "REASONING_PHASE \<noteq> CRITIC_REVIEW_PHASE" by (simp add: phase_consts)
    then obtain b where "directive_body lane REASONING_PHASE None None = Inr b" "utf8_len b \<le> 820"
      using l body_lengths by (auto simp: directive_body_def protected_lane_def)
    then show ?thesis using pre [OF l, of REASONING_PHASE] assms(1) by (intro directive_of_body) auto
  qed
  moreover have "\<exists>d. coordination_directive ''critic'' g CRITIC_REVIEW_PHASE (Some r) (Some e) = Inr d"
    if ids: "r \<noteq> []" "e \<noteq> []" "utf8_len r \<le> 128" "utf8_len e \<le> 128"
  proof -
    have "directive_body ''critic'' CRITIC_REVIEW_PHASE (Some r) (Some e) = Inr (review_body r e)"
      using ids by (simp add: directive_body_def bounded_id_def)
    moreover have "utf8_len (directive_prefix ''critic'' g CRITIC_REVIEW_PHASE) \<le> 210"
      by (rule pre) (simp_all add: protected_lane_def)
    ultimately show ?thesis using review_body_length [of r e] ids assms(1) by (intro directive_of_body) auto
  qed
  ultimately show ?thesis by blast
qed

theorem directive_total_witness:
  "\<exists>d. coordination_directive ''critic'' 7 CRITIC_REVIEW_PHASE (Some ''r1'') (Some ''e1'') = Inr d"
proof -
  have "utf8_len ''r1'' \<le> 128" "utf8_len ''e1'' \<le> 128" by code_simp+
  then show ?thesis using directive_total [of 7 "''critic''" "''r1''" "''e1''"] by simp
qed

end
