(* ===== verification/Verification.thy ===== *)
theory Verification
  imports Json
begin

text \<open>
  The deterministic validator of the verifier's final JSON (\<open>danus/core/verification.py\<close>). Every raise
  of the source is a constructor of \<open>verif_error\<close>, and the checks run in the source's order. An abstract
  outcome (correct, wrong with findings and repair hints, or a request for more context) is the
  specification: the validator accepts exactly the payloads that represent a well-formed outcome whose
  findings quote the candidate verbatim.
\<close>

section \<open>The validator\<close>

definition VERIFICATION_OUTPUT_PROTOCOL_VERSION :: int where
  "VERIFICATION_OUTPUT_PROTOCOL_VERSION = 3"

datatype verif_error =
    KeyMismatch string
  | PayloadNotDict | BadSchemaVersion | BadStatus | ReportNotDict | SummaryNotStr
  | FindingsNotList | FindingNotDict | BadLocation | BadIssue
  | EvidenceNotDict | BadSource | BadLine | ExactLineNotStr | ExactLineBlank
  | NoCandidate | LineOutside | NotVerbatim
  | BadVerdict | HintsNotStr
  | RequestsNotList | RequestNotDict | BadRequestId | DuplicateRequest | BadReason
  | ContextVerdict | ContextNoRequest | ContextFindings | ContextHints
  | FinalWithRequests | VerdictMismatch | CorrectWithHints | WrongWithoutHints

definition require_exact_keys :: "jobj \<Rightarrow> string list \<Rightarrow> string \<Rightarrow> verif_error option" where
  "require_exact_keys v expected path = fail_if (\<not> exact_keys v expected) (KeyMismatch path)"

definition candidate_lines :: "string \<Rightarrow> string list" where
  "candidate_lines text = splitlines text"

definition validate_candidate_evidence ::
    "json \<Rightarrow> string option \<Rightarrow> string option \<Rightarrow> verif_error option" where
  "validate_candidate_evidence evidence statement proof =
     (case evidence of
        JObj ev \<Rightarrow>
          then_check (require_exact_keys ev [''source'', ''line'', ''exact_line''] ''candidate_evidence'')
            (let source = jget_or_null ev ''source'' in
             if source \<notin> {JStr ''statement'', JStr ''proof''} then Some BadSource
             else (case jget_or_null ev ''line'' of
               JInt line \<Rightarrow>
                 if line \<le> 0 then Some BadLine
                 else (case jget_or_null ev ''exact_line'' of
                   JStr exact \<Rightarrow>
                     if strip exact = [] then Some ExactLineBlank
                     else (case (if source = JStr ''statement'' then statement else proof) of
                       None \<Rightarrow> Some NoCandidate
                     | Some candidate \<Rightarrow>
                         (let lines = candidate_lines candidate in
                          if int (length lines) < line then Some LineOutside
                          else if exact \<noteq> lines ! nat (line - 1) then Some NotVerbatim
                          else None))
                 | _ \<Rightarrow> Some ExactLineNotStr)
             | _ \<Rightarrow> Some BadLine))
      | _ \<Rightarrow> Some EvidenceNotDict)"

definition nonempty_str :: "json \<Rightarrow> bool" where
  "nonempty_str v = (case v of JStr s \<Rightarrow> s \<noteq> [] | _ \<Rightarrow> False)"

definition validate_finding :: "string option \<Rightarrow> string option \<Rightarrow> json \<Rightarrow> verif_error option" where
  "validate_finding statement proof finding =
     (case finding of
        JObj fd \<Rightarrow>
          then_check (require_exact_keys fd [''location'', ''issue'', ''candidate_evidence''] ''finding'')
            (then_check (fail_if (\<not> nonempty_str (jget_or_null fd ''location'')) BadLocation)
              (then_check (fail_if (\<not> nonempty_str (jget_or_null fd ''issue'')) BadIssue)
                (validate_candidate_evidence (jget_or_null fd ''candidate_evidence'') statement proof)))
      | _ \<Rightarrow> Some FindingNotDict)"

definition validate_findings :: "string option \<Rightarrow> string option \<Rightarrow> json \<Rightarrow> verif_error option" where
  "validate_findings statement proof findings =
     (case findings of
        JArr fs \<Rightarrow> first_error (map (validate_finding statement proof) fs)
      | _ \<Rightarrow> Some FindingsNotList)"

text \<open>The request loop; \<open>seen\<close> holds the ids met so far.\<close>

fun validate_requests :: "string list \<Rightarrow> json list \<Rightarrow> verif_error option" where
  "validate_requests seen [] = None"
| "validate_requests seen (request # rest) =
     (case request of
        JObj rq \<Rightarrow>
          then_check (require_exact_keys rq [''id'', ''reason''] ''request'')
            (case jget_or_null rq ''id'' of
               JStr fact_id \<Rightarrow>
                 if fact_id = [] then Some BadRequestId
                 else if fact_id \<in> set seen then Some DuplicateRequest
                 else (case jget_or_null rq ''reason'' of
                         JStr reason \<Rightarrow>
                           if strip reason = [] then Some BadReason
                           else validate_requests (fact_id # seen) rest
                       | _ \<Rightarrow> Some BadReason)
             | _ \<Rightarrow> Some BadRequestId)
      | _ \<Rightarrow> Some RequestNotDict)"

text \<open>The consistency rules between status, verdict, findings, requests and hints.\<close>

definition validate_consistency ::
    "string \<Rightarrow> string \<Rightarrow> bool \<Rightarrow> json list \<Rightarrow> string \<Rightarrow> verif_error option" where
  "validate_consistency status verdict clean requests hints =
     (if status = ''needs_context'' then
        (if verdict \<noteq> ''wrong'' then Some ContextVerdict
         else if requests = [] then Some ContextNoRequest
         else if \<not> clean then Some ContextFindings
         else if hints \<noteq> [] then Some ContextHints
         else None)
      else if requests \<noteq> [] then Some FinalWithRequests
      else if clean \<noteq> (verdict = ''correct'') then Some VerdictMismatch
      else if verdict = ''correct'' \<and> hints \<noteq> [] then Some CorrectWithHints
      else if verdict = ''wrong'' \<and> strip hints = [] then Some WrongWithoutHints
      else None)"

definition jarr_items :: "json \<Rightarrow> json list" where
  "jarr_items v = (case v of JArr xs \<Rightarrow> xs | _ \<Rightarrow> [])"

definition validate_tail :: "jobj \<Rightarrow> jobj \<Rightarrow> string \<Rightarrow> verif_error option" where
  "validate_tail payload report status =
     (let v = jget_or_null payload ''verdict'' in
      if v \<notin> {JStr ''correct'', JStr ''wrong''} then Some BadVerdict
      else (case jget_or_null payload ''repair_hints'' of
        JStr hints \<Rightarrow>
          (case jget_or_null payload ''needs_expanded_proofs'' of
             JArr requests \<Rightarrow>
               then_check (validate_requests [] requests)
                 (validate_consistency status (case v of JStr s \<Rightarrow> s | _ \<Rightarrow> [])
                    (jarr_items (jget_or_null report ''critical_errors'') = []
                       \<and> jarr_items (jget_or_null report ''gaps'') = [])
                    requests hints)
           | _ \<Rightarrow> Some RequestsNotList)
      | _ \<Rightarrow> Some HintsNotStr))"

definition validate_report ::
    "json \<Rightarrow> string option \<Rightarrow> string option \<Rightarrow> verif_error option" where
  "validate_report report statement proof =
     (case report of
        JObj r \<Rightarrow>
          then_check (require_exact_keys r [''summary'', ''critical_errors'', ''gaps''] ''verification_report'')
            (then_check (fail_if (case jget_or_null r ''summary'' of JStr _ \<Rightarrow> False | _ \<Rightarrow> True) SummaryNotStr)
              (then_check (validate_findings statement proof (jget_or_null r ''critical_errors''))
                (validate_findings statement proof (jget_or_null r ''gaps''))))
      | _ \<Rightarrow> Some ReportNotDict)"

definition validate_payload :: "json \<Rightarrow> string option \<Rightarrow> string option \<Rightarrow> verif_error option" where
  "validate_payload payload statement proof =
     (case payload of
        JObj p \<Rightarrow>
          then_check (require_exact_keys p [''output_schema_version'', ''verification_status'',
              ''verification_report'', ''verdict'', ''needs_expanded_proofs'', ''repair_hints''] ''payload'')
            (if \<not> py_eq_int (jget_or_null p ''output_schema_version'') VERIFICATION_OUTPUT_PROTOCOL_VERSION
             then Some BadSchemaVersion
             else (case jget_or_null p ''verification_status'' of
               JStr status \<Rightarrow>
                 if status \<notin> {''final'', ''needs_context''} then Some BadStatus
                 else then_check (validate_report (jget_or_null p ''verification_report'') statement proof)
                        (validate_tail p
                           (case jget_or_null p ''verification_report'' of JObj r \<Rightarrow> r | _ \<Rightarrow> []) status)
             | _ \<Rightarrow> Some BadStatus))
      | _ \<Rightarrow> Some PayloadNotDict)"

definition validate_verification_output ::
    "json \<Rightarrow> string option \<Rightarrow> string option \<Rightarrow> verif_error + json" where
  "validate_verification_output payload statement proof =
     (case validate_payload payload statement proof of
        Some e \<Rightarrow> Inl e
      | None \<Rightarrow> Inr payload)"

section \<open>The abstract outcome\<close>

record finding =
  f_location :: string
  f_issue :: string
  f_in_statement :: bool
  f_line :: nat
  f_exact :: string

datatype outcome =
    Correct
  | Wrong "finding list" "finding list" string
  | NeedsContext "(string \<times> string) list"

text \<open>A finding is anchored when its quoted line is, verbatim, that line of the candidate text.\<close>

definition anchored :: "string option \<Rightarrow> string option \<Rightarrow> finding \<Rightarrow> bool" where
  "anchored statement proof f \<longleftrightarrow>
     f_location f \<noteq> [] \<and> f_issue f \<noteq> [] \<and> strip (f_exact f) \<noteq> [] \<and>
     (case (if f_in_statement f then statement else proof) of
        None \<Rightarrow> False
      | Some text \<Rightarrow> 1 \<le> f_line f \<and> f_line f \<le> length (splitlines text)
          \<and> f_exact f = splitlines text ! (f_line f - 1))"

definition good_request :: "string \<times> string \<Rightarrow> bool" where
  "good_request r \<longleftrightarrow> fst r \<noteq> [] \<and> strip (snd r) \<noteq> []"

definition wf_outcome :: "string option \<Rightarrow> string option \<Rightarrow> outcome \<Rightarrow> bool" where
  "wf_outcome statement proof o' =
     (case o' of
        Correct \<Rightarrow> True
      | Wrong crit gaps hints \<Rightarrow> (crit \<noteq> [] \<or> gaps \<noteq> []) \<and> strip hints \<noteq> []
          \<and> list_all (anchored statement proof) crit \<and> list_all (anchored statement proof) gaps
      | NeedsContext rs \<Rightarrow> rs \<noteq> [] \<and> distinct (map fst rs)
          \<and> list_all good_request rs)"

text \<open>Which JSON values represent a finding, a request, an outcome (key order is immaterial).\<close>

definition finding_json :: "json \<Rightarrow> finding \<Rightarrow> bool" where
  "finding_json j f \<longleftrightarrow>
     (\<exists>fd ev. j = JObj fd \<and> exact_keys fd [''location'', ''issue'', ''candidate_evidence'']
        \<and> jget_or_null fd ''location'' = JStr (f_location f) \<and> jget_or_null fd ''issue'' = JStr (f_issue f)
        \<and> jget_or_null fd ''candidate_evidence'' = JObj ev
        \<and> exact_keys ev [''source'', ''line'', ''exact_line'']
        \<and> jget_or_null ev ''source'' = JStr (if f_in_statement f then ''statement'' else ''proof'')
        \<and> jget_or_null ev ''line'' = JInt (int (f_line f))
        \<and> jget_or_null ev ''exact_line'' = JStr (f_exact f))"

definition request_json :: "json \<Rightarrow> string \<times> string \<Rightarrow> bool" where
  "request_json j r \<longleftrightarrow>
     (\<exists>rq. j = JObj rq \<and> exact_keys rq [''id'', ''reason'']
        \<and> jget_or_null rq ''id'' = JStr (fst r) \<and> jget_or_null rq ''reason'' = JStr (snd r))"

definition outcome_fields :: "outcome \<Rightarrow> string \<times> string \<times> finding list \<times> finding list \<times> (string \<times> string) list \<times> string" where
  "outcome_fields o' =
     (case o' of
        Correct \<Rightarrow> (''final'', ''correct'', [], [], [], [])
      | Wrong crit gaps hints \<Rightarrow> (''final'', ''wrong'', crit, gaps, [], hints)
      | NeedsContext rs \<Rightarrow> (''needs_context'', ''wrong'', [], [], rs, []))"

definition represents :: "json \<Rightarrow> outcome \<Rightarrow> bool" where
  "represents j o' \<longleftrightarrow>
     (\<exists>p r summary crit gaps reqs. case outcome_fields o' of (status, verdict, fcrit, fgaps, frs, hints) \<Rightarrow>
        j = JObj p \<and> exact_keys p [''output_schema_version'', ''verification_status'',
              ''verification_report'', ''verdict'', ''needs_expanded_proofs'', ''repair_hints'']
        \<and> py_eq_int (jget_or_null p ''output_schema_version'') 3
        \<and> jget_or_null p ''verification_status'' = JStr status
        \<and> jget_or_null p ''verification_report'' = JObj r
        \<and> exact_keys r [''summary'', ''critical_errors'', ''gaps'']
        \<and> jget_or_null r ''summary'' = JStr summary
        \<and> jget_or_null r ''critical_errors'' = JArr crit \<and> list_all2 finding_json crit fcrit
        \<and> jget_or_null r ''gaps'' = JArr gaps \<and> list_all2 finding_json gaps fgaps
        \<and> jget_or_null p ''verdict'' = JStr verdict
        \<and> jget_or_null p ''needs_expanded_proofs'' = JArr reqs \<and> list_all2 request_json reqs frs
        \<and> jget_or_null p ''repair_hints'' = JStr hints)"

section \<open>The validator meets the specification\<close>

lemma list_all2_choice:
  "(\<exists>ys. list_all2 R xs ys \<and> list_all Q ys) \<longleftrightarrow> list_all (\<lambda>x. \<exists>y. R x y \<and> Q y) xs"
proof (induction xs)
  case Nil
  show ?case by simp
next
  case (Cons x xs)
  then show ?case by (fastforce simp: list_all2_Cons1)
qed

lemma evidence_ok:
  "validate_candidate_evidence j st pf = None \<longleftrightarrow>
     (\<exists>ev in_st line exact cand. j = JObj ev \<and> exact_keys ev [''source'', ''line'', ''exact_line'']
        \<and> jget_or_null ev ''source'' = JStr (if in_st then ''statement'' else ''proof'')
        \<and> jget_or_null ev ''line'' = JInt (int line) \<and> jget_or_null ev ''exact_line'' = JStr exact
        \<and> strip exact \<noteq> [] \<and> (if in_st then st else pf) = Some cand
        \<and> 1 \<le> line \<and> line \<le> length (splitlines cand) \<and> exact = splitlines cand ! (line - 1))"
    (is "?lhs \<longleftrightarrow> ?rhs")
proof
  assume ?lhs
  then obtain ev line exact cand in_st where
    "j = JObj ev" "exact_keys ev [''source'', ''line'', ''exact_line'']"
    "jget_or_null ev ''source'' = JStr (if in_st then ''statement'' else ''proof'')"
    "jget_or_null ev ''line'' = JInt line" "0 < line" "jget_or_null ev ''exact_line'' = JStr exact"
    "strip exact \<noteq> []" "(if in_st then st else pf) = Some cand"
    "line \<le> int (length (splitlines cand))" "exact = splitlines cand ! nat (line - 1)"
    unfolding validate_candidate_evidence_def require_exact_keys_def candidate_lines_def Let_def
    by (fastforce split: json.splits if_splits option.splits)
  then show ?rhs
    by (intro exI[of _ ev] exI[of _ in_st] exI[of _ "nat line"] exI[of _ exact] exI[of _ cand])
      (auto simp: nat_diff_distrib')
next
  assume ?rhs
  then show ?lhs
    by (auto simp: validate_candidate_evidence_def require_exact_keys_def candidate_lines_def
        nat_diff_distrib' split: if_splits)
qed

lemma nonempty_str_iff: "nonempty_str v \<longleftrightarrow> (\<exists>s. v = JStr s \<and> s \<noteq> [])"
  by (cases v) (simp_all add: nonempty_str_def)

lemma finding_shape:
  "validate_finding st pf j = None \<longleftrightarrow>
     (\<exists>fd. j = JObj fd \<and> exact_keys fd [''location'', ''issue'', ''candidate_evidence'']
        \<and> (\<exists>loc. jget_or_null fd ''location'' = JStr loc \<and> loc \<noteq> [])
        \<and> (\<exists>iss. jget_or_null fd ''issue'' = JStr iss \<and> iss \<noteq> [])
        \<and> validate_candidate_evidence (jget_or_null fd ''candidate_evidence'') st pf = None)"
  by (cases j) (simp_all add: validate_finding_def require_exact_keys_def nonempty_str_iff)

lemma finding_ok:
  "validate_finding st pf j = None \<longleftrightarrow> (\<exists>f. finding_json j f \<and> anchored st pf f)" (is "?lhs \<longleftrightarrow> ?rhs")
proof
  assume ?lhs
  then obtain fd loc iss where fd: "j = JObj fd"
    "exact_keys fd [''location'', ''issue'', ''candidate_evidence'']"
    "jget_or_null fd ''location'' = JStr loc" "loc \<noteq> []" "jget_or_null fd ''issue'' = JStr iss" "iss \<noteq> []"
    "validate_candidate_evidence (jget_or_null fd ''candidate_evidence'') st pf = None"
    unfolding finding_shape by blast
  from fd(7) obtain ev in_st line exact cand where
    "jget_or_null fd ''candidate_evidence'' = JObj ev" "exact_keys ev [''source'', ''line'', ''exact_line'']"
    "jget_or_null ev ''source'' = JStr (if in_st then ''statement'' else ''proof'')"
    "jget_or_null ev ''line'' = JInt (int line)" "jget_or_null ev ''exact_line'' = JStr exact"
    "strip exact \<noteq> []" "(if in_st then st else pf) = Some cand" "1 \<le> line"
    "line \<le> length (splitlines cand)" "exact = splitlines cand ! (line - 1)"
    unfolding evidence_ok by blast
  with fd show ?rhs
    by (intro exI[of _ "\<lparr>f_location = loc, f_issue = iss, f_in_statement = in_st, f_line = line, f_exact = exact\<rparr>"])
      (simp add: finding_json_def anchored_def)
next
  assume ?rhs
  then obtain f where "finding_json j f" "anchored st pf f" by blast
  then show ?lhs
    unfolding finding_json_def anchored_def finding_shape evidence_ok
    by (fastforce split: option.splits)
qed

lemma findings_ok:
  "validate_findings st pf j = None \<longleftrightarrow>
     (\<exists>js fs. j = JArr js \<and> list_all2 finding_json js fs \<and> list_all (anchored st pf) fs)"
proof -
  have "validate_findings st pf j = None \<longleftrightarrow>
      (\<exists>js. j = JArr js \<and> list_all (\<lambda>x. \<exists>f. finding_json x f \<and> anchored st pf f) js)"
    by (cases j) (auto simp: validate_findings_def first_error_None finding_ok list_all_iff)
  then show ?thesis
    by (auto simp: list_all2_choice[symmetric])
qed

lemma requests_ok:
  "validate_requests seen js = None \<longleftrightarrow>
     (\<exists>rs. list_all2 request_json js rs \<and> distinct (map fst rs) \<and> set (map fst rs) \<inter> set seen = {}
        \<and> list_all good_request rs)"
proof (induction js arbitrary: seen)
  case Nil
  show ?case by simp
next
  case (Cons j js)
  have step: "validate_requests seen (j # js) = None \<longleftrightarrow>
      (\<exists>r. request_json j r \<and> good_request r \<and> fst r \<notin> set seen \<and> validate_requests (fst r # seen) js = None)"
  proof (cases "\<exists>rq i why. j = JObj rq \<and> jget_or_null rq ''id'' = JStr i \<and> jget_or_null rq ''reason'' = JStr why")
    case True
    then show ?thesis
      by (auto simp: request_json_def good_request_def require_exact_keys_def split: if_splits)
  next
    case False
    then have "\<not> request_json j r" for r
      by (auto simp: request_json_def)
    moreover have "validate_requests seen (j # js) \<noteq> None"
      using False by (auto simp: then_check_def split: json.split option.split)
    ultimately show ?thesis by blast
  qed
  have "list_all good_request (r # rs) \<and> distinct (map fst (r # rs)) \<and> set (map fst (r # rs)) \<inter> set seen = {}
      \<longleftrightarrow> good_request r \<and> fst r \<notin> set seen \<and> list_all good_request rs \<and> distinct (map fst rs)
        \<and> set (map fst rs) \<inter> set (fst r # seen) = {}" for r rs
    by auto
  then show ?case
    unfolding step Cons.IH list_all2_Cons1 by blast
qed

text \<open>The consistency rules leave exactly the three outcomes.\<close>

lemma consistency_ok:
  assumes "status \<in> {''final'', ''needs_context''}" "verdict \<in> {''correct'', ''wrong''}"
  shows "validate_consistency status verdict (crit = [] \<and> gaps = []) requests hints = None \<longleftrightarrow>
    (status = ''final'' \<and> verdict = ''correct'' \<and> crit = [] \<and> gaps = [] \<and> requests = [] \<and> hints = [])
    \<or> (status = ''final'' \<and> verdict = ''wrong'' \<and> (crit \<noteq> [] \<or> gaps \<noteq> []) \<and> requests = [] \<and> strip hints \<noteq> [])
    \<or> (status = ''needs_context'' \<and> verdict = ''wrong'' \<and> crit = [] \<and> gaps = [] \<and> requests \<noteq> [] \<and> hints = [])"
  using assms by (auto simp: validate_consistency_def)

lemma jget_or_null_Some: "jget_or_null d k = v \<Longrightarrow> v \<noteq> JNull \<Longrightarrow> jget d k = Some v"
  by (auto simp: jget_or_null_def split: option.splits)

lemma list_all2_pick: "list_all2 R xs ys \<Longrightarrow> list_all Q ys \<Longrightarrow> x \<in> set xs \<Longrightarrow> \<exists>y. R x y \<and> Q y"
  by (induction rule: list_all2_induct) auto

lemma anchored_line:
  "anchored (Some st) (Some pf) f \<Longrightarrow>
     f_line f \<in> {1..length (splitlines (if f_in_statement f then st else pf))}
     \<and> f_exact f = splitlines (if f_in_statement f then st else pf) ! (f_line f - 1)"
  by (auto simp: anchored_def)

lemma report_ok:
  "validate_report j st pf = None \<longleftrightarrow>
     (\<exists>r summary crit gaps fcrit fgaps. j = JObj r \<and> exact_keys r [''summary'', ''critical_errors'', ''gaps'']
        \<and> jget_or_null r ''summary'' = JStr summary
        \<and> jget_or_null r ''critical_errors'' = JArr crit \<and> list_all2 finding_json crit fcrit
        \<and> list_all (anchored st pf) fcrit
        \<and> jget_or_null r ''gaps'' = JArr gaps \<and> list_all2 finding_json gaps fgaps
        \<and> list_all (anchored st pf) fgaps)"
proof -
  have str: "(case v of JStr s \<Rightarrow> False | _ \<Rightarrow> True) \<longleftrightarrow> \<not> (\<exists>s. v = JStr s)" for v
    by (cases v) simp_all
  have "validate_report j st pf = None \<longleftrightarrow>
     (\<exists>r. j = JObj r \<and> exact_keys r [''summary'', ''critical_errors'', ''gaps'']
        \<and> (\<exists>s. jget_or_null r ''summary'' = JStr s)
        \<and> validate_findings st pf (jget_or_null r ''critical_errors'') = None
        \<and> validate_findings st pf (jget_or_null r ''gaps'') = None)"
    by (cases j) (simp_all add: validate_report_def require_exact_keys_def str)
  then show ?thesis
    unfolding findings_ok by (elim ssubst) iprover
qed

lemma tail_ok:
  "validate_tail p r status = None \<longleftrightarrow>
     (\<exists>verdict hints reqs. jget_or_null p ''verdict'' = JStr verdict \<and> verdict \<in> {''correct'', ''wrong''}
        \<and> jget_or_null p ''repair_hints'' = JStr hints
        \<and> jget_or_null p ''needs_expanded_proofs'' = JArr reqs
        \<and> validate_requests [] reqs = None
        \<and> validate_consistency status verdict
            (jarr_items (jget_or_null r ''critical_errors'') = [] \<and> jarr_items (jget_or_null r ''gaps'') = [])
            reqs hints = None)" (is "?lhs \<longleftrightarrow> ?rhs")
proof
  assume ?lhs
  then have v: "jget_or_null p ''verdict'' \<in> {JStr ''correct'', JStr ''wrong''}"
    by (auto simp: validate_tail_def Let_def split: if_splits)
  moreover obtain hints where h: "jget_or_null p ''repair_hints'' = JStr hints"
    using \<open>?lhs\<close> v by (cases "jget_or_null p ''repair_hints''") (auto simp: validate_tail_def)
  moreover obtain reqs where "jget_or_null p ''needs_expanded_proofs'' = JArr reqs"
    using \<open>?lhs\<close> v h by (cases "jget_or_null p ''needs_expanded_proofs''") (auto simp: validate_tail_def)
  ultimately show ?rhs
    using \<open>?lhs\<close> by (auto simp: validate_tail_def)
next
  assume ?rhs
  then show ?lhs by (auto simp: validate_tail_def)
qed

lemma payload_ok:
  "validate_payload j st pf = None \<longleftrightarrow>
     (\<exists>p r status. j = JObj p \<and> exact_keys p [''output_schema_version'', ''verification_status'',
              ''verification_report'', ''verdict'', ''needs_expanded_proofs'', ''repair_hints'']
        \<and> py_eq_int (jget_or_null p ''output_schema_version'') 3
        \<and> jget_or_null p ''verification_status'' = JStr status \<and> status \<in> {''final'', ''needs_context''}
        \<and> jget_or_null p ''verification_report'' = JObj r
        \<and> validate_report (JObj r) st pf = None \<and> validate_tail p r status = None)" (is "?lhs \<longleftrightarrow> ?rhs")
proof
  assume ?lhs
  then obtain p where p: "j = JObj p"
    by (cases j) (simp_all add: validate_payload_def)
  moreover obtain status where s: "jget_or_null p ''verification_status'' = JStr status"
    using \<open>?lhs\<close> p by (cases "jget_or_null p ''verification_status''") (auto simp: validate_payload_def split: if_splits)
  moreover obtain r where r: "jget_or_null p ''verification_report'' = JObj r"
    using \<open>?lhs\<close> p s
    by (cases "jget_or_null p ''verification_report''") (auto simp: validate_payload_def validate_report_def split: if_splits)
  ultimately show ?rhs
    using \<open>?lhs\<close>
    by (auto simp: validate_payload_def VERIFICATION_OUTPUT_PROTOCOL_VERSION_def require_exact_keys_def split: if_splits)
next
  assume ?rhs
  then show ?lhs
    by (auto simp: validate_payload_def VERIFICATION_OUTPUT_PROTOCOL_VERSION_def require_exact_keys_def)
qed

lemma outcome_of_fields:
  assumes "status \<in> {''final'', ''needs_context''}" "verdict \<in> {''correct'', ''wrong''}"
    and "validate_consistency status verdict (crit = [] \<and> gaps = []) requests hints = None"
    and "list_all2 finding_json crit fcrit" "list_all2 finding_json gaps fgaps"
    and "list_all (anchored st pf) fcrit" "list_all (anchored st pf) fgaps"
    and "list_all2 request_json requests rs" "distinct (map fst rs)" "list_all good_request rs"
  shows "\<exists>o'. outcome_fields o' = (status, verdict, fcrit, fgaps, rs, hints) \<and> wf_outcome st pf o'"
proof -
  consider (ok) "status = ''final''" "verdict = ''correct''" "crit = []" "gaps = []" "requests = []" "hints = []"
    | (bad) "status = ''final''" "verdict = ''wrong''" "crit \<noteq> [] \<or> gaps \<noteq> []" "requests = []" "strip hints \<noteq> []"
    | (more) "status = ''needs_context''" "verdict = ''wrong''" "crit = []" "gaps = []" "requests \<noteq> []" "hints = []"
    using assms(3) unfolding consistency_ok[OF assms(1,2)] by blast
  then show ?thesis
  proof cases
    case ok
    then show ?thesis using assms(4-) by (intro exI[of _ Correct]) (simp add: outcome_fields_def wf_outcome_def)
  next
    case bad
    then show ?thesis using assms(4-)
      by (intro exI[of _ "Wrong fcrit fgaps hints"]) (auto simp: outcome_fields_def wf_outcome_def)
  next
    case more
    then show ?thesis using assms(4-)
      by (intro exI[of _ "NeedsContext rs"]) (auto simp: outcome_fields_def wf_outcome_def)
  qed
qed

lemma fields_of_outcome:
  assumes "outcome_fields o' = (status, verdict, fcrit, fgaps, rs, hints)" "wf_outcome st pf o'"
    and "list_all2 finding_json crit fcrit" "list_all2 finding_json gaps fgaps" "list_all2 request_json requests rs"
  shows "status \<in> {''final'', ''needs_context''} \<and> verdict \<in> {''correct'', ''wrong''}
    \<and> validate_consistency status verdict (crit = [] \<and> gaps = []) requests hints = None
    \<and> list_all (anchored st pf) fcrit \<and> list_all (anchored st pf) fgaps
    \<and> distinct (map fst rs) \<and> list_all good_request rs"
  using assms
  by (cases o') (auto simp: outcome_fields_def wf_outcome_def validate_consistency_def)

lemma payload_represents:
  "validate_payload j st pf = None \<longleftrightarrow> (\<exists>o'. wf_outcome st pf o' \<and> represents j o')" (is "?lhs \<longleftrightarrow> ?rhs")
proof
  assume ?lhs
  then obtain p r status where p: "j = JObj p" "exact_keys p [''output_schema_version'', ''verification_status'',
              ''verification_report'', ''verdict'', ''needs_expanded_proofs'', ''repair_hints'']"
      "py_eq_int (jget_or_null p ''output_schema_version'') 3"
      "jget_or_null p ''verification_status'' = JStr status" "status \<in> {''final'', ''needs_context''}"
      "jget_or_null p ''verification_report'' = JObj r"
    and rep: "validate_report (JObj r) st pf = None" and tail: "validate_tail p r status = None"
    unfolding payload_ok by blast
  from rep obtain summary crit gaps fcrit fgaps where
    r: "exact_keys r [''summary'', ''critical_errors'', ''gaps'']" "jget_or_null r ''summary'' = JStr summary"
      "jget_or_null r ''critical_errors'' = JArr crit" "jget_or_null r ''gaps'' = JArr gaps"
    and f: "list_all2 finding_json crit fcrit" "list_all2 finding_json gaps fgaps"
      "list_all (anchored st pf) fcrit" "list_all (anchored st pf) fgaps"
    unfolding report_ok by blast
  from tail r obtain verdict hints reqs where
    t: "jget_or_null p ''verdict'' = JStr verdict" "verdict \<in> {''correct'', ''wrong''}"
      "jget_or_null p ''repair_hints'' = JStr hints" "jget_or_null p ''needs_expanded_proofs'' = JArr reqs"
    and c: "validate_consistency status verdict (crit = [] \<and> gaps = []) reqs hints = None"
    and q: "validate_requests [] reqs = None"
    unfolding tail_ok by (auto simp: jarr_items_def)
  from q obtain rs where rs: "list_all2 request_json reqs rs" "distinct (map fst rs)" "list_all good_request rs"
    unfolding requests_ok by auto
  from outcome_of_fields[OF p(5) t(2) c f rs] obtain o' where
    "outcome_fields o' = (status, verdict, fcrit, fgaps, rs, hints)" "wf_outcome st pf o'" by blast
  with p r f t rs show ?rhs
    unfolding represents_def
    by (intro exI[of _ o'] conjI exI[of _ p] exI[of _ r] exI[of _ summary] exI[of _ crit] exI[of _ gaps] exI[of _ reqs])
      simp_all
next
  assume ?rhs
  then obtain o' where wf: "wf_outcome st pf o'" and rep: "represents j o'" by blast
  obtain status verdict fcrit fgaps rs hints where
    o: "outcome_fields o' = (status, verdict, fcrit, fgaps, rs, hints)"
    by (cases "outcome_fields o'") auto
  with rep obtain p r summary crit gaps reqs where j: "j = JObj p" "exact_keys p [''output_schema_version'',
        ''verification_status'', ''verification_report'', ''verdict'', ''needs_expanded_proofs'', ''repair_hints'']"
      "py_eq_int (jget_or_null p ''output_schema_version'') 3"
      "jget_or_null p ''verification_status'' = JStr status" "jget_or_null p ''verification_report'' = JObj r"
    and r: "exact_keys r [''summary'', ''critical_errors'', ''gaps'']" "jget_or_null r ''summary'' = JStr summary"
      "jget_or_null r ''critical_errors'' = JArr crit" "jget_or_null r ''gaps'' = JArr gaps"
    and t: "jget_or_null p ''verdict'' = JStr verdict" "jget_or_null p ''needs_expanded_proofs'' = JArr reqs"
      "jget_or_null p ''repair_hints'' = JStr hints"
    and l: "list_all2 finding_json crit fcrit" "list_all2 finding_json gaps fgaps" "list_all2 request_json reqs rs"
    unfolding represents_def by auto
  note fields = fields_of_outcome[OF o wf l]
  have "validate_report (JObj r) st pf = None"
    unfolding report_ok using r l fields by blast
  moreover have "validate_requests [] reqs = None"
    unfolding requests_ok using l fields by auto
  then have "validate_tail p r status = None"
    unfolding tail_ok using t r fields by (simp add: jarr_items_def)
  ultimately show ?lhs
    unfolding payload_ok using j fields by blast
qed


text \<open>Property C36. The validator accepts a payload, and returns it unchanged, exactly when the payload
  represents a well-formed outcome of the protocol: correct; wrong with at least one finding and repair hints,
  every finding quoting verbatim an existing line of the statement or of the proof; or a non-empty request
  for context with distinct ids and reasons.\<close>

theorem validator_exact:
  "validate_verification_output j st pf = Inr q \<longleftrightarrow> q = j \<and> (\<exists>o'. wf_outcome st pf o' \<and> represents j o')"
  unfolding payload_represents[symmetric]
  by (auto simp: validate_verification_output_def split: option.splits)

text \<open>Property C37. The gate: whatever the agent wrote, an accepted payload whose verdict is correct is
  final, reports no critical error and no gap, asks for no further proof and carries no repair hint.\<close>

theorem correct_verdict_clean:
  assumes "validate_verification_output (JObj p) st pf = Inr q" and "jget p ''verdict'' = Some (JStr ''correct'')"
  shows "\<exists>r. jget p ''verification_report'' = Some (JObj r) \<and> jget p ''verification_status'' = Some (JStr ''final'')
    \<and> jget r ''critical_errors'' = Some (JArr []) \<and> jget r ''gaps'' = Some (JArr [])
    \<and> jget p ''needs_expanded_proofs'' = Some (JArr []) \<and> jget p ''repair_hints'' = Some (JStr [])"
proof -
  have "validate_payload (JObj p) st pf = None"
    using assms(1) by (auto simp: validate_verification_output_def split: option.splits)
  then obtain o' where rep: "represents (JObj p) o'"
    unfolding payload_represents by blast
  have v: "jget_or_null p ''verdict'' = JStr ''correct''"
    using assms(2) by (simp add: jget_or_null_def)
  from rep v have "o' = Correct"
    by (cases o') (auto simp: represents_def outcome_fields_def)
  with rep show ?thesis
    by (auto simp: represents_def outcome_fields_def intro!: jget_or_null_Some)
qed

definition clean_report :: jobj where
  "clean_report = [(''summary'', JStr ''ok''), (''critical_errors'', JArr []), (''gaps'', JArr [])]"

definition clean_payload :: jobj where
  "clean_payload = [(''output_schema_version'', JInt 3), (''verification_status'', JStr ''final''),
     (''verification_report'', JObj clean_report), (''verdict'', JStr ''correct''),
     (''needs_expanded_proofs'', JArr []), (''repair_hints'', JStr [])]"

theorem correct_verdict_clean_witness:
  "validate_verification_output (JObj clean_payload) (Some ''S'') (Some ''P'') = Inr (JObj clean_payload)
   \<and> jget clean_payload ''verdict'' = Some (JStr ''correct'')
   \<and> (\<exists>r. jget clean_payload ''verification_report'' = Some (JObj r) \<and> jget r ''gaps'' = Some (JArr []))"
proof -
  have "validate_verification_output (JObj clean_payload) (Some ''S'') (Some ''P'') = Inr (JObj clean_payload)"
    by code_simp
  moreover have "jget clean_payload ''verdict'' = Some (JStr ''correct'')"
    by (simp add: clean_payload_def)
  ultimately show ?thesis
    using correct_verdict_clean by blast
qed

text \<open>A rejection names a finding: a final verdict of wrong that passes the validator has at
  least one critical error or gap, and every one of them names a line that exists in the submitted
  statement or proof and repeats that line verbatim.\<close>

theorem wrong_verdict_grounded:
  assumes "validate_verification_output (JObj p) (Some st) (Some pf) = Inr q"
    and "jget p ''verdict'' = Some (JStr ''wrong'')" and "jget p ''verification_status'' = Some (JStr ''final'')"
  shows "\<exists>r crit gaps. jget p ''verification_report'' = Some (JObj r) \<and> jget r ''critical_errors'' = Some (JArr crit)
    \<and> jget r ''gaps'' = Some (JArr gaps) \<and> crit @ gaps \<noteq> []
    \<and> (\<forall>j \<in> set (crit @ gaps). \<exists>f. finding_json j f
         \<and> f_line f \<in> {1..length (splitlines (if f_in_statement f then st else pf))}
         \<and> f_exact f = splitlines (if f_in_statement f then st else pf) ! (f_line f - 1))"
proof -
  have "validate_payload (JObj p) (Some st) (Some pf) = None"
    using assms(1) by (auto simp: validate_verification_output_def split: option.splits)
  then obtain o' where wf: "wf_outcome (Some st) (Some pf) o'" and rep: "represents (JObj p) o'"
    unfolding payload_represents by blast
  have v: "jget_or_null p ''verdict'' = JStr ''wrong''" "jget_or_null p ''verification_status'' = JStr ''final''"
    using assms(2,3) by (simp_all add: jget_or_null_def)
  from rep v obtain fcrit fgaps hints where o: "o' = Wrong fcrit fgaps hints"
    by (cases o') (auto simp: represents_def outcome_fields_def)
  from rep o obtain r crit gaps where r: "jget_or_null p ''verification_report'' = JObj r"
      "jget_or_null r ''critical_errors'' = JArr crit" "jget_or_null r ''gaps'' = JArr gaps"
    and l': "list_all2 finding_json crit fcrit" "list_all2 finding_json gaps fgaps"
    by (auto simp: represents_def outcome_fields_def)
  note l = list_all2_appendI[OF l'] and r' = r[THEN jget_or_null_Some, simplified]
  from wf o have a: "list_all (anchored (Some st) (Some pf)) (fcrit @ fgaps)" "fcrit @ fgaps \<noteq> []"
    by (simp_all add: wf_outcome_def)
  have "\<forall>j \<in> set (crit @ gaps). \<exists>f. finding_json j f
         \<and> f_line f \<in> {1..length (splitlines (if f_in_statement f then st else pf))}
         \<and> f_exact f = splitlines (if f_in_statement f then st else pf) ! (f_line f - 1)"
    using list_all2_pick[OF l a(1)] anchored_line by (intro ballI) fast
  moreover have "crit @ gaps \<noteq> []"
    using l a(2) by auto
  ultimately show ?thesis
    using r' by blast
qed

definition wrong_payload :: jobj where
  "wrong_payload = [(''output_schema_version'', JInt 3), (''verification_status'', JStr ''final''),
     (''verification_report'', JObj [(''summary'', JStr ''bad''), (''critical_errors'', JArr [JObj
        [(''location'', JStr ''p''), (''issue'', JStr ''x''), (''candidate_evidence'', JObj
          [(''source'', JStr ''proof''), (''line'', JInt 1), (''exact_line'', JStr ''P'')])]]),
        (''gaps'', JArr [])]), (''verdict'', JStr ''wrong''),
     (''needs_expanded_proofs'', JArr []), (''repair_hints'', JStr ''fix'')]"

theorem wrong_verdict_grounded_witness:
  "validate_verification_output (JObj wrong_payload) (Some ''S'') (Some ''P'') = Inr (JObj wrong_payload)
   \<and> (\<exists>r crit gaps. jget wrong_payload ''verification_report'' = Some (JObj r)
        \<and> jget r ''critical_errors'' = Some (JArr crit) \<and> jget r ''gaps'' = Some (JArr gaps) \<and> crit @ gaps \<noteq> [])"
proof -
  have "validate_verification_output (JObj wrong_payload) (Some ''S'') (Some ''P'') = Inr (JObj wrong_payload)"
    by code_simp
  moreover have "jget wrong_payload ''verdict'' = Some (JStr ''wrong'')"
    "jget wrong_payload ''verification_status'' = Some (JStr ''final'')"
    by (simp_all add: wrong_payload_def)
  ultimately show ?thesis
    using wrong_verdict_grounded by blast
qed

end
