(* ===== verification/Schema.thy ===== *)
theory Schema
  imports Json Sha256
begin

text \<open>
  The schemas of the core data structures and the content address of a fact (\<open>danus/core/schema.py\<close>): the
  kinds of global memory, the advisor checkpoint, the consult provenance receipt, external references, the
  fact node, \<open>compute_fact_id\<close> and \<open>compute_fact_identity\<close>. The digest is the argument \<open>H\<close>.
\<close>

section \<open>Kinds and statuses\<close>

definition GLOBAL_KINDS :: "(string \<times> bool) list" where
  "GLOBAL_KINDS = [
     (''conclusion'', True), (''example'', True), (''counterexample'', True), (''proof_attempt'', True),
     (''plan'', False), (''dead_end'', False), (''direction'', False), (''obstacle'', False),
     (''master_guidance'', False), (''verification'', False), (''elaboration'', False),
     (''advisor_checkpoint'', False)]"

definition STATUSES :: "string list" where
  "STATUSES = [''unverified'', ''verifying'', ''verified'', ''refuted'', ''open'', ''supported'', ''challenged'']"

datatype schema_error =
    ClaimEmpty | ClaimTooLong | EvidenceEmpty | EvidenceTooLong | SectionNotOnce | SectionsOutOfOrder
  | SectionEmpty string | LinksNotObject | UnsupportedLinks | FactIdsNotList | TooManyFactIds
  | DuplicateFactIds | InvalidFactId | Unhashable
  | ProvenanceNotObject | UnknownFields | MissingFields | BadProvenanceVersion | BadTransport | BadBilling
  | CheckpointInSchema1 | Schema2NotBrowser | MissingCheckpoint
  | BadText string | TextTooLong string | BadHash string | BadCount string
  | BadCheckpointId | BadCheckpointHash | BadCheckpointBytes | BadCost | CostOverflow
  | NoRecommendationBinding | BadBrowserTelemetry | MissingReceipt | ForeignRecommendation
  | NotIterable

section \<open>The advisor checkpoint\<close>

definition ADVISOR_CHECKPOINT_MAX_BYTES :: nat where "ADVISOR_CHECKPOINT_MAX_BYTES = 16 * 1024"
definition ADVISOR_CHECKPOINT_MAX_FACT_IDS :: nat where "ADVISOR_CHECKPOINT_MAX_FACT_IDS = 12"

definition ADVISOR_CHECKPOINT_HEADINGS :: "string list" where
  "ADVISOR_CHECKPOINT_HEADINGS = [''## Verified facts'', ''## Failed routes and evidence'',
     ''## Unresolved bottleneck'', ''## Candidate decision question'']"

text \<open>Members of a Python set: lists and dictionaries are not hashable, and numbers of different types
  are one member when they are equal.\<close>

definition hashable :: "json \<Rightarrow> bool" where
  "hashable v = (case v of JArr _ \<Rightarrow> False | JObj _ \<Rightarrow> False | _ \<Rightarrow> True)"

definition py_eq_scalar :: "json \<Rightarrow> json \<Rightarrow> bool" where
  "py_eq_scalar a b =
     (case a of
        JInt n \<Rightarrow> py_eq_int b n
      | JBool x \<Rightarrow> py_eq_int b (if x then 1 else 0)
      | JFloat t \<Rightarrow>
          (case b of
             JInt n \<Rightarrow> py_eq_int a n
           | JBool x \<Rightarrow> py_eq_int a (if x then 1 else 0)
           | JFloat u \<Rightarrow> t = u \<or> {t, u} \<subseteq> {''0.0'', ''-0.0''}
           | _ \<Rightarrow> False)
      | _ \<Rightarrow> a = b)"

fun no_py_duplicates :: "json list \<Rightarrow> bool" where
  "no_py_duplicates [] = True"
| "no_py_duplicates (x # xs) = (list_all (\<lambda>y. \<not> py_eq_scalar x y) xs \<and> no_py_duplicates xs)"

definition is_fact_id :: "json \<Rightarrow> bool" where
  "is_fact_id v = (case v of JStr s \<Rightarrow> is_hex16 s | _ \<Rightarrow> False)"

text \<open>\<open>evidence[start:end]\<close>.\<close>

definition text_slice :: "nat \<Rightarrow> nat \<Rightarrow> string \<Rightarrow> string" where
  "text_slice i j s = take (j - i) (drop i s)"

fun heading_offsets :: "string \<Rightarrow> string list \<Rightarrow> nat list option" where
  "heading_offsets ev [] = Some []"
| "heading_offsets ev (h # hs) =
     (if count_sub h ev \<noteq> 1 then None
      else (case (find_sub h ev, heading_offsets ev hs) of
              (Some i, Some is) \<Rightarrow> Some (i # is)
            | _ \<Rightarrow> None))"

fun check_sections :: "string \<Rightarrow> (string \<times> nat) list \<Rightarrow> schema_error option" where
  "check_sections ev [] = None"
| "check_sections ev [(h, i)] =
     fail_if (strip (text_slice (i + length h) (length ev) ev) = []) (SectionEmpty h)"
| "check_sections ev ((h, i) # (h', j) # r) =
     then_check (fail_if (strip (text_slice (i + length h) j ev) = []) (SectionEmpty h))
       (check_sections ev ((h', j) # r))"

definition check_evidence :: "string \<Rightarrow> schema_error option" where
  "check_evidence ev =
     (case heading_offsets ev ADVISOR_CHECKPOINT_HEADINGS of
        None \<Rightarrow> Some SectionNotOnce
      | Some offsets \<Rightarrow>
          if \<not> sorted offsets then Some SectionsOutOfOrder
          else check_sections ev (zip ADVISOR_CHECKPOINT_HEADINGS offsets))"

definition check_fact_ids :: "json \<Rightarrow> schema_error option" where
  "check_fact_ids v =
     (case v of
        JArr ids \<Rightarrow>
          if length ids > ADVISOR_CHECKPOINT_MAX_FACT_IDS then Some TooManyFactIds
          else if \<not> list_all hashable ids then Some Unhashable
          else if \<not> no_py_duplicates ids then Some DuplicateFactIds
          else if \<not> list_all is_fact_id ids then Some InvalidFactId
          else None
      | _ \<Rightarrow> Some FactIdsNotList)"

definition check_links :: "json \<Rightarrow> schema_error option" where
  "check_links links =
     (case links of
        JObj ls \<Rightarrow>
          if \<not> set (keys ls) \<subseteq> {''fact_ids'', ''recommendation_id''} then Some UnsupportedLinks
          else check_fact_ids (jget_or_null ls ''fact_ids'')
      | _ \<Rightarrow> Some LinksNotObject)"

definition validate_advisor_checkpoint :: "json \<Rightarrow> json \<Rightarrow> json \<Rightarrow> schema_error option" where
  "validate_advisor_checkpoint claim evidence links =
     (case claim of
        JStr c \<Rightarrow>
          if strip c = [] then Some ClaimEmpty
          else if utf8_len c > 512 then Some ClaimTooLong
          else (case evidence of
                  JStr ev \<Rightarrow>
                    if strip ev = [] then Some EvidenceEmpty
                    else if utf8_len ev > ADVISOR_CHECKPOINT_MAX_BYTES then Some EvidenceTooLong
                    else then_check (check_evidence ev) (check_links links)
                | _ \<Rightarrow> Some EvidenceEmpty)
      | _ \<Rightarrow> Some ClaimEmpty)"

section \<open>Consult provenance\<close>

definition CONSULT_CHECKPOINT_FIELDS :: "string list" where
  "CONSULT_CHECKPOINT_FIELDS = [''checkpoint_id'', ''checkpoint_sha256'', ''checkpoint_bytes'']"

definition CONSULT_PROVENANCE_FIELDS :: "string list" where
  "CONSULT_PROVENANCE_FIELDS = [''schema_version'', ''transport'', ''request_id'', ''elaboration_id'', ''context_id'',
     ''recommendation_id'', ''binding_sha256'', ''receipt_sha256'', ''prompt_sha256'', ''reply_sha256'',
     ''adopted_strategy_sha256'', ''trust'', ''billing_basis'', ''model'', ''ui_mode'', ''input_tokens'',
     ''output_tokens'', ''cost_usd'', ''checkpoint_id'', ''checkpoint_sha256'', ''checkpoint_bytes'']"

definition CONSULT_REQUIRED_FIELDS :: "string list" where
  "CONSULT_REQUIRED_FIELDS = [''schema_version'', ''transport'', ''trust'', ''billing_basis'', ''model'', ''ui_mode'',
     ''input_tokens'', ''output_tokens'', ''cost_usd'']"

definition CONSULT_CHECKPOINT_MAX_BYTES :: int where "CONSULT_CHECKPOINT_MAX_BYTES = 32 * 1024"

definition CONSULT_TRANSPORTS :: "string list" where
  "CONSULT_TRANSPORTS = [''gpt_pro'', ''claude_api'', ''claude_code'', ''chatgpt_pro_browser'', ''off'']"

definition CONSULT_BILLING_BASES :: "string list" where
  "CONSULT_BILLING_BASES = [''metered_api'', ''subscription'', ''subscription_estimate'', ''disabled'']"

definition optional_text :: "jobj \<Rightarrow> string \<Rightarrow> schema_error + string option" where
  "optional_text value name =
     (case jget_or_null value name of
        JNull \<Rightarrow> Inr None
      | JStr s \<Rightarrow> if s = [] then Inl (BadText name) else if utf8_len s > 512 then Inl (TextTooLong name) else Inr (Some s)
      | _ \<Rightarrow> Inl (BadText name))"

definition optional_hash :: "jobj \<Rightarrow> string \<Rightarrow> schema_error + string option" where
  "optional_hash value name =
     (case jget_or_null value name of
        JNull \<Rightarrow> Inr None
      | JStr s \<Rightarrow> if is_hex64 s then Inr (Some s) else Inl (BadHash name)
      | _ \<Rightarrow> Inl (BadHash name))"

definition optional_count :: "jobj \<Rightarrow> string \<Rightarrow> schema_error + int option" where
  "optional_count value name =
     (case jget_or_null value name of
        JNull \<Rightarrow> Inr None
      | JInt n \<Rightarrow> if n < 0 then Inl (BadCount name) else Inr (Some n)
      | _ \<Rightarrow> Inl (BadCount name))"

definition err_of :: "schema_error + 'a \<Rightarrow> schema_error option" where
  "err_of r = (case r of Inl e \<Rightarrow> Some e | Inr _ \<Rightarrow> None)"

definition val_of :: "schema_error + 'a option \<Rightarrow> 'a option" where
  "val_of r = (case r of Inl e \<Rightarrow> None | Inr v \<Rightarrow> v)"

text \<open>Membership of a set of strings: an unhashable value raises \<open>TypeError\<close>.\<close>

definition check_member :: "json \<Rightarrow> string list \<Rightarrow> schema_error \<Rightarrow> schema_error option" where
  "check_member v names e =
     (if \<not> hashable v then Some Unhashable
      else case v of JStr s \<Rightarrow> fail_if (s \<notin> set names) e | _ \<Rightarrow> Some e)"

definition check_fields :: "jobj \<Rightarrow> schema_error option" where
  "check_fields value =
     then_check (fail_if (\<not> set (keys value) \<subseteq> set CONSULT_PROVENANCE_FIELDS) UnknownFields)
       (fail_if (\<not> set CONSULT_REQUIRED_FIELDS \<subseteq> set (keys value)) MissingFields)"

definition check_version :: "jobj \<Rightarrow> schema_error option" where
  "check_version value =
     (let v = jget_or_null value ''schema_version'' in
      then_check (fail_if (\<not> (py_eq_int v 1 \<or> py_eq_int v 2)) BadProvenanceVersion)
     (then_check (check_member (jget_or_null value ''transport'') CONSULT_TRANSPORTS BadTransport)
     (then_check (check_member (jget_or_null value ''billing_basis'') CONSULT_BILLING_BASES BadBilling)
     (then_check (fail_if (py_eq_int v 1 \<and> set CONSULT_CHECKPOINT_FIELDS \<inter> set (keys value) \<noteq> {}) CheckpointInSchema1)
     (then_check (fail_if (py_eq_int v 2 \<and> jget_or_null value ''transport'' \<noteq> JStr ''chatgpt_pro_browser'') Schema2NotBrowser)
       (fail_if (py_eq_int v 2 \<and> \<not> set CONSULT_CHECKPOINT_FIELDS \<subseteq> set (keys value)) MissingCheckpoint))))))"

definition check_optionals :: "jobj \<Rightarrow> schema_error option" where
  "check_optionals value = first_error
     [err_of (optional_text value ''request_id''), err_of (optional_text value ''elaboration_id''),
      err_of (optional_text value ''context_id''), err_of (optional_text value ''recommendation_id''),
      err_of (optional_hash value ''binding_sha256''), err_of (optional_hash value ''receipt_sha256''),
      err_of (optional_text value ''model''), err_of (optional_text value ''ui_mode''),
      err_of (optional_text value ''trust''), err_of (optional_hash value ''prompt_sha256''),
      err_of (optional_hash value ''reply_sha256''), err_of (optional_hash value ''adopted_strategy_sha256''),
      err_of (optional_count value ''input_tokens''), err_of (optional_count value ''output_tokens'')]"

definition check_checkpoint :: "jobj \<Rightarrow> schema_error option" where
  "check_checkpoint value =
     then_check (fail_if (\<not> is_fact_id (jget_or_null value ''checkpoint_id'')) BadCheckpointId)
     (then_check (fail_if (case jget_or_null value ''checkpoint_sha256'' of JStr s \<Rightarrow> \<not> is_hex64 s | _ \<Rightarrow> True) BadCheckpointHash)
       (fail_if (case jget_or_null value ''checkpoint_bytes'' of
                   JInt n \<Rightarrow> n \<le> 0 \<or> n > CONSULT_CHECKPOINT_MAX_BYTES | _ \<Rightarrow> True) BadCheckpointBytes))"

text \<open>\<open>float(cost)\<close>: \<open>to_float\<close> gives the text of the float nearest an integer, or \<open>None\<close> where the
  conversion raises \<open>OverflowError\<close>.\<close>

definition float_negative :: "string \<Rightarrow> bool" where
  "float_negative t \<longleftrightarrow> t \<noteq> [] \<and> hd t = CHR ''-'' \<and> t \<noteq> ''-0.0''"

definition clean_cost :: "(int \<Rightarrow> string option) \<Rightarrow> json \<Rightarrow> schema_error + json" where
  "clean_cost to_float cost =
     (let ok = (\<lambda>t. if \<not> json_finite_float t \<or> float_negative t then Inl BadCost else Inr (JFloat t)) in
      case cost of
        JNull \<Rightarrow> Inr JNull
      | JInt n \<Rightarrow> (case to_float n of None \<Rightarrow> Inl CostOverflow | Some t \<Rightarrow> ok t)
      | JFloat t \<Rightarrow> ok t
      | _ \<Rightarrow> Inl BadCost)"

abbreviation opt_text_json :: "string option \<Rightarrow> json" where
  "opt_text_json o' \<equiv> (case o' of None \<Rightarrow> JNull | Some s \<Rightarrow> JStr s)"

abbreviation opt_count_json :: "int option \<Rightarrow> json" where
  "opt_count_json o' \<equiv> (case o' of None \<Rightarrow> JNull | Some n \<Rightarrow> JInt n)"

definition check_transport :: "jobj \<Rightarrow> schema_error option" where
  "check_transport value =
     (if jget_or_null value ''transport'' = JStr ''chatgpt_pro_browser'' then
        then_check (fail_if (\<not> has_key value ''recommendation_id'') NoRecommendationBinding)
        (then_check (fail_if (jget_or_null value ''trust'' \<noteq> JStr ''adopted_strategy''
             \<or> jget_or_null value ''billing_basis'' \<noteq> JStr ''subscription''
             \<or> jget_or_null value ''model'' \<noteq> JNull \<or> jget_or_null value ''ui_mode'' \<noteq> JStr ''Pro''
             \<or> jget_or_null value ''input_tokens'' \<noteq> JNull \<or> jget_or_null value ''output_tokens'' \<noteq> JNull
             \<or> jget_or_null value ''cost_usd'' \<noteq> JNull) BadBrowserTelemetry)
          (fail_if (\<not> list_all (\<lambda>k. jget_or_null value k \<noteq> JNull)
             [''request_id'', ''context_id'', ''binding_sha256'', ''receipt_sha256'', ''prompt_sha256'',
              ''reply_sha256'', ''adopted_strategy_sha256'']) MissingReceipt))
      else fail_if (jget_or_null value ''recommendation_id'' \<noteq> JNull) ForeignRecommendation)"

definition cleaned_provenance :: "jobj \<Rightarrow> json \<Rightarrow> jobj" where
  "cleaned_provenance value cost =
     [(''schema_version'', jget_or_null value ''schema_version''), (''transport'', jget_or_null value ''transport''),
      (''request_id'', opt_text_json (val_of (optional_text value ''request_id''))),
      (''elaboration_id'', opt_text_json (val_of (optional_text value ''elaboration_id''))),
      (''context_id'', opt_text_json (val_of (optional_text value ''context_id''))),
      (''recommendation_id'', opt_text_json (val_of (optional_text value ''recommendation_id''))),
      (''binding_sha256'', opt_text_json (val_of (optional_hash value ''binding_sha256''))),
      (''receipt_sha256'', opt_text_json (val_of (optional_hash value ''receipt_sha256''))),
      (''prompt_sha256'', opt_text_json (val_of (optional_hash value ''prompt_sha256''))),
      (''reply_sha256'', opt_text_json (val_of (optional_hash value ''reply_sha256''))),
      (''adopted_strategy_sha256'', opt_text_json (val_of (optional_hash value ''adopted_strategy_sha256''))),
      (''trust'', opt_text_json (val_of (optional_text value ''trust''))),
      (''billing_basis'', jget_or_null value ''billing_basis''),
      (''model'', opt_text_json (val_of (optional_text value ''model''))),
      (''ui_mode'', opt_text_json (val_of (optional_text value ''ui_mode''))),
      (''input_tokens'', opt_count_json (val_of (optional_count value ''input_tokens''))),
      (''output_tokens'', opt_count_json (val_of (optional_count value ''output_tokens''))),
      (''cost_usd'', cost)] @
     (if py_eq_int (jget_or_null value ''schema_version'') 2
      then [(''checkpoint_id'', jget_or_null value ''checkpoint_id''),
            (''checkpoint_sha256'', jget_or_null value ''checkpoint_sha256''),
            (''checkpoint_bytes'', jget_or_null value ''checkpoint_bytes'')]
      else [])"

definition clean_consult_provenance :: "(int \<Rightarrow> string option) \<Rightarrow> json \<Rightarrow> schema_error + jobj" where
  "clean_consult_provenance to_float v =
     (case v of
        JObj value \<Rightarrow>
          (case then_check (check_fields value) (then_check (check_version value) (then_check (check_optionals value)
             (if py_eq_int (jget_or_null value ''schema_version'') 2 then check_checkpoint value else None))) of
             Some e \<Rightarrow> Inl e
           | None \<Rightarrow>
               (case clean_cost to_float (jget_or_null value ''cost_usd'') of
                  Inl e \<Rightarrow> Inl e
                | Inr cost \<Rightarrow>
                    (case check_transport value of
                       Some e \<Rightarrow> Inl e
                     | None \<Rightarrow> Inr (cleaned_provenance value cost))))
      | _ \<Rightarrow> Inl ProvenanceNotObject)"

section \<open>External references\<close>

definition EXTERNAL_REF_KEYS :: "string list" where
  "EXTERNAL_REF_KEYS = [''key'', ''authors'', ''title'', ''arxiv'', ''year'', ''venue'', ''doi'', ''cited_for'']"

definition order_ref :: "jobj \<Rightarrow> jobj" where
  "order_ref r =
     (let known = filter (\<lambda>k. has_key r k) EXTERNAL_REF_KEYS;
          extra = filter (\<lambda>k. k \<notin> set known) (sort (keys r))
      in map (\<lambda>k. (k, jget_or_null r k)) (known @ extra))"

definition ref_objects :: "json list \<Rightarrow> jobj list" where
  "ref_objects xs = concat (map (\<lambda>x. case x of JObj r \<Rightarrow> [r] | _ \<Rightarrow> []) xs)"

text \<open>A falsy payload is empty; iterating a string or a dictionary yields strings, which are dropped; any
  other truthy value is not iterable and raises \<open>TypeError\<close>.\<close>

definition clean_external_refs :: "json \<Rightarrow> schema_error + jobj list" where
  "clean_external_refs refs =
     (if \<not> truthy refs then Inr []
      else (case refs of
              JArr xs \<Rightarrow> Inr (map order_ref (ref_objects xs))
            | JStr s \<Rightarrow> Inr []
            | JObj d \<Rightarrow> Inr []
            | _ \<Rightarrow> Inl NotIterable))"

section \<open>The fact node and its content address\<close>

record fact =
  fact_id :: string
  problem_id :: string
  author :: string
  predecessors :: "string list"
  statement :: string
  proof_text :: string
  glossary_introduces :: "string dict"
  intuition :: string
  fact_identity :: string
  external_refs :: "jobj list"

definition normalize :: "string \<Rightarrow> string" where
  "normalize text = strip (collapse_ws text)"

definition str_dict :: "string dict \<Rightarrow> json" where
  "str_dict d = JObj (map (\<lambda>(k, v). (k, JStr v)) d)"

definition str_list :: "string list \<Rightarrow> json" where
  "str_list xs = JArr (map JStr xs)"

definition fact_id_body :: "string \<Rightarrow> string list \<Rightarrow> string dict \<Rightarrow> string \<Rightarrow> string \<Rightarrow> json" where
  "fact_id_body pid preds gloss stmt prf = JObj [
     (''problem_id'', JStr pid), (''predecessors'', str_list (sort preds)),
     (''glossary_introduces'', str_dict (sorted_items gloss)),
     (''statement'', JStr (normalize stmt)), (''proof'', JStr (normalize prf))]"

definition compute_fact_id ::
    "(string \<Rightarrow> string) \<Rightarrow> string \<Rightarrow> string list \<Rightarrow> string dict \<Rightarrow> string \<Rightarrow> string \<Rightarrow> string" where
  "compute_fact_id H pid preds gloss stmt prf =
     take 16 (H (utf8_encode (dumps_sorted plain_fmt (fact_id_body pid preds gloss stmt prf))))"

definition FACT_IDENTITY_SCHEMA :: string where
  "FACT_IDENTITY_SCHEMA = ''danus.fact-identity.v1''"

definition normalized_dict :: "string dict \<Rightarrow> json" where
  "normalized_dict d = str_dict (map (\<lambda>(k, v). (k, normalize v)) (sorted_items d))"

definition fact_identity_body ::
    "string \<Rightarrow> string list \<Rightarrow> string dict \<Rightarrow> string \<Rightarrow> string \<Rightarrow> json \<Rightarrow> string dict \<Rightarrow> json" where
  "fact_identity_body pid preds gloss stmt prf ctx gb = JObj [
     (''schema'', JStr FACT_IDENTITY_SCHEMA), (''problem_id'', JStr pid),
     (''predecessors'', str_list (sort preds)), (''definitions'', normalized_dict gloss),
     (''statement'', JStr (normalize stmt)), (''proof'', JStr (normalize prf)),
     (''context_bindings'', ctx), (''glossary_bindings'', normalized_dict gb)]"

text \<open>\<open>allow_nan=False\<close>: a non-finite float in the bindings raises.\<close>

definition compute_fact_identity ::
    "(string \<Rightarrow> string) \<Rightarrow> string \<Rightarrow> string list \<Rightarrow> string dict \<Rightarrow> string \<Rightarrow> string \<Rightarrow> json \<Rightarrow> string dict \<Rightarrow> string option" where
  "compute_fact_identity H pid preds gloss stmt prf ctx gb =
     (let body = fact_identity_body pid preds gloss stmt prf ctx gb in
      if all_finite body then Some (H (utf8_encode (dumps_sorted compact_fmt body))) else None)"

section \<open>Whitespace-stable text\<close>

text \<open>\<open>str.split()\<close>: the maximal runs of characters that are not white space.\<close>

fun words :: "string \<Rightarrow> string list" where
  "words [] = []"
| "words (c # cs) =
     (if is_space c then words cs
      else if cs = [] \<or> is_space (hd cs) then [c] # words cs
      else (case words cs of w # ws \<Rightarrow> (c # w) # ws | [] \<Rightarrow> [[c]]))"

lemma words_nonempty: "cs \<noteq> [] \<Longrightarrow> \<not> is_space (hd cs) \<Longrightarrow> words cs \<noteq> []"
  by (cases cs) (auto split: list.splits)

lemma words_blank: "words s = [] \<longleftrightarrow> is_blank s"
  by (induction s) (auto simp: is_blank_def split: list.splits)

lemma words_no_space: "w \<in> set (words s) \<Longrightarrow> w \<noteq> [] \<and> (\<forall>c \<in> set w. \<not> is_space c)"
proof (induction s arbitrary: w)
  case (Cons c s)
  show ?case
  proof (cases "words s")
    case Nil
    with Cons.prems show ?thesis by (auto split: if_splits)
  next
    case (Cons v vs)
    then have "v \<noteq> [] \<and> (\<forall>c \<in> set v. \<not> is_space c)" using Cons.IH[of v] by simp
    with Cons Cons.prems Cons.IH show ?thesis by (auto split: if_splits)
  qed
qed simp

lemma join_words_hd: "words s = w # ws \<Longrightarrow> \<exists>c r. join [SP] (words s) = c # r \<and> \<not> is_space c"
  using words_no_space[of w s] by (cases w; cases ws) auto

lemma collapse_nonspace: "\<not> is_space c \<Longrightarrow> collapse_ws (c # cs) = c # collapse_ws cs"
  by (cases cs) auto

lemma collapse_space:
  "is_space c \<Longrightarrow> collapse_ws (c # cs) = (if cs = [] \<or> \<not> is_space (hd cs) then SP # collapse_ws cs else collapse_ws cs)"
  by (cases cs) auto

lemma collapse_hd: "cs \<noteq> [] \<Longrightarrow> \<not> is_space (hd cs) \<Longrightarrow> \<exists>r. collapse_ws cs = hd cs # r"
  by (cases cs) (auto simp: collapse_nonspace)

lemma dropWhile_append_stop: "\<not> P x \<Longrightarrow> dropWhile P (xs @ x # ys) = dropWhile P xs @ x # ys \<or>
   dropWhile P (xs @ x # ys) = x # ys"
  by (induction xs) auto

lemma rstrip_nonspace: "\<not> is_space c \<Longrightarrow> rstrip (c # x) = c # rstrip x"
  by (simp add: rstrip_def dropWhile_append)

lemma rstrip_Cons: "rstrip (c # x) = (if is_space c \<and> rstrip x = [] then [] else c # rstrip x)"
  by (auto simp: rstrip_def dropWhile_append dropWhile_eq_Nil_conv)

lemma rstrip_collapse:
  "rstrip (collapse_ws s) =
     (if words s \<noteq> [] \<and> is_space (hd s) then [SP] else []) @ join [SP] (words s)"
proof (induction s)
  case (Cons c cs)
  show ?case
  proof (cases "is_space c")
    case True
    show ?thesis
    proof (cases "cs = [] \<or> \<not> is_space (hd cs)")
      case True
      moreover have "words cs \<noteq> [] \<Longrightarrow> join [SP] (words cs) \<noteq> []"
        using join_words_hd[of cs] by (cases "words cs") auto
      ultimately show ?thesis
        using \<open>is_space c\<close> Cons words_nonempty[of cs] by (auto simp: collapse_space rstrip_Cons)
    next
      case False
      with \<open>is_space c\<close> Cons show ?thesis by (simp add: collapse_space)
    qed
  next
    case False
    show ?thesis
    proof (cases "cs = [] \<or> is_space (hd cs)")
      case True
      with False Cons show ?thesis
        by (cases "words cs") (auto simp: collapse_nonspace rstrip_nonspace)
    next
      case no: False
      then obtain w ws where "words cs = w # ws" using words_nonempty[of cs] by (cases "words cs") auto
      with False no Cons show ?thesis
        by (cases ws) (auto simp: collapse_nonspace rstrip_nonspace)
    qed
  qed
qed (simp add: rstrip_def)

lemma rstrip_Nil [simp]: "rstrip [] = []"
  by (simp add: rstrip_def)

lemma strip_commute: "rstrip (lstrip s) = lstrip (rstrip s)"
  unfolding lstrip_def by (induction s) (auto simp: rstrip_Cons)

text \<open>The canonical form used for hashing is the words of the text with single spaces between them.\<close>

lemma normalize_words: "normalize s = join [SP] (words s)"
proof (cases "words s")
  case Nil
  then show ?thesis by (simp add: normalize_def strip_def strip_commute rstrip_collapse) (simp add: lstrip_def)
next
  case (Cons w ws)
  with join_words_hd[OF Cons] show ?thesis
    by (auto simp: normalize_def strip_def strip_commute rstrip_collapse) (auto simp: lstrip_def)
qed

lemma words_append_space: "is_space c \<Longrightarrow> words (s @ c # t) = words s @ words t"
proof (induction s)
  case (Cons d s)
  then show ?case
    using words_nonempty[of s] by (cases "s = []"; cases "words s") (auto simp: hd_append split: list.splits)
qed simp

lemma words_word: "w \<noteq> [] \<Longrightarrow> \<forall>c \<in> set w. \<not> is_space c \<Longrightarrow> words w = [w]"
proof (induction w)
  case (Cons c w)
  then show ?case by (cases w) auto
qed simp

lemma words_join: "\<forall>w \<in> set ws. w \<noteq> [] \<and> (\<forall>c \<in> set w. \<not> is_space c) \<Longrightarrow> words (join [SP] ws) = ws"
proof (induction "[SP]" ws rule: join.induct)
  case (3 x y ys)
  then show ?case using words_append_space[of SP x "join [SP] (y # ys)"] by (simp add: words_word)
qed (simp_all add: words_word)

lemma words_normalize [simp]: "words (normalize s) = words s"
  unfolding normalize_words using words_join words_no_space by blast

lemma normalize_eq_iff: "normalize s = normalize t \<longleftrightarrow> words s = words t"
  using words_normalize by (metis normalize_words)

lemma normalize_idem [simp]: "normalize (normalize s) = normalize s"
  by (simp add: normalize_eq_iff)

lemma words_append_blank: "is_blank t \<Longrightarrow> words (s @ t) = words s"
  by (cases t) (auto simp: words_append_space is_blank_def words_blank)

lemma words_lstrip: "words (lstrip s) = words s"
  unfolding lstrip_def by (induction s) auto

lemma rstrip_split: "\<exists>t. is_blank t \<and> s = rstrip s @ t"
proof -
  have "rev s = takeWhile is_space (rev s) @ dropWhile is_space (rev s)" by simp
  then have "s = rstrip s @ rev (takeWhile is_space (rev s))"
    unfolding rstrip_def by (metis rev_append rev_rev_ident)
  moreover have "is_blank (rev (takeWhile is_space (rev s)))"
    by (auto simp: is_blank_def list_all_iff dest: set_takeWhileD)
  ultimately show ?thesis by blast
qed

lemma words_rstrip: "words (rstrip s) = words s"
  using rstrip_split[of s] words_append_blank by metis

lemma words_strip [simp]: "words (strip s) = words s"
  by (simp add: strip_def words_rstrip words_lstrip)

lemma normalize_strip [simp]: "normalize (strip s) = normalize s"
  by (simp add: normalize_eq_iff)

section \<open>The content address\<close>

lemma json_plain_str_dict: "distinct (keys d) \<Longrightarrow> json_plain (str_dict d)"
  by (simp add: str_dict_def list_all_iff case_prod_unfold o_def)

lemma json_plain_str_list: "json_plain (str_list xs)"
  by (simp add: str_list_def list_all_iff)

lemma canon_str_list [simp]: "canon (str_list xs) = str_list xs"
  by (simp add: str_list_def)

lemma canon_str_dict: "canon (str_dict d) = str_dict (sorted_items d)"
  by (simp add: str_dict_def o_def case_prod_unfold sorted_items_map[of JStr, unfolded case_prod_unfold])

lemma str_list_inj [simp]: "str_list xs = str_list ys \<longleftrightarrow> xs = ys"
  by (auto simp: str_list_def inj_map_eq_map inj_def)

lemma str_dict_inj [simp]: "str_dict d = str_dict e \<longleftrightarrow> d = e"
  by (auto simp: str_dict_def inj_map_eq_map inj_def)

lemma sort_eq_iff: "sort xs = sort ys \<longleftrightarrow> mset xs = mset ys"
  by (metis mset_sort properties_for_sort sorted_sort)

lemma sorted_items_eq_iff:
  "distinct (keys d) \<Longrightarrow> sorted_items d = sorted_items e \<longleftrightarrow> mset d = mset e"
  using sorted_items_perm[of d e] by (metis mset_sort sorted_items_def)

lemma distinct_sorted_keys: "distinct (keys d) \<Longrightarrow> distinct (keys (sorted_items d))"
  by (rule keys_sorted_items)

lemma json_plain_fact_id_body: "distinct (keys g) \<Longrightarrow> json_plain (fact_id_body pid ps g st pf)"
  by (simp add: fact_id_body_def json_plain_str_dict json_plain_str_list distinct_sorted_keys)

lemma canon_fact_id_body:
  assumes "distinct (keys g)" "distinct (keys g')"
  shows "canon (fact_id_body pid ps g st pf) = canon (fact_id_body pid' ps' g' st' pf') \<longleftrightarrow>
    pid = pid' \<and> mset ps = mset ps' \<and> mset g = mset g' \<and> words st = words st' \<and> words pf = words pf'" (is "?L \<longleftrightarrow> ?R")
proof
  assume L: ?L
  note get = canon_obj_get[OF L[unfolded fact_id_body_def]]
  from get[of "''problem_id''"] get[of "''predecessors''"] get[of "''glossary_introduces''"]
    get[of "''statement''"] get[of "''proof''"] assms show ?R
    by (simp add: canon_str_dict sorted_items_idem sort_eq_iff sorted_items_eq_iff normalize_eq_iff)
next
  assume ?R
  then have "sort ps = sort ps'" "sorted_items g = sorted_items g'" "normalize st = normalize st'" "normalize pf = normalize pf'"
    using assms by (simp_all add: sort_eq_iff sorted_items_eq_iff normalize_eq_iff)
  with \<open>?R\<close> show ?L by (simp add: fact_id_body_def)
qed

text \<open>Property C32. The content address hashes exactly the mathematical content: two candidates have the same
  hashed bytes if and only if they have the same problem, the same predecessors and the same definitions
  up to order, and statements and proofs that agree word by word. Equal content therefore has equal ids
  under every digest.\<close>

theorem fact_id_content:
  assumes "distinct (keys g)" "distinct (keys g')"
  shows "(utf8_encode (dumps_sorted plain_fmt (fact_id_body pid ps g st pf))
       = utf8_encode (dumps_sorted plain_fmt (fact_id_body pid' ps' g' st' pf')) \<longleftrightarrow>
      pid = pid' \<and> mset ps = mset ps' \<and> mset g = mset g' \<and> words st = words st' \<and> words pf = words pf')
    \<and> (pid = pid' \<and> mset ps = mset ps' \<and> mset g = mset g' \<and> words st = words st' \<and> words pf = words pf' \<longrightarrow>
      compute_fact_id H pid ps g st pf = compute_fact_id H pid' ps' g' st' pf')"
proof -
  have iff: "utf8_encode (dumps_sorted plain_fmt (fact_id_body pid ps g st pf))
       = utf8_encode (dumps_sorted plain_fmt (fact_id_body pid' ps' g' st' pf')) \<longleftrightarrow>
     pid = pid' \<and> mset ps = mset ps' \<and> mset g = mset g' \<and> words st = words st' \<and> words pf = words pf'"
    using assms by (simp add: dumps_sorted_inj json_plain_fact_id_body canon_fact_id_body)
  then show ?thesis unfolding compute_fact_id_def by metis
qed

theorem fact_id_content_witness:
  "compute_fact_id sha256_hex ''p'' [''b'', ''a''] [(''x'', ''d''), (''y'', ''e'')] ''A  B'' '' C ''
   = compute_fact_id sha256_hex ''p'' [''a'', ''b''] [(''y'', ''e''), (''x'', ''d'')] ''A B'' ''C''"
proof -
  have "words ''A  B'' = words ''A B''" "words '' C '' = words ''C''" by code_simp+
  then show ?thesis
    using fact_id_content[of "[(''x'', ''d''), (''y'', ''e'')]" "[(''y'', ''e''), (''x'', ''d'')]"
        "''p''" "[''b'', ''a'']" "''A  B''" "'' C ''" "''p''" "[''a'', ''b'']" "''A B''" "''C''" sha256_hex]
    by (simp add: add_mset_commute)
qed

text \<open>Property C34. The public id is a bare 16-digit hexadecimal string, and the full identity a 64-digit one
  that exists whenever the context bindings hold no non-finite number.\<close>

theorem fact_id_shape:
  "is_hex16 (compute_fact_id sha256_hex pid ps g st pf)
   \<and> (case compute_fact_identity sha256_hex pid ps g st pf ctx gb of
        None \<Rightarrow> \<not> all_finite ctx
      | Some i \<Rightarrow> all_finite ctx \<and> is_hex64 i)"
proof -
  have "all_finite (normalized_dict d)" "all_finite (str_list xs)" for d xs
    by (auto simp: normalized_dict_def str_dict_def str_list_def list_all_iff)
  then have "all_finite (fact_identity_body pid ps g st pf ctx gb) = all_finite ctx"
    by (simp add: fact_identity_body_def)
  then show ?thesis
    using sha.digest_prefix[of 16] sha.digest_hex
    by (auto simp: compute_fact_id_def compute_fact_identity_def Let_def)
qed

definition norm_entries :: "string dict \<Rightarrow> (string \<times> string list) multiset" where
  "norm_entries d = mset (map (\<lambda>(k, v). (k, words v)) d)"

lemma normalized_dict_sorted: "normalized_dict d = str_dict (sorted_items (map (\<lambda>(k, v). (k, normalize v)) d))"
  by (simp add: normalized_dict_def sorted_items_map)

lemma canon_normalized_dict [simp]: "canon (normalized_dict d) = normalized_dict d"
  by (simp add: normalized_dict_sorted canon_str_dict sorted_items_idem)

lemma keys_norm: "keys (map (\<lambda>(k, v). (k, f v)) d) = keys d"
  by (simp add: case_prod_unfold)

lemma json_plain_normalized: "distinct (keys d) \<Longrightarrow> json_plain (normalized_dict d)"
  unfolding normalized_dict_sorted by (intro json_plain_str_dict keys_sorted_items) (simp only: keys_norm)

lemma normalized_dict_eq_iff:
  assumes "distinct (keys d)"
  shows "normalized_dict d = normalized_dict e \<longleftrightarrow> norm_entries d = norm_entries e"
proof -
  have "normalized_dict d = normalized_dict e \<longleftrightarrow>
      mset (map (\<lambda>(k, v). (k, normalize v)) d) = mset (map (\<lambda>(k, v). (k, normalize v)) e)"
    using assms by (simp add: normalized_dict_sorted sorted_items_eq_iff keys_norm del: mset_map map_map)
  also have "\<dots> \<longleftrightarrow> norm_entries d = norm_entries e"
  proof
    assume "mset (map (\<lambda>(k, v). (k, normalize v)) d) = mset (map (\<lambda>(k, v). (k, normalize v)) e)"
    then have "image_mset (\<lambda>(k, v). (k, words v)) (mset (map (\<lambda>(k, v). (k, normalize v)) d))
        = image_mset (\<lambda>(k, v). (k, words v)) (mset (map (\<lambda>(k, v). (k, normalize v)) e))" by simp
    then show "norm_entries d = norm_entries e"
      by (simp add: norm_entries_def image_mset.compositionality o_def case_prod_unfold)
  next
    assume "norm_entries d = norm_entries e"
    then have "image_mset (\<lambda>(k, ws). (k, join [SP] ws)) (norm_entries d)
        = image_mset (\<lambda>(k, ws). (k, join [SP] ws)) (norm_entries e)" by simp
    then show "mset (map (\<lambda>(k, v). (k, normalize v)) d) = mset (map (\<lambda>(k, v). (k, normalize v)) e)"
      by (simp add: norm_entries_def image_mset.compositionality o_def case_prod_unfold normalize_words)
  qed
  finally show ?thesis .
qed

lemma json_plain_identity_body:
  "distinct (keys g) \<Longrightarrow> distinct (keys gb) \<Longrightarrow> json_plain ctx \<Longrightarrow> json_plain (fact_identity_body pid ps g st pf ctx gb)"
  by (simp add: fact_identity_body_def json_plain_normalized json_plain_str_list)

text \<open>Property C33. The full identity commits to the context as well: the hashed bytes agree if and only if the
  problem, predecessors, statement, proof, normalised definitions, glossary bindings and, up to the order
  of keys, the context bindings agree.\<close>

theorem fact_identity_content:
  assumes "distinct (keys g)" "distinct (keys g')" "distinct (keys gb)" "distinct (keys gb')"
    and "json_plain ctx" "json_plain ctx'"
  shows "utf8_encode (dumps_sorted compact_fmt (fact_identity_body pid ps g st pf ctx gb))
       = utf8_encode (dumps_sorted compact_fmt (fact_identity_body pid' ps' g' st' pf' ctx' gb')) \<longleftrightarrow>
      pid = pid' \<and> mset ps = mset ps' \<and> norm_entries g = norm_entries g' \<and> words st = words st' \<and> words pf = words pf'
      \<and> canon ctx = canon ctx' \<and> norm_entries gb = norm_entries gb'" (is "?B \<longleftrightarrow> ?R")
proof -
  have "?B \<longleftrightarrow> canon (fact_identity_body pid ps g st pf ctx gb) = canon (fact_identity_body pid' ps' g' st' pf' ctx' gb')"
    using assms by (simp add: dumps_sorted_inj json_plain_identity_body)
  also have "\<dots> \<longleftrightarrow> ?R"
  proof
    assume L: "canon (fact_identity_body pid ps g st pf ctx gb) = canon (fact_identity_body pid' ps' g' st' pf' ctx' gb')"
    note get = canon_obj_get[OF L[unfolded fact_identity_body_def]]
    from get[of "''problem_id''"] get[of "''predecessors''"] get[of "''definitions''"] get[of "''statement''"]
      get[of "''proof''"] get[of "''context_bindings''"] get[of "''glossary_bindings''"] assms show ?R
      by (simp add: sort_eq_iff normalized_dict_eq_iff normalize_eq_iff)
  next
    assume R: ?R
    then have "sort ps = sort ps'" "normalized_dict g = normalized_dict g'" "normalize st = normalize st'"
      "normalize pf = normalize pf'" "normalized_dict gb = normalized_dict gb'"
      using assms by (simp_all add: sort_eq_iff normalized_dict_eq_iff normalize_eq_iff)
    with R show "canon (fact_identity_body pid ps g st pf ctx gb) = canon (fact_identity_body pid' ps' g' st' pf' ctx' gb')"
      by (simp add: fact_identity_body_def)
  qed
  finally show ?thesis .
qed

theorem fact_identity_content_witness:
  "utf8_encode (dumps_sorted compact_fmt (fact_identity_body ''p'' [] [] ''A'' ''B'' (JArr []) []))
   \<noteq> utf8_encode (dumps_sorted compact_fmt (fact_identity_body ''p'' [] [] ''A'' ''B'' (JArr [JInt 1]) []))"
  using fact_identity_content[of "[]" "[]" "[]" "[]" "JArr []" "JArr [JInt 1]" "''p''" "[]" "''A''" "''B''" "''p''" "[]" "''A''" "''B''"]
  by simp

section \<open>Receipts and references\<close>

lemma find_sub_Some: "find_sub h s = Some i \<Longrightarrow> \<exists>r. s = take i s @ h @ r \<and> i + length h \<le> length s"
proof (induction s arbitrary: i)
  case Nil
  then show ?case by (auto split: if_splits)
next
  case (Cons c cs)
  show ?case
  proof (cases "prefix h (c # cs)")
    case True
    with Cons.prems show ?thesis by (auto simp: prefix_def dest: arg_cong[of _ _ length])
  next
    case False
    with Cons.prems obtain j where "find_sub h cs = Some j" "i = Suc j" by auto
    with Cons.IH[of j] show ?thesis by auto
  qed
qed

definition no_blank :: "string \<Rightarrow> bool" where
  "no_blank b \<longleftrightarrow> strip b \<noteq> []"

fun sections :: "string list \<Rightarrow> string list \<Rightarrow> string" where
  "sections (h # hs) (b # bs) = h @ b @ sections hs bs"
| "sections _ _ = []"

lemma strip_Nil [simp]: "strip [] = []"
  by (simp add: strip_def lstrip_def)

text \<open>From the offset of a heading on, the text is that heading and its body, then the rest.\<close>

lemma check_sections_split:
  assumes "check_sections ev (zip hs is) = None" "length hs = length is" "hs \<noteq> []"
    "\<forall>(h, i) \<in> set (zip hs is). \<exists>r. drop i ev = h @ r"
  shows "\<exists>bs. length bs = length hs \<and> list_all no_blank bs \<and> drop (hd is) ev = sections hs bs"
  using assms
proof (induction hs arbitrary: "is")
  case (Cons h hs)
  then obtain i js where "is": "is = i # js" by (cases "is") auto
  obtain r where r: "drop i ev = h @ r" using Cons.prems(4) "is" by auto
  show ?case
  proof (cases hs)
    case Nil
    with Cons.prems "is" have "strip (drop (i + length h) ev) \<noteq> []"
      by (simp add: text_slice_def)
    moreover have "drop (i + length h) ev = r"
      using r by (metis add.commute append_eq_conv_conj drop_drop)
    ultimately show ?thesis
      using Nil "is" r by (intro exI[of _ "[r]"]) (simp add: no_blank_def)
  next
    case (Cons h' hs')
    then obtain j js' where js: "js = j # js'" using Cons.prems(2) "is" by (cases js) auto
    let ?b = "text_slice (i + length h) j ev"
    have b: "strip ?b \<noteq> []" and rest: "check_sections ev (zip hs js) = None"
      using Cons.prems(1) "is" js Cons by auto
    obtain bs where bs: "length bs = length hs" "list_all no_blank bs" "drop j ev = sections hs bs"
      using Cons.IH[OF rest] Cons.prems(2,4) "is" js Cons by fastforce
    have lt: "i + length h < j" using b by (auto simp: text_slice_def intro: ccontr)
    have "drop (i + length h) ev = ?b @ drop j ev"
      unfolding text_slice_def using lt by (metis append_take_drop_id drop_drop le_add_diff_inverse2 less_imp_le)
    moreover have "drop i ev = h @ drop (i + length h) ev"
      using r by (metis add.commute append_eq_conv_conj drop_drop)
    ultimately show ?thesis
      using "is" bs b[folded no_blank_def] by (intro exI[of _ "?b # bs"]) simp
  qed
qed simp

lemma heading_offsets_found:
  "heading_offsets ev hs = Some is \<Longrightarrow> length is = length hs \<and> (\<forall>(h, i) \<in> set (zip hs is). \<exists>r. drop i ev = h @ r)"
proof (induction hs arbitrary: "is")
  case (Cons h hs)
  then obtain i js where i: "find_sub h ev = Some i" "heading_offsets ev hs = Some js" "is = i # js"
    by (auto split: if_splits option.splits)
  obtain r where "ev = take i ev @ h @ r" "i + length h \<le> length ev"
    using find_sub_Some[OF i(1)] by blast
  then have "drop i ev = h @ r" by (metis append_eq_conv_conj append_take_drop_id same_append_eq)
  with Cons.IH[OF i(2)] i(3) show ?case by auto
qed simp

text \<open>An accepted advisor checkpoint is bounded and complete: a non-blank claim of at most 512 bytes,
  evidence of at most 16 KiB that consists, after a preamble, of the four canonical sections in order, each
  with a non-blank body, and at most twelve well-formed fact ids.\<close>

theorem checkpoint_structure:
  assumes "validate_advisor_checkpoint claim evidence links = None"
  shows "\<exists>c ev ls ids. claim = JStr c \<and> evidence = JStr ev \<and> links = JObj ls \<and> jget ls ''fact_ids'' = Some (JArr ids)
    \<and> strip c \<noteq> [] \<and> utf8_len c \<le> 512 \<and> utf8_len ev \<le> 16384
    \<and> length ids \<le> 12 \<and> list_all is_fact_id ids \<and> set (keys ls) \<subseteq> {''fact_ids'', ''recommendation_id''}
    \<and> (\<exists>pre bs. ev = pre @ sections ADVISOR_CHECKPOINT_HEADINGS bs
        \<and> length bs = length ADVISOR_CHECKPOINT_HEADINGS \<and> list_all (\<lambda>b. strip b \<noteq> []) bs)"
proof -
  obtain c where c: "claim = JStr c" using assms by (cases claim) (simp_all add: validate_advisor_checkpoint_def)
  obtain ev where ev: "evidence = JStr ev"
    using assms c by (cases evidence) (simp_all add: validate_advisor_checkpoint_def split: if_splits)
  have ce: "strip c \<noteq> []" "utf8_len c \<le> 512" "utf8_len ev \<le> 16384" "check_evidence ev = None" "check_links links = None"
    using assms by (simp_all add: c ev validate_advisor_checkpoint_def ADVISOR_CHECKPOINT_MAX_BYTES_def split: if_splits)
  obtain ls where ls: "links = JObj ls" using ce(5) by (cases links) (simp_all add: check_links_def)
  have ls': "set (keys ls) \<subseteq> {''fact_ids'', ''recommendation_id''}" "check_fact_ids (jget_or_null ls ''fact_ids'') = None"
    using ce(5) by (simp_all add: ls check_links_def del: set_map split: if_splits)
  obtain ids where ids: "jget_or_null ls ''fact_ids'' = JArr ids"
    using ls'(2) by (cases "jget_or_null ls ''fact_ids''") (simp_all add: check_fact_ids_def)
  have ids': "length ids \<le> 12" "list_all is_fact_id ids"
    using ls'(2) by (simp_all add: ids check_fact_ids_def ADVISOR_CHECKPOINT_MAX_FACT_IDS_def split: if_splits)
  have get: "jget ls ''fact_ids'' = Some (JArr ids)"
    using ids by (simp add: jget_or_null_def split: option.splits)
  obtain offs where offs: "heading_offsets ev ADVISOR_CHECKPOINT_HEADINGS = Some offs"
      "check_sections ev (zip ADVISOR_CHECKPOINT_HEADINGS offs) = None"
    using ce(4) by (auto simp: check_evidence_def split: option.splits if_splits)
  have "ADVISOR_CHECKPOINT_HEADINGS \<noteq> []" by (simp add: ADVISOR_CHECKPOINT_HEADINGS_def)
  then obtain bs where bs: "length bs = length ADVISOR_CHECKPOINT_HEADINGS" "list_all no_blank bs"
      "drop (hd offs) ev = sections ADVISOR_CHECKPOINT_HEADINGS bs"
    using check_sections_split[OF offs(2)] heading_offsets_found[OF offs(1)] by metis
  have "ev = take (hd offs) ev @ sections ADVISOR_CHECKPOINT_HEADINGS bs"
    using bs(3) append_take_drop_id[of "hd offs" ev] by simp
  moreover have "list_all (\<lambda>b. strip b \<noteq> []) bs"
    using bs(2) by (simp add: no_blank_def[abs_def])
  ultimately have "\<exists>pre bs. ev = pre @ sections ADVISOR_CHECKPOINT_HEADINGS bs
        \<and> length bs = length ADVISOR_CHECKPOINT_HEADINGS \<and> list_all (\<lambda>b. strip b \<noteq> []) bs"
    using bs(1) by blast
  with c ev ls get ce(1-3) ids' ls'(1) show ?thesis
    by - (rule exI[of _ c], rule exI[of _ ev], rule exI[of _ ls], rule exI[of _ ids], intro conjI)
qed

definition example_evidence :: string where
  "example_evidence = ''## Verified facts f ## Failed routes and evidence r ## Unresolved bottleneck b ## Candidate decision question q''"

theorem checkpoint_structure_witness:
  "validate_advisor_checkpoint (JStr ''c'') (JStr example_evidence) (JObj [(''fact_ids'', JArr [JStr ''0123456789abcdef''])]) = None
   \<and> (\<exists>ls ids. JObj [(''fact_ids'', JArr [JStr ''0123456789abcdef''])] = JObj ls \<and> jget ls ''fact_ids'' = Some (JArr ids)
        \<and> list_all is_fact_id ids)"
proof -
  have "validate_advisor_checkpoint (JStr ''c'') (JStr example_evidence)
      (JObj [(''fact_ids'', JArr [JStr ''0123456789abcdef''])]) = None"
    by code_simp
  then show ?thesis using checkpoint_structure by blast
qed

definition provenance_keys :: "bool \<Rightarrow> string list" where
  "provenance_keys v2 = [''schema_version'', ''transport'', ''request_id'', ''elaboration_id'', ''context_id'',
     ''recommendation_id'', ''binding_sha256'', ''receipt_sha256'', ''prompt_sha256'', ''reply_sha256'',
     ''adopted_strategy_sha256'', ''trust'', ''billing_basis'', ''model'', ''ui_mode'', ''input_tokens'',
     ''output_tokens'', ''cost_usd''] @ (if v2 then CONSULT_CHECKPOINT_FIELDS else [])"

definition projected :: "jobj \<Rightarrow> json \<Rightarrow> jobj" where
  "projected rc cost = map (\<lambda>k. (k, if k = ''cost_usd'' then cost else jget_or_null rc k))
     (provenance_keys (py_eq_int (jget_or_null rc ''schema_version'') 2))"

lemma optional_json:
  "err_of (optional_text rc n) = None \<Longrightarrow> opt_text_json (val_of (optional_text rc n)) = jget_or_null rc n"
  "err_of (optional_hash rc n) = None \<Longrightarrow> opt_text_json (val_of (optional_hash rc n)) = jget_or_null rc n"
  "err_of (optional_count rc n) = None \<Longrightarrow> opt_count_json (val_of (optional_count rc n)) = jget_or_null rc n"
  by (auto simp: optional_text_def optional_hash_def optional_count_def err_of_def val_of_def
      split: json.splits if_splits)

lemma cleaned_projected: "check_optionals rc = None \<Longrightarrow> cleaned_provenance rc cost = projected rc cost"
  by (simp add: cleaned_provenance_def projected_def check_optionals_def provenance_keys_def optional_json
      CONSULT_CHECKPOINT_FIELDS_def)

lemma keys_projected: "keys (projected rc cost) = provenance_keys (py_eq_int (jget_or_null rc ''schema_version'') 2)"
  by (simp add: projected_def o_def)

lemma get_projected:
  "jget_or_null (projected rc cost) k =
     (if k \<notin> set (provenance_keys (py_eq_int (jget_or_null rc ''schema_version'') 2)) then JNull
      else if k = ''cost_usd'' then cost else jget_or_null rc k)"
  by (simp add: projected_def jget_or_null_def map_of_map_restrict restrict_map_def)

lemma provenance_keys_all: "CONSULT_PROVENANCE_FIELDS = provenance_keys False @ CONSULT_CHECKPOINT_FIELDS"
  "provenance_keys True = CONSULT_PROVENANCE_FIELDS"
  by (simp_all add: provenance_keys_def CONSULT_PROVENANCE_FIELDS_def CONSULT_CHECKPOINT_FIELDS_def)

lemma provenance_keys_sets:
  "set CONSULT_PROVENANCE_FIELDS = set (provenance_keys False) \<union> set CONSULT_CHECKPOINT_FIELDS"
  "set (provenance_keys True) = set (provenance_keys False) \<union> set CONSULT_CHECKPOINT_FIELDS"
  using provenance_keys_all(1) arg_cong[OF provenance_keys_all(2), of set] by (metis set_append)+

lemma provenance_keys_required: "set CONSULT_REQUIRED_FIELDS \<subseteq> set (provenance_keys v2)"
  by (simp add: provenance_keys_def CONSULT_REQUIRED_FIELDS_def)

lemma provenance_keys_checkpoint: "set CONSULT_CHECKPOINT_FIELDS \<inter> set (provenance_keys False) = {}"
  by (simp add: provenance_keys_def CONSULT_CHECKPOINT_FIELDS_def)

lemma projected_fields: "check_fields (projected rc cost) = None"
  using provenance_keys_required[of True] provenance_keys_required[of False] provenance_keys_sets
  by (cases "py_eq_int (jget_or_null rc ''schema_version'') 2") (auto simp: check_fields_def keys_projected)

lemma get_absent: "k \<notin> set (keys d) \<Longrightarrow> jget_or_null d k = JNull"
  by (simp add: jget_or_null_def map_of_eq_None_iff[THEN iffD2])

text \<open>A receipt that passes the field and version checks keeps every field but the cost.\<close>

lemma get_projected_same:
  assumes "check_fields rc = None" "check_version rc = None" "k \<noteq> ''cost_usd''"
  shows "jget_or_null (projected rc cost) k = jget_or_null rc k"
proof (cases "k \<in> set (provenance_keys (py_eq_int (jget_or_null rc ''schema_version'') 2))")
  case True
  with assms(3) show ?thesis by (simp add: get_projected)
next
  case False
  have fields: "set (keys rc) \<subseteq> set CONSULT_PROVENANCE_FIELDS"
    using assms(1) by (simp add: check_fields_def)
  have "k \<notin> set (keys rc)"
  proof (cases "py_eq_int (jget_or_null rc ''schema_version'') 2")
    case True
    with False fields show ?thesis using provenance_keys_sets by auto
  next
    case v1: False
    with assms(2) have "set CONSULT_CHECKPOINT_FIELDS \<inter> set (keys rc) = {}"
      by (simp add: check_version_def Let_def)
    with False v1 fields provenance_keys_sets(1) show ?thesis by auto
  qed
  with False show ?thesis by (simp add: get_projected get_absent)
qed

lemma check_optionals_cong:
  "(\<And>k. k \<noteq> ''cost_usd'' \<Longrightarrow> jget_or_null a k = jget_or_null b k) \<Longrightarrow> check_optionals a = check_optionals b"
  by (simp add: check_optionals_def optional_text_def optional_hash_def optional_count_def)

lemma check_checkpoint_cong:
  "(\<And>k. k \<noteq> ''cost_usd'' \<Longrightarrow> jget_or_null a k = jget_or_null b k) \<Longrightarrow> check_checkpoint a = check_checkpoint b"
  by (simp add: check_checkpoint_def)

lemma version_unique: "py_eq_int v 1 \<Longrightarrow> \<not> py_eq_int v 2"
proof -
  have "show_int 1 @ ''.0'' \<noteq> show_int 2 @ ''.0''" by code_simp
  then show "py_eq_int v 1 \<Longrightarrow> \<not> py_eq_int v 2" by (cases v) (auto simp: py_eq_int_def)
qed

lemma projected_version:
  assumes "check_fields rc = None" "check_version rc = None"
  shows "check_version (projected rc cost) = None"
proof -
  note same = get_projected_same[OF assms, of _ cost]
  show ?thesis
    using assms(2) provenance_keys_checkpoint provenance_keys_sets version_unique
    by (cases "py_eq_int (jget_or_null rc ''schema_version'') 2")
      (auto simp: check_version_def Let_def same keys_projected)
qed

lemma clean_cost_idem: "clean_cost tf c = Inr c' \<Longrightarrow> clean_cost tf c' = Inr c'"
  by (auto simp: clean_cost_def Let_def split: json.splits option.splits if_splits)

lemma clean_cost_null: "clean_cost tf c = Inr c' \<Longrightarrow> c' = JNull \<longleftrightarrow> c = JNull"
  by (auto simp: clean_cost_def Let_def split: json.splits option.splits if_splits)

lemma projected_transport:
  assumes "check_fields rc = None" "check_version rc = None" "check_transport rc = None"
    and cost: "clean_cost tf (jget_or_null rc ''cost_usd'') = Inr cost"
  shows "check_transport (projected rc cost) = None"
proof -
  note same = get_projected_same[OF assms(1,2), of _ cost]
  have c: "jget_or_null (projected rc cost) ''cost_usd'' = cost"
    by (simp add: get_projected provenance_keys_def)
  have "has_key (projected rc cost) ''recommendation_id''"
    unfolding keys_projected by (simp add: provenance_keys_def)
  then show ?thesis
    using assms(3) clean_cost_null[OF cost] by (auto simp: check_transport_def same c split: if_splits)
qed

lemma clean_provenance_ok:
  "clean_consult_provenance tf v = Inr c \<longleftrightarrow>
     (\<exists>rc cost. v = JObj rc \<and> check_fields rc = None \<and> check_version rc = None
        \<and> check_optionals rc = None
        \<and> (py_eq_int (jget_or_null rc ''schema_version'') 2 \<longrightarrow> check_checkpoint rc = None)
        \<and> clean_cost tf (jget_or_null rc ''cost_usd'') = Inr cost \<and> check_transport rc = None
        \<and> c = projected rc cost)"
proof (cases v)
  case (JObj rc)
  show ?thesis
    unfolding JObj clean_consult_provenance_def
    by (auto simp: cleaned_projected then_check_def split: option.splits sum.splits if_splits)
qed (simp_all add: clean_consult_provenance_def)

text \<open>Cleaning a consult receipt is idempotent: a cleaned receipt is accepted again and returned
  unchanged, so the stored form is a fixed point of the validator.\<close>

theorem provenance_idempotent:
  assumes "clean_consult_provenance tf v = Inr c"
  shows "clean_consult_provenance tf (JObj c) = Inr c"
proof -
  from assms obtain rc cost where v: "check_fields rc = None" "check_version rc = None"
      "check_optionals rc = None"
      "py_eq_int (jget_or_null rc ''schema_version'') 2 \<longrightarrow> check_checkpoint rc = None"
      "clean_cost tf (jget_or_null rc ''cost_usd'') = Inr cost" "check_transport rc = None" "c = projected rc cost"
    unfolding clean_provenance_ok by blast
  note same = get_projected_same[OF v(1,2), of _ cost]
  have cost: "jget_or_null (projected rc cost) ''cost_usd'' = cost"
    by (simp add: get_projected provenance_keys_def)
  have "projected (projected rc cost) cost = projected rc cost"
    unfolding projected_def[of "projected rc cost"] by (simp add: same cong: if_cong) (simp add: projected_def)
  then show ?thesis
    unfolding clean_provenance_ok v(7)
    using projected_fields[of rc cost] projected_version[OF v(1,2), of cost] v(3,4)
      check_optionals_cong[of "projected rc cost" rc, OF same]
      check_checkpoint_cong[of "projected rc cost" rc, OF same]
      clean_cost_idem[OF v(5)] projected_transport[OF v(1,2,6,5)] cost same[of "''schema_version''"]
    by auto
qed

definition example_receipt :: jobj where
  "example_receipt = [(''schema_version'', JInt 1), (''transport'', JStr ''claude_api''), (''trust'', JNull),
     (''billing_basis'', JStr ''metered_api''), (''model'', JStr ''m''), (''ui_mode'', JNull),
     (''input_tokens'', JInt 10), (''output_tokens'', JInt 2), (''cost_usd'', JFloat ''0.5'')]"

lemma example_receipt_ok: "clean_consult_provenance (\<lambda>n. None) (JObj example_receipt) = Inr (projected example_receipt (JFloat ''0.5''))"
proof -
  have "check_fields example_receipt = None" "check_version example_receipt = None" "check_optionals example_receipt = None"
    "py_eq_int (jget_or_null example_receipt ''schema_version'') 2 = False"
    "clean_cost (\<lambda>n. None) (jget_or_null example_receipt ''cost_usd'') = Inr (JFloat ''0.5'')" "check_transport example_receipt = None"
    by code_simp+
  then show ?thesis unfolding clean_provenance_ok by simp
qed

theorem provenance_idempotent_witness:
  "clean_consult_provenance (\<lambda>n. None) (JObj (projected example_receipt (JFloat ''0.5'')))
   = Inr (projected example_receipt (JFloat ''0.5''))"
  using provenance_idempotent[OF example_receipt_ok] .

lemma optional_text_null: "err_of (optional_text d n) = None \<Longrightarrow> jget_or_null d n \<noteq> JNull \<Longrightarrow>
   \<exists>s. jget_or_null d n = JStr s \<and> s \<noteq> [] \<and> utf8_len s \<le> 512"
  by (auto simp: optional_text_def err_of_def split: json.splits if_splits)

lemma optional_hash_null: "err_of (optional_hash d n) = None \<Longrightarrow> jget_or_null d n \<noteq> JNull \<Longrightarrow>
   \<exists>s. jget_or_null d n = JStr s \<and> is_hex64 s"
  by (auto simp: optional_hash_def err_of_def split: json.splits if_splits)

text \<open>Only an adopted browser consult can claim a coordinator recommendation: in an accepted receipt
  a non-browser transport has no recommendation, and a browser transport has the adopted-strategy trust,
  subscription billing, no model, token or cost telemetry, and all seven parts of its durable receipt.\<close>

theorem browser_receipt_complete:
  assumes "clean_consult_provenance tf v = Inr c"
  shows "if jget_or_null c ''transport'' = JStr ''chatgpt_pro_browser''
    then jget_or_null c ''trust'' = JStr ''adopted_strategy'' \<and> jget_or_null c ''billing_basis'' = JStr ''subscription''
      \<and> (\<forall>k \<in> {''model'', ''input_tokens'', ''output_tokens'', ''cost_usd''}. jget_or_null c k = JNull)
      \<and> (\<forall>k \<in> {''binding_sha256'', ''receipt_sha256'', ''prompt_sha256'', ''reply_sha256'', ''adopted_strategy_sha256''}.
           \<exists>h. jget_or_null c k = JStr h \<and> is_hex64 h)
      \<and> (\<forall>k \<in> {''request_id'', ''context_id''}. \<exists>s. jget_or_null c k = JStr s \<and> s \<noteq> [] \<and> utf8_len s \<le> 512)
    else jget_or_null c ''recommendation_id'' = JNull"
proof -
  from assms obtain d cost where v: "check_fields d = None" "check_version d = None" "check_optionals d = None"
      "clean_cost tf (jget_or_null d ''cost_usd'') = Inr cost" "check_transport d = None" "c = projected d cost"
    unfolding clean_provenance_ok by blast
  note same = get_projected_same[OF v(1,2)]
  have cost: "jget_or_null (projected d x) ''cost_usd'' = x" for x
    by (simp add: get_projected provenance_keys_def)
  show ?thesis
  proof (cases "jget_or_null d ''transport'' = JStr ''chatgpt_pro_browser''")
    case True
    with v(5) have t: "jget_or_null d ''trust'' = JStr ''adopted_strategy''" "jget_or_null d ''billing_basis'' = JStr ''subscription''"
        "jget_or_null d ''model'' = JNull" "jget_or_null d ''input_tokens'' = JNull" "jget_or_null d ''output_tokens'' = JNull"
        "jget_or_null d ''cost_usd'' = JNull"
      and some: "jget_or_null d ''request_id'' \<noteq> JNull" "jget_or_null d ''context_id'' \<noteq> JNull"
        "jget_or_null d ''binding_sha256'' \<noteq> JNull" "jget_or_null d ''receipt_sha256'' \<noteq> JNull"
        "jget_or_null d ''prompt_sha256'' \<noteq> JNull" "jget_or_null d ''reply_sha256'' \<noteq> JNull"
        "jget_or_null d ''adopted_strategy_sha256'' \<noteq> JNull"
      by (simp_all add: check_transport_def)
    have "cost = JNull" using v(4) t(6) by (simp add: clean_cost_def)
    moreover have "\<exists>h. jget_or_null d k = JStr h \<and> is_hex64 h"
      if "k \<in> {''binding_sha256'', ''receipt_sha256'', ''prompt_sha256'', ''reply_sha256'', ''adopted_strategy_sha256''}" for k
      using that v(3) some by (auto simp: check_optionals_def intro!: optional_hash_null)
    moreover have "\<exists>s. jget_or_null d k = JStr s \<and> s \<noteq> [] \<and> utf8_len s \<le> 512" if "k \<in> {''request_id'', ''context_id''}" for k
      using that v(3) some by (auto simp: check_optionals_def intro!: optional_text_null)
    ultimately show ?thesis
      using True t by (simp add: v(6) same cost)
  next
    case False
    with v(5) show ?thesis by (simp add: v(6) same check_transport_def)
  qed
qed

theorem browser_receipt_complete_witness:
  "jget_or_null (projected example_receipt (JFloat ''0.5'')) ''recommendation_id'' = JNull"
proof -
  have "jget_or_null (projected example_receipt (JFloat ''0.5'')) ''transport'' \<noteq> JStr ''chatgpt_pro_browser''"
    by code_simp
  then show ?thesis using browser_receipt_complete[OF example_receipt_ok] by simp
qed

lemma distinct_ref_keys: "distinct EXTERNAL_REF_KEYS"
  by (simp add: EXTERNAL_REF_KEYS_def)

lemma keys_order_ref: "keys (order_ref r) = filter (has_key r) EXTERNAL_REF_KEYS @
   filter (\<lambda>k. k \<notin> set EXTERNAL_REF_KEYS) (sort (keys r))"
  by (auto simp: order_ref_def Let_def o_def intro!: filter_cong)

lemma order_ref_map: "order_ref r = map (\<lambda>k. (k, jget_or_null r k)) (keys (order_ref r))"
  by (simp add: order_ref_def Let_def o_def)

lemma set_keys_order_ref: "set (keys (order_ref r)) = set (keys r)"
  unfolding keys_order_ref by auto

lemma order_ref_lookup: "map_of (order_ref r) k = map_of r k"
proof (cases "k \<in> set (keys r)")
  case True
  then have "map_of (order_ref r) k = Some (jget_or_null r k)"
    using set_keys_order_ref[of r] by (subst order_ref_map) (simp add: map_of_map_restrict del: map_map)
  moreover obtain v where "map_of r k = Some v" using True by (metis map_of_eq_None_iff not_Some_eq image_set)
  ultimately show ?thesis by (simp add: jget_or_null_def)
next
  case False
  then show ?thesis using set_keys_order_ref[of r] by (simp add: map_of_eq_None_iff[THEN iffD2])
qed

lemma sort_filter: "sort (filter P xs) = filter P (sort xs)" for xs :: "string list"
  by (simp add: filter_sort)

lemma order_ref_idem: "distinct (keys r) \<Longrightarrow> order_ref (order_ref r) = order_ref r"
proof -
  assume d: "distinct (keys r)"
  have e: "distinct (keys (order_ref r))"
    unfolding keys_order_ref using d distinct_ref_keys by auto
  then have "mset (keys (order_ref r)) = mset (keys r)"
    using d e set_keys_order_ref[of r] by (simp add: set_eq_iff_mset_eq_distinct del: mset_map set_map)
  then have "sort (keys (order_ref r)) = sort (keys r)" by (simp add: sort_eq_iff del: mset_map)
  then have "keys (order_ref (order_ref r)) = keys (order_ref r)"
    using set_keys_order_ref[of r] by (simp add: keys_order_ref[of "order_ref r"]) (simp add: keys_order_ref)
  then show ?thesis
    by (subst order_ref_map, subst (2) order_ref_map) (simp add: jget_or_null_def order_ref_lookup)
qed

text \<open>Property C35. Cleaning external references loses nothing and is stable: every reference object keeps all its
  fields, the canonical keys come first in their fixed order and the others follow sorted, non-objects are
  dropped, and a cleaned list is a fixed point. A truthy scalar that is not a string is not iterable, and
  there the routine raises, although it is documented never to.\<close>

theorem external_refs_clean:
  "(clean_external_refs v = Inl NotIterable \<longleftrightarrow> v = JBool True \<or> (\<exists>n. v = JInt n \<and> n \<noteq> 0) \<or> (\<exists>t. v = JFloat t \<and> truthy v))
   \<and> (list_all (\<lambda>r. distinct (keys r)) rs \<longrightarrow>
       clean_external_refs (JArr (map JObj rs)) = Inr (map order_ref rs)
       \<and> clean_external_refs (JArr (map (\<lambda>r. JObj (order_ref r)) rs)) = Inr (map order_ref rs)
       \<and> (\<forall>r \<in> set rs. map_of (order_ref r) = map_of r
            \<and> keys (order_ref r) = filter (has_key r) EXTERNAL_REF_KEYS
                @ filter (\<lambda>k. k \<notin> set EXTERNAL_REF_KEYS) (sort (keys r))))"
proof -
  have objs: "ref_objects (map JObj xs) = xs" for xs
    by (induction xs) (simp_all add: ref_objects_def)
  have arr: "clean_external_refs (JArr (map JObj xs)) = Inr (map order_ref xs)" for xs
    by (cases xs) (auto simp: clean_external_refs_def objs[of "_ # _", simplified])
  have "map order_ref (map order_ref rs) = map order_ref rs" if "list_all (\<lambda>r. distinct (keys r)) rs"
    using that by (auto simp: list_all_iff order_ref_idem)
  moreover have "clean_external_refs v = Inl NotIterable \<longleftrightarrow>
      v = JBool True \<or> (\<exists>n. v = JInt n \<and> n \<noteq> 0) \<or> (\<exists>t. v = JFloat t \<and> truthy v)"
    by (cases v) (auto simp: clean_external_refs_def)
  ultimately show ?thesis
    using arr[of rs] arr[of "map order_ref rs", unfolded map_map o_def] order_ref_lookup keys_order_ref
    by (simp add: o_def fun_eq_iff)
qed

theorem external_refs_clean_witness:
  "clean_external_refs (JArr (map JObj [[(''zz'', JInt 1), (''key'', JStr ''K'')]])) = Inr [order_ref [(''zz'', JInt 1), (''key'', JStr ''K'')]]
   \<and> clean_external_refs (JInt 1) = Inl NotIterable"
  using external_refs_clean[of "JInt 1" "[[(''zz'', JInt 1), (''key'', JStr ''K'')]]"] by simp

end
