(* ===== verification/Scheduler.thy ===== *)
theory Scheduler
  imports Json Complex_Main
begin

text \<open>
  The bounded in-process scheduler of the single paid verifier slot (\<open>danus/verify/scheduler.py\<close>).

  The scheduler is a monitor: every access to its state happens inside \<open>with self._condition\<close>, so each
  critical section between two waits is one atomic operation below, and the callers of \<open>execute\<close> are
  threads interleaved at these operations. Flights are mutable objects that a follower keeps a reference to
  after the flight has left the active table, so they live in an explicit store, a list indexed by
  references. Times are rationals (the sums of clock readings are taken exactly).
\<close>

section \<open>Scheduler state\<close>

definition SCHEDULER_SNAPSHOT_SCHEMA_VERSION :: int where
  "SCHEDULER_SNAPSHOT_SCHEMA_VERSION = 1"

definition SCHEDULER_KEY_SCHEMA :: string where
  "SCHEDULER_KEY_SCHEMA = ''danus.verify.scheduler-key.v1''"

text \<open>\<open>allow_nan=False\<close>: a non-finite float makes the key raise. \<open>H\<close> is the hexadecimal SHA-256 of a byte
  string.\<close>

definition canonical_sha256 :: "(string \<Rightarrow> string) \<Rightarrow> jobj \<Rightarrow> string option" where
  "canonical_sha256 H value =
     (if all_finite (JObj value) then Some (H (utf8_encode (dumps_sorted compact_fmt (JObj value)))) else None)"

record limits =
  max_distinct_queue :: int
  queue_wait_seconds :: rat
  max_waiters_per_key :: int
  max_total_waiters :: int
  cache_max_entries :: int
  cache_max_bytes :: int
  cache_ttl_seconds :: rat

definition default_limits :: limits where
  "default_limits = \<lparr>max_distinct_queue = 4, queue_wait_seconds = 1800, max_waiters_per_key = 8,
     max_total_waiters = 32, cache_max_entries = 64, cache_max_bytes = 16 * 1024 * 1024,
     cache_ttl_seconds = 3600\<rparr>"

text \<open>The constructor's checks; \<open>timeout_max\<close> is the platform's \<open>threading.TIMEOUT_MAX\<close>.\<close>

definition limits_ok :: "rat \<Rightarrow> limits \<Rightarrow> bool" where
  "limits_ok timeout_max lm \<longleftrightarrow>
     max_distinct_queue lm > 0 \<and> max_waiters_per_key lm > 0 \<and> max_total_waiters lm > 0 \<and>
     cache_max_entries lm > 0 \<and> cache_max_bytes lm > 0 \<and>
     queue_wait_seconds lm > 0 \<and> cache_ttl_seconds lm > 0 \<and> queue_wait_seconds lm \<le> timeout_max"

datatype reject_reason = PerKeyWaitersFull | TotalWaitersFull | DistinctQueueFull | QueueWaitTimeout

text \<open>An exception: a rejection of the scheduler, or any other with its type, text and whether
  \<open>copy.copy\<close> succeeds on it.\<close>

datatype sched_exc = SchedulerRejected reject_reason | Exc string string bool

datatype source = Launched | Coalesced | CacheHit

datatype flight_state = FQueued | FRunning | FCompleted | FFailed

record flight =
  f_key :: string
  f_state :: flight_state
  joined_waiters :: int
  f_result :: "json option"
  f_error :: "sched_exc option"

record cache_entry =
  ce_encoded :: string
  expires_at :: rat

definition ce_size :: "cache_entry \<Rightarrow> int" where
  "ce_size e = int (length (ce_encoded e))"

record counters =
  n_submitted :: nat
  n_launched :: nat
  n_coalesced :: nat
  n_cache_hits :: nat
  n_rejected :: nat
  n_completed :: nat
  n_failed :: nat
  n_expired :: nat
  n_evicted :: nat

record sched =
  queue :: "string list"
  active :: "(string \<times> nat) list"
  running_key :: "string option"
  total_waiters :: int
  cache :: "(string \<times> cache_entry) list"
  cache_bytes :: int
  ctr :: counters
  flights :: "flight list"

definition init_sched :: sched where
  "init_sched = \<lparr>queue = [], active = [], running_key = None, total_waiters = 0, cache = [], cache_bytes = 0,
     ctr = \<lparr>n_submitted = 0, n_launched = 0, n_coalesced = 0, n_cache_hits = 0, n_rejected = 0,
        n_completed = 0, n_failed = 0, n_expired = 0, n_evicted = 0\<rparr>, flights = []\<rparr>"

abbreviation upd_flight :: "nat \<Rightarrow> (flight \<Rightarrow> flight) \<Rightarrow> sched \<Rightarrow> sched" where
  "upd_flight r f s \<equiv> s\<lparr>flights := (flights s)[r := f (flights s ! r)]\<rparr>"

abbreviation upd_ctr :: "(counters \<Rightarrow> counters) \<Rightarrow> sched \<Rightarrow> sched" where
  "upd_ctr f s \<equiv> s\<lparr>ctr := f (ctr s)\<rparr>"

section \<open>The result cache\<close>

definition expire_key :: "string \<Rightarrow> sched \<Rightarrow> sched" where
  "expire_key k s =
     (case map_of (cache s) k of
        None \<Rightarrow> s
      | Some e \<Rightarrow> s\<lparr>cache := AList.delete k (cache s), cache_bytes := cache_bytes s - ce_size e,
                    ctr := n_expired_update Suc (ctr s)\<rparr>)"

definition purge_expired :: "rat \<Rightarrow> sched \<Rightarrow> sched" where
  "purge_expired now s = fold expire_key (keys (filter (\<lambda>(k, e). expires_at e \<le> now) (cache s))) s"

text \<open>The eviction loop pops the oldest entry while a limit is exceeded; popping from an empty cache
  would raise \<open>KeyError\<close>, the value \<open>None\<close> here.\<close>

fun evict :: "limits \<Rightarrow> (string \<times> cache_entry) list \<Rightarrow> int \<Rightarrow> nat \<Rightarrow> ((string \<times> cache_entry) list \<times> int \<times> nat) option" where
  "evict lm [] b n = (if 0 > cache_max_entries lm \<or> b > cache_max_bytes lm then None else Some ([], b, n))"
| "evict lm ((k, e) # c) b n =
     (if int (length ((k, e) # c)) > cache_max_entries lm \<or> b > cache_max_bytes lm
      then evict lm c (b - ce_size e) (Suc n)
      else Some ((k, e) # c, b, n))"

definition cache_result :: "limits \<Rightarrow> string \<Rightarrow> string \<Rightarrow> rat \<Rightarrow> sched \<Rightarrow> sched option" where
  "cache_result lm k encoded now s =
     (if int (length encoded) > cache_max_bytes lm then Some s
      else
        (let b0 = (case map_of (cache s) k of None \<Rightarrow> cache_bytes s | Some old \<Rightarrow> cache_bytes s - ce_size old);
             e = \<lparr>ce_encoded = encoded, expires_at = now + cache_ttl_seconds lm\<rparr>;
             c = AList.delete k (cache s) @ [(k, e)]
         in map_option (\<lambda>(c', b', n). s\<lparr>cache := c', cache_bytes := b', ctr := n_evicted_update (\<lambda>x. x + n) (ctr s)\<rparr>)
              (evict lm c (b0 + ce_size e) 0)))"

text \<open>An entry that is not an object raises.\<close>

definition decoded :: "(string \<Rightarrow> string) \<Rightarrow> cache_entry \<Rightarrow> jobj option" where
  "decoded flt e = (case loads_bytes flt (ce_encoded e) of Some (JObj d) \<Rightarrow> Some d | _ \<Rightarrow> None)"

definition copy_error :: "sched_exc \<Rightarrow> sched_exc" where
  "copy_error e =
     (case e of
        SchedulerRejected r \<Rightarrow> SchedulerRejected r
      | Exc ty msg copyable \<Rightarrow> if copyable then e else Exc ''RuntimeError'' (''scheduled verifier failed: '' @ ty) True)"

section \<open>Admission\<close>

datatype admission = BadKey | Hit "jobj option" | Refused reject_reason | Joins nat | Leads nat | Enqueued nat

definition reject :: "reject_reason \<Rightarrow> sched \<Rightarrow> sched \<times> admission" where
  "reject r s = (upd_ctr (n_rejected_update Suc) s, Refused r)"

definition join_flight :: "limits \<Rightarrow> nat \<Rightarrow> sched \<Rightarrow> sched \<times> admission" where
  "join_flight lm r s =
     (if joined_waiters (flights s ! r) \<ge> max_waiters_per_key lm then reject PerKeyWaitersFull s
      else if total_waiters s \<ge> max_total_waiters lm then reject TotalWaitersFull s
      else ((upd_ctr (n_coalesced_update Suc) (upd_flight r (joined_waiters_update (\<lambda>n. n + 1)) s))
              \<lparr>total_waiters := total_waiters s + 1\<rparr>, Joins r))"

text \<open>A new flight is entered in the active table and, when neither the slot nor the queue admits it,
  taken out again; the object stays in the store, unreferenced.\<close>

definition new_flight :: "string \<Rightarrow> flight" where
  "new_flight k = \<lparr>f_key = k, f_state = FQueued, joined_waiters = 0, f_result = None, f_error = None\<rparr>"

definition lead_flight :: "limits \<Rightarrow> string \<Rightarrow> sched \<Rightarrow> sched \<times> admission" where
  "lead_flight lm k s =
     (let r = length (flights s);
          s1 = s\<lparr>flights := flights s @ [new_flight k], active := AList.update k r (active s)\<rparr>
      in if running_key s1 = None \<and> queue s1 = [] then
           (upd_ctr (n_launched_update Suc)
              ((upd_flight r (f_state_update (\<lambda>_. FRunning)) s1)\<lparr>running_key := Some k\<rparr>), Leads r)
         else if int (length (queue s1)) \<ge> max_distinct_queue lm then
           reject DistinctQueueFull (s1\<lparr>active := AList.delete k (active s1)\<rparr>)
         else if total_waiters s1 \<ge> max_total_waiters lm then
           reject TotalWaitersFull (s1\<lparr>active := AList.delete k (active s1)\<rparr>)
         else (s1\<lparr>queue := queue s1 @ [k], total_waiters := total_waiters s1 + 1\<rparr>, Enqueued r))"

definition move_to_end :: "string \<Rightarrow> (string \<times> 'v) list \<Rightarrow> (string \<times> 'v) list" where
  "move_to_end k c = (case map_of c k of None \<Rightarrow> c | Some v \<Rightarrow> AList.delete k c @ [(k, v)])"

definition admit_caller :: "limits \<Rightarrow> (string \<Rightarrow> string) \<Rightarrow> string \<Rightarrow> rat \<Rightarrow> sched \<Rightarrow> sched \<times> admission" where
  "admit_caller lm flt k now s =
     (if k = [] then (s, BadKey)
      else
        (let s1 = purge_expired now (upd_ctr (n_submitted_update Suc) s)
         in case map_of (cache s1) k of
              Some e \<Rightarrow> (upd_ctr (n_cache_hits_update Suc) (s1\<lparr>cache := move_to_end k (cache s1)\<rparr>), Hit (decoded flt e))
            | None \<Rightarrow>
                (case map_of (active s1) k of
                   Some r \<Rightarrow> join_flight lm r s1
                 | None \<Rightarrow> lead_flight lm k s1)))"

section \<open>Waiting\<close>

definition wait_ms :: "rat \<Rightarrow> rat \<Rightarrow> int" where
  "wait_ms joined now = max 0 \<lfloor>(now - joined) * 1000\<rfloor>"

text \<open>A follower leaves its wait, normally or by an exception: the \<open>finally\<close> clause.\<close>

definition leave_wait :: "nat \<Rightarrow> sched \<Rightarrow> sched" where
  "leave_wait r s =
     (upd_flight r (joined_waiters_update (\<lambda>n. n - 1)) s)\<lparr>total_waiters := total_waiters s - 1\<rparr>"

text \<open>The queued leader withdraws: it leaves the queue, its flight fails and, when the active table
  still holds that flight, the key is freed.\<close>

definition withdraw :: "string \<Rightarrow> nat \<Rightarrow> sched_exc \<Rightarrow> sched \<Rightarrow> sched" where
  "withdraw k r err s =
     (upd_flight r (\<lambda>f. f\<lparr>f_state := FFailed, f_error := Some err\<rparr>)
        (s\<lparr>queue := remove1 k (queue s), total_waiters := total_waiters s - 1\<rparr>))
       \<lparr>active := if map_of (active s) k = Some r then AList.delete k (active s) else active s\<rparr>"

datatype poll_result = TimedOut | Promoted | KeepWaiting

text \<open>One round of the queued leader's loop, at clock reading \<open>now\<close>.\<close>

definition poll_queue :: "limits \<Rightarrow> string \<Rightarrow> nat \<Rightarrow> rat \<Rightarrow> rat \<Rightarrow> sched \<Rightarrow> sched \<times> poll_result" where
  "poll_queue lm k r joined now s =
     (if joined + queue_wait_seconds lm - now \<le> 0 then
        (withdraw k r (SchedulerRejected QueueWaitTimeout) (upd_ctr (n_rejected_update Suc) s), TimedOut)
      else if running_key s = None \<and> queue s \<noteq> [] \<and> hd (queue s) = k then
        (upd_ctr (n_launched_update Suc)
           ((upd_flight r (f_state_update (\<lambda>_. FRunning)) s)
              \<lparr>queue := tl (queue s), total_waiters := total_waiters s - 1, running_key := Some k\<rparr>), Promoted)
      else (s, KeepWaiting))"

section \<open>Publication\<close>

text \<open>What \<open>work()\<close> did: raised, returned a JSON value, or returned a dictionary that holds something
  \<open>json.dumps\<close> cannot encode.\<close>

datatype work_outcome = Raises sched_exc | Returns json | ReturnsOpaque sched_exc

definition encode_result :: "(string \<Rightarrow> string) \<Rightarrow> work_outcome \<Rightarrow> sched_exc + (string \<times> jobj)" where
  "encode_result flt w =
     (case w of
        Raises e \<Rightarrow> Inl e
      | ReturnsOpaque e \<Rightarrow> Inl e
      | Returns v \<Rightarrow>
          (case v of
             JObj d \<Rightarrow>
               if \<not> all_finite v then Inl (Exc ''ValueError'' ''Out of range float values are not JSON compliant'' True)
               else (let encoded = utf8_encode (dumps_sorted compact_fmt v) in
                     case loads_bytes flt encoded of
                       Some (JObj p) \<Rightarrow> Inr (encoded, p)
                     | Some _ \<Rightarrow> Inl (Exc ''TypeError'' ''scheduled verifier result must be a JSON object'' True)
                     | None \<Rightarrow> Inl (Exc ''JSONDecodeError'' [] True))
           | _ \<Rightarrow> Inl (Exc ''TypeError'' ''scheduled verifier result must be a dict'' True)))"

definition release_slot :: "string \<Rightarrow> sched \<Rightarrow> sched" where
  "release_slot k s =
     s\<lparr>running_key := if running_key s = Some k then None else running_key s,
       active := AList.delete k (active s)\<rparr>"

definition fail_work :: "string \<Rightarrow> nat \<Rightarrow> sched_exc \<Rightarrow> sched \<Rightarrow> sched" where
  "fail_work k r err s =
     upd_ctr (n_failed_update Suc)
       (release_slot k (upd_flight r (\<lambda>f. f\<lparr>f_state := FFailed, f_error := Some err\<rparr>) s))"

definition publish :: "limits \<Rightarrow> string \<Rightarrow> nat \<Rightarrow> string \<Rightarrow> jobj \<Rightarrow> rat \<Rightarrow> sched \<Rightarrow> sched option" where
  "publish lm k r encoded p now s =
     map_option
       (\<lambda>s1. upd_ctr (n_completed_update Suc)
          (release_slot k (upd_flight r (\<lambda>f. f\<lparr>f_result := Some (JObj p), f_state := FCompleted\<rparr>) s1)))
       (cache_result lm k encoded now (purge_expired now s))"

section \<open>The snapshot\<close>

definition snapshot :: "string \<Rightarrow> limits \<Rightarrow> rat \<Rightarrow> sched \<Rightarrow> sched \<times> string \<times> (string \<times> int) list \<times> limits \<times> (string \<times> nat) list" where
  "snapshot nonce lm now s =
     (let s1 = purge_expired now s; c = ctr s1 in
      (s1, nonce,
       [(''schema_version'', SCHEDULER_SNAPSHOT_SCHEMA_VERSION), (''paid_concurrency_limit'', 1),
        (''running'', if running_key s1 \<noteq> None then 1 else 0),
        (''distinct_queue_depth'', int (length (queue s1))), (''active_keys'', int (length (active s1))),
        (''waiting_clients'', total_waiters s1), (''cache_entries'', int (length (cache s1))),
        (''cache_bytes'', cache_bytes s1)],
       lm,
       [(''submitted'', n_submitted c), (''launched'', n_launched c), (''coalesced'', n_coalesced c),
        (''cache_hits'', n_cache_hits c), (''rejected'', n_rejected c), (''completed'', n_completed c),
        (''failed'', n_failed c), (''expired'', n_expired c), (''evicted'', n_evicted c)]))"

section \<open>Callers\<close>

text \<open>A caller of \<open>execute\<close> is a thread: waiting for another's flight, queued with its own, running the
  work, or finished with a receipt or an exception.\<close>

datatype caller_result =
    Receipt jobj source int
  | RejectedCall reject_reason
  | WorkFailed sched_exc source int
  | RaisedCall sched_exc

datatype phase = Following | Queued | Working int | Finished caller_result

record caller =
  c_key :: string
  c_flight :: nat
  c_joined :: rat
  c_phase :: phase

text \<open>\<open>published\<close> is a history variable: the keys and values that leaders have published.\<close>

record system =
  sch :: sched
  callers :: "caller list"
  published :: "(string \<times> jobj) list"

definition init_system :: system where
  "init_system = \<lparr>sch = init_sched, callers = [], published = []\<rparr>"

definition value_error :: sched_exc where
  "value_error = Exc ''ValueError'' ''scheduler key must be a non-empty string'' True"

definition broken_entry :: sched_exc where
  "broken_entry = Exc ''RuntimeError'' ''scheduler cache entry is not a JSON object'' True"

text \<open>The phase a caller is in after admission. A caller that leads at once computes its queue wait at a
  later clock reading \<open>now'\<close>.\<close>

definition admitted_phase :: "rat \<Rightarrow> rat \<Rightarrow> admission \<Rightarrow> nat \<times> phase" where
  "admitted_phase joined now' a =
     (case a of
        BadKey \<Rightarrow> (0, Finished (RaisedCall value_error))
      | Hit None \<Rightarrow> (0, Finished (RaisedCall broken_entry))
      | Hit (Some v) \<Rightarrow> (0, Finished (Receipt v CacheHit 0))
      | Refused r \<Rightarrow> (0, Finished (RejectedCall r))
      | Joins r \<Rightarrow> (r, Following)
      | Leads r \<Rightarrow> (r, Working (wait_ms joined now'))
      | Enqueued r \<Rightarrow> (r, Queued))"

definition follow_result :: "rat \<Rightarrow> rat \<Rightarrow> flight \<Rightarrow> caller_result option" where
  "follow_result joined now f =
     (case f_state f of
        FFailed \<Rightarrow> map_option (\<lambda>e. WorkFailed (copy_error e) Coalesced (wait_ms joined now)) (f_error f)
      | FCompleted \<Rightarrow> (case f_result f of Some (JObj v) \<Rightarrow> Some (Receipt v Coalesced (wait_ms joined now)) | _ \<Rightarrow> None)
      | _ \<Rightarrow> None)"

abbreviation set_phase :: "nat \<Rightarrow> phase \<Rightarrow> system \<Rightarrow> system" where
  "set_phase i p y \<equiv> y\<lparr>callers := (callers y)[i := (callers y ! i)\<lparr>c_phase := p\<rparr>]\<rparr>"

text \<open>The interleavings of \<open>execute\<close>: every rule is one critical section of one caller.\<close>

inductive sched_step :: "limits \<Rightarrow> (string \<Rightarrow> string) \<Rightarrow> system \<Rightarrow> system \<Rightarrow> bool" for lm flt where
  submit: "admit_caller lm flt k now (sch y) = (s, a) \<Longrightarrow> admitted_phase now now' a = (r, p) \<Longrightarrow>
     sched_step lm flt y
       (y\<lparr>sch := s, callers := callers y @ [\<lparr>c_key = k, c_flight = r, c_joined = now, c_phase = p\<rparr>]\<rparr>)"
| poll_timeout: "i < length (callers y) \<Longrightarrow> callers y ! i = c \<Longrightarrow> c_phase c = Queued \<Longrightarrow>
     poll_queue lm (c_key c) (c_flight c) (c_joined c) now (sch y) = (s, TimedOut) \<Longrightarrow>
     sched_step lm flt y (set_phase i (Finished (RejectedCall QueueWaitTimeout)) (y\<lparr>sch := s\<rparr>))"
| poll_promote: "i < length (callers y) \<Longrightarrow> callers y ! i = c \<Longrightarrow> c_phase c = Queued \<Longrightarrow>
     poll_queue lm (c_key c) (c_flight c) (c_joined c) now (sch y) = (s, Promoted) \<Longrightarrow>
     sched_step lm flt y (set_phase i (Working (wait_ms (c_joined c) now')) (y\<lparr>sch := s\<rparr>))"
| interrupt_queued: "i < length (callers y) \<Longrightarrow> callers y ! i = c \<Longrightarrow> c_phase c = Queued \<Longrightarrow>
     sched_step lm flt y (set_phase i (Finished (RaisedCall err))
       (y\<lparr>sch := withdraw (c_key c) (c_flight c) err (sch y)\<rparr>))"
| follower_done: "i < length (callers y) \<Longrightarrow> callers y ! i = c \<Longrightarrow> c_phase c = Following \<Longrightarrow>
     follow_result (c_joined c) now (flights (sch y) ! c_flight c) = Some res \<Longrightarrow>
     sched_step lm flt y (set_phase i (Finished res) (y\<lparr>sch := leave_wait (c_flight c) (sch y)\<rparr>))"
| interrupt_follower: "i < length (callers y) \<Longrightarrow> callers y ! i = c \<Longrightarrow> c_phase c = Following \<Longrightarrow>
     sched_step lm flt y (set_phase i (Finished (RaisedCall err)) (y\<lparr>sch := leave_wait (c_flight c) (sch y)\<rparr>))"
| work_failed: "i < length (callers y) \<Longrightarrow> callers y ! i = c \<Longrightarrow> c_phase c = Working w \<Longrightarrow>
     encode_result flt out = Inl err \<Longrightarrow>
     sched_step lm flt y (set_phase i (Finished (WorkFailed err Launched w))
       (y\<lparr>sch := fail_work (c_key c) (c_flight c) err (sch y)\<rparr>))"
| work_published: "i < length (callers y) \<Longrightarrow> callers y ! i = c \<Longrightarrow> c_phase c = Working w \<Longrightarrow>
     encode_result flt out = Inr (encoded, p) \<Longrightarrow>
     publish lm (c_key c) (c_flight c) encoded p now (sch y) = Some s \<Longrightarrow>
     sched_step lm flt y (set_phase i (Finished (Receipt p Launched w))
       (y\<lparr>sch := s, published := (c_key c, p) # published y\<rparr>))"
| observe: "snapshot nonce lm now (sch y) = (s, view) \<Longrightarrow> sched_step lm flt y (y\<lparr>sch := s\<rparr>)"

section \<open>The cache keeps its accounts\<close>

definition sizes :: "(string \<times> cache_entry) list \<Rightarrow> int" where
  "sizes c = (\<Sum>(k, e) \<leftarrow> c. ce_size e)"

lemma sizes_simps [simp]: "sizes [] = 0" "sizes ((k, e) # c) = ce_size e + sizes c" "sizes (c @ d) = sizes c + sizes d"
  by (simp_all add: sizes_def)

lemma ce_size_nonneg [simp]: "0 \<le> ce_size e"
  by (simp add: ce_size_def)

lemma sizes_nonneg [simp]: "0 \<le> sizes c"
  by (induction c) auto

lemma map_of_None_delete: "map_of c k = None \<Longrightarrow> AList.delete k c = c"
  by (simp add: map_of_eq_None_iff)

lemma map_of_Some_split:
  "map_of c k = Some e \<Longrightarrow> distinct (keys c) \<Longrightarrow>
   \<exists>a b. c = a @ (k, e) # b \<and> AList.delete k c = a @ b \<and> k \<notin> fst ` set (a @ b)"
proof (induction c)
  case (Cons x c)
  then show ?case
  proof (cases "fst x = k")
    case True
    with Cons.prems show ?thesis by (intro exI[of _ "[]"] exI[of _ c]) (auto simp: prod_eq_iff)
  next
    case False
    with Cons obtain a b where "c = a @ (k, e) # b" "AList.delete k c = a @ b" "k \<notin> fst ` set (a @ b)"
      by (auto split: if_splits)
    with False show ?thesis by (intro exI[of _ "x # a"] exI[of _ b]) auto
  qed
qed simp

lemma sizes_delete: "map_of c k = Some e \<Longrightarrow> distinct (keys c) \<Longrightarrow> sizes (AList.delete k c) = sizes c - ce_size e"
  using map_of_Some_split[of c k e] by auto

definition cache_inv :: "limits \<Rightarrow> sched \<Rightarrow> bool" where
  "cache_inv lm s \<longleftrightarrow> distinct (keys (cache s)) \<and> cache_bytes s = sizes (cache s)
     \<and> int (length (cache s)) \<le> cache_max_entries lm \<and> cache_bytes s \<le> cache_max_bytes lm"

lemma expire_key_core [simp]:
  "queue (expire_key k s) = queue s" "active (expire_key k s) = active s"
  "running_key (expire_key k s) = running_key s" "total_waiters (expire_key k s) = total_waiters s"
  "flights (expire_key k s) = flights s" "n_launched (ctr (expire_key k s)) = n_launched (ctr s)"
  "n_completed (ctr (expire_key k s)) = n_completed (ctr s)" "n_failed (ctr (expire_key k s)) = n_failed (ctr s)"
  by (simp_all add: expire_key_def split: option.split)

lemma cache_inv_expire_key: "cache_inv lm s \<Longrightarrow> cache_inv lm (expire_key k s)"
proof (cases "map_of (cache s) k")
  case (Some e)
  assume "cache_inv lm s"
  with Some show ?thesis
    using length_delete_le[of k "cache s"] ce_size_nonneg[of e]
    by (simp add: cache_inv_def expire_key_def sizes_delete distinct_delete del: ce_size_nonneg)
qed (simp add: expire_key_def)

lemma fold_keep: "(\<And>x s. P s \<Longrightarrow> P (f x s)) \<Longrightarrow> P s \<Longrightarrow> P (fold f xs s)"
  by (induction xs arbitrary: s) auto

lemma cache_inv_purge: "cache_inv lm s \<Longrightarrow> cache_inv lm (purge_expired now s)"
  unfolding purge_expired_def by (rule fold_keep) (auto intro: cache_inv_expire_key)

lemma fold_expire_core [simp]:
  "queue (fold expire_key ks s) = queue s" "active (fold expire_key ks s) = active s"
  "running_key (fold expire_key ks s) = running_key s" "total_waiters (fold expire_key ks s) = total_waiters s"
  "flights (fold expire_key ks s) = flights s" "n_launched (ctr (fold expire_key ks s)) = n_launched (ctr s)"
  "n_completed (ctr (fold expire_key ks s)) = n_completed (ctr s)" "n_failed (ctr (fold expire_key ks s)) = n_failed (ctr s)"
  by (induction ks arbitrary: s) simp_all

lemma purge_core [simp]:
  "queue (purge_expired now s) = queue s" "active (purge_expired now s) = active s"
  "running_key (purge_expired now s) = running_key s" "total_waiters (purge_expired now s) = total_waiters s"
  "flights (purge_expired now s) = flights s" "n_launched (ctr (purge_expired now s)) = n_launched (ctr s)"
  "n_completed (ctr (purge_expired now s)) = n_completed (ctr s)" "n_failed (ctr (purge_expired now s)) = n_failed (ctr s)"
  by (simp_all add: purge_expired_def)

text \<open>Purging leaves exactly the entries that have not expired.\<close>

lemma fold_expire_cache:
  "distinct (keys (cache s)) \<Longrightarrow> cache (fold expire_key ks s) = filter (\<lambda>(k, e). k \<notin> set ks) (cache s)"
proof (induction ks arbitrary: s)
  case Nil
  then show ?case by (simp add: filter_True case_prod_unfold)
next
  case (Cons k ks)
  have c: "cache (expire_key k s) = filter (\<lambda>(k', e). k' \<noteq> k) (cache s)"
  proof (cases "map_of (cache s) k")
    case None
    then have "k \<notin> fst ` set (cache s)" by (simp add: map_of_eq_None_iff)
    then have "filter (\<lambda>(k', e). k' \<noteq> k) (cache s) = cache s"
      by (intro filter_True) force
    with None show ?thesis by (simp add: expire_key_def)
  next
    case (Some e)
    then show ?thesis
      by (auto simp: expire_key_def AList.delete_eq intro!: filter_cong)
  qed
  moreover have "distinct (keys (cache (expire_key k s)))"
    unfolding c using Cons.prems by (rule distinct_map_filter)
  ultimately show ?case
    using Cons.IH[of "expire_key k s"] by (simp add: case_prod_unfold conj_commute)
qed

lemma purge_cache:
  assumes "distinct (keys (cache s))"
  shows "cache (purge_expired now s) = filter (\<lambda>(k, e). expires_at e > now) (cache s)"
proof -
  have "(k \<notin> set (keys (filter (\<lambda>(k, e). expires_at e \<le> now) (cache s)))) = (expires_at e > now)"
    if "(k, e) \<in> set (cache s)" for k e
  proof -
    have "k \<in> set (keys (filter (\<lambda>(k, e). expires_at e \<le> now) (cache s))) \<longleftrightarrow>
        (\<exists>e'. (k, e') \<in> set (cache s) \<and> expires_at e' \<le> now)"
      by (auto simp: image_iff)
    also have "\<dots> \<longleftrightarrow> expires_at e \<le> now"
      using that eq_key_imp_eq_value[OF assms that] by metis
    finally show ?thesis by (simp only: not_le)
  qed
  then show ?thesis
    unfolding purge_expired_def fold_expire_cache[OF assms]
    by (intro filter_cong refl) (auto simp only: split_beta prod.collapse fst_conv snd_conv)
qed

lemma evict_spec:
  "evict lm c b n = Some (c', b', n') \<Longrightarrow>
     \<exists>a. c = a @ c' \<and> b' = b - sizes a \<and> n' = n + length a
       \<and> int (length c') \<le> cache_max_entries lm \<and> b' \<le> cache_max_bytes lm"
proof (induction lm c b n rule: evict.induct)
  case (2 lm k e c b n)
  show ?case
  proof (cases "int (length ((k, e) # c)) > cache_max_entries lm \<or> b > cache_max_bytes lm")
    case True
    with 2 obtain a where "c = a @ c'" "b' = b - ce_size e - sizes a" "n' = Suc n + length a"
      "int (length c') \<le> cache_max_entries lm" "b' \<le> cache_max_bytes lm" by auto
    then show ?thesis by (intro exI[of _ "(k, e) # a"]) auto
  next
    case False
    with "2.prems" show ?thesis by (intro exI[of _ "[]"]) auto
  qed
qed (auto split: if_splits)

lemma evict_total:
  "b = sizes c \<Longrightarrow> 0 \<le> cache_max_entries lm \<Longrightarrow> 0 \<le> cache_max_bytes lm \<Longrightarrow> evict lm c b n \<noteq> None"
  by (induction lm c b n rule: evict.induct) auto

lemma evict_keeps_last:
  "evict lm (c @ [(k, e)]) (sizes (c @ [(k, e)])) n = Some (c', b', n') \<Longrightarrow>
   1 \<le> cache_max_entries lm \<Longrightarrow> ce_size e \<le> cache_max_bytes lm \<Longrightarrow> c' \<noteq> []"
proof (induction c arbitrary: n)
  case (Cons x c)
  then show ?case
    by (cases x) (auto simp: add.commute add.left_commute split: if_splits)
qed (auto split: if_splits)

lemma cache_result_core:
  assumes "cache_result lm k enc now s = Some s'"
  shows "queue s' = queue s" "active s' = active s" "running_key s' = running_key s"
    "total_waiters s' = total_waiters s" "flights s' = flights s" "n_launched (ctr s') = n_launched (ctr s)"
    "n_completed (ctr s') = n_completed (ctr s)" "n_failed (ctr s') = n_failed (ctr s)"
  using assms by (auto simp: cache_result_def Let_def split: if_splits)

lemma insert_sizes:
  assumes "cache_inv lm s"
  shows "(case map_of (cache s) k of None \<Rightarrow> cache_bytes s | Some old \<Rightarrow> cache_bytes s - ce_size old) + ce_size e
    = sizes (AList.delete k (cache s) @ [(k, e)])"
    and "distinct (keys (AList.delete k (cache s) @ [(k, e)]))"
  using assms delete_notin_dom[of k "cache s"]
  by (auto simp: cache_inv_def sizes_delete map_of_None_delete distinct_delete split: option.split)

lemma cache_result_cases:
  assumes "cache_inv lm s" "cache_result lm k enc now s = Some s'"
  obtains (big) "int (length enc) > cache_max_bytes lm" "s' = s"
  | (kept) a where "int (length enc) \<le> cache_max_bytes lm"
      "AList.delete k (cache s) @ [(k, \<lparr>ce_encoded = enc, expires_at = now + cache_ttl_seconds lm\<rparr>)] = a @ cache s'"
      "cache_bytes s' = sizes (cache s')" "int (length (cache s')) \<le> cache_max_entries lm"
      "cache_bytes s' \<le> cache_max_bytes lm" "1 \<le> cache_max_entries lm \<Longrightarrow> cache s' \<noteq> []"
proof (cases "int (length enc) > cache_max_bytes lm")
  case True
  with assms(2) show ?thesis by (intro big) (simp_all add: cache_result_def)
next
  case False
  let ?e = "\<lparr>ce_encoded = enc, expires_at = now + cache_ttl_seconds lm\<rparr>"
  let ?c = "AList.delete k (cache s) @ [(k, ?e)]"
  from assms(2) False obtain c' b' n where ev: "evict lm ?c (sizes ?c) 0 = Some (c', b', n)"
    and s': "cache s' = c'" "cache_bytes s' = b'"
    unfolding cache_result_def Let_def insert_sizes(1)[OF assms(1)] by (auto simp del: sizes_simps)
  from evict_spec[OF ev] obtain a where a: "?c = a @ c'" "b' = sizes ?c - sizes a"
    "int (length c') \<le> cache_max_entries lm" "b' \<le> cache_max_bytes lm" by blast
  from arg_cong[OF a(1), of sizes] a(2) have "b' = sizes c'" by simp
  moreover have "1 \<le> cache_max_entries lm \<Longrightarrow> c' \<noteq> []"
    using evict_keeps_last[OF ev] False by (simp add: ce_size_def)
  ultimately show ?thesis using a s' False by (intro kept[of a]) simp_all
qed

lemma cache_inv_result:
  assumes "cache_inv lm s" "cache_result lm k enc now s = Some s'"
  shows "cache_inv lm s'"
  using assms
proof (cases rule: cache_result_cases)
  case (kept a)
  have "distinct (keys (a @ cache s'))"
    unfolding kept(2)[symmetric] by (rule insert_sizes(2)[OF assms(1)])
  with kept show ?thesis by (simp add: cache_inv_def)
qed (use assms in simp)

lemma cache_result_total:
  assumes "cache_inv lm s" "limits_ok tm lm"
  shows "cache_result lm k enc now s \<noteq> None"
proof -
  have "evict lm c (sizes c) 0 \<noteq> None" for c
    using assms(2) by (intro evict_total) (simp_all add: limits_ok_def)
  then show ?thesis
    unfolding cache_result_def Let_def insert_sizes(1)[OF assms(1)] by (simp del: not_None_eq sizes_simps)
qed

lemma cache_result_entries:
  assumes "cache_inv lm s" "cache_result lm k enc now s = Some s'" "(k', e') \<in> set (cache s')"
  shows "(k', e') \<in> set (cache s) \<or> k' = k \<and> ce_encoded e' = enc"
  using assms(1,2)
proof (cases rule: cache_result_cases)
  case (kept a)
  have "(k', e') \<in> set (a @ cache s')" using assms(3) by simp
  then show ?thesis unfolding kept(2)[symmetric] by (auto simp: AList.delete_eq)
qed (use assms in simp)

text \<open>A result that fits is published under its key, at the young end of the cache.\<close>

lemma cache_result_stores:
  assumes "cache_inv lm s" "limits_ok tm lm" "int (length enc) \<le> cache_max_bytes lm"
    "cache_result lm k enc now s = Some s'"
  shows "map_of (cache s') k = Some \<lparr>ce_encoded = enc, expires_at = now + cache_ttl_seconds lm\<rparr>"
  using assms(1,4)
proof (cases rule: cache_result_cases)
  case (kept a)
  let ?e = "\<lparr>ce_encoded = enc, expires_at = now + cache_ttl_seconds lm\<rparr>"
  have "cache s' \<noteq> []" using kept(6) assms(2) by (simp add: limits_ok_def)
  with kept(2) have "(k, ?e) \<in> set (cache s')"
    by (metis last_appendR last_in_set last_snoc)
  with cache_inv_result[OF assms(1,4)] show ?thesis
    by (simp add: cache_inv_def)
qed (use assms in simp)

section \<open>What a leader publishes\<close>

text \<open>Property C31. A leader's result survives publication: a dictionary without floats that \<open>work\<close> returns is
  encoded, decoded and published as the same dictionary with its keys sorted.\<close>

theorem publication_roundtrip:
  assumes "json_plain (JObj d)"
  shows "\<exists>p. encode_result flt (Returns (JObj d)) = Inr (utf8_encode (dumps_sorted compact_fmt (JObj d)), p)
    \<and> JObj p = canon (JObj d)"
  using assms json_plain_finite[OF assms]
  by (simp add: encode_result_def loads_bytes_def utf8_decode_encode loads_dumps_sorted del: json_plain.simps all_finite.simps)

theorem publication_roundtrip_witness:
  "json_plain (JObj [(''b'', JInt 2), (''a'', JStr ''x'')]) \<and>
   (\<exists>p. encode_result id (Returns (JObj [(''b'', JInt 2), (''a'', JStr ''x'')]))
      = Inr (utf8_encode (dumps_sorted compact_fmt (JObj [(''b'', JInt 2), (''a'', JStr ''x'')])), p)
    \<and> JObj p = canon (JObj [(''b'', JInt 2), (''a'', JStr ''x'')]))"
  using publication_roundtrip[of "[(''b'', JInt 2), (''a'', JStr ''x'')]" id] by simp

end
