(* ===== verification/SchedulerFlow.thy ===== *)
theory SchedulerFlow
  imports Scheduler
begin

text \<open>
  The invariant of the scheduler: how the queue, the active table, the flights and the waiter counters
  of the monitor correspond to the callers of \<open>execute\<close> at every interleaving, one preservation lemma per
  critical section.
\<close>

section \<open>Slots: the queue, the running caller\<close>

fun working :: "phase \<Rightarrow> bool" where
  "working (Working w) = True"
| "working _ = False"

abbreviation live :: "caller \<Rightarrow> bool" where
  "live c \<equiv> c_phase c = Queued \<or> working (c_phase c)"

definition q_keys :: "caller list \<Rightarrow> string list" where
  "q_keys cs = map c_key (filter (\<lambda>c. c_phase c = Queued) cs)"

definition w_keys :: "caller list \<Rightarrow> string list" where
  "w_keys cs = map c_key (filter (\<lambda>c. working (c_phase c)) cs)"

definition n_follow :: "nat \<Rightarrow> caller list \<Rightarrow> int" where
  "n_follow r cs = int (length (filter (\<lambda>c. c_phase c = Following \<and> c_flight c = r) cs))"

definition n_waiting :: "caller list \<Rightarrow> int" where
  "n_waiting cs = int (length (filter (\<lambda>c. c_phase c = Following \<or> c_phase c = Queued) cs))"

lemma q_keys_simps [simp]: "q_keys [] = []" "q_keys (cs @ ds) = q_keys cs @ q_keys ds"
  "q_keys (c # cs) = (if c_phase c = Queued then [c_key c] else []) @ q_keys cs"
  by (simp_all add: q_keys_def)

lemma w_keys_simps [simp]: "w_keys [] = []" "w_keys (cs @ ds) = w_keys cs @ w_keys ds"
  "w_keys (c # cs) = (if working (c_phase c) then [c_key c] else []) @ w_keys cs"
  by (simp_all add: w_keys_def)

lemma n_follow_simps [simp]: "n_follow r [] = 0" "n_follow r (cs @ ds) = n_follow r cs + n_follow r ds"
  "n_follow r (c # cs) = (if c_phase c = Following \<and> c_flight c = r then 1 else 0) + n_follow r cs"
  by (simp_all add: n_follow_def)

lemma n_waiting_simps [simp]: "n_waiting [] = 0" "n_waiting (cs @ ds) = n_waiting cs + n_waiting ds"
  "n_waiting (c # cs) = (if c_phase c = Following \<or> c_phase c = Queued then 1 else 0) + n_waiting cs"
  by (simp_all add: n_waiting_def)

lemma n_follow_nonneg [simp]: "0 \<le> n_follow r cs" by (simp add: n_follow_def)

lemma in_q_keys: "k \<in> set (q_keys cs) \<longleftrightarrow> (\<exists>c \<in> set cs. c_phase c = Queued \<and> c_key c = k)"
  by (auto simp: q_keys_def)

lemma in_w_keys: "k \<in> set (w_keys cs) \<longleftrightarrow> (\<exists>c \<in> set cs. working (c_phase c) \<and> c_key c = k)"
  by (auto simp: w_keys_def)

text \<open>The queue is exactly the queued callers in order of submission; the slot is exactly the caller that
  runs the verifier; no key is queued twice or both queued and running.\<close>

definition slots :: "sched \<Rightarrow> caller list \<Rightarrow> bool" where
  "slots s cs \<longleftrightarrow> queue s = q_keys cs \<and> w_keys cs = (case running_key s of None \<Rightarrow> [] | Some k \<Rightarrow> [k])
     \<and> distinct (q_keys cs @ w_keys cs)"

lemma slots_finish_queued:
  assumes "slots s (as @ c # bs)" "c_phase c = Queued"
  shows "slots (withdraw (c_key c) r e s) (as @ c\<lparr>c_phase := Finished res\<rparr> # bs)"
  using assms by (cases "running_key s") (auto simp: slots_def withdraw_def remove1_append append_eq_Cons_conv)

lemma slots_promote:
  assumes "slots s (as @ c # bs)" "c_phase c = Queued" "poll_queue lm (c_key c) r j now s = (s', Promoted)"
  shows "slots s' (as @ c\<lparr>c_phase := Working w\<rparr> # bs)"
proof -
  have s: "running_key s = None" "queue s \<noteq> []" "hd (queue s) = c_key c"
      "queue s' = tl (queue s)" "running_key s' = Some (c_key c)"
    using assms(3) by (auto simp: poll_queue_def split: if_splits)
  have "q_keys as = []"
  proof (rule ccontr)
    assume "q_keys as \<noteq> []"
    then have "hd (queue s) \<in> set (q_keys as)" using assms(1) by (simp add: slots_def)
    with s assms(1,2) show False by (simp add: slots_def)
  qed
  moreover have "w_keys as = []" "w_keys bs = []"
    using assms(1,2) s(1) by (auto simp: slots_def)
  ultimately show ?thesis
    using assms(1,2) s by (auto simp: slots_def)
qed

lemma slots_finish_working:
  assumes "slots s (as @ c # bs)" "working (c_phase c)"
  shows "slots (release_slot (c_key c) s) (as @ c\<lparr>c_phase := Finished res\<rparr> # bs)"
  using assms by (auto simp: slots_def release_slot_def append_eq_Cons_conv split: option.splits)

lemma slots_cong: "queue s' = queue s \<Longrightarrow> running_key s' = running_key s \<Longrightarrow> slots s' cs = slots s cs"
  by (simp add: slots_def)

lemma slots_follower:
  assumes "slots s (as @ c # bs)" "c_phase c = Following"
  shows "slots (leave_wait r s) (as @ c\<lparr>c_phase := Finished res\<rparr> # bs)"
  using assms by (cases "running_key s") (auto simp: slots_def leave_wait_def append_eq_Cons_conv)

section \<open>The active table and the flights\<close>

definition terminal :: "flight \<Rightarrow> bool" where
  "terminal f \<longleftrightarrow> f_state f = FCompleted \<or> f_state f = FFailed"

definition flight_ok :: "flight \<Rightarrow> bool" where
  "flight_ok f \<longleftrightarrow> (f_state f = FFailed \<longrightarrow> f_error f \<noteq> None) \<and> (f_state f = FCompleted \<longrightarrow> (\<exists>v. f_result f = Some (JObj v)))"

text \<open>A caller that has not finished holds a flight of its own key; a queued or running caller owns the
  active flight of its key; a follower's flight is terminal or is the active flight of its key.\<close>

definition caller_ok :: "sched \<Rightarrow> caller \<Rightarrow> bool" where
  "caller_ok s c \<longleftrightarrow>
     (live c \<or> c_phase c = Following \<longrightarrow> c_flight c < length (flights s) \<and> f_key (flights s ! c_flight c) = c_key c) \<and>
     (live c \<longrightarrow> map_of (active s) (c_key c) = Some (c_flight c)) \<and>
     (c_phase c = Queued \<longrightarrow> f_state (flights s ! c_flight c) = FQueued) \<and>
     (working (c_phase c) \<longrightarrow> f_state (flights s ! c_flight c) = FRunning) \<and>
     (c_phase c = Following \<and> \<not> terminal (flights s ! c_flight c) \<longrightarrow> map_of (active s) (c_key c) = Some (c_flight c))"

definition owned :: "sched \<Rightarrow> caller list \<Rightarrow> bool" where
  "owned s cs \<longleftrightarrow> (\<forall>k r. map_of (active s) k = Some r \<longrightarrow> (\<exists>c \<in> set cs. live c \<and> c_key c = k \<and> c_flight c = r))"

definition table :: "sched \<Rightarrow> caller list \<Rightarrow> bool" where
  "table s cs \<longleftrightarrow> distinct (keys (active s)) \<and> owned s cs \<and> (\<forall>c \<in> set cs. caller_ok s c) \<and> (\<forall>f \<in> set (flights s). flight_ok f)"

lemma caller_ok_finished [simp]: "caller_ok s (c\<lparr>c_phase := Finished res\<rparr>)"
  by (simp add: caller_ok_def)

lemma live_keys_differ:
  assumes "slots s (as @ c # bs)" "live c" "d \<in> set (as @ bs)" "live d"
  shows "c_key d \<noteq> c_key c"
proof -
  have "c_key d \<in> set (q_keys as @ w_keys as @ q_keys bs @ w_keys bs)"
    using assms(3,4) by (auto simp: in_q_keys in_w_keys)
  moreover have "c_key c \<notin> set (q_keys as @ w_keys as @ q_keys bs @ w_keys bs)"
    using assms(1,2) by (cases "c_phase c = Queued"; cases "working (c_phase c)") (auto simp: slots_def)
  ultimately show ?thesis by auto
qed

lemma nth_upd: "j < length xs \<Longrightarrow> xs[i := x] ! j = (if i = j then x else xs ! j)"
  by (cases "i = j") auto

lemma flights_update:
  "\<forall>f \<in> set fs. P f \<Longrightarrow> (r < length fs \<Longrightarrow> P (fs ! r) \<Longrightarrow> P x) \<Longrightarrow> \<forall>f \<in> set (fs[r := x]). P f"
  unfolding all_set_conv_all_nth by (auto simp: nth_upd)

text \<open>Retiring the flight of a live caller: the flight becomes terminal and its key is freed.\<close>

lemma table_retire:
  assumes sl: "slots s (as @ c # bs)" and tb: "table s (as @ c # bs)" and lv: "live c"
    and g: "f_key (g (flights s ! c_flight c)) = f_key (flights s ! c_flight c)"
      "terminal (g (flights s ! c_flight c))" "flight_ok (g (flights s ! c_flight c))"
    and fl: "flights s' = (flights s)[c_flight c := g (flights s ! c_flight c)]"
    and ac: "active s' = AList.delete (c_key c) (active s)"
  shows "table s' (as @ c\<lparr>c_phase := Finished res\<rparr> # bs)"
proof -
  have cok: "caller_ok s c" using tb by (simp add: table_def)
  have "caller_ok s' d" if d: "d \<in> set (as @ bs)" for d
  proof -
    have ok: "caller_ok s d" using tb d by (auto simp: table_def)
    show ?thesis
    proof (cases "live d")
      case True
      with live_keys_differ[OF sl lv d] have "c_key d \<noteq> c_key c" by blast
      moreover from this have "c_flight d \<noteq> c_flight c"
        using ok cok True lv by (auto simp: caller_ok_def)
      ultimately show ?thesis using ok True
        by (auto simp: caller_ok_def fl ac)
    next
      case False
      then show ?thesis
        using ok cok lv g by (cases "c_flight d = c_flight c"; cases "c_key d = c_key c") (auto simp: caller_ok_def fl ac)
    qed
  qed
  moreover have "owned s' (as @ c\<lparr>c_phase := Finished res\<rparr> # bs)"
    unfolding owned_def
  proof (intro allI impI)
    fix k r assume "map_of (active s') k = Some r"
    then have "map_of (active s) k = Some r" "k \<noteq> c_key c"
      using tb by (auto simp: ac delete_conv' table_def split: if_splits)
    moreover from this(1) tb obtain d where "d \<in> set (as @ c # bs)" "live d" "c_key d = k" "c_flight d = r"
      unfolding table_def owned_def by blast
    ultimately show "\<exists>d \<in> set (as @ c\<lparr>c_phase := Finished res\<rparr> # bs). live d \<and> c_key d = k \<and> c_flight d = r"
      by auto
  qed
  moreover have "\<forall>f \<in> set (flights s'). flight_ok f"
    unfolding fl using tb g by (intro flights_update) (simp_all add: table_def)
  moreover have "distinct (keys (active s'))"
    using tb by (simp add: table_def ac distinct_delete)
  ultimately show ?thesis by (auto simp: table_def)
qed

lemma table_withdraw:
  assumes "slots s (as @ c # bs)" "table s (as @ c # bs)" "c_phase c = Queued"
  shows "table (withdraw (c_key c) (c_flight c) e s) (as @ c\<lparr>c_phase := Finished res\<rparr> # bs)"
proof -
  have "map_of (active s) (c_key c) = Some (c_flight c)"
    using assms(2,3) by (simp add: table_def caller_ok_def)
  then show ?thesis
    using assms(3) by (intro table_retire[OF assms(1,2), where g = "\<lambda>f. f\<lparr>f_state := FFailed, f_error := Some e\<rparr>"])
      (simp_all add: withdraw_def terminal_def flight_ok_def)
qed

lemma table_fail_work:
  assumes "slots s (as @ c # bs)" "table s (as @ c # bs)" "working (c_phase c)"
  shows "table (fail_work (c_key c) (c_flight c) e s) (as @ c\<lparr>c_phase := Finished res\<rparr> # bs)"
  using assms(3) by (intro table_retire[OF assms(1,2), where g = "\<lambda>f. f\<lparr>f_state := FFailed, f_error := Some e\<rparr>"])
    (simp_all add: fail_work_def release_slot_def terminal_def flight_ok_def)

lemma publish_core:
  assumes "publish lm k r enc p now s = Some s'"
  shows "queue s' = queue s" "running_key s' = running_key (release_slot k s)" "active s' = AList.delete k (active s)"
    "flights s' = (flights s)[r := (flights s ! r)\<lparr>f_result := Some (JObj p), f_state := FCompleted\<rparr>]"
    "total_waiters s' = total_waiters s"
  using assms by (auto simp: publish_def release_slot_def dest: cache_result_core)

lemma table_publish:
  assumes "slots s (as @ c # bs)" "table s (as @ c # bs)" "working (c_phase c)"
    and p: "publish lm (c_key c) (c_flight c) enc p now s = Some s'"
  shows "table s' (as @ c\<lparr>c_phase := Finished res\<rparr> # bs)"
  using assms(3)
  by (intro table_retire[OF assms(1,2), where g = "\<lambda>f. f\<lparr>f_result := Some (JObj p), f_state := FCompleted\<rparr>"])
    (simp_all add: publish_core[OF p] terminal_def flight_ok_def)

lemma table_promote:
  assumes sl: "slots s (as @ c # bs)" and tb: "table s (as @ c # bs)" and q: "c_phase c = Queued"
    and pr: "poll_queue lm (c_key c) (c_flight c) j now s = (s', Promoted)"
  shows "table s' (as @ c\<lparr>c_phase := Working w\<rparr> # bs)"
proof -
  have s': "active s' = active s" "flights s' = (flights s)[c_flight c := (flights s ! c_flight c)\<lparr>f_state := FRunning\<rparr>]"
    using pr by (auto simp: poll_queue_def split: if_splits)
  have cok: "caller_ok s c" using tb by (simp add: table_def)
  have "caller_ok s' d" if d: "d \<in> set (as @ bs)" for d
  proof -
    have ok: "caller_ok s d" using tb d by (auto simp: table_def)
    have "live d \<Longrightarrow> c_flight d \<noteq> c_flight c"
      using live_keys_differ[OF sl _ d] q ok cok by (auto simp: caller_ok_def)
    then show ?thesis
      using ok cok q by (cases "c_flight d = c_flight c") (auto simp: caller_ok_def s' terminal_def)
  qed
  moreover have "caller_ok s' (c\<lparr>c_phase := Working w\<rparr>)"
    using cok q by (auto simp: caller_ok_def s')
  moreover have "owned s' (as @ c\<lparr>c_phase := Working w\<rparr> # bs)"
    using tb q by (fastforce simp: table_def owned_def s')
  moreover have "\<forall>f \<in> set (flights s'). flight_ok f"
    unfolding s' using tb by (intro flights_update) (simp_all add: table_def flight_ok_def)
  ultimately show ?thesis
    using tb by (auto simp: table_def s')
qed

text \<open>Changing the waiter count of a flight touches nothing the table records.\<close>

lemma table_waiters:
  assumes "table s cs" and fl: "flights s' = (flights s)[r := joined_waiters_update f (flights s ! r)]"
    and ac: "active s' = active s"
  shows "table s' cs"
proof -
  have get: "f_key (flights s' ! i) = f_key (flights s ! i)" "f_state (flights s' ! i) = f_state (flights s ! i)"
    "length (flights s') = length (flights s)" for i
    by (cases "i = r \<and> r < length (flights s)"; auto simp: fl nth_list_update list_update_beyond)+
  have "caller_ok s' c = caller_ok s c" for c
    by (simp add: caller_ok_def terminal_def get ac)
  moreover have "\<forall>f \<in> set (flights s'). flight_ok f"
    unfolding fl using assms(1) by (intro flights_update) (simp_all add: table_def flight_ok_def)
  ultimately show ?thesis
    using assms(1) by (auto simp: table_def owned_def ac)
qed

lemma table_retire_follower:
  assumes "table s (as @ c # bs)" "c_phase c = Following"
  shows "table (leave_wait r s) (as @ c\<lparr>c_phase := Finished res\<rparr> # bs)"
proof -
  have "table (leave_wait r s) (as @ c # bs)"
    by (rule table_waiters[OF assms(1)]) (simp_all add: leave_wait_def)
  with assms(2) show ?thesis
    by (fastforce simp: table_def owned_def)
qed

section \<open>Waiter accounting\<close>

definition waiters :: "limits \<Rightarrow> sched \<Rightarrow> caller list \<Rightarrow> bool" where
  "waiters lm s cs \<longleftrightarrow> total_waiters s = n_waiting cs \<and> total_waiters s \<le> max_total_waiters lm
     \<and> int (length (queue s)) \<le> max_distinct_queue lm
     \<and> (\<forall>r < length (flights s). joined_waiters (flights s ! r) = n_follow r cs
          \<and> joined_waiters (flights s ! r) \<le> max_waiters_per_key lm)"

lemma waiters_finish_queued:
  assumes "waiters lm s (as @ c # bs)" "c_phase c = Queued"
  shows "waiters lm (withdraw (c_key c) r e s) (as @ c\<lparr>c_phase := Finished res\<rparr> # bs)"
  using assms by (auto simp: waiters_def withdraw_def nth_upd length_remove1 split: if_splits)

lemma waiters_promote:
  assumes "waiters lm s (as @ c # bs)" "c_phase c = Queued" "poll_queue lm (c_key c) r j now s = (s', Promoted)"
  shows "waiters lm s' (as @ c\<lparr>c_phase := Working w\<rparr> # bs)"
  using assms by (auto simp: waiters_def poll_queue_def nth_upd split: if_splits)

lemma waiters_finish_working:
  assumes "waiters lm s (as @ c # bs)" "working (c_phase c)"
    and s': "queue s' = queue s" "total_waiters s' = total_waiters s"
      "flights s' = (flights s)[r := g (flights s ! r)]" "\<And>f. joined_waiters (g f) = joined_waiters f"
  shows "waiters lm s' (as @ c\<lparr>c_phase := Finished res\<rparr> # bs)"
  using assms by (cases "c_phase c") (auto simp: waiters_def nth_upd)

lemma waiters_follower:
  assumes "waiters lm s (as @ c # bs)" "c_phase c = Following"
  shows "waiters lm (leave_wait (c_flight c) s) (as @ c\<lparr>c_phase := Finished res\<rparr> # bs)"
proof -
  have "n_follow r as + n_follow r bs \<le> max_waiters_per_key lm" if "r < length (flights s)" for r
    using assms that by (auto simp: waiters_def dest!: spec[of _ r] split: if_splits)
  then show ?thesis
    using assms by (auto simp: waiters_def leave_wait_def nth_upd)
qed

section \<open>The flow invariant under admission\<close>

definition flow :: "limits \<Rightarrow> sched \<Rightarrow> caller list \<Rightarrow> bool" where
  "flow lm s cs \<longleftrightarrow> slots s cs \<and> table s cs \<and> waiters lm s cs"

lemma flow_cong:
  assumes "queue s' = queue s" "running_key s' = running_key s" "active s' = active s" "flights s' = flights s"
    "total_waiters s' = total_waiters s"
  shows "flow lm s' cs = flow lm s cs"
  using assms by (simp add: flow_def slots_def table_def owned_def caller_ok_def waiters_def)

lemma flow_finished: "flow lm s cs \<Longrightarrow> c_phase c = Finished res \<Longrightarrow> flow lm s (cs @ [c])"
  by (cases "running_key s") (auto simp: flow_def slots_def table_def owned_def caller_ok_def waiters_def)

text \<open>An unreferenced flight at the end of the store changes nothing.\<close>

lemma flow_garbage:
  assumes "flow lm s cs" "0 < max_waiters_per_key lm" "flights s' = flights s @ [new_flight k]"
    "queue s' = queue s" "running_key s' = running_key s" "active s' = active s" "total_waiters s' = total_waiters s"
  shows "flow lm s' cs"
proof -
  have "n_follow (length (flights s)) cs = 0"
    using assms(1) by (auto simp: flow_def table_def caller_ok_def n_follow_def filter_empty_conv)
  moreover have "caller_ok s' c" if "caller_ok s c" for c
    using that assms(3,6) by (auto simp: caller_ok_def nth_append)
  ultimately show ?thesis
    using assms by (auto simp: flow_def slots_def table_def owned_def waiters_def nth_append less_Suc_eq
        new_flight_def flight_ok_def)
qed

lemma flow_join:
  assumes fl: "flow lm s cs" and ac: "map_of (active s) k = Some r" and j: "join_flight lm r s = (s', Joins r')"
  shows "flow lm s' (cs @ [\<lparr>c_key = k, c_flight = r', c_joined = t, c_phase = Following\<rparr>])"
proof -
  have s': "r' = r" "queue s' = queue s" "running_key s' = running_key s" "active s' = active s"
      "flights s' = (flights s)[r := joined_waiters_update (\<lambda>n. n + 1) (flights s ! r)]"
      "total_waiters s' = total_waiters s + 1"
    and room: "joined_waiters (flights s ! r) < max_waiters_per_key lm" "total_waiters s < max_total_waiters lm"
    using j by (auto simp: join_flight_def reject_def split: if_splits)
  obtain c where c: "c \<in> set cs" "live c" "c_key c = k" "c_flight c = r"
    using fl ac unfolding flow_def table_def owned_def by blast
  then have ok: "r < length (flights s)" "f_key (flights s ! r) = k"
    using fl by (auto simp: flow_def table_def caller_ok_def)
  have "table s' cs"
    using fl by (intro table_waiters[OF _ s'(5,4)]) (simp add: flow_def)
  moreover have "caller_ok s' \<lparr>c_key = k, c_flight = r', c_joined = t, c_phase = Following\<rparr>"
    using ok ac by (simp add: caller_ok_def s')
  ultimately have "table s' (cs @ [\<lparr>c_key = k, c_flight = r', c_joined = t, c_phase = Following\<rparr>])"
    by (fastforce simp: table_def owned_def)
  moreover have "slots s' (cs @ [\<lparr>c_key = k, c_flight = r', c_joined = t, c_phase = Following\<rparr>])"
    using fl by (cases "running_key s") (auto simp: flow_def slots_def s')
  moreover have "waiters lm s' (cs @ [\<lparr>c_key = k, c_flight = r', c_joined = t, c_phase = Following\<rparr>])"
    using fl room ok by (auto simp: flow_def waiters_def s' nth_upd)
  ultimately show ?thesis by (simp add: flow_def)
qed

text \<open>A fresh leader, running or queued: its key was free, so its flight becomes the active one.\<close>

lemma table_lead:
  assumes tb: "table s cs" and free: "map_of (active s) k = None"
    and fl: "flights s' = flights s @ [f]" and ac: "active s' = AList.update k (length (flights s)) (active s)"
    and f: "f_key f = k" "f_state f = (if ph = Queued then FQueued else FRunning)" and ph: "ph = Queued \<or> working ph"
  shows "table s' (cs @ [\<lparr>c_key = k, c_flight = length (flights s), c_joined = t, c_phase = ph\<rparr>])"
proof -
  have mo: "map_of (active s') = (map_of (active s))(k \<mapsto> length (flights s))"
    by (simp add: ac update_conv')
  have "caller_ok s' c" if "caller_ok s c" for c
    using that free by (cases "c_key c = k") (auto simp: caller_ok_def fl mo nth_append)
  moreover have "caller_ok s' \<lparr>c_key = k, c_flight = length (flights s), c_joined = t, c_phase = ph\<rparr>"
    using f ph by (auto simp: caller_ok_def fl mo)
  moreover have "owned s' (cs @ [\<lparr>c_key = k, c_flight = length (flights s), c_joined = t, c_phase = ph\<rparr>])"
    using tb ph by (auto simp: table_def owned_def mo split: if_splits)
  ultimately show ?thesis
    using tb f by (auto simp: table_def fl ac flight_ok_def distinct_update)
qed

lemma flow_lead:
  assumes fl: "flow lm s cs" and free: "map_of (active s) k = None" and lm: "limits_ok tm lm"
    and ld: "lead_flight lm k s = (s', a)" and ph: "admitted_phase t t' a = (r, p)"
  shows "flow lm s' (cs @ [\<lparr>c_key = k, c_flight = r, c_joined = t, c_phase = p\<rparr>])"
proof -
  let ?r = "length (flights s)"
  have nofol: "n_follow ?r cs = 0"
    using fl by (auto simp: flow_def table_def caller_ok_def n_follow_def filter_empty_conv)
  have fresh: "k \<notin> set (q_keys cs)" "k \<notin> set (w_keys cs)"
    using fl free by (force simp: flow_def table_def caller_ok_def in_q_keys in_w_keys)+
  have pos: "0 < max_waiters_per_key lm" using lm by (simp add: limits_ok_def)
  consider (run) "running_key s = None" "queue s = []"
    | (full) "\<not> (running_key s = None \<and> queue s = [])" "int (length (queue s)) \<ge> max_distinct_queue lm"
    | (total) "\<not> (running_key s = None \<and> queue s = [])" "int (length (queue s)) < max_distinct_queue lm"
        "total_waiters s \<ge> max_total_waiters lm"
    | (enq) "\<not> (running_key s = None \<and> queue s = [])" "int (length (queue s)) < max_distinct_queue lm"
        "total_waiters s < max_total_waiters lm"
    by linarith
  then show ?thesis
  proof cases
    case run
    then have s': "queue s' = []" "running_key s' = Some k" "active s' = AList.update k ?r (active s)"
        "flights s' = flights s @ [new_flight k\<lparr>f_state := FRunning\<rparr>]" "total_waiters s' = total_waiters s" "a = Leads ?r"
      using ld by (auto simp: lead_flight_def Let_def)
    with ph have rp: "r = ?r" "p = Working (wait_ms t t')" by (auto simp: admitted_phase_def)
    have "table s' (cs @ [\<lparr>c_key = k, c_flight = r, c_joined = t, c_phase = p\<rparr>])"
      unfolding rp using fl by (intro table_lead[OF _ free s'(4,3)]) (simp_all add: flow_def new_flight_def)
    with fl run fresh nofol pos show ?thesis
      by (auto simp: flow_def slots_def waiters_def s' rp nth_append less_Suc_eq new_flight_def)
  next
    case enq
    then have s': "queue s' = queue s @ [k]" "running_key s' = running_key s" "active s' = AList.update k ?r (active s)"
        "flights s' = flights s @ [new_flight k]" "total_waiters s' = total_waiters s + 1" "a = Enqueued ?r"
      using ld by (auto simp: lead_flight_def Let_def)
    with ph have rp: "r = ?r" "p = Queued" by (auto simp: admitted_phase_def)
    have "table s' (cs @ [\<lparr>c_key = k, c_flight = r, c_joined = t, c_phase = p\<rparr>])"
      unfolding rp using fl by (intro table_lead[OF _ free s'(4,3)]) (simp_all add: flow_def new_flight_def)
    moreover have "slots s' (cs @ [\<lparr>c_key = k, c_flight = r, c_joined = t, c_phase = p\<rparr>])"
      using fl fresh by (cases "running_key s") (auto simp: flow_def slots_def s' rp)
    moreover have "waiters lm s' (cs @ [\<lparr>c_key = k, c_flight = r, c_joined = t, c_phase = p\<rparr>])"
      using fl enq nofol pos by (auto simp: flow_def waiters_def s' rp nth_append less_Suc_eq new_flight_def)
    ultimately show ?thesis by (simp add: flow_def)
  next
    case full
    then have s': "flights s' = flights s @ [new_flight k]" "queue s' = queue s" "running_key s' = running_key s"
        "active s' = active s" "total_waiters s' = total_waiters s" "a = Refused DistinctQueueFull"
      using ld by (auto simp: lead_flight_def Let_def reject_def delete_update_same map_of_None_delete[OF free])
    with ph show ?thesis
      by (intro flow_finished[OF flow_garbage[OF fl pos s'(1-5)]]) (auto simp: admitted_phase_def)
  next
    case total
    then have s': "flights s' = flights s @ [new_flight k]" "queue s' = queue s" "running_key s' = running_key s"
        "active s' = active s" "total_waiters s' = total_waiters s" "a = Refused TotalWaitersFull"
      using ld by (auto simp: lead_flight_def Let_def reject_def delete_update_same map_of_None_delete[OF free])
    with ph show ?thesis
      by (intro flow_finished[OF flow_garbage[OF fl pos s'(1-5)]]) (auto simp: admitted_phase_def)
  qed
qed

lemma join_flight_cases:
  assumes "join_flight lm r s = (s', a)"
  obtains "a = Joins r" | reason where "a = Refused reason" "s' = upd_ctr (n_rejected_update Suc) s"
  using assms by (auto simp: join_flight_def reject_def split: if_splits)

lemma flow_submit:
  assumes fl: "flow lm s cs" and lm: "limits_ok tm lm"
    and ad: "admit_caller lm flt k t s = (s', a)" and ph: "admitted_phase t t' a = (r, p)"
  shows "flow lm s' (cs @ [\<lparr>c_key = k, c_flight = r, c_joined = t, c_phase = p\<rparr>])"
proof -
  let ?s1 = "purge_expired t (upd_ctr (n_submitted_update Suc) s)"
  have f1: "flow lm ?s1 cs" using fl by (simp add: flow_cong[of ?s1 s])
  consider (bad) "k = []" | (hit) e where "k \<noteq> []" "map_of (cache ?s1) k = Some e"
    | (join) q where "k \<noteq> []" "map_of (cache ?s1) k = None" "map_of (active ?s1) k = Some q"
    | (lead) "k \<noteq> []" "map_of (cache ?s1) k = None" "map_of (active ?s1) k = None"
    by (cases "map_of (cache ?s1) k"; cases "map_of (active ?s1) k") auto
  then show ?thesis
  proof cases
    case bad
    with ad ph fl show ?thesis by (auto simp: admit_caller_def admitted_phase_def intro: flow_finished)
  next
    case hit
    then have s': "s' = upd_ctr (n_cache_hits_update Suc) (?s1\<lparr>cache := move_to_end k (cache ?s1)\<rparr>)" "a = Hit (decoded flt e)"
      using ad by (auto simp: admit_caller_def Let_def)
    have "flow lm s' cs" using f1 flow_cong[of s' ?s1] by (simp add: s')
    with ph s'(2) show ?thesis by (auto simp: admitted_phase_def intro: flow_finished split: option.splits)
  next
    case join
    then have j: "join_flight lm q ?s1 = (s', a)" using ad by (simp add: admit_caller_def Let_def)
    from j show ?thesis
    proof (cases rule: join_flight_cases)
      case 1
      with ph flow_join[OF f1 join(3)] j show ?thesis by (auto simp: admitted_phase_def)
    next
      case (2 reason)
      have "flow lm s' cs" using f1 flow_cong[of s' ?s1] by (simp add: 2)
      with ph 2 show ?thesis by (auto simp: admitted_phase_def intro: flow_finished)
    qed
  next
    case lead
    then have "lead_flight lm k ?s1 = (s', a)" using ad by (simp add: admit_caller_def Let_def)
    with lead show ?thesis by (intro flow_lead[OF f1 lead(3) lm _ ph])
  qed
qed

end
