(* ===== verification/SchedulerSafe.thy ===== *)
theory SchedulerSafe
  imports SchedulerFlow
begin

text \<open>
  The reachable states of the scheduler: the invariant of the whole system, its interpretation of the
  contract for transition systems, and the properties of \<open>execute\<close> that follow from it.
\<close>

section \<open>The system invariant\<close>

definition counted :: "sched \<Rightarrow> bool" where
  "counted s \<longleftrightarrow> n_launched (ctr s) = n_completed (ctr s) + n_failed (ctr s) + (if running_key s = None then 0 else 1)"

definition cache_attested :: "(string \<Rightarrow> string) \<Rightarrow> sched \<Rightarrow> (string \<times> jobj) set \<Rightarrow> bool" where
  "cache_attested flt s pub \<longleftrightarrow> (\<forall>k e. (k, e) \<in> set (cache s) \<longrightarrow> (\<exists>v. decoded flt e = Some v \<and> (k, v) \<in> pub))"

definition flights_attested :: "sched \<Rightarrow> (string \<times> jobj) set \<Rightarrow> bool" where
  "flights_attested s pub \<longleftrightarrow> (\<forall>f \<in> set (flights s). \<forall>v. f_result f = Some (JObj v) \<longrightarrow> (f_key f, v) \<in> pub)"

definition callers_attested :: "caller list \<Rightarrow> (string \<times> jobj) set \<Rightarrow> bool" where
  "callers_attested cs pub \<longleftrightarrow> (\<forall>c \<in> set cs. \<forall>v src w. c_phase c = Finished (Receipt v src w) \<longrightarrow> (c_key c, v) \<in> pub)"

definition system_inv :: "limits \<Rightarrow> (string \<Rightarrow> string) \<Rightarrow> system \<Rightarrow> bool" where
  "system_inv lm flt y \<longleftrightarrow> flow lm (sch y) (callers y) \<and> cache_inv lm (sch y) \<and> counted (sch y)
     \<and> cache_attested flt (sch y) (set (published y)) \<and> flights_attested (sch y) (set (published y))
     \<and> callers_attested (callers y) (set (published y))"

lemma split_caller:
  assumes "i < length cs" "cs ! i = c"
  obtains as bs where "cs = as @ c # bs" "\<And>c'. cs[i := c'] = as @ c' # bs"
  using that[of "take i cs" "drop (Suc i) cs"] assms id_take_nth_drop[of i cs] upd_conv_take_nth_drop[of i cs]
  by auto

lemma callers_attested_split [simp]:
  "callers_attested (as @ c # bs) pub \<longleftrightarrow> callers_attested as pub \<and> callers_attested bs pub
     \<and> (\<forall>v src w. c_phase c = Finished (Receipt v src w) \<longrightarrow> (c_key c, v) \<in> pub)"
  by (auto simp: callers_attested_def)

lemma attested_mono:
  "cache_attested flt s A \<Longrightarrow> A \<subseteq> B \<Longrightarrow> cache_attested flt s B"
  "flights_attested s A \<Longrightarrow> A \<subseteq> B \<Longrightarrow> flights_attested s B"
  "callers_attested cs A \<Longrightarrow> A \<subseteq> B \<Longrightarrow> callers_attested cs B"
  by (fastforce simp: cache_attested_def flights_attested_def callers_attested_def)+

text \<open>Admission.\<close>

lemma cache_inv_cong: "cache s' = cache s \<Longrightarrow> cache_bytes s' = cache_bytes s \<Longrightarrow> cache_inv lm s' = cache_inv lm s"
  by (simp add: cache_inv_def)

lemma join_lead_cache:
  assumes "join_flight lm r s = (s', a) \<or> lead_flight lm k s = (s', a)"
  shows "cache s' = cache s" "cache_bytes s' = cache_bytes s"
  using assms by (auto simp: join_flight_def lead_flight_def reject_def Let_def split: if_splits)

lemma join_lead_counted:
  assumes "join_flight lm r s = (s', a) \<or> lead_flight lm k s = (s', a)" "counted s"
  shows "counted s'"
  using assms by (auto simp: join_flight_def lead_flight_def reject_def Let_def counted_def split: if_splits)

lemma join_lead_flights:
  assumes "join_flight lm r s = (s', a) \<or> lead_flight lm k s = (s', a)" "flights_attested s pub"
  shows "flights_attested s' pub"
proof -
  have upd: "\<forall>f \<in> set (fs[i := joined_waiters_update g (fs ! i)]). \<forall>v. f_result f = Some (JObj v) \<longrightarrow> (f_key f, v) \<in> pub"
    if "\<forall>f \<in> set fs. \<forall>v. f_result f = Some (JObj v) \<longrightarrow> (f_key f, v) \<in> pub" for fs i g
    using that by (rule flights_update) simp
  show ?thesis
    using assms upd[of "flights s"]
    by (auto simp: join_flight_def lead_flight_def reject_def Let_def flights_attested_def new_flight_def split: if_splits)
qed

lemma move_to_end_cache:
  assumes "distinct (keys c)" "map_of c k = Some e"
  shows "set (move_to_end k c) = set c" "distinct (keys (move_to_end k c))" "sizes (move_to_end k c) = sizes c"
    "length (move_to_end k c) = length c"
  using map_of_Some_split[OF assms(2,1)] assms by (auto simp: move_to_end_def)

lemma submit_parts:
  assumes ad: "admit_caller lm flt k t s = (s', a)" and ci: "cache_inv lm s" and co: "counted s"
    and ca: "cache_attested flt s pub" and fa: "flights_attested s pub"
  shows "cache_inv lm s' \<and> counted s' \<and> cache_attested flt s' pub \<and> flights_attested s' pub
    \<and> (\<forall>d. a = Hit d \<longrightarrow> (\<exists>v. d = Some v \<and> (k, v) \<in> pub))"
proof -
  let ?s1 = "purge_expired t (upd_ctr (n_submitted_update Suc) s)"
  have c1: "cache_inv lm ?s1"
    using ci by (intro cache_inv_purge) (simp add: cache_inv_def)
  have sub: "set (cache ?s1) \<subseteq> set (cache s)"
    using ci by (auto simp: cache_inv_def purge_cache)
  have a1: "cache_attested flt ?s1 pub"
    using ca sub unfolding cache_attested_def by blast
  have o1: "counted ?s1" using co by (simp add: counted_def)
  have f1: "flights_attested ?s1 pub" using fa by (simp add: flights_attested_def)
  consider (bad) "k = []" | (hit) e where "k \<noteq> []" "map_of (cache ?s1) k = Some e"
    | (join) q where "k \<noteq> []" "map_of (cache ?s1) k = None" "map_of (active ?s1) k = Some q"
    | (lead) "k \<noteq> []" "map_of (cache ?s1) k = None" "map_of (active ?s1) k = None"
    by (cases "map_of (cache ?s1) k"; cases "map_of (active ?s1) k") auto
  then show ?thesis
  proof cases
    case bad
    with assms show ?thesis by (simp add: admit_caller_def)
  next
    case hit
    then have s': "s' = upd_ctr (n_cache_hits_update Suc) (?s1\<lparr>cache := move_to_end k (cache ?s1)\<rparr>)" "a = Hit (decoded flt e)"
      using ad by (auto simp: admit_caller_def Let_def)
    have d: "distinct (keys (cache ?s1))" using c1 by (simp add: cache_inv_def)
    note mv = move_to_end_cache[OF d hit(2)]
    have "cache_inv lm s'" using c1 mv by (simp add: s' cache_inv_def)
    moreover have "cache_attested flt s' pub" using a1 mv(1) by (simp add: s' cache_attested_def)
    moreover have "\<exists>v. decoded flt e = Some v \<and> (k, v) \<in> pub"
      using a1 map_of_SomeD[OF hit(2)] by (auto simp: cache_attested_def)
    ultimately show ?thesis
      using o1 f1 by (auto simp: s' counted_def flights_attested_def)
  next
    case join
    then have j: "join_flight lm q ?s1 = (s', a)" using ad by (simp add: admit_caller_def Let_def)
    then have "a \<noteq> Hit d" for d by (cases rule: join_flight_cases) auto
    with join_lead_cache[of lm q ?s1 s' a] join_lead_counted[of lm q ?s1 s' a] join_lead_flights[of lm q ?s1 s' a] j
    show ?thesis using c1 a1 o1 f1 by (simp add: cache_inv_def cache_attested_def)
  next
    case lead
    then have l: "lead_flight lm k ?s1 = (s', a)" using ad by (simp add: admit_caller_def Let_def)
    then have "a \<noteq> Hit d" for d by (auto simp: lead_flight_def reject_def Let_def split: if_splits)
    with join_lead_cache[of lm 0 ?s1 s' a k] join_lead_counted[of lm 0 ?s1 s' a k] join_lead_flights[of lm 0 ?s1 s' a k] l
    show ?thesis using c1 a1 o1 f1 by (simp add: cache_inv_def cache_attested_def)
  qed
qed

text \<open>The steps of one caller.\<close>

lemma flow_withdraw:
  assumes "flow lm s (as @ c # bs)" "c_phase c = Queued"
  shows "flow lm (withdraw (c_key c) (c_flight c) e s) (as @ c\<lparr>c_phase := Finished res\<rparr> # bs)"
  using assms slots_finish_queued table_withdraw waiters_finish_queued by (simp add: flow_def)

lemma withdraw_parts:
  "cache_inv lm (withdraw k r e s) = cache_inv lm s" "counted (withdraw k r e s) = counted s"
  "cache_attested flt (withdraw k r e s) pub = cache_attested flt s pub"
  by (simp_all add: withdraw_def cache_inv_def counted_def cache_attested_def)

lemma flights_attested_upd:
  assumes "flights_attested s pub" "flights s' = (flights s)[r := g (flights s ! r)]"
    "\<And>f. f_key (g f) = f_key f" "\<And>f. f_result (g f) = f_result f"
  shows "flights_attested s' pub"
  unfolding flights_attested_def assms(2)
  by (rule flights_update) (use assms in \<open>auto simp: flights_attested_def\<close>)

lemma withdraw_flights: "flights_attested s pub \<Longrightarrow> flights_attested (withdraw k r e s) pub"
  by (rule flights_attested_upd[where g = "\<lambda>f. f\<lparr>f_state := FFailed, f_error := Some e\<rparr>"]) (simp_all add: withdraw_def)

lemma leave_wait_parts:
  "cache_inv lm (leave_wait r s) = cache_inv lm s" "counted (leave_wait r s) = counted s"
  "cache_attested flt (leave_wait r s) pub = cache_attested flt s pub"
  by (simp_all add: leave_wait_def cache_inv_def counted_def cache_attested_def)

lemma leave_wait_flights: "flights_attested s pub \<Longrightarrow> flights_attested (leave_wait r s) pub"
  by (rule flights_attested_upd[where g = "joined_waiters_update (\<lambda>n. n - 1)"]) (simp_all add: leave_wait_def)

lemma flow_leave:
  assumes "flow lm s (as @ c # bs)" "c_phase c = Following"
  shows "flow lm (leave_wait (c_flight c) s) (as @ c\<lparr>c_phase := Finished res\<rparr> # bs)"
  using assms slots_follower table_retire_follower waiters_follower by (simp add: flow_def)

lemma flow_promote:
  assumes "flow lm s (as @ c # bs)" "c_phase c = Queued"
    "poll_queue lm (c_key c) (c_flight c) (c_joined c) now s = (s', Promoted)"
  shows "flow lm s' (as @ c\<lparr>c_phase := Working w\<rparr> # bs)"
  using assms(1) slots_promote[OF _ assms(2,3)] table_promote[OF _ _ assms(2,3)] waiters_promote[OF _ assms(2,3)]
  by (simp add: flow_def)

lemma promote_parts:
  assumes "poll_queue lm k r j now s = (s', Promoted)"
  shows "cache_inv lm s' = cache_inv lm s" "counted s \<Longrightarrow> counted s'"
    "cache_attested flt s' pub = cache_attested flt s pub" "flights_attested s pub \<Longrightarrow> flights_attested s' pub"
proof -
  have s': "flights s' = (flights s)[r := f_state_update (\<lambda>_. FRunning) (flights s ! r)]"
    using assms by (auto simp: poll_queue_def split: if_splits)
  then show "flights_attested s pub \<Longrightarrow> flights_attested s' pub"
    by (rule flights_attested_upd[rotated]) simp_all
qed (use assms in \<open>auto simp: poll_queue_def cache_inv_def counted_def cache_attested_def split: if_splits\<close>)

lemma slot_held: "flow lm s (as @ c # bs) \<Longrightarrow> working (c_phase c) \<Longrightarrow> running_key s = Some (c_key c)"
  by (cases "running_key s") (auto simp: flow_def slots_def append_eq_Cons_conv)

lemma flow_fail_work:
  assumes "flow lm s (as @ c # bs)" "working (c_phase c)"
  shows "flow lm (fail_work (c_key c) (c_flight c) e s) (as @ c\<lparr>c_phase := Finished res\<rparr> # bs)"
proof -
  have "slots (fail_work (c_key c) (c_flight c) e s) (as @ c\<lparr>c_phase := Finished res\<rparr> # bs)"
    using slots_finish_working[of s as c bs res] assms
    by (subst slots_cong[of _ "release_slot (c_key c) s"]) (simp_all add: flow_def fail_work_def release_slot_def)
  moreover have "waiters lm (fail_work (c_key c) (c_flight c) e s) (as @ c\<lparr>c_phase := Finished res\<rparr> # bs)"
    using assms by (intro waiters_finish_working[where g = "\<lambda>f. f\<lparr>f_state := FFailed, f_error := Some e\<rparr>"])
      (simp_all add: flow_def fail_work_def release_slot_def)
  ultimately show ?thesis
    using assms table_fail_work by (simp add: flow_def)
qed

lemma fail_work_parts:
  "cache_inv lm (fail_work k r e s) = cache_inv lm s"
  "running_key s = Some k \<Longrightarrow> counted s \<Longrightarrow> counted (fail_work k r e s)"
  "cache_attested flt (fail_work k r e s) pub = cache_attested flt s pub"
  by (simp_all add: fail_work_def release_slot_def cache_inv_def counted_def cache_attested_def)

lemma fail_work_flights: "flights_attested s pub \<Longrightarrow> flights_attested (fail_work k r e s) pub"
  by (rule flights_attested_upd[where g = "\<lambda>f. f\<lparr>f_state := FFailed, f_error := Some e\<rparr>"])
    (simp_all add: fail_work_def release_slot_def)

lemma flow_publish:
  assumes "flow lm s (as @ c # bs)" "working (c_phase c)"
    and p: "publish lm (c_key c) (c_flight c) enc p now s = Some s'"
  shows "flow lm s' (as @ c\<lparr>c_phase := Finished res\<rparr> # bs)"
proof -
  have "slots s' (as @ c\<lparr>c_phase := Finished res\<rparr> # bs)"
    using slots_finish_working[of s as c bs res] assms(1,2)
    by (subst slots_cong[of _ "release_slot (c_key c) s"]) (simp_all add: flow_def publish_core[OF p] release_slot_def)
  moreover have "waiters lm s' (as @ c\<lparr>c_phase := Finished res\<rparr> # bs)"
    using assms(1,2)
    by (intro waiters_finish_working[where g = "\<lambda>f. f\<lparr>f_result := Some (JObj p), f_state := FCompleted\<rparr>", OF _ _ publish_core(1,5,4)[OF p]])
      (simp_all add: flow_def)
  ultimately show ?thesis
    using assms(1,2) table_publish[OF _ _ assms(2,3)] by (simp add: flow_def)
qed

lemma encode_result_decodes: "encode_result flt out = Inr (enc, p) \<Longrightarrow> loads_bytes flt enc = Some (JObj p)"
  by (auto simp: encode_result_def Let_def split: work_outcome.splits json.splits if_splits option.splits)

lemma publish_parts:
  assumes p: "publish lm k r enc p now s = Some s'" and ci: "cache_inv lm s" and dec: "loads_bytes flt enc = Some (JObj p)"
    and rk: "running_key s = Some k" and fk: "f_key (flights s ! r) = k"
  shows "cache_inv lm s'" "counted s \<Longrightarrow> counted s'"
    "cache_attested flt s pub \<Longrightarrow> cache_attested flt s' (insert (k, p) pub)"
    "flights_attested s pub \<Longrightarrow> flights_attested s' (insert (k, p) pub)"
proof -
  let ?s1 = "purge_expired now s"
  have c1: "cache_inv lm ?s1" using ci by (rule cache_inv_purge)
  obtain s2 where s2: "cache_result lm k enc now ?s1 = Some s2"
    and s': "s' = upd_ctr (n_completed_update Suc)
      (release_slot k (upd_flight r (\<lambda>f. f\<lparr>f_result := Some (JObj p), f_state := FCompleted\<rparr>) s2))"
    using p by (auto simp: publish_def)
  show "cache_inv lm s'"
    using cache_inv_result[OF c1 s2] by (simp add: s' release_slot_def cache_inv_def)
  show "counted s \<Longrightarrow> counted s'"
    using rk by (simp add: s' release_slot_def counted_def cache_result_core[OF s2])
  show "cache_attested flt s' (insert (k, p) pub)" if at: "cache_attested flt s pub"
    unfolding cache_attested_def
  proof (intro allI impI)
    fix k' e' assume "(k', e') \<in> set (cache s')"
    then have "(k', e') \<in> set (cache s2)" by (simp add: s' release_slot_def)
    from cache_result_entries[OF c1 s2 this] ci have "(k', e') \<in> set (cache s) \<or> k' = k \<and> ce_encoded e' = enc"
      by (auto simp: cache_inv_def purge_cache)
    then show "\<exists>v. decoded flt e' = Some v \<and> (k', v) \<in> insert (k, p) pub"
      using at dec by (auto simp: cache_attested_def decoded_def)
  qed
  show "flights_attested s' (insert (k, p) pub)" if "flights_attested s pub"
    unfolding flights_attested_def publish_core(4)[OF p]
    by (rule flights_update) (use that fk in \<open>auto simp: flights_attested_def\<close>)
qed

section \<open>Every reachable state\<close>

lemma init_system_inv: "limits_ok tm lm \<Longrightarrow> system_inv lm flt init_system"
  by (simp add: system_inv_def init_system_def init_sched_def flow_def slots_def table_def owned_def waiters_def
      cache_inv_def counted_def cache_attested_def flights_attested_def callers_attested_def limits_ok_def)

lemma follow_result_attested:
  assumes "follow_result j now f = Some (Receipt v src w)" "f_key f = k"
    "\<And>v. f_result f = Some (JObj v) \<Longrightarrow> (f_key f, v) \<in> pub"
  shows "(k, v) \<in> pub"
  using assms by (auto simp: follow_result_def split: flight_state.splits option.splits json.splits)

lemma inv_submit:
  assumes inv: "system_inv lm flt y" and lm: "limits_ok tm lm"
    and ad: "admit_caller lm flt k now (sch y) = (s, a)" and ph: "admitted_phase now now' a = (r, p)"
  shows "system_inv lm flt
    (y\<lparr>sch := s, callers := callers y @ [\<lparr>c_key = k, c_flight = r, c_joined = now, c_phase = p\<rparr>]\<rparr>)"
proof -
  have parts: "cache_inv lm s" "counted s" "cache_attested flt s (set (published y))"
      "flights_attested s (set (published y))"
    and hit: "\<And>d. a = Hit d \<Longrightarrow> \<exists>v. d = Some v \<and> (k, v) \<in> set (published y)"
    using submit_parts[OF ad, of "set (published y)"] inv by (auto simp: system_inv_def)
  have "(k, v) \<in> set (published y)" if "p = Finished (Receipt v src w)" for v src w
    using ph that hit by (auto simp: admitted_phase_def split: admission.splits option.splits)
  with flow_submit[OF _ lm ad ph] parts inv show ?thesis
    by (auto simp: system_inv_def callers_attested_def)
qed

lemma inv_withdraw:
  assumes inv: "system_inv lm flt y" and i: "i < length (callers y)" "callers y ! i = c" and q: "c_phase c = Queued"
    and res: "\<And>v src w. res \<noteq> Receipt v src w"
  shows "system_inv lm flt (set_phase i (Finished res) (y\<lparr>sch := withdraw (c_key c) (c_flight c) err (sch y)\<rparr>))"
proof -
  obtain as bs where cs: "callers y = as @ c # bs" "\<And>c'. (callers y)[i := c'] = as @ c' # bs"
    using split_caller[OF i] by metis
  then show ?thesis
    using flow_withdraw[OF _ q] withdraw_flights inv i res by (simp add: system_inv_def withdraw_parts)
qed

text \<open>A timeout is a withdrawal after the rejection has been counted.\<close>

lemma inv_count_rejected: "system_inv lm flt y \<Longrightarrow> system_inv lm flt (y\<lparr>sch := upd_ctr (n_rejected_update Suc) (sch y)\<rparr>)"
  using flow_cong[of "upd_ctr (n_rejected_update Suc) (sch y)" "sch y"]
  by (simp add: system_inv_def cache_inv_def counted_def cache_attested_def flights_attested_def)

lemma inv_poll_timeout:
  assumes inv: "system_inv lm flt y" and i: "i < length (callers y)" "callers y ! i = c" and q: "c_phase c = Queued"
    and po: "poll_queue lm (c_key c) (c_flight c) (c_joined c) now (sch y) = (s, TimedOut)"
  shows "system_inv lm flt (set_phase i (Finished (RejectedCall QueueWaitTimeout)) (y\<lparr>sch := s\<rparr>))"
proof -
  have s: "s = withdraw (c_key c) (c_flight c) (SchedulerRejected QueueWaitTimeout) (upd_ctr (n_rejected_update Suc) (sch y))"
    using po by (auto simp: poll_queue_def split: if_splits)
  show ?thesis
    using inv_withdraw[OF inv_count_rejected[OF inv], of i c] i q by (simp add: s)
qed

lemma inv_promote:
  assumes inv: "system_inv lm flt y" and i: "i < length (callers y)" "callers y ! i = c" and q: "c_phase c = Queued"
    and po: "poll_queue lm (c_key c) (c_flight c) (c_joined c) now (sch y) = (s, Promoted)"
  shows "system_inv lm flt (set_phase i (Working w) (y\<lparr>sch := s\<rparr>))"
proof -
  obtain as bs where cs: "callers y = as @ c # bs" "\<And>c'. (callers y)[i := c'] = as @ c' # bs"
    using split_caller[OF i] by metis
  then show ?thesis
    using flow_promote[OF _ q po] promote_parts[OF po] inv i by (simp add: system_inv_def)
qed

lemma inv_leave:
  assumes inv: "system_inv lm flt y" and i: "i < length (callers y)" "callers y ! i = c" and q: "c_phase c = Following"
    and res: "\<And>v src w. res = Receipt v src w \<Longrightarrow> follow_result (c_joined c) now (flights (sch y) ! c_flight c) = Some res"
  shows "system_inv lm flt (set_phase i (Finished res) (y\<lparr>sch := leave_wait (c_flight c) (sch y)\<rparr>))"
proof -
  obtain as bs where cs: "callers y = as @ c # bs" "\<And>c'. (callers y)[i := c'] = as @ c' # bs"
    using split_caller[OF i] by metis
  have f: "c_flight c < length (flights (sch y))" "f_key (flights (sch y) ! c_flight c) = c_key c"
    using inv cs q by (simp_all add: system_inv_def flow_def table_def caller_ok_def)
  have "(c_key c, v) \<in> set (published y)" if "res = Receipt v src w" for v src w
    using inv nth_mem[OF f(1)] res[OF that] that
    by (intro follow_result_attested[OF _ f(2)]) (auto simp: system_inv_def flights_attested_def)
  with flow_leave[OF _ q] leave_wait_flights inv cs i show ?thesis
    by (simp add: system_inv_def leave_wait_parts)
qed

lemma inv_work_failed:
  assumes inv: "system_inv lm flt y" and i: "i < length (callers y)" "callers y ! i = c" and w: "working (c_phase c)"
  shows "system_inv lm flt (set_phase i (Finished (WorkFailed err src ms))
    (y\<lparr>sch := fail_work (c_key c) (c_flight c) err (sch y)\<rparr>))"
proof -
  obtain as bs where cs: "callers y = as @ c # bs" "\<And>c'. (callers y)[i := c'] = as @ c' # bs"
    using split_caller[OF i] by metis
  then have fl: "flow lm (sch y) (as @ c # bs)" using inv by (simp add: system_inv_def)
  show ?thesis
    using flow_fail_work[OF fl w] fail_work_parts(1,3) fail_work_parts(2)[OF slot_held[OF fl w]] fail_work_flights inv i cs
    by (simp add: system_inv_def)
qed

lemma inv_published:
  assumes inv: "system_inv lm flt y" and i: "i < length (callers y)" "callers y ! i = c" and w: "working (c_phase c)"
    and en: "encode_result flt out = Inr (encoded, p)"
    and pu: "publish lm (c_key c) (c_flight c) encoded p now (sch y) = Some s"
  shows "system_inv lm flt (set_phase i (Finished (Receipt p src ms))
    (y\<lparr>sch := s, published := (c_key c, p) # published y\<rparr>))"
proof -
  obtain as bs where cs: "callers y = as @ c # bs" "\<And>c'. (callers y)[i := c'] = as @ c' # bs"
    using split_caller[OF i] by metis
  have fl: "flow lm (sch y) (as @ c # bs)" using inv cs by (simp add: system_inv_def)
  have fk: "f_key (flights (sch y) ! c_flight c) = c_key c"
    using fl w by (simp add: flow_def table_def caller_ok_def)
  have ci: "cache_inv lm (sch y)" using inv by (simp add: system_inv_def)
  note parts = publish_parts[OF pu ci encode_result_decodes[OF en] slot_held[OF fl w] fk]
  have "callers_attested as (insert (c_key c, p) (set (published y)))" "callers_attested bs (insert (c_key c, p) (set (published y)))"
    using inv cs attested_mono(3)[OF _ subset_insertI] by (auto simp: system_inv_def)
  with flow_publish[OF fl w pu] parts inv cs i show ?thesis
    by (simp add: system_inv_def)
qed

lemma inv_observe:
  assumes inv: "system_inv lm flt y"
  shows "system_inv lm flt (y\<lparr>sch := purge_expired now (sch y)\<rparr>)"
proof -
  let ?s = "purge_expired now (sch y)"
  have sub: "set (cache ?s) \<subseteq> set (cache (sch y))"
    using inv by (auto simp: system_inv_def cache_inv_def purge_cache)
  have "cache_inv lm ?s" using inv by (simp add: system_inv_def cache_inv_purge)
  moreover have "cache_attested flt ?s (set (published y))"
    using inv sub unfolding system_inv_def cache_attested_def by blast
  ultimately show ?thesis
    using inv flow_cong[of ?s "sch y"] by (simp add: system_inv_def counted_def flights_attested_def)
qed

lemma step_preserves:
  assumes "sched_step lm flt y y'" "system_inv lm flt y" "limits_ok tm lm"
  shows "system_inv lm flt y'"
  using assms
proof (cases rule: sched_step.cases)
  case submit
  then show ?thesis using inv_submit[OF assms(2,3)] by blast
next
  case poll_timeout
  then show ?thesis using inv_poll_timeout[OF assms(2)] by blast
next
  case poll_promote
  then show ?thesis using inv_promote[OF assms(2)] by blast
next
  case interrupt_queued
  then show ?thesis using inv_withdraw[OF assms(2)] by blast
next
  case follower_done
  then show ?thesis using inv_leave[OF assms(2)] by blast
next
  case interrupt_follower
  then show ?thesis using inv_leave[OF assms(2)] by blast
next
  case work_failed
  then show ?thesis using inv_work_failed[OF assms(2)] by simp
next
  case work_published
  then show ?thesis using inv_published[OF assms(2)] by simp
next
  case (observe nonce now s view)
  then show ?thesis using inv_observe[OF assms(2), of now] by (simp add: snapshot_def Let_def)
qed

definition sched_init :: "rat \<Rightarrow> limits \<Rightarrow> system \<Rightarrow> bool" where
  "sched_init tm lm y \<longleftrightarrow> limits_ok tm lm \<and> y = init_system"

interpretation sched: inductive_invariant "sched_init tm lm" "sched_step lm flt"
  "\<lambda>y. limits_ok tm lm \<and> system_inv lm flt y" for tm lm flt
  by unfold_locales (auto simp: sched_init_def intro: init_system_inv step_preserves)

abbreviation reachable :: "rat \<Rightarrow> limits \<Rightarrow> (string \<Rightarrow> string) \<Rightarrow> system \<Rightarrow> bool" where
  "reachable tm lm flt \<equiv> reach (sched_init tm lm) (sched_step lm flt)"

section \<open>A run\<close>

definition do_submit :: "limits \<Rightarrow> (string \<Rightarrow> string) \<Rightarrow> string \<Rightarrow> rat \<Rightarrow> system \<Rightarrow> system" where
  "do_submit lm flt k now y =
     (case admit_caller lm flt k now (sch y) of (s, a) \<Rightarrow>
        (case admitted_phase now now a of (r, p) \<Rightarrow>
           y\<lparr>sch := s, callers := callers y @ [\<lparr>c_key = k, c_flight = r, c_joined = now, c_phase = p\<rparr>]\<rparr>))"

lemma reachable_submit: "reachable tm lm flt y \<Longrightarrow> reachable tm lm flt (do_submit lm flt k now y)"
proof (cases "admit_caller lm flt k now (sch y)")
  case (Pair s a)
  assume "reachable tm lm flt y"
  then show ?thesis
    unfolding do_submit_def Pair prod.case
    by (cases "admitted_phase now now a") (auto intro: reach_step submit[OF Pair])
qed

text \<open>Four callers: one leads, one follows it, one waits in the queue with a key of its own, one follows that.\<close>

definition busy_system :: system where
  "busy_system = fold (\<lambda>k. do_submit default_limits id k 0) [''a'', ''a'', ''b'', ''b''] init_system"

lemma default_limits_ok: "limits_ok 4000000 default_limits"
  by (simp add: limits_ok_def default_limits_def)

lemma busy_reachable: "reachable 4000000 default_limits id busy_system"
  unfolding busy_system_def using default_limits_ok
  by (simp add: reachable_submit reach_init sched_init_def)

lemmas admission_defs = do_submit_def admit_caller_def join_flight_def lead_flight_def Let_def
  new_flight_def admitted_phase_def purge_expired_def init_system_def init_sched_def default_limits_def

lemma busy_system_facts:
  "map c_phase (callers busy_system) = [Working 0, Following, Queued, Following]"
  "running_key (sch busy_system) = Some ''a''" "queue (sch busy_system) = [''b'']"
  by (simp_all add: busy_system_def admission_defs wait_ms_def)

section \<open>Properties\<close>

text \<open>Property C14. At most one verifier is ever paid for at a time: in every reachable state at most one
  caller is running the work, it holds the slot, the queue holds exactly the keys of the queued callers in
  order of submission, and no key is queued twice or queued while it runs.\<close>

theorem single_paid_slot:
  assumes "reachable tm lm flt y"
  shows "map c_key (filter (\<lambda>c. working (c_phase c)) (callers y))
      = (case running_key (sch y) of None \<Rightarrow> [] | Some k \<Rightarrow> [k])
    \<and> queue (sch y) = map c_key (filter (\<lambda>c. c_phase c = Queued) (callers y))
    \<and> distinct (queue (sch y)) \<and> (\<forall>k. running_key (sch y) = Some k \<longrightarrow> k \<notin> set (queue (sch y)))"
  using sched.inv_reach[OF assms] unfolding q_keys_def[symmetric] w_keys_def[symmetric]
  by (cases "running_key (sch y)") (auto simp: system_inv_def flow_def slots_def)

theorem single_paid_slot_witness:
  "length (filter (\<lambda>c. working (c_phase c)) (callers busy_system)) = 1 \<and> queue (sch busy_system) = [''b'']"
  using single_paid_slot[OF busy_reachable] busy_system_facts
  by (auto dest: arg_cong[of _ _ length])

text \<open>Property C18. Waiting is bounded and accounted for exactly: the waiter count is the number of followers
  and queued callers, every flight counts its own followers, and all three limits hold.\<close>

theorem waiting_bounded:
  assumes "reachable tm lm flt y"
  shows "total_waiters (sch y) = int (length (filter (\<lambda>c. c_phase c = Following \<or> c_phase c = Queued) (callers y)))
    \<and> total_waiters (sch y) \<le> max_total_waiters lm \<and> int (length (queue (sch y))) \<le> max_distinct_queue lm
    \<and> (\<forall>r < length (flights (sch y)). joined_waiters (flights (sch y) ! r)
          = int (length (filter (\<lambda>c. c_phase c = Following \<and> c_flight c = r) (callers y)))
        \<and> joined_waiters (flights (sch y) ! r) \<le> max_waiters_per_key lm)"
  using sched.inv_reach[OF assms] unfolding n_waiting_def[symmetric] n_follow_def[symmetric]
  by (auto simp: system_inv_def flow_def waiters_def)

theorem waiting_bounded_witness:
  "total_waiters (sch busy_system) = 3 \<and> total_waiters (sch busy_system) \<le> max_total_waiters default_limits"
proof -
  have "length (filter (\<lambda>c. c_phase c = Following \<or> c_phase c = Queued) (callers busy_system))
      = length (filter (\<lambda>p. p = Following \<or> p = Queued) (map c_phase (callers busy_system)))"
    by (simp add: filter_map o_def)
  then show ?thesis
    using waiting_bounded[OF busy_reachable] busy_system_facts by simp
qed

text \<open>Property C15. No receipt is invented: whoever returns a value for a key, as leader, follower or from the
  cache, returns a value that a leader running that same key has published.\<close>

theorem receipts_attested:
  assumes "reachable tm lm flt y" "c \<in> set (callers y)" "c_phase c = Finished (Receipt v src w)"
  shows "(c_key c, v) \<in> set (published y)"
  using sched.inv_reach[OF assms(1)] assms(2,3) by (auto simp: system_inv_def callers_attested_def)

lemma follower_result_or_owner:
  assumes inv: "table s cs" and c: "c \<in> set cs" "c_phase c = Following"
  shows "(\<exists>res. follow_result j now (flights s ! c_flight c) = Some res)
    \<or> (\<exists>d \<in> set cs. live d \<and> c_key d = c_key c \<and> c_flight d = c_flight c)"
proof -
  let ?f = "flights s ! c_flight c"
  have ok: "caller_ok s c" using inv c by (simp add: table_def)
  then have "?f \<in> set (flights s)" using c by (simp add: caller_ok_def)
  then have f: "flight_ok ?f" using inv by (simp add: table_def)
  show ?thesis
  proof (cases "terminal ?f")
    case True
    with f show ?thesis by (auto simp: terminal_def flight_ok_def follow_result_def)
  next
    case False
    with ok c have "map_of (active s) (c_key c) = Some (c_flight c)" by (simp add: caller_ok_def)
    with inv show ?thesis unfolding table_def owned_def by blast
  qed
qed

text \<open>Property C19. No follower is stranded: the flight a follower waits for either has ended, and then the
  follower's result is determined, or it is still owned by a caller that is queued or running with the
  same key.\<close>

theorem follower_not_stranded:
  assumes "reachable tm lm flt y" "c \<in> set (callers y)" "c_phase c = Following"
  shows "(\<exists>res. follow_result (c_joined c) now (flights (sch y) ! c_flight c) = Some res)
    \<or> (\<exists>d \<in> set (callers y). (c_phase d = Queued \<or> working (c_phase d)) \<and> c_key d = c_key c \<and> c_flight d = c_flight c)"
  using follower_result_or_owner[OF _ assms(2,3)] sched.inv_reach[OF assms(1)] by (simp add: system_inv_def flow_def)

theorem follower_not_stranded_witness:
  "\<exists>c. c \<in> set (callers busy_system) \<and> c_phase c = Following
     \<and> ((\<exists>res. follow_result (c_joined c) 1 (flights (sch busy_system) ! c_flight c) = Some res)
        \<or> (\<exists>d \<in> set (callers busy_system). (c_phase d = Queued \<or> working (c_phase d)) \<and> c_key d = c_key c
             \<and> c_flight d = c_flight c))"
proof -
  have "Following \<in> set (map c_phase (callers busy_system))"
    using busy_system_facts by simp
  then obtain c where "c \<in> set (callers busy_system)" "c_phase c = Following" by auto
  then show ?thesis using follower_not_stranded[OF busy_reachable] by blast
qed

text \<open>Property C17. First come, first served: when the slot goes to a key, it was free, and that key was
  either the head of the queue, which it leaves, or was just submitted while the queue was empty.\<close>

theorem slot_fifo:
  assumes "sched_step lm flt y y'" "running_key (sch y') = Some k" "running_key (sch y) \<noteq> Some k"
  shows "running_key (sch y) = None
    \<and> (queue (sch y) = k # queue (sch y') \<and> length (callers y') = length (callers y)
       \<or> queue (sch y) = [] \<and> queue (sch y') = [] \<and> callers y' = callers y @ [last (callers y')] \<and> c_key (last (callers y')) = k)"
  using assms
proof (cases rule: sched_step.cases)
  case (submit k' now s a now' r p)
  then have "running_key (sch y) = None \<and> queue (sch y) = [] \<and> queue s = [] \<and> k' = k"
    using assms(2,3) by (auto simp: admit_caller_def join_flight_def lead_flight_def reject_def Let_def
        split: option.splits if_splits)
  then show ?thesis by (simp add: submit(1))
next
  case (poll_promote i c now s now')
  then have "running_key (sch y) = None \<and> queue (sch y) = k # queue s"
    using assms(2) by (cases "queue (sch y)") (auto simp: poll_queue_def split: if_splits)
  then show ?thesis by (simp add: poll_promote(1))
next
  case (poll_timeout i c now s)
  then show ?thesis using assms(2,3) by (auto simp: poll_queue_def withdraw_def split: if_splits)
next
  case (work_published i c w out encoded p now s)
  then show ?thesis using assms(2,3)
    by (auto simp: publish_core[OF work_published(6)] release_slot_def split: if_splits)
next
  case (observe nonce now s view)
  then show ?thesis using assms(2,3) by (auto simp: snapshot_def Let_def)
qed (use assms(2,3) in \<open>auto simp: withdraw_def leave_wait_def fail_work_def release_slot_def split: if_splits\<close>)

section \<open>Progress\<close>

definition weight :: "caller \<Rightarrow> nat" where
  "weight c = (case c_phase c of Finished r \<Rightarrow> 0 | Queued \<Rightarrow> 2 | _ \<Rightarrow> 1)"

abbreviation finished :: "caller \<Rightarrow> bool" where
  "finished c \<equiv> (\<exists>r. c_phase c = Finished r)"

definition load :: "system \<Rightarrow> nat" where
  "load y = (\<Sum>c \<leftarrow> callers y. weight c)"

lemma load_set_phase:
  assumes "i < length (callers y)" "weight ((callers y ! i)\<lparr>c_phase := p\<rparr>) < weight (callers y ! i)"
  shows "load (set_phase i p y) < load y"
proof -
  obtain as bs where "callers y = as @ (callers y ! i) # bs" "\<And>c'. (callers y)[i := c'] = as @ c' # bs"
    using split_caller[OF assms(1) refl] by metis
  then have "load (set_phase i p y) = (\<Sum>c \<leftarrow> as. weight c) + weight ((callers y ! i)\<lparr>c_phase := p\<rparr>) + (\<Sum>c \<leftarrow> bs. weight c)"
    "load y = (\<Sum>c \<leftarrow> as. weight c) + weight (callers y ! i) + (\<Sum>c \<leftarrow> bs. weight c)"
    by (simp_all add: load_def) (metis add.assoc list.simps(9) map_append sum_list.Cons sum_list_append)
  with assms(2) show ?thesis by linarith
qed

lemma load_zero: "load y = 0 \<longleftrightarrow> (\<forall>c \<in> set (callers y). finished c)"
proof -
  have "weight c = 0 \<longleftrightarrow> finished c" for c
    by (cases "c_phase c") (simp_all add: weight_def)
  then show ?thesis by (simp add: load_def)
qed

text \<open>In every state of the invariant some unfinished caller can take a step: the running one, else the
  head of the queue, else any follower.\<close>

definition can_advance :: "limits \<Rightarrow> (string \<Rightarrow> string) \<Rightarrow> system \<Rightarrow> bool" where
  "can_advance lm flt y \<longleftrightarrow>
     (\<exists>y'. sched_step lm flt y y' \<and> load y' < load y \<and> length (callers y') = length (callers y))"

lemma can_advanceI:
  assumes "sched_step lm flt y (set_phase i p u)" "callers u = callers y" "i < length (callers y)"
    "weight ((callers y ! i)\<lparr>c_phase := p\<rparr>) < weight (callers y ! i)"
  shows "can_advance lm flt y"
  unfolding can_advance_def
  using assms load_set_phase[of i u p] by (intro exI[of _ "set_phase i p u"]) (simp add: load_def)

lemma advance_working:
  assumes i: "i < length (callers y)" and w: "c_phase (callers y ! i) = Working w"
  shows "can_advance lm flt y"
proof -
  let ?c = "callers y ! i" and ?e = "Exc [] [] True"
  have "sched_step lm flt y (set_phase i (Finished (WorkFailed ?e Launched w))
      (y\<lparr>sch := fail_work (c_key ?c) (c_flight ?c) ?e (sch y)\<rparr>))"
    using sched_step.work_failed[OF i refl w, of flt "Raises ?e"] by (simp add: encode_result_def)
  then show ?thesis
    by (rule can_advanceI) (use i w in \<open>simp_all add: weight_def\<close>)
qed

lemma advance_queued:
  assumes lm: "limits_ok tm lm" and fl: "flow lm (sch y) (callers y)"
    and no: "w_keys (callers y) = []" and some: "q_keys (callers y) \<noteq> []"
  shows "can_advance lm flt y"
proof -
  obtain c where "c \<in> set (callers y)" "c_phase c = Queued" "c_key c = hd (q_keys (callers y))"
    using some in_q_keys hd_in_set by blast
  then obtain i where i: "i < length (callers y)" "c_phase (callers y ! i) = Queued"
      "c_key (callers y ! i) = hd (q_keys (callers y))"
    by (auto simp: in_set_conv_nth)
  let ?c = "callers y ! i"
  have "running_key (sch y) = None" "queue (sch y) \<noteq> []" "hd (queue (sch y)) = c_key ?c"
    using fl no some i by (auto simp: flow_def slots_def split: option.splits)
  then obtain s where s: "poll_queue lm (c_key ?c) (c_flight ?c) (c_joined ?c) (c_joined ?c) (sch y) = (s, Promoted)"
    using lm by (simp add: poll_queue_def limits_ok_def)
  show ?thesis
    using sched_step.poll_promote[OF i(1) refl i(2) s]
    by (rule can_advanceI) (use i in \<open>simp_all add: weight_def\<close>)
qed

lemma advance_following:
  assumes fl: "flow lm (sch y) (callers y)" and no: "w_keys (callers y) = []" "q_keys (callers y) = []"
    and i: "i < length (callers y)" "c_phase (callers y ! i) = Following"
  shows "can_advance lm flt y"
proof -
  let ?c = "callers y ! i"
  have "\<not> live d" if "d \<in> set (callers y)" for d
    using no that by (auto simp: q_keys_def w_keys_def filter_empty_conv)
  then obtain res where res: "follow_result (c_joined ?c) 0 (flights (sch y) ! c_flight ?c) = Some res"
    using follower_result_or_owner[OF _ nth_mem[OF i(1)] i(2), of "sch y" "c_joined ?c" 0] fl
    by (auto simp: flow_def)
  show ?thesis
    using sched_step.follower_done[OF i(1) refl i(2) res]
    by (rule can_advanceI) (use i in \<open>simp_all add: weight_def\<close>)
qed

lemma progress:
  assumes "limits_ok tm lm" "system_inv lm flt y" and un: "c0 \<in> set (callers y)" "\<not> finished c0"
  shows "can_advance lm flt y"
proof -
  have fl: "flow lm (sch y) (callers y)" using assms by (simp add: system_inv_def)
  show ?thesis
  proof (cases "w_keys (callers y) = []")
    case False
    then obtain c where "c \<in> set (callers y)" "working (c_phase c)"
      by (auto simp: w_keys_def filter_empty_conv)
    then show ?thesis by (cases "c_phase c") (auto simp: in_set_conv_nth intro: advance_working)
  next
    case idle: True
    show ?thesis
    proof (cases "q_keys (callers y) = []")
      case True
      then have "c_phase c0 = Following"
        using un idle by (cases "c_phase c0") (auto simp: q_keys_def w_keys_def filter_empty_conv)
      with un(1) True idle show ?thesis by (auto simp: in_set_conv_nth intro: advance_following[OF fl])
    next
      case False
      with advance_queued[OF assms(1) fl idle] show ?thesis by blast
    qed
  qed
qed



section \<open>Publication and the cache\<close>

text \<open>Property C20. Publishing never fails, and the cache stays inside its limits: in every reachable state
  the byte count is exact, both limits hold, and the critical section that publishes a result completes,
  frees the slot and leaves the result in the cache whenever it fits.\<close>

theorem publication_total:
  assumes "reachable tm lm flt y"
  shows "cache_bytes (sch y) = (\<Sum>(k, e) \<leftarrow> cache (sch y). ce_size e) \<and> cache_bytes (sch y) \<le> cache_max_bytes lm
    \<and> int (length (cache (sch y))) \<le> cache_max_entries lm \<and> distinct (keys (cache (sch y)))
    \<and> (\<exists>s. publish lm k r enc p now (sch y) = Some s \<and> running_key s \<noteq> Some k \<and> map_of (active s) k = None
         \<and> (int (length enc) \<le> cache_max_bytes lm \<longrightarrow>
              map_of (cache s) k = Some \<lparr>ce_encoded = enc, expires_at = now + cache_ttl_seconds lm\<rparr>))"
proof -
  have inv: "limits_ok tm lm" "cache_inv lm (sch y)"
    using sched.inv_reach[OF assms] by (auto simp: system_inv_def)
  have c1: "cache_inv lm (purge_expired now (sch y))" using inv(2) by (rule cache_inv_purge)
  obtain s1 where s1: "cache_result lm k enc now (purge_expired now (sch y)) = Some s1"
    using cache_result_total[OF c1 inv(1)] by blast
  have "map_of (AList.delete k (active s1)) k = None" by (simp add: delete_conv')
  with cache_result_stores[OF c1 inv(1) _ s1] s1 have
    "\<exists>s. publish lm k r enc p now (sch y) = Some s \<and> running_key s \<noteq> Some k \<and> map_of (active s) k = None
         \<and> (int (length enc) \<le> cache_max_bytes lm \<longrightarrow>
              map_of (cache s) k = Some \<lparr>ce_encoded = enc, expires_at = now + cache_ttl_seconds lm\<rparr>)"
    by (simp add: publish_def release_slot_def)
  then show ?thesis
    using inv(2) by (simp add: cache_inv_def sizes_def)
qed

theorem publication_total_witness:
  "\<exists>s. publish default_limits ''a'' 0 ''{}'' [] 1 (sch busy_system) = Some s \<and> running_key s \<noteq> Some ''a''
     \<and> map_of (cache s) ''a'' = Some \<lparr>ce_encoded = ''{}'', expires_at = 3601\<rparr>"
  using publication_total[OF busy_reachable, of "''a''" 0 "''{}''" "[]" 1] by (auto simp: default_limits_def)

text \<open>Every launch is settled: the launches are exactly the completed and failed ones, plus the one
  in the slot.\<close>

theorem launches_settled:
  assumes "reachable tm lm flt y"
  shows "n_launched (ctr (sch y)) = n_completed (ctr (sch y)) + n_failed (ctr (sch y))
    + length (filter (\<lambda>c. working (c_phase c)) (callers y))"
proof -
  have inv: "counted (sch y)" "slots (sch y) (callers y)"
    using sched.inv_reach[OF assms] by (auto simp: system_inv_def flow_def)
  have "length (w_keys (callers y)) = (if running_key (sch y) = None then 0 else 1)"
    using inv(2) by (simp add: slots_def split: option.splits)
  then show ?thesis
    using inv(1) by (simp add: counted_def w_keys_def)
qed

theorem launches_settled_witness:
  "n_launched (ctr (sch busy_system)) = n_completed (ctr (sch busy_system)) + n_failed (ctr (sch busy_system)) + 1"
proof -
  have "length (filter (\<lambda>c. working (c_phase c)) (callers busy_system))
      = length (filter working (map c_phase (callers busy_system)))"
    by (simp add: filter_map o_def)
  then show ?thesis
    using launches_settled[OF busy_reachable] busy_system_facts by simp
qed

text \<open>Property C21. A duplicate is never run twice: a caller whose key is live in the cache gets the cached value
  and starts nothing; a caller whose key is in flight either joins that flight, even when the queue of
  distinct keys is full, or is refused for want of waiter room; it never enters the queue or the slot.\<close>

theorem duplicates_coalesce:
  assumes "admit_caller lm flt k now s = (s', a)" "k \<noteq> []" "distinct (keys (cache s))"
  shows "(map_of (filter (\<lambda>(k, e). expires_at e > now) (cache s)) k = Some e \<longrightarrow> a = Hit (decoded flt e))
    \<and> (map_of (filter (\<lambda>(k, e). expires_at e > now) (cache s)) k = None \<and> map_of (active s) k = Some r \<longrightarrow>
         a = (if joined_waiters (flights s ! r) \<ge> max_waiters_per_key lm then Refused PerKeyWaitersFull
              else if total_waiters s \<ge> max_total_waiters lm then Refused TotalWaitersFull else Joins r))
    \<and> (has_key (active s) k \<or> (\<exists>d. a = Hit d) \<longrightarrow> queue s' = queue s \<and> running_key s' = running_key s
         \<and> active s' = active s \<and> n_launched (ctr s') = n_launched (ctr s))"
proof -
  let ?s1 = "purge_expired now (upd_ctr (n_submitted_update Suc) s)"
  have c: "cache ?s1 = filter (\<lambda>(k, e). expires_at e > now) (cache s)"
    using assms(3) purge_cache[of "upd_ctr (n_submitted_update Suc) s" now] by simp
  have "(\<exists>d. a = Hit d) \<Longrightarrow> map_of (cache ?s1) k = None \<Longrightarrow> False"
    using assms(1,2) by (auto simp: admit_caller_def join_flight_def lead_flight_def reject_def Let_def
        split: option.splits if_splits)
  moreover have "has_key (active s) k \<longleftrightarrow> map_of (active s) k \<noteq> None"
    by (simp add: map_of_eq_None_iff)
  ultimately show ?thesis
    using assms(1,2)
    by (cases "map_of (cache ?s1) k"; cases "map_of (active s) k")
      (auto simp: admit_caller_def Let_def c[symmetric] join_flight_def reject_def split: if_splits)
qed

definition one_system :: system where
  "one_system = do_submit default_limits id ''a'' 0 init_system"

lemma one_system_facts:
  "callers one_system = [\<lparr>c_key = ''a'', c_flight = 0, c_joined = 0, c_phase = Working 0\<rparr>]"
  "running_key (sch one_system) = Some ''a''" "published one_system = []"
  by (simp_all add: one_system_def admission_defs wait_ms_def)

lemma init_reachable: "reachable 4000000 default_limits id init_system"
  using default_limits_ok by (simp add: reach_init sched_init_def)

theorem receipts_attested_witness:
  "\<exists>y c. reachable 4000000 default_limits id y \<and> c \<in> set (callers y) \<and> c_phase c = Finished (Receipt [] Launched 0)
     \<and> (c_key c, []) \<in> set (published y)"
proof -
  let ?c = "\<lparr>c_key = ''a'', c_flight = 0, c_joined = 0, c_phase = Working 0\<rparr>"
  have en: "encode_result id (Returns (JObj [])) = Inr (''{}'', [])" by code_simp
  have r1: "reachable 4000000 default_limits id one_system"
    unfolding one_system_def by (rule reachable_submit[OF init_reachable])
  then have "cache_inv default_limits (purge_expired 0 (sch one_system))"
    using sched.inv_reach[OF r1] by (auto simp: system_inv_def intro: cache_inv_purge)
  then obtain s where pu: "publish default_limits ''a'' 0 ''{}'' [] 0 (sch one_system) = Some s"
    using cache_result_total[OF _ default_limits_ok, of "purge_expired 0 (sch one_system)" "''a''" "''{}''" 0]
    by (auto simp: publish_def)
  let ?y = "set_phase 0 (Finished (Receipt [] Launched 0)) (one_system\<lparr>sch := s, published := [(''a'', [])]\<rparr>)"
  have "sched_step default_limits id one_system ?y"
    using sched_step.work_published[of 0 one_system ?c 0 id "Returns (JObj [])" "''{}''" "[]" default_limits 0 s] en pu
    by (simp add: one_system_facts)
  with r1 have r2: "reachable 4000000 default_limits id ?y" by (rule reach_step)
  have c: "?c\<lparr>c_phase := Finished (Receipt [] Launched 0)\<rparr> \<in> set (callers ?y)"
    by (simp add: one_system_facts)
  from receipts_attested[OF r2 c] r2 c show ?thesis
    by (intro exI[of _ ?y] exI[of _ "?c\<lparr>c_phase := Finished (Receipt [] Launched 0)\<rparr>"]) simp
qed

theorem slot_fifo_witness:
  "\<exists>y. sched_step default_limits id init_system y \<and> running_key (sch y) = Some ''a''
     \<and> c_key (last (callers y)) = ''a'' \<and> queue (sch y) = []"
proof -
  obtain s a where sa: "admit_caller default_limits id ''a'' 0 (sch init_system) = (s, a)" by fastforce
  obtain r p where rp: "admitted_phase 0 0 a = (r, p)" by fastforce
  have "one_system = init_system\<lparr>sch := s,
      callers := callers init_system @ [\<lparr>c_key = ''a'', c_flight = r, c_joined = 0, c_phase = p\<rparr>]\<rparr>"
    by (simp add: one_system_def do_submit_def sa rp)
  then have "sched_step default_limits id init_system one_system"
    using submit[OF sa rp] by simp
  moreover from slot_fifo[OF this one_system_facts(2)] have
    "c_key (last (callers one_system)) = ''a''" "queue (sch one_system) = []"
    by (auto simp: init_system_def init_sched_def)
  ultimately show ?thesis using one_system_facts(2) by blast
qed

theorem duplicates_coalesce_witness:
  "\<exists>s' a. admit_caller default_limits id ''b'' 0 (sch busy_system) = (s', a) \<and> a = Joins 1 \<and> queue s' = [''b'']"
proof -
  obtain s' a where sa: "admit_caller default_limits id ''b'' 0 (sch busy_system) = (s', a)" by fastforce
  have facts: "cache (sch busy_system) = []" "map_of (active (sch busy_system)) ''b'' = Some 1"
    "joined_waiters (flights (sch busy_system) ! 1) = 1" "total_waiters (sch busy_system) = 3"
    "max_waiters_per_key default_limits = 8" "max_total_waiters default_limits = 32"
    by (simp_all add: busy_system_def admission_defs)
  then have hk: "has_key (active (sch busy_system)) ''b''"
    by (metis map_of_eq_None_iff option.distinct(1) image_set)
  have "a = Joins 1" "queue s' = queue (sch busy_system)"
    using duplicates_coalesce[OF sa, of _ 1] hk facts by simp_all
  then show ?thesis using sa busy_system_facts(3) by simp
qed

end
