(* ===== verification/FactFile.thy ===== *)
theory FactFile
  imports Schema
begin

text \<open>
  The fact file of \<open>src/danus/core/factgraph.py\<close>: rendering a fact as markdown with front matter
  (\<open>serialize_fact\<close>), reading it back (\<open>parse_frontmatter\<close>, \<open>statement_of\<close>, \<open>_proof_of\<close>), the check
  that a stored file still carries its content address (\<open>_validate_fact_integrity\<close>), and the
  selection of the glossary definitions a text refers to.
\<close>

section \<open>Python conversions\<close>

text \<open>\<open>Path.read_text\<close> opens the file with universal newlines.\<close>

fun read_text :: "string \<Rightarrow> string" where
  "read_text [] = []"
| "read_text [c] = (if c = CR then [LF] else [c])"
| "read_text (c # d # cs) =
     (if c = CR then (if d = LF then LF # read_text cs else LF # read_text (d # cs))
      else c # read_text (d # cs))"

definition is_printable :: "char \<Rightarrow> bool" where
  "is_printable c \<longleftrightarrow> 32 \<le> code c \<and> \<not> (127 \<le> code c \<and> code c \<le> 160) \<and> code c \<noteq> 173"

definition repr_char :: "char \<Rightarrow> char \<Rightarrow> string" where
  "repr_char q c =
     (if c = q \<or> c = BS then [BS, c]
      else if c = LF then [BS, CHR ''n'']
      else if c = CR then [BS, CHR ''r'']
      else if c = CHR 0x09 then [BS, CHR ''t'']
      else if is_printable c then [c]
      else [BS, CHR ''x'', hex_digit (code c div 16), hex_digit (code c mod 16)])"

definition repr_str :: "string \<Rightarrow> string" where
  "repr_str s = (let q = (if CHR 0x27 \<in> set s \<and> DQ \<notin> set s then DQ else CHR 0x27) in
     q # concat (map (repr_char q) s) @ [q])"

definition repr_float :: "string \<Rightarrow> string" where
  "repr_float t = (if t = ''NaN'' then ''nan'' else if t = ''Infinity'' then ''inf''
     else if t = ''-Infinity'' then ''-inf'' else t)"

fun py_repr :: "json \<Rightarrow> string" where
  "py_repr JNull = ''None''"
| "py_repr (JBool b) = (if b then ''True'' else ''False'')"
| "py_repr (JInt i) = show_int i"
| "py_repr (JFloat t) = repr_float t"
| "py_repr (JStr s) = repr_str s"
| "py_repr (JArr xs) = CHR ''['' # join '', '' (map py_repr xs) @ '']''"
| "py_repr (JObj kvs) = CHR ''{'' # join '', '' (map (\<lambda>(k, v). repr_str k @ '': '' @ py_repr v) kvs) @ ''}''"

definition to_str :: "json \<Rightarrow> string" where
  "to_str v = (case v of JStr s \<Rightarrow> s | _ \<Rightarrow> py_repr v)"

section \<open>Names and patterns\<close>

definition is_safe_id_char :: "char \<Rightarrow> bool" where
  "is_safe_id_char c \<longleftrightarrow> is_ascii_alnum c \<or> c \<in> {CHR ''.'', CHR ''_'', CHR ''-''}"

definition SAFE_FACT_ID :: "string \<Rightarrow> bool" where
  "SAFE_FACT_ID s \<longleftrightarrow> (case s of [] \<Rightarrow> False | c # cs \<Rightarrow> is_ascii_alnum c \<and> list_all is_safe_id_char cs)"

abbreviation CONTENT_FACT_ID :: "string \<Rightarrow> bool" where "CONTENT_FACT_ID \<equiv> is_hex16"

abbreviation FULL_FACT_IDENTITY :: "string \<Rightarrow> bool" where "FULL_FACT_IDENTITY \<equiv> is_hex64"

definition LINE_BREAK :: "string \<Rightarrow> bool" where
  "LINE_BREAK s \<longleftrightarrow> list_ex is_linebreak s"

text \<open>The capture of \<open>^predecessors:\s*\[(.*)\]\s*$\<close> on a stripped line.\<close>

definition pred_match :: "string \<Rightarrow> string option" where
  "pred_match s =
     (if prefix ''predecessors:'' s then
        (case lstrip (drop 13 s) of
           c # r \<Rightarrow> if c = CHR ''['' \<and> r \<noteq> [] \<and> last r = CHR '']'' then Some (butlast r) else None
         | [] \<Rightarrow> None)
      else None)"

text \<open>The two captures of \<open>^\s{2}([^:]+):\s*(.*)$\<close>, already stripped.\<close>

definition gloss_line :: "string \<Rightarrow> (string \<times> string) option" where
  "gloss_line s =
     (case s of
        a # b # r \<Rightarrow>
          (let k = takeWhile (\<lambda>c. c \<noteq> CHR '':'') r; q = dropWhile (\<lambda>c. c \<noteq> CHR '':'') r in
           if is_space a \<and> is_space b \<and> k \<noteq> [] \<and> q \<noteq> [] then Some (strip k, strip (tl q)) else None)
      | _ \<Rightarrow> None)"

section \<open>Referenced definitions\<close>

definition py_isalnum :: "char \<Rightarrow> bool" where
  "py_isalnum c \<longleftrightarrow> is_ascii_alnum c \<or> code c \<in> {170, 178, 179, 181, 185, 186, 188, 189, 190} \<or>
     (192 \<le> code c \<and> code c \<noteq> 215 \<and> code c \<noteq> 247)"

definition is_ident :: "char \<Rightarrow> bool" where
  "is_ident c \<longleftrightarrow> is_ascii_alnum c \<or> c = CHR ''_''"

definition occurs_here :: "string \<Rightarrow> char option \<Rightarrow> string \<Rightarrow> bool" where
  "occurs_here t prev s \<longleftrightarrow> prefix t s \<and>
     ((py_isalnum (hd t) \<or> hd t = CHR ''_'') \<longrightarrow> (case prev of None \<Rightarrow> True | Some c \<Rightarrow> \<not> is_ident c)) \<and>
     ((py_isalnum (last t) \<or> last t = CHR ''_'') \<longrightarrow> (case drop (length t) s of [] \<Rightarrow> True | c # _ \<Rightarrow> \<not> is_ident c))"

fun occurs_from :: "string \<Rightarrow> char option \<Rightarrow> string \<Rightarrow> bool" where
  "occurs_from t prev [] \<longleftrightarrow> False"
| "occurs_from t prev (c # cs) \<longleftrightarrow> occurs_here t prev (c # cs) \<or> occurs_from t (Some c) cs"

definition term_occurs :: "string \<Rightarrow> string \<Rightarrow> bool" where
  "term_occurs t s \<longleftrightarrow> t \<noteq> [] \<and> s \<noteq> [] \<and> occurs_from t None s"

function select_loop :: "string list \<Rightarrow> string dict \<Rightarrow> string dict \<Rightarrow> string dict" where
  "select_loop pending remaining selected =
     (case pending of
        [] \<Rightarrow> selected
      | s # rest \<Rightarrow>
          if remaining = [] then selected
          else (let matched = sort_key fst (filter (\<lambda>(t, d). term_occurs t s) remaining) in
            select_loop (rest @ filter (\<lambda>d. d \<noteq> []) (map snd matched))
              (filter (\<lambda>(t, d). \<not> term_occurs t s) remaining) (selected @ matched)))"
  by pat_completeness auto

lemma select_loop_decreases:
  "length (filter (\<lambda>d. d \<noteq> []) (map snd (sort_key fst (filter P r)))) + length (filter (\<lambda>x. \<not> P x) r) \<le> length r"
proof -
  have "length (filter (\<lambda>d. d \<noteq> []) (map snd (sort_key fst (filter P r)))) \<le> length (filter P r)"
    using length_filter_le[of "\<lambda>d. d \<noteq> []" "map snd (sort_key fst (filter P r))"] by simp
  with sum_length_filter_compl[of P r] show ?thesis by simp
qed

termination select_loop
proof (relation "measure (\<lambda>(p, r, s). length p + length r)", goal_cases)
  case (2 pending remaining selected s rest matched)
  then show ?case
    using select_loop_decreases[of "\<lambda>(t, d). term_occurs t s" remaining]
    by (auto simp: case_prod_beta')
qed simp

declare select_loop.simps [simp del]

definition select_referenced_definitions :: "string list \<Rightarrow> string dict \<Rightarrow> string dict" where
  "select_referenced_definitions texts available =
     sorted_items (select_loop (filter (\<lambda>s. s \<noteq> []) texts) (filter (\<lambda>(t, d). t \<noteq> []) available) [])"

section \<open>The file format\<close>

definition heading :: "string \<Rightarrow> string" where
  "heading l = py_lower (strip l)"

definition statement_of :: "string \<Rightarrow> string" where
  "statement_of s =
     strip (join [SP] (filter (\<lambda>l. l \<noteq> []) (map strip
       (takeWhile (\<lambda>l. heading l \<noteq> ''## proof'')
         (tl (dropWhile (\<lambda>l. heading l \<noteq> ''## statement'') (splitlines s)))))))"

text \<open>The loop that looks for \<open>has_intuition\<close>; the first line never closes the front matter.\<close>

fun intuition_flag :: "bool \<Rightarrow> string list \<Rightarrow> bool option" where
  "intuition_flag started [] = None"
| "intuition_flag started (l # ls) =
     (if started \<and> strip l = ''---'' then None
      else if prefix ''has_intuition:'' l then Some (py_lower (strip (drop 14 l)) = ''true'')
      else intuition_flag True ls)"

definition is_intuition :: "string \<Rightarrow> bool" where
  "is_intuition l \<longleftrightarrow> heading l = ''## intuition''"

text \<open>Everything before the last matching heading, or the whole list.\<close>

definition before_last_intuition :: "string list \<Rightarrow> string list" where
  "before_last_intuition ls =
     (if list_ex is_intuition ls then rev (tl (dropWhile (\<lambda>l. \<not> is_intuition l) (rev ls))) else ls)"

definition proof_of :: "string \<Rightarrow> string" where
  "proof_of s =
     (let ls = splitlines s;
          out = tl (dropWhile (\<lambda>l. heading l \<noteq> ''## proof'') ls)
      in strip (join [LF]
        (case intuition_flag False ls of
           Some True \<Rightarrow> before_last_intuition out
         | Some False \<Rightarrow> out
         | None \<Rightarrow> takeWhile (\<lambda>l. \<not> is_intuition l) out)))"

text \<open>The lines up to the statement; the payload of the mutable references line is an argument.\<close>

definition fact_lines :: "fact \<Rightarrow> string \<Rightarrow> string list" where
  "fact_lines f refs =
     [''---'',
      ''fact_id: '' @ fact_id f,
      ''problem_id: '' @ problem_id f,
      ''author: '' @ author f,
      ''predecessors: ['' @ join '', '' (predecessors f) @ '']'',
      ''has_intuition: '' @ (if strip (intuition f) \<noteq> [] then ''true'' else ''false''),
      ''glossary_introduces: '' @ dumps ascii_fmt (str_dict (sorted_items (glossary_introduces f)))] @
     (if fact_identity f \<noteq> [] then [''fact_identity: '' @ fact_identity f] else []) @
     [''external_refs: '' @ refs,
      ''---'', [], ''## statement'']"

definition serialize_fact :: "fact \<Rightarrow> string" where
  "serialize_fact f =
     join [LF] (fact_lines f (dumps ascii_fmt (JArr (map JObj (external_refs f)))) @ [strip (statement f), [], ''## proof'', strip (proof_text f)] @
       (if strip (intuition f) \<noteq> [] then [[], ''## intuition'', strip (intuition f)] else []) @ [[]])"

record frontmatter =
  fm_fact_id :: string
  fm_problem_id :: string
  fm_predecessors :: "string list"
  fm_glossary :: "string dict"
  fm_identity :: "string option"
  fm_refs :: json

definition empty_frontmatter :: frontmatter where
  "empty_frontmatter = \<lparr>fm_fact_id = [], fm_problem_id = [], fm_predecessors = [], fm_glossary = [],
     fm_identity = None, fm_refs = JArr []\<rparr>"

text \<open>One line of the front matter; the flag says whether a legacy block glossary is being read.\<close>

definition frontmatter_line ::
    "(string \<Rightarrow> string) \<Rightarrow> string \<Rightarrow> bool \<times> frontmatter \<Rightarrow> bool \<times> frontmatter" where
  "frontmatter_line flt l = (\<lambda>(in_gloss, m).
     if prefix ''fact_id:'' l then (in_gloss, m\<lparr>fm_fact_id := strip (drop 8 l)\<rparr>)
     else if prefix ''problem_id:'' l then (in_gloss, m\<lparr>fm_problem_id := strip (drop 11 l)\<rparr>)
     else (case pred_match (strip l) of
       Some g \<Rightarrow> (False, m\<lparr>fm_predecessors := filter (\<lambda>x. x \<noteq> []) (map strip (split_on (CHR '','') g))\<rparr>)
     | None \<Rightarrow>
       if prefix ''glossary_introduces:'' (strip l) then
         (let payload = strip (drop 20 (strip l)) in
          case (if payload = [] then None else loads flt payload) of
            Some (JObj kvs) \<Rightarrow> (False, m\<lparr>fm_glossary := map (\<lambda>(k, v). (k, to_str v)) kvs\<rparr>)
          | _ \<Rightarrow> (payload = [], m))
       else if prefix ''external_refs:'' (strip l) then
         (let payload = strip (drop 14 (strip l)) in
          (False, m\<lparr>fm_refs := (if payload = [] then JArr []
             else case loads flt payload of Some v \<Rightarrow> v | None \<Rightarrow> JArr [])\<rparr>))
       else if prefix ''fact_identity:'' l then (False, m\<lparr>fm_identity := Some (strip (drop 14 l))\<rparr>)
       else if in_gloss then
         (case gloss_line l of
            Some (k, v) \<Rightarrow> (True, m\<lparr>fm_glossary := AList.update k v (fm_glossary m)\<rparr>)
          | None \<Rightarrow> (False, m))
       else (False, m)))"

fun frontmatter_loop ::
    "(string \<Rightarrow> string) \<Rightarrow> bool \<Rightarrow> string list \<Rightarrow> bool \<times> frontmatter \<Rightarrow> frontmatter" where
  "frontmatter_loop flt started [] st = snd st"
| "frontmatter_loop flt started (l # ls) st =
     (if started \<and> strip l = ''---'' then snd st
      else frontmatter_loop flt True ls (frontmatter_line flt l st))"

definition parse_frontmatter :: "(string \<Rightarrow> string) \<Rightarrow> string \<Rightarrow> frontmatter" where
  "parse_frontmatter flt s = frontmatter_loop flt False (splitlines s) (False, empty_frontmatter)"

text \<open>Replacing the references line of a stored file: the first one of the front matter is
  overwritten, or a new one is inserted before the closing line.\<close>

fun replace_refs :: "string \<Rightarrow> string list \<Rightarrow> string list" where
  "replace_refs new [] = [new]"
| "replace_refs new (l # ls) = (if prefix ''external_refs:'' l then new # ls else l # replace_refs new ls)"

definition set_refs_text :: "jobj list \<Rightarrow> string \<Rightarrow> string option" where
  "set_refs_text refs raw =
     (let new = ''external_refs: '' @ dumps plain_fmt (JArr (map JObj refs)) in
      case splitlines raw of
        [] \<Rightarrow> None
      | l # ls \<Rightarrow>
          (let front = takeWhile (\<lambda>l. strip l \<noteq> ''---'') ls; rest = dropWhile (\<lambda>l. strip l \<noteq> ''---'') ls in
           if rest = [] then None else Some (join [LF] (l # replace_refs new front @ rest) @ [LF])))"

datatype integrity_error = BothStores | NameMismatch | IncompleteFrontmatter | InvalidIdentity | HashMismatch

definition validate_fact_integrity ::
    "(string \<Rightarrow> string) \<Rightarrow> bool \<Rightarrow> string \<Rightarrow> string \<Rightarrow> frontmatter \<Rightarrow> integrity_error option" where
  "validate_fact_integrity H revoked fid raw m =
     (if revoked then Some BothStores
      else if fm_fact_id m \<noteq> [] \<and> fm_fact_id m \<noteq> fid then Some NameMismatch
      else if \<not> CONTENT_FACT_ID fid then None
      else if fm_fact_id m \<noteq> fid \<or> fm_problem_id m = [] then Some IncompleteFrontmatter
      else if (case fm_identity m of None \<Rightarrow> False | Some i \<Rightarrow> \<not> FULL_FACT_IDENTITY i) then Some InvalidIdentity
      else if compute_fact_id H (fm_problem_id m) (fm_predecessors m) (fm_glossary m) (statement_of raw) (proof_of raw) \<noteq> fid
        then Some HashMismatch
      else None)"

section \<open>Lines\<close>

lemma splitlines_empty [simp]: "splitlines s = [] \<longleftrightarrow> s = []"
  by (induction s rule: splitlines.induct) (auto split: list.splits)

lemma splitlines_cons: "\<not> is_linebreak c \<Longrightarrow> splitlines (c # s) = (case splitlines s of [] \<Rightarrow> [[c]] | l # ls \<Rightarrow> (c # l) # ls)"
  by (cases s) auto

lemma splitlines_LF [simp]: "splitlines (LF # s) = [] # splitlines s"
  by (cases s) auto

lemma splitlines_line: "list_all (\<lambda>c. \<not> is_linebreak c) a \<Longrightarrow> splitlines (a @ LF # b) = a # splitlines b"
  by (induction a) (auto simp: splitlines_cons)

lemma splitlines_text:
  "a \<noteq> [] \<Longrightarrow> \<not> is_linebreak (last a) \<Longrightarrow> splitlines (a @ LF # b) = splitlines a @ splitlines b"
proof (induction a rule: splitlines.induct)
  case (3 c d cs)
  show ?case
  proof (cases "c = CR \<and> d = LF")
    case True
    then show ?thesis using 3 by (cases cs) auto
  next
    case False
    then show ?thesis using 3 by (auto split: list.splits)
  qed
qed auto

lemma splitlines_lines:
  "list_all (list_all (\<lambda>c. \<not> is_linebreak c)) ls \<Longrightarrow> r \<noteq> [] \<Longrightarrow>
   splitlines (join [LF] (ls @ r)) = ls @ splitlines (join [LF] r)"
proof (induction ls)
  case (Cons l ls)
  then have "join [LF] ((l # ls) @ r) = l @ LF # join [LF] (ls @ r)" by (cases "ls @ r") auto
  with Cons show ?case by (simp add: splitlines_line)
qed simp

lemma splitlines_read_text: "splitlines (read_text s) = splitlines s"
proof (induction s rule: read_text.induct)
  case (3 c d cs)
  show ?case
  proof (cases "c = CR")
    case True
    then show ?thesis using 3 by auto
  next
    case False
    have eq: "splitlines (c # d # cs) = (if is_linebreak c then [] # splitlines (d # cs)
        else (case splitlines (d # cs) of [] \<Rightarrow> [[c]] | l # ls \<Rightarrow> (c # l) # ls))"
      using False by simp
    have "splitlines (c # r) = (if is_linebreak c then [] # splitlines r
        else (case splitlines r of [] \<Rightarrow> [[c]] | l # ls \<Rightarrow> (c # l) # ls))" for r
      using False by (cases r) auto
    then show ?thesis using False 3 eq by simp
  qed
qed auto

lemma words_lines: "concat (map words (splitlines s)) = words s"
proof (induction s rule: splitlines.induct)
  case (3 c d cs)
  show ?case
  proof (cases "c = CR \<and> d = LF")
    case True
    then show ?thesis using 3 by (simp add: linebreak_is_space)
  next
    case nl: False
    show ?thesis
    proof (cases "is_linebreak c")
      case True
      then have "splitlines (c # d # cs) = [] # splitlines (d # cs)" using nl by auto
      then show ?thesis using 3 nl True by (simp only: list.map concat.simps) (simp add: linebreak_is_space)
    next
      case False
      then obtain l ls where ll: "splitlines (d # cs) = l # ls" by (cases "splitlines (d # cs)") auto
      then have w: "words (d # cs) = words l @ concat (map words ls)" using 3 nl False by simp
      have dl: "is_space d \<longleftrightarrow> l = [] \<or> is_space (hd l)"
        using ll by (cases cs) (auto split: if_splits list.splits simp: linebreak_is_space)
      have "words (c # d # cs) = words (c # l) @ concat (map words ls)"
      proof (cases "is_space c \<or> is_space d")
        case True
        then have "words (c # d # cs) = (if is_space c then [] else [[c]]) @ words (d # cs)"
          by (simp only: words.simps(2)[of c] list.sel) auto
        moreover have "words (c # l) = (if is_space c then [] else [[c]]) @ words l"
          using True dl by (auto simp only: words.simps(2)[of c] append.simps split: if_splits)
        ultimately show ?thesis using w by (simp only: append_assoc)
      next
        case False
        then obtain v vs where v: "words l = v # vs" using dl words_nonempty by (cases "words l") blast+
        have "words (c # d # cs) = (c # v) # vs @ concat (map words ls)"
          using False w v by (simp only: words.simps(2)[of c] list.sel list.simps if_False append.simps) auto
        moreover have "words (c # l) = (c # v) # vs" using False v dl by auto
        ultimately show ?thesis by (simp only: append.simps)
      qed
      moreover have "splitlines (c # d # cs) = (c # l) # ls" using nl False ll by auto
      ultimately show ?thesis by (simp only: list.map concat.simps)
    qed
  qed
qed (auto simp: linebreak_is_space)


lemma strip_space: "is_space c \<Longrightarrow> strip (c # s) = strip s" "is_space c \<Longrightarrow> strip (s @ [c]) = strip s"
proof -
  show "is_space c \<Longrightarrow> strip (c # s) = strip s" by (simp add: strip_def lstrip_def)
  show "is_space c \<Longrightarrow> strip (s @ [c]) = strip s"
    unfolding strip_def strip_commute by (simp add: rstrip_def)
qed

lemma splitlines_snoc:
  "(\<exists>r. splitlines (s @ [c]) = splitlines s @ r) \<or>
   (s \<noteq> [] \<and> splitlines (s @ [c]) = butlast (splitlines s) @ [last (splitlines s) @ [c]])"
proof (induction s rule: splitlines.induct)
  case (2 x)
  then show ?case by auto
next
  case (3 x y cs)
  consider "x = CR \<and> y = LF" | "\<not> (x = CR \<and> y = LF)" "is_linebreak x"
    | l ls where "\<not> is_linebreak x" "splitlines (y # cs) = l # ls"
    by (metis neq_Nil_conv splitlines_empty)
  then show ?case
  proof cases
    case 1
    then show ?thesis using 3(1) by (cases "splitlines cs") auto
  next
    case 2
    then show ?thesis using 3(2) by (cases "splitlines (y # cs)") auto
  next
    case (3 l ls)
    then have a: "splitlines (x # y # cs) = (x # l) # ls" by (auto split: list.splits)
    have b: "splitlines ((x # y # cs) @ [c]) = (case splitlines ((y # cs) @ [c]) of [] \<Rightarrow> [[x]] | l # ls \<Rightarrow> (x # l) # ls)"
      using 3 by (auto split: list.splits)
    have "\<not> (x = CR \<and> y = LF)" using 3 by auto
    from "3.IH"(3)[OF this 3(1)] show ?thesis
      using a b 3(2) by (cases ls) auto
  qed
qed simp

definition has_heading :: "string \<Rightarrow> string \<Rightarrow> bool" where
  "has_heading h s \<longleftrightarrow> list_ex (\<lambda>l. heading l = h) (splitlines s)"

lemma heading_Nil [simp]: "heading [] = []"
  by (simp add: heading_def py_lower_def)

lemma splitlines_cons_cases:
  "splitlines (c # s) = splitlines s \<or> splitlines (c # s) = [] # splitlines s \<or>
   splitlines (c # s) = (case splitlines s of [] \<Rightarrow> [[c]] | l # ls \<Rightarrow> (c # l) # ls)"
proof (cases s)
  case (Cons d cs)
  then show ?thesis by (cases "c = CR \<and> d = LF") auto
qed auto

lemma has_heading_cons: "is_space c \<Longrightarrow> has_heading h s \<Longrightarrow> has_heading h (c # s)"
proof -
  assume c: "is_space c" and s: "has_heading h s"
  consider "splitlines (c # s) = splitlines s" | "splitlines (c # s) = [] # splitlines s"
    | "splitlines (c # s) = (case splitlines s of [] \<Rightarrow> [[c]] | l # ls \<Rightarrow> (c # l) # ls)"
    using splitlines_cons_cases[of c s] by argo
  then show ?thesis
  proof cases
    case 3
    then show ?thesis using s by (cases "splitlines s") (simp_all add: has_heading_def heading_def strip_space(1)[OF c])
  qed (use s in \<open>simp_all add: has_heading_def\<close>)
qed

lemma has_heading_snoc: "is_space c \<Longrightarrow> h \<noteq> [] \<Longrightarrow> has_heading h s \<Longrightarrow> has_heading h (s @ [c])"
proof -
  assume c: "is_space c" and h: "h \<noteq> []" and s: "has_heading h s"
  then obtain l where l: "l \<in> set (splitlines s)" "heading l = h"
    by (auto simp: has_heading_def list_ex_iff)
  then have ne: "splitlines s \<noteq> []" by auto
  from splitlines_snoc[of s c] show ?thesis
  proof (elim disjE exE conjE)
    fix r assume "splitlines (s @ [c]) = splitlines s @ r"
    then show ?thesis using l by (auto simp: has_heading_def list_ex_iff)
  next
    assume e: "splitlines (s @ [c]) = butlast (splitlines s) @ [last (splitlines s) @ [c]]"
    have "l \<in> set (butlast (splitlines s)) \<or> l = last (splitlines s)"
      using l(1) ne by (metis UnE append_butlast_last_id set_append set_ConsD empty_iff empty_set)
    then show ?thesis using e l(2) c by (auto simp: has_heading_def heading_def list_ex_iff strip_space)
  qed
qed

lemma has_heading_strip: "h \<noteq> [] \<Longrightarrow> has_heading h (strip s) \<Longrightarrow> has_heading h s"
proof -
  assume h: "h \<noteq> []" and *: "has_heading h (strip s)"
  have r: "has_heading h (rstrip t) \<Longrightarrow> has_heading h t" for t
  proof (induction t rule: rev_induct)
    case (snoc c t)
    then show ?case
      by (cases "is_space c") (simp_all add: rstrip_def has_heading_snoc[OF _ h])
  qed (simp add: rstrip_def)
  have l: "has_heading h (lstrip t) \<Longrightarrow> has_heading h t" for t
  proof (induction t)
    case (Cons c t)
    then show ?case
      by (cases "is_space c") (simp_all add: lstrip_def has_heading_cons)
  qed (simp add: lstrip_def)
  from * show ?thesis unfolding strip_def by (rule l[OF r])
qed

section \<open>What a stored fact must satisfy\<close>

abbreviation one_line :: "string \<Rightarrow> bool" where
  "one_line \<equiv> list_all (\<lambda>c. \<not> is_linebreak c)"

text \<open>The text of a float is a numeral or one of the three constants; no line break is in it.\<close>

fun float_lines :: "json \<Rightarrow> bool" where
  "float_lines (JFloat t) = one_line t"
| "float_lines (JArr xs) = list_all float_lines xs"
| "float_lines (JObj kvs) = list_all (\<lambda>(k, v). float_lines v) kvs"
| "float_lines v = True"

definition storable :: "fact \<Rightarrow> bool" where
  "storable f \<longleftrightarrow>
     SAFE_FACT_ID (fact_id f) \<and>
     problem_id f \<noteq> [] \<and> strip (problem_id f) = problem_id f \<and> \<not> LINE_BREAK (problem_id f) \<and>
     \<not> LINE_BREAK (author f) \<and>
     \<not> has_heading ''## proof'' (statement f) \<and> \<not> has_heading ''## intuition'' (intuition f) \<and>
     list_all SAFE_FACT_ID (predecessors f) \<and> distinct (keys (glossary_introduces f)) \<and>
     (fact_identity f = [] \<or> FULL_FACT_IDENTITY (fact_identity f)) \<and>
     list_all float_lines (map JObj (external_refs f))"

lemma LINE_BREAK_one_line: "\<not> LINE_BREAK s \<longleftrightarrow> one_line s"
  by (auto simp: LINE_BREAK_def list_ex_iff list_all_iff)

lemma not_linebreak_code: "is_linebreak c \<Longrightarrow> code c < 32 \<or> code c = 133"
  by (auto simp: is_linebreak_def)

lemma esc_ascii_one_line: "one_line (esc_char True c)"
proof -
  have h: "\<not> is_linebreak (hex_digit n)" if "n < 16" for n
    using that by (auto simp: hex_digit_def is_linebreak_def)
  have "code c div 16 < 16" "code c mod 16 < 16"
    using code_lt_256[of c] by (simp_all add: less_mult_imp_div_less)
  then have u: "one_line [BS, CHR ''u'', CHR ''0'', CHR ''0'', hex_digit (code c div 16), hex_digit (code c mod 16)]"
    using h by (simp add: is_linebreak_def[of BS] is_linebreak_def[of "CHR ''u''"] is_linebreak_def[of "CHR ''0''"])
  have "one_line [c]" if "\<not> (code c < 32 \<or> (True \<and> 126 < code c))"
    using not_linebreak_code[of c] that by auto
  then show ?thesis unfolding esc_char_def using u
    by (simp only: split: if_split) (simp add: is_linebreak_def)
qed

lemma json_str_one_line: "one_line (json_str True s)"
  using esc_ascii_one_line by (auto simp: json_str_def list_all_iff) (auto simp: is_linebreak_def)

lemma join_one_line: "one_line sep \<Longrightarrow> list_all one_line ls \<Longrightarrow> one_line (join sep ls)"
  by (induction sep ls rule: join.induct) auto

lemma show_nat_one_line: "one_line (show_nat n)"
  using show_nat_digits[of n] by (auto simp: list_all_iff is_ascii_digit_def is_linebreak_def)

lemma render_one_line: "float_lines v \<Longrightarrow> one_line (render ascii_fmt v)"
proof (induction v)
  case (JInt i)
  then show ?case using show_nat_one_line by (simp add: show_int_def is_linebreak_def[of "CHR ''-''"])
next
  case (JStr s)
  then show ?case by (simp add: ascii_fmt_def json_str_one_line)
next
  case (JArr xs)
  have "one_line (join (item_sep ascii_fmt) (map (render ascii_fmt) xs))"
    using JArr by (intro join_one_line) (auto simp: list_all_iff ascii_fmt_def is_linebreak_def)
  then show ?case by simp (simp add: is_linebreak_def)
next
  case (JObj kvs)
  have "one_line (join (item_sep ascii_fmt)
      (map (\<lambda>(k, v). json_str (ascii_only ascii_fmt) k @ key_sep ascii_fmt @ render ascii_fmt v) kvs))"
  proof (rule join_one_line)
    show "list_all one_line (map (\<lambda>(k, v). json_str (ascii_only ascii_fmt) k @ key_sep ascii_fmt @ render ascii_fmt v) kvs)"
    proof (unfold list_all_iff, rule ballI)
      fix l assume "l \<in> set (map (\<lambda>(k, v). json_str (ascii_only ascii_fmt) k @ key_sep ascii_fmt @ render ascii_fmt v) kvs)"
      then obtain k v where kv: "(k, v) \<in> set kvs" and l: "l = json_str True k @ '': '' @ render ascii_fmt v"
        by (auto simp: ascii_fmt_def)
      have "one_line (render ascii_fmt v)" using JObj.IH[OF kv, of v] JObj.prems kv by (auto simp: list_all_iff)
      then show "\<forall>c \<in> set l. \<not> is_linebreak c"
        using json_str_one_line[of k] by (auto simp: l list_all_iff is_linebreak_def)
    qed
  qed (simp add: ascii_fmt_def is_linebreak_def)
  then show ?case unfolding render.simps list_all_append list.pred_inject
    by (intro conjI) (assumption | simp add: is_linebreak_def)+
qed (auto simp: is_linebreak_def)

lemma safe_id_chars: "SAFE_FACT_ID s \<Longrightarrow> s \<noteq> [] \<and> (\<forall>c \<in> set s. is_safe_id_char c)"
  by (auto simp: SAFE_FACT_ID_def is_safe_id_char_def list_all_iff split: list.splits)

lemma safe_id_char_plain: "is_safe_id_char c \<Longrightarrow> \<not> is_space c \<and> c \<noteq> CHR '',''"
  by (auto simp: is_safe_id_char_def is_ascii_alnum_def is_ascii_alpha_def is_ascii_digit_def is_space_def)

lemma safe_id_one_line: "SAFE_FACT_ID s \<Longrightarrow> one_line s"
  using safe_id_chars safe_id_char_plain linebreak_is_space by (fastforce simp: list_all_iff)

lemma strip_id: "s \<noteq> [] \<Longrightarrow> \<not> is_space (hd s) \<Longrightarrow> \<not> is_space (last s) \<Longrightarrow> strip s = s"
proof -
  assume s: "s \<noteq> []" "\<not> is_space (hd s)" "\<not> is_space (last s)"
  then obtain c t where "s = c # t" by (cases s) auto
  then have "lstrip s = s" using s by (simp add: lstrip_def)
  moreover have "rstrip s = s" using s by (simp add: rstrip_def) (metis append_butlast_last_id dropWhile.simps(2) rev_eq_Cons_iff rev_rev_ident rev_append rev.simps append_Nil append_Cons)
  ultimately show ?thesis by (simp add: strip_def)
qed

lemma strip_safe_id: "SAFE_FACT_ID s \<Longrightarrow> strip s = s"
  using safe_id_chars[of s] safe_id_char_plain by (intro strip_id) auto

lemma hex64_one_line: "FULL_FACT_IDENTITY s \<Longrightarrow> one_line s \<and> strip s = s \<and> s \<noteq> []"
proof -
  assume s: "FULL_FACT_IDENTITY s"
  then have "s \<noteq> []" and *: "\<forall>c \<in> set s. \<not> is_space c"
    using lower_hex_not_space by (auto simp: hex_of_len_def list_all_iff)
  then show ?thesis using linebreak_is_space by (auto simp: list_all_iff intro!: strip_id)
qed

lemma split_on_nonempty [simp]: "split_on c s \<noteq> []"
  by (induction s) (auto split: list.splits)

lemma split_on_word: "c \<notin> set w \<Longrightarrow> split_on c w = [w]"
  by (induction w) auto

lemma split_on_append: "c \<notin> set w \<Longrightarrow> split_on c (w @ c # r) = w # split_on c r"
  by (induction w) auto

lemma split_join_preds:
  "list_all SAFE_FACT_ID ps \<Longrightarrow>
   filter (\<lambda>x. x \<noteq> []) (map strip (split_on (CHR '','') (join '', '' ps))) = ps"
proof (induction "'', ''" ps rule: join.induct)
  case 1
  then show ?case by (simp add: strip_def lstrip_def rstrip_def)
next
  case (2 x)
  then have "CHR '','' \<notin> set x" "x \<noteq> []" using safe_id_chars[of x] safe_id_char_plain by auto
  then show ?case using 2 by (simp add: split_on_word strip_safe_id)
next
  case (3 x y ys)
  have x: "CHR '','' \<notin> set x" "x \<noteq> []" using 3 safe_id_chars[of x] safe_id_char_plain by auto
  have sp: "map strip (split_on (CHR '','') (SP # s)) = map strip (split_on (CHR '','') s)" for s
    using split_on_nonempty[of "CHR '',''" s]
    by (cases "split_on (CHR '','') s") (simp_all add: strip_space del: split_on_nonempty)
  have "split_on (CHR '','') (join '', '' (x # y # ys)) = x # split_on (CHR '','') (SP # join '', '' (y # ys))"
    using x by (simp add: split_on_append del: split_on.simps)
  then show ?case using 3 x by (simp only: list.map sp) (simp add: strip_safe_id)
qed

section \<open>Reading back what was written\<close>

definition text_lines :: "string \<Rightarrow> string list" where
  "text_lines s = (if s = [] then [[]] else splitlines s)"

lemma strip_last: "strip s \<noteq> [] \<Longrightarrow> \<not> is_space (last (strip s))"
proof -
  assume "strip s \<noteq> []"
  then have "dropWhile is_space (rev (lstrip s)) \<noteq> []" by (simp add: strip_def rstrip_def)
  then show ?thesis by (simp add: strip_def rstrip_def last_rev hd_dropWhile)
qed

lemma splitlines_strip: "splitlines (strip s @ LF # b) = text_lines (strip s) @ splitlines b"
proof (cases "strip s = []")
  case False
  then have "\<not> is_linebreak (last (strip s))" using strip_last linebreak_is_space by blast
  then show ?thesis using False by (simp add: text_lines_def splitlines_text)
qed (simp add: text_lines_def)

lemma words_text_lines: "concat (map words (text_lines s)) = words s"
  by (simp add: text_lines_def words_lines)

definition body_lines :: "fact \<Rightarrow> string list" where
  "body_lines f = text_lines (strip (statement f)) @ [[], ''## proof''] @ text_lines (strip (proof_text f)) @
     (if strip (intuition f) \<noteq> [] then [[], ''## intuition''] @ text_lines (strip (intuition f)) else [])"

lemma fact_lines_one_line: "storable f \<Longrightarrow> one_line refs \<Longrightarrow> list_all one_line (fact_lines f refs)"
proof -
  assume f: "storable f" and r: "one_line refs"
  have p: "one_line (join '', '' (predecessors f))"
    using f safe_id_one_line by (intro join_one_line) (auto simp: storable_def list_all_iff is_linebreak_def)
  have fl: "float_lines (str_dict d)" for d by (auto simp: str_dict_def list_all_iff)
  have g: "one_line (dumps ascii_fmt (str_dict d))" for d
    unfolding dumps_def using fl by (rule render_one_line)
  have i: "one_line (fact_identity f)" using f hex64_one_line by (auto simp: storable_def)
  have "one_line (fact_id f)" "one_line (problem_id f)" "one_line (author f)"
    using f by (simp_all add: storable_def safe_id_one_line LINE_BREAK_one_line)
  with p g r i show ?thesis
    unfolding fact_lines_def list_all_append list.pred_inject
    by (auto simp: is_linebreak_def)
qed

text \<open>A text carries a fact when its lines are the fact's, whatever the references payload.\<close>

definition carries :: "string \<Rightarrow> fact \<Rightarrow> string \<Rightarrow> bool" where
  "carries raw f refs \<longleftrightarrow> storable f \<and> one_line refs \<and> splitlines raw = fact_lines f refs @ body_lines f"

lemma carries_read_text: "carries (read_text raw) f refs \<longleftrightarrow> carries raw f refs"
  by (simp add: carries_def splitlines_read_text)

lemma serialize_carries:
  assumes "storable f" shows "carries (serialize_fact f) f (dumps ascii_fmt (JArr (map JObj (external_refs f))))"
proof -
  let ?S = "strip (statement f)" and ?P = "strip (proof_text f)" and ?I = "strip (intuition f)"
  let ?R = "dumps ascii_fmt (JArr (map JObj (external_refs f)))"
  let ?tail = "if ?I \<noteq> [] then [[], ''## intuition'', ?I] else []"
  have r: "one_line ?R"
    unfolding dumps_def using assms by (intro render_one_line) (simp add: storable_def)
  have "splitlines (serialize_fact f) = fact_lines f ?R @ splitlines (join [LF] ([?S, [], ''## proof'', ?P] @ ?tail @ [[]]))"
    unfolding serialize_fact_def using fact_lines_one_line[OF assms r] by (intro splitlines_lines) auto
  also have "splitlines (join [LF] ([?S, [], ''## proof'', ?P] @ ?tail @ [[]])) = body_lines f"
    using splitlines_line[of "''## proof''"] splitlines_line[of "''## intuition''"]
    by (auto simp: splitlines_strip body_lines_def is_linebreak_def)
  finally show ?thesis using assms r by (simp add: carries_def)
qed

lemma strip_nonspace: "\<not> is_space c \<Longrightarrow> strip (c # s) = c # rstrip s"
  by (simp add: strip_def lstrip_def rstrip_nonspace)

lemma strip_lead: "strip (SP # s) = strip s"
  by (simp add: strip_space)

lemma strip_snoc: "s \<noteq> [] \<Longrightarrow> \<not> is_space (hd s) \<Longrightarrow> \<not> is_space c \<Longrightarrow> strip (s @ [c]) = s @ [c]"
  by (rule strip_id) auto

lemma render_str_dict_shape: "\<exists>r. dumps f (str_dict d) = CHR ''{'' # r @ ''}''"
  unfolding dumps_def str_dict_def render_obj by simp

lemma render_arr_shape: "\<exists>r. dumps f (JArr xs) = CHR ''['' # r @ '']''"
  by (simp add: dumps_def)

lemma fm_line_id: "frontmatter_line flt (''fact_id: '' @ x) (g, m) = (g, m\<lparr>fm_fact_id := strip x\<rparr>)"
  by (simp add: frontmatter_line_def strip_lead)

lemma fm_line_problem: "frontmatter_line flt (''problem_id: '' @ x) (g, m) = (g, m\<lparr>fm_problem_id := strip x\<rparr>)"
  by (simp add: frontmatter_line_def strip_lead)

text \<open>A line whose first character is none of the markers is skipped outside a block glossary.\<close>

lemma fm_line_skip:
  assumes "\<not> is_space c" "c \<notin> {CHR ''f'', CHR ''p'', CHR ''g'', CHR ''e''}"
  shows "frontmatter_line flt (c # x) (False, m) = (False, m)"
proof -
  have "CHR ''f'' \<noteq> c" "CHR ''p'' \<noteq> c" "CHR ''g'' \<noteq> c" "CHR ''e'' \<noteq> c" using assms(2) by auto
  then show ?thesis
    using assms(1) by (simp add: frontmatter_line_def pred_match_def strip_nonspace)
qed

lemma fm_line_preds:
  assumes "list_all SAFE_FACT_ID ps"
  shows "frontmatter_line flt (''predecessors: ['' @ join '', '' ps @ '']'') (g, m) = (False, m\<lparr>fm_predecessors := ps\<rparr>)"
proof -
  have "strip (''predecessors: ['' @ join '', '' ps @ '']'') = ''predecessors: ['' @ join '', '' ps @ '']''"
    by (rule strip_id) (simp_all add: is_space_def)
  then have "pred_match (strip (''predecessors: ['' @ join '', '' ps @ '']'')) = Some (join '', '' ps)"
    by (simp add: pred_match_def lstrip_def is_space_def butlast_append)
  then show ?thesis using split_join_preds[OF assms] by (simp add: frontmatter_line_def)
qed

lemma fm_line_gloss:
  assumes "distinct (keys d)"
  shows "frontmatter_line flt (''glossary_introduces: '' @ dumps ascii_fmt (str_dict d)) (g, m) = (False, m\<lparr>fm_glossary := d\<rparr>)"
proof -
  obtain r where r: "dumps ascii_fmt (str_dict d) = CHR ''{'' # r @ ''}''" using render_str_dict_shape by blast
  let ?l = "''glossary_introduces: '' @ CHR ''{'' # r @ ''}''"
  have s: "strip ?l = ?l" by (rule strip_id) (simp_all add: is_space_def)
  have p: "strip (SP # CHR ''{'' # r @ ''}'') = CHR ''{'' # r @ ''}''"
    unfolding strip_lead by (rule strip_id) (simp_all add: is_space_def)
  have "loads flt (CHR ''{'' # r @ ''}'') = Some (str_dict d)"
    unfolding r[symmetric] using assms by (intro loads_dumps json_plain_str_dict) simp_all
  then show ?thesis unfolding r
    by (simp add: frontmatter_line_def s[simplified] pred_match_def p[simplified] str_dict_def to_str_def case_prod_beta comp_def)
qed

definition read_refs :: "(string \<Rightarrow> string) \<Rightarrow> string \<Rightarrow> json" where
  "read_refs flt x = (if strip x = [] then JArr [] else case loads flt (strip x) of Some v \<Rightarrow> v | None \<Rightarrow> JArr [])"

lemma strip_rstrip: "strip (rstrip s) = strip s"
proof -
  have "rstrip (rstrip s) = rstrip s" by (induction s) (auto simp: rstrip_Cons)
  then show ?thesis by (simp add: strip_def strip_commute)
qed

lemma fm_line_refs:
  "frontmatter_line flt (''external_refs: '' @ x) (g, m) = (False, m\<lparr>fm_refs := read_refs flt x\<rparr>)"
proof -
  have "strip (''external_refs: '' @ x) = ''external_refs:'' @ rstrip (SP # x)"
    by (simp add: strip_nonspace rstrip_nonspace is_space_def)
  then show ?thesis
    by (simp add: frontmatter_line_def pred_match_def read_refs_def strip_rstrip strip_lead)
qed

lemma fm_line_identity: "frontmatter_line flt (''fact_identity: '' @ x) (False, m) = (False, m\<lparr>fm_identity := Some (strip x)\<rparr>)"
  by (simp add: frontmatter_line_def pred_match_def strip_nonspace is_space_def strip_lead)

lemma strip_render_arr: "strip (dumps f (JArr xs)) = dumps f (JArr xs)"
  by (simp add: dumps_def strip_id is_space_def)

lemma read_refs_plain:
  "fmt_ok f \<Longrightarrow> list_all json_plain (map JObj refs) \<Longrightarrow> read_refs flt (dumps f (JArr (map JObj refs))) = JArr (map JObj refs)"
  unfolding read_refs_def strip_render_arr by (simp add: loads_dumps) (simp add: dumps_def)

lemma fm_loop_line:
  "\<not> is_space c \<Longrightarrow> c \<noteq> CHR ''-'' \<Longrightarrow>
   frontmatter_loop flt b ((c # l) # ls) st = frontmatter_loop flt True ls (frontmatter_line flt (c # l) st)"
  by (simp add: strip_nonspace)

lemmas fm_lines = fm_line_id[simplified] fm_line_problem[simplified] fm_line_preds[simplified] fm_line_gloss[simplified]
  fm_line_refs[simplified] fm_line_identity[simplified]

lemma parse_carried:
  assumes c: "carries raw f refs"
  shows "parse_frontmatter flt raw =
    \<lparr>fm_fact_id = fact_id f, fm_problem_id = problem_id f, fm_predecessors = predecessors f,
     fm_glossary = sorted_items (glossary_introduces f),
     fm_identity = (if fact_identity f = [] then None else Some (fact_identity f)),
     fm_refs = read_refs flt refs\<rparr>"
proof -
  have ids: "strip (fact_id f) = fact_id f" "strip (problem_id f) = problem_id f"
    "fact_identity f \<noteq> [] \<Longrightarrow> strip (fact_identity f) = fact_identity f"
    "list_all SAFE_FACT_ID (predecessors f)" "distinct (keys (sorted_items (glossary_introduces f)))"
    using c strip_safe_id hex64_one_line distinct_sorted_keys by (auto simp: storable_def carries_def)
  have start: "frontmatter_loop flt False (''---'' # ls) (False, m) = frontmatter_loop flt True ls (False, m)" for ls m
    by (simp add: fm_line_skip is_space_def)
  have fin: "frontmatter_loop flt True (''---'' # ls) st = snd st" for ls st
    by (simp add: strip_id is_space_def)
  have sl: "splitlines raw = fact_lines f refs @ body_lines f" using c by (simp add: carries_def)
  note ns = is_space_def[of "CHR ''f''"] is_space_def[of "CHR ''p''"] is_space_def[of "CHR ''a''"] is_space_def[of "CHR ''h''"]
     is_space_def[of "CHR ''g''"] is_space_def[of "CHR ''e''"]
  show ?thesis
    unfolding parse_frontmatter_def sl fact_lines_def
    using ids by (cases "fact_identity f = []")
      (simp_all del: frontmatter_loop.simps add: start fin fm_loop_line fm_lines fm_line_skip ns empty_frontmatter_def)
qed


lemma heading_first: "\<not> is_space c \<Longrightarrow> heading (c # s) = lower_char c # py_lower (rstrip s)"
  by (simp add: heading_def strip_nonspace py_lower_def)

definition not_section :: "string \<Rightarrow> bool" where
  "not_section l \<longleftrightarrow> (case heading l of [] \<Rightarrow> True | c # _ \<Rightarrow> c \<noteq> CHR ''#'')"

lemma not_section_cons: "\<not> is_space c \<Longrightarrow> lower_char c \<noteq> CHR ''#'' \<Longrightarrow> not_section (c # s)"
  by (simp add: not_section_def heading_first)

lemma fact_lines_sections: "\<exists>front. fact_lines f refs = front @ [''## statement''] \<and> list_all not_section front"
proof -
  have nil: "not_section []" by (simp add: not_section_def)
  show ?thesis unfolding fact_lines_def
    by (rule exI[of _ "butlast (fact_lines f refs)"])
      (simp add: fact_lines_def butlast_append not_section_cons nil is_space_def lower_char_def)
qed

lemma heading_statement [simp]: "heading ''## statement'' = ''## statement''"
  and heading_proof [simp]: "heading ''## proof'' = ''## proof''"
  and heading_intuition [simp]: "heading ''## intuition'' = ''## intuition''"
  by (simp_all add: heading_def py_lower_def strip_id is_space_def lower_char_def)

lemma not_section_heading: "not_section l \<Longrightarrow> heading l \<noteq> CHR ''#'' # s"
  by (auto simp: not_section_def)

lemma dropWhile_stop: "\<forall>x \<in> set xs. P x \<Longrightarrow> \<not> P y \<Longrightarrow> dropWhile P (xs @ y # ys) = y # ys"
  by (induction xs) auto

lemma takeWhile_stop: "\<forall>x \<in> set xs. P x \<Longrightarrow> \<not> P y \<Longrightarrow> takeWhile P (xs @ y # ys) = xs"
  by (induction xs) auto

lemma text_lines_heading: "h \<noteq> [] \<Longrightarrow> \<not> has_heading h s \<Longrightarrow> \<forall>l \<in> set (text_lines (strip s)). heading l \<noteq> h"
  using has_heading_strip[of h s] by (auto simp: text_lines_def has_heading_def list_ex_iff)

lemma words_join_nonblank: "words (join [SP] (filter (\<lambda>l. l \<noteq> []) ls)) = concat (map words ls)"
proof (induction ls)
  case (Cons l ls)
  have "words (join [SP] (l # r)) = words l @ words (join [SP] r)" for r
    by (cases r) (simp_all add: words_append_space)
  then show ?case using Cons by simp
qed simp

lemma words_join_lines: "words (join [LF] ls) = concat (map words ls)"
proof (induction ls)
  case (Cons l ls)
  have "words (join [LF] (l # r)) = words l @ words (join [LF] r)" for r
    by (cases r) (simp_all add: words_append_space)
  then show ?case using Cons by simp
qed simp

lemma statement_of_carried:
  assumes c: "carries raw f refs"
  shows "statement_of raw = strip (join [SP] (filter (\<lambda>l. l \<noteq> []) (map strip (text_lines (strip (statement f)) @ [[]]))))"
proof -
  have f: "storable f" using c by (simp add: carries_def)
  obtain front where fr: "fact_lines f refs = front @ [''## statement'']" "list_all not_section front"
    using fact_lines_sections by blast
  let ?ls = "text_lines (strip (statement f))"
  have sl: "splitlines raw = front @ ''## statement'' # body_lines f"
    using c fr by (simp add: carries_def)
  have "dropWhile (\<lambda>l. heading l \<noteq> ''## statement'') (front @ ''## statement'' # body_lines f) = ''## statement'' # body_lines f"
    using fr(2) by (intro dropWhile_stop) (auto simp: list_all_iff dest: not_section_heading)
  moreover have "\<exists>r. body_lines f = (?ls @ [[]]) @ ''## proof'' # r" by (simp add: body_lines_def)
  then obtain r where r: "body_lines f = (?ls @ [[]]) @ ''## proof'' # r" by blast
  have "takeWhile (\<lambda>l. heading l \<noteq> ''## proof'') ((?ls @ [[]]) @ ''## proof'' # r) = ?ls @ [[]]"
    using f text_lines_heading[of "''## proof''" "statement f"]
    by (intro takeWhile_stop) (auto simp: storable_def)
  ultimately show ?thesis unfolding statement_of_def sl r by (simp only: list.sel)
qed

lemma words_statement_of: "carries raw f refs \<Longrightarrow> words (statement_of raw) = words (statement f)"
  by (simp only: statement_of_carried words_strip words_join_nonblank) (simp add: comp_def words_text_lines)

lemma flag_loop_line: "\<not> is_space c \<Longrightarrow> c \<noteq> CHR ''-'' \<Longrightarrow> c \<noteq> CHR ''h'' \<Longrightarrow>
   intuition_flag b ((c # l) # ls) = intuition_flag True ls"
  by (auto simp: strip_nonspace)

lemma intuition_flag_serialized: "intuition_flag False (fact_lines f refs @ ls) = Some (strip (intuition f) \<noteq> [])"
proof -
  have start: "intuition_flag False (''---'' # ls) = intuition_flag True ls" for ls by simp
  have h: "intuition_flag True ((CHR ''h'' # ''as_intuition: '' @ v) # ls) = Some (py_lower (strip v) = ''true'')" for v ls
    by (simp add: strip_nonspace is_space_def strip_lead)
  have v: "strip ''true'' = ''true''" "strip ''false'' = ''false''" by (simp_all add: strip_id is_space_def)
  show ?thesis unfolding fact_lines_def
    by (simp del: intuition_flag.simps add: start flag_loop_line is_space_def h[simplified])
      (simp add: v py_lower_def lower_char_def)
qed

lemma before_last_intuition_split:
  "\<forall>l \<in> set ys. heading l \<noteq> ''## intuition'' \<Longrightarrow> before_last_intuition (xs @ ''## intuition'' # ys) = xs"
proof -
  assume "\<forall>l \<in> set ys. heading l \<noteq> ''## intuition''"
  then have "dropWhile (\<lambda>l. \<not> is_intuition l) (rev ys @ ''## intuition'' # rev xs) = ''## intuition'' # rev xs"
    by (intro dropWhile_stop) (auto simp: is_intuition_def)
  then show ?thesis by (simp add: before_last_intuition_def is_intuition_def)
qed

lemma proof_of_carried:
  assumes c: "carries raw f refs"
  shows "proof_of raw = strip (join [LF] (text_lines (strip (proof_text f)) @ (if strip (intuition f) = [] then [] else [[]])))"
proof -
  have f: "storable f" using c by (simp add: carries_def)
  obtain front where fr: "fact_lines f refs = front @ [''## statement'']" "list_all not_section front"
    using fact_lines_sections by blast
  let ?ls = "text_lines (strip (statement f))" and ?ps = "text_lines (strip (proof_text f))"
  let ?is = "if strip (intuition f) \<noteq> [] then [[], ''## intuition''] @ text_lines (strip (intuition f)) else []"
  have sl: "splitlines raw = fact_lines f refs @ body_lines f" using c by (simp add: carries_def)
  have "fact_lines f refs @ body_lines f = (front @ [''## statement''] @ ?ls @ [[]]) @ ''## proof'' # (?ps @ ?is)"
    using fr by (simp add: body_lines_def)
  moreover have "dropWhile (\<lambda>l. heading l \<noteq> ''## proof'') ((front @ [''## statement''] @ ?ls @ [[]]) @ ''## proof'' # (?ps @ ?is))
      = ''## proof'' # (?ps @ ?is)"
    using fr(2) f text_lines_heading[of "''## proof''" "statement f"]
    by (intro dropWhile_stop) (auto simp: list_all_iff storable_def dest: not_section_heading)
  ultimately have out: "tl (dropWhile (\<lambda>l. heading l \<noteq> ''## proof'') (fact_lines f refs @ body_lines f)) = ?ps @ ?is"
    by (simp only: list.sel)
  have cut: "before_last_intuition ((?ps @ [[]]) @ ''## intuition'' # text_lines (strip (intuition f))) = ?ps @ [[]]"
    using f text_lines_heading[of "''## intuition''" "intuition f"]
    by (intro before_last_intuition_split) (auto simp: storable_def)
  show ?thesis
  proof (cases "strip (intuition f) = []")
    case True
    then show ?thesis
      unfolding proof_of_def sl Let_def out intuition_flag_serialized by simp
  next
    case False
    then show ?thesis
      unfolding proof_of_def sl Let_def out intuition_flag_serialized using cut by simp
  qed
qed

lemma words_proof_of: "carries raw f refs \<Longrightarrow> words (proof_of raw) = words (proof_text f)"
  by (simp add: proof_of_carried words_join_lines words_text_lines)

section \<open>Stored facts keep their address\<close>

lemma hex16_safe: "CONTENT_FACT_ID s \<Longrightarrow> SAFE_FACT_ID s"
  by (auto simp: hex_of_len_def SAFE_FACT_ID_def is_safe_id_char_def is_ascii_alnum_def is_ascii_alpha_def
      is_lower_hex_def list_all_iff split: list.splits)

lemma compute_fact_id_words:
  "words s = words s' \<Longrightarrow> words p = words p' \<Longrightarrow>
   compute_fact_id H pid ps (sorted_items g) s p = compute_fact_id H pid ps g s' p'"
  by (simp add: compute_fact_id_def fact_id_body_def normalize_words sorted_items_idem)

definition addressed :: "(string \<Rightarrow> string) \<Rightarrow> fact \<Rightarrow> bool" where
  "addressed H f \<longleftrightarrow> fact_id f = compute_fact_id H (problem_id f) (predecessors f) (glossary_introduces f) (statement f) (proof_text f)"

lemma carried_intact:
  assumes c: "carries raw f refs" and a: "addressed H f" and h: "CONTENT_FACT_ID (fact_id f)"
  shows "validate_fact_integrity H False (fact_id f) raw (parse_frontmatter flt raw) = None"
proof -
  have f: "storable f" using c by (simp add: carries_def)
  have "compute_fact_id H (problem_id f) (predecessors f) (sorted_items (glossary_introduces f)) (statement_of raw) (proof_of raw) = fact_id f"
    using compute_fact_id_words[OF words_statement_of[OF c] words_proof_of[OF c]] a by (simp add: addressed_def)
  then show ?thesis
    using f h by (auto simp: validate_fact_integrity_def parse_carried[OF c] storable_def)
qed

text \<open>
  Property C28. A fact written by \<open>serialize_fact\<close> is read back exactly: \<open>parse_frontmatter\<close> returns its
  id, problem, predecessors, definitions, identity and references, \<open>statement_of\<close> and \<open>_proof_of\<close>
  return its texts word for word, whatever headings its proof contains, and
  \<open>_validate_fact_integrity\<close> accepts the file, so its content address is still the file name.
\<close>

theorem stored_fact_intact:
  assumes "storable f" and "list_all json_plain (map JObj (external_refs f))"
    and "fact_id f = compute_fact_id sha256_hex (problem_id f) (predecessors f) (glossary_introduces f) (statement f) (proof_text f)"
  defines "raw \<equiv> read_text (serialize_fact f)"
  shows "parse_frontmatter flt raw =
      \<lparr>fm_fact_id = fact_id f, fm_problem_id = problem_id f, fm_predecessors = predecessors f,
       fm_glossary = sorted_items (glossary_introduces f),
       fm_identity = (if fact_identity f = [] then None else Some (fact_identity f)),
       fm_refs = JArr (map JObj (external_refs f))\<rparr> \<and>
    words (statement_of raw) = words (statement f) \<and> words (proof_of raw) = words (proof_text f) \<and>
    validate_fact_integrity sha256_hex False (fact_id f) raw (parse_frontmatter flt raw) = None"
proof -
  have c: "carries raw f (dumps ascii_fmt (JArr (map JObj (external_refs f))))"
    unfolding raw_def carries_read_text using assms(1) by (rule serialize_carries)
  have "CONTENT_FACT_ID (fact_id f)" using sha.digest_prefix[of 16] assms(3) by (simp add: compute_fact_id_def)
  with carried_intact[OF c] parse_carried[OF c] words_statement_of[OF c] words_proof_of[OF c] assms(2,3) show ?thesis
    by (simp add: addressed_def read_refs_plain)
qed

definition example_fact :: fact where
  "example_fact = \<lparr>fact_id = compute_fact_id sha256_hex ''p'' [] [(''S'', ''a set'')] ''S is finite'' ''Clear.'',
     problem_id = ''p'', author = ''w1'', predecessors = [], statement = ''S is finite'',
     proof_text = ''Clear.'', glossary_introduces = [(''S'', ''a set'')], intuition = ''small'', fact_identity = [],
     external_refs = [[(''title'', JStr ''T'')]]\<rparr>"

lemma example_fact_storable: "storable example_fact"
proof -
  have "CONTENT_FACT_ID (fact_id example_fact)"
    using sha.digest_prefix[of 16] by (simp add: example_fact_def compute_fact_id_def)
  then have "SAFE_FACT_ID (fact_id example_fact)" by (rule hex16_safe)
  then show ?thesis
    by (simp add: storable_def example_fact_def LINE_BREAK_def has_heading_def is_linebreak_def heading_def
        py_lower_def lower_char_def strip_id is_space_def)
qed

theorem stored_fact_intact_witness:
  "fm_glossary (parse_frontmatter id (read_text (serialize_fact example_fact))) = [(''S'', ''a set'')] \<and>
   validate_fact_integrity sha256_hex False (fact_id example_fact) (read_text (serialize_fact example_fact))
     (parse_frontmatter id (read_text (serialize_fact example_fact))) = None"
proof -
  have "list_all json_plain (map JObj (external_refs example_fact))" by (simp add: example_fact_def)
  moreover have "fact_id example_fact = compute_fact_id sha256_hex (problem_id example_fact) (predecessors example_fact)
      (glossary_introduces example_fact) (statement example_fact) (proof_text example_fact)"
    by (simp add: example_fact_def)
  moreover have "sorted_items (glossary_introduces example_fact) = [(''S'', ''a set'')]"
    by (simp add: example_fact_def sorted_items_def)
  ultimately have *: "sorted_items (glossary_introduces example_fact) = [(''S'', ''a set'')]"
    and i: "parse_frontmatter id (read_text (serialize_fact example_fact)) =
        \<lparr>fm_fact_id = fact_id example_fact, fm_problem_id = problem_id example_fact,
         fm_predecessors = predecessors example_fact,
         fm_glossary = sorted_items (glossary_introduces example_fact),
         fm_identity = (if fact_identity example_fact = [] then None else Some (fact_identity example_fact)),
         fm_refs = JArr (map JObj (external_refs example_fact))\<rparr>"
    and v: "validate_fact_integrity sha256_hex False (fact_id example_fact) (read_text (serialize_fact example_fact))
        (parse_frontmatter id (read_text (serialize_fact example_fact))) = None"
    using stored_fact_intact[OF example_fact_storable, where flt = id] by blast+
  show ?thesis using v by (simp only: i * frontmatter.select_convs simp_thms)
qed

section \<open>Updating the references\<close>

lemma splitlines_one_line: "list_all one_line (splitlines s)"
proof (induction s rule: splitlines.induct)
  case (3 c d cs)
  then show ?case by (cases "splitlines (d # cs)") auto
qed auto

lemma splitlines_join: "list_all one_line ls \<Longrightarrow> ls \<noteq> [] \<Longrightarrow> splitlines (join [LF] ls @ [LF]) = ls"
proof (induction "[LF]" ls rule: join.induct)
  case (2 x)
  then show ?case using splitlines_line[of x "[]"] by simp
next
  case (3 x y ys)
  then show ?case using splitlines_line[of x "join [LF] (y # ys) @ [LF]"] by simp
qed simp

text \<open>The front matter, split at the references line.\<close>

definition refs_before :: "fact \<Rightarrow> string list" where
  "refs_before f = tl (butlast (butlast (butlast (butlast (fact_lines f [])))))"

lemma fact_lines_refs:
  "fact_lines f refs = ''---'' # refs_before f @ [''external_refs: '' @ refs, ''---'', [], ''## statement'']"
  by (simp add: refs_before_def fact_lines_def butlast_append)

lemma refs_before_lines: "list_all (\<lambda>l. l \<noteq> [] \<and> \<not> is_space (hd l) \<and> hd l \<noteq> CHR ''-'' \<and> hd l \<noteq> CHR ''e'') (refs_before f)"
  by (simp add: refs_before_def fact_lines_def butlast_append is_space_def)

lemma refs_before_plain: "l \<in> set (refs_before f) \<Longrightarrow> strip l \<noteq> ''---'' \<and> \<not> prefix ''external_refs:'' l"
  using refs_before_lines[of f] by (cases l) (auto simp: strip_nonspace list_all_iff)

lemma replace_refs_split:
  "\<forall>l \<in> set xs. \<not> prefix ''external_refs:'' l \<Longrightarrow> prefix ''external_refs:'' y \<Longrightarrow> replace_refs x (xs @ [y]) = xs @ [x]"
  by (induction xs) auto

lemma set_refs_split:
  assumes "splitlines raw = l # (front @ [y]) @ b # bs" and "strip b = ''---''" and "strip y \<noteq> ''---''"
    and "\<forall>l \<in> set front. strip l \<noteq> ''---'' \<and> \<not> prefix ''external_refs:'' l" and "prefix ''external_refs:'' y"
  shows "set_refs_text refs raw = Some (join [LF] (l # (front @ [''external_refs: '' @ dumps plain_fmt (JArr (map JObj refs))]) @ b # bs) @ [LF])"
proof -
  have ns: "\<forall>l \<in> set (front @ [y]). strip l \<noteq> ''---''" "\<not> strip b \<noteq> ''---''" using assms by auto
  have "replace_refs x (front @ [y]) = front @ [x]" for x
    using assms(4,5) by (intro replace_refs_split) auto
  then show ?thesis
    unfolding set_refs_text_def Let_def assms(1) list.case takeWhile_stop[OF ns] dropWhile_stop[OF ns] by simp
qed

lemma set_refs_carried:
  assumes c: "carries raw f old" and n: "one_line (dumps plain_fmt (JArr (map JObj refs)))"
  shows "\<exists>raw'. set_refs_text refs raw = Some raw' \<and> carries raw' f (dumps plain_fmt (JArr (map JObj refs)))"
proof -
  let ?new = "dumps plain_fmt (JArr (map JObj refs))"
  let ?raw = "join [LF] (fact_lines f ?new @ body_lines f) @ [LF]"
  have "splitlines raw = ''---'' # (refs_before f @ [''external_refs: '' @ old]) @ ''---'' # [[], ''## statement''] @ body_lines f"
    using c by (simp add: carries_def fact_lines_refs)
  then have "set_refs_text refs raw = Some (join [LF] (''---'' # (refs_before f @ [''external_refs: '' @ ?new]) @ ''---'' # [[], ''## statement''] @ body_lines f) @ [LF])"
    using refs_before_plain[of _ f] by (intro set_refs_split) (auto simp: strip_id strip_nonspace is_space_def)
  then have s: "set_refs_text refs raw = Some ?raw" by (simp add: fact_lines_refs)
  have "list_all one_line (fact_lines f ?new @ body_lines f)"
    using splitlines_one_line[of raw] c n fact_lines_one_line[of f ?new] by (simp add: carries_def)
  then have "splitlines ?raw = fact_lines f ?new @ body_lines f"
    by (rule splitlines_join) (simp add: fact_lines_def)
  then show ?thesis using s c n by (auto simp: carries_def)
qed


text \<open>
  Updating the references of a stored fact keeps everything else: when the rendered
  references contain no line boundary, \<open>set_external_refs\<close> succeeds, the new references are read
  back, every other field of the front matter is unchanged, and the file still has its address.
\<close>

theorem refs_update_safe:
  assumes "carries raw f old" and "addressed sha256_hex f" and "list_all json_plain (map JObj refs)"
    and "\<not> LINE_BREAK (dumps plain_fmt (JArr (map JObj refs)))"
  shows "\<exists>raw'. set_refs_text refs raw = Some raw' \<and> carries raw' f (dumps plain_fmt (JArr (map JObj refs))) \<and>
    parse_frontmatter flt raw' = (parse_frontmatter flt raw)\<lparr>fm_refs := JArr (map JObj refs)\<rparr> \<and>
    validate_fact_integrity sha256_hex False (fact_id f) raw' (parse_frontmatter flt raw') = None"
proof -
  obtain raw' where r: "set_refs_text refs raw = Some raw'" "carries raw' f (dumps plain_fmt (JArr (map JObj refs)))"
    using set_refs_carried[OF assms(1)] assms(4) by (auto simp: LINE_BREAK_one_line)
  have "CONTENT_FACT_ID (fact_id f)"
    using sha.digest_prefix[of 16] assms(2) by (simp add: addressed_def compute_fact_id_def)
  then have v: "validate_fact_integrity sha256_hex False (fact_id f) raw' (parse_frontmatter flt raw') = None"
    using carried_intact[OF r(2) assms(2)] by blast
  have "parse_frontmatter flt raw' = (parse_frontmatter flt raw)\<lparr>fm_refs := JArr (map JObj refs)\<rparr>"
    using assms(3) by (simp add: parse_carried[OF r(2)] parse_carried[OF assms(1)] read_refs_plain)
  with r v show ?thesis by blast
qed

theorem refs_update_safe_witness:
  "\<exists>raw'. set_refs_text [[(''title'', JStr ''U'')]] (serialize_fact example_fact) = Some raw' \<and>
     fm_refs (parse_frontmatter id raw') = JArr [JObj [(''title'', JStr ''U'')]]"
proof -
  have a: "addressed sha256_hex example_fact" by (simp add: addressed_def example_fact_def)
  have "\<not> LINE_BREAK (dumps plain_fmt (JArr (map JObj [[(''title'', JStr ''U'')]])))"
    by (simp add: LINE_BREAK_def dumps_def render_obj render_member_def json_str_def esc_char_def plain_fmt_def is_linebreak_def)
  from refs_update_safe[OF serialize_carries[OF example_fact_storable] a _ this, where flt = id]
  show ?thesis by auto
qed

text \<open>The next line character, U+0085, is a line boundary of \<open>str.splitlines\<close> that
  \<open>json.dumps(..., ensure_ascii=False)\<close> leaves as it is.\<close>

abbreviation NEL :: char where "NEL \<equiv> CHR 0x85"

definition split_refs :: "jobj list" where
  "split_refs = [[(''title'', JStr (NEL # ''fact_id: x''))]]"

lemma split_refs_text: "dumps plain_fmt (JArr (map JObj split_refs)) = (CHR ''['' # CHR ''{'' # DQ # ''title'' @ DQ # '': '' @ [DQ]) @ NEL # ''fact_id: x'' @ DQ # ''}]''"
  by (simp add: split_refs_def dumps_def render_obj render_member_def json_str_def esc_char_def plain_fmt_def)

lemma splitlines_NEL: "one_line a \<Longrightarrow> splitlines (a @ NEL # b) = a # splitlines b"
proof (induction a)
  case Nil
  then show ?case by (cases b) (auto simp: is_linebreak_def)
qed (auto simp: splitlines_cons)

lemma join_snoc_empty: "ls \<noteq> [] \<Longrightarrow> join [LF] (ls @ [[]]) = join [LF] ls @ [LF]"
proof (induction ls)
  case (Cons l ls)
  then show ?case by (cases ls) simp_all
qed simp

lemma splitlines_broken:
  assumes "list_all one_line a" "one_line u" "one_line v" "list_all one_line b" "b \<noteq> []"
  shows "splitlines (join [LF] (a @ (u @ NEL # v) # b) @ [LF]) = a @ u # v # b"
proof -
  have b: "splitlines (join [LF] (b @ [[]])) = b"
    using splitlines_join[OF assms(4,5)] join_snoc_empty[OF assms(5)] by simp
  have "join [LF] ((u @ NEL # v) # b @ [[]]) = u @ NEL # (v @ LF # join [LF] (b @ [[]]))" by (cases b) simp_all
  then have "splitlines (join [LF] ((u @ NEL # v) # b @ [[]])) = u # v # b"
    using splitlines_NEL[OF assms(2)] splitlines_line[OF assms(3)] b by simp
  moreover have "join [LF] (a @ (u @ NEL # v) # b) @ [LF] = join [LF] (a @ ((u @ NEL # v) # b @ [[]]))"
    using join_snoc_empty[of "a @ (u @ NEL # v) # b"] by simp
  ultimately show ?thesis using splitlines_lines[OF assms(1), of "(u @ NEL # v) # b @ [[]]"] by simp
qed

lemma frontmatter_loop_append:
  "\<forall>l \<in> set xs. strip l \<noteq> ''---'' \<Longrightarrow>
   frontmatter_loop flt True (xs @ ys) st = frontmatter_loop flt True ys (fold (frontmatter_line flt) xs st)"
  by (induction xs arbitrary: st) auto

text \<open>
  Property C29. An update can make an intact fact unreadable: a reference with U+0085 in its title
  is written across two lines of the front matter, the second line is read as a field, and from
  then on \<open>_validate_fact_integrity\<close> rejects the file. The fact stays on disk and active.
\<close>

theorem refs_update_breaks:
  assumes "carries raw f old"
  shows "\<exists>raw'. set_refs_text split_refs raw = Some raw' \<and>
    fm_fact_id (parse_frontmatter flt raw') = ''x'' @ DQ # ''}]'' \<and>
    validate_fact_integrity H False (fact_id f) raw' (parse_frontmatter flt raw') = Some NameMismatch"
proof -
  let ?new = "dumps plain_fmt (JArr (map JObj split_refs))"
  let ?u = "''external_refs: '' @ CHR ''['' # CHR ''{'' # DQ # ''title'' @ DQ # '': '' @ [DQ]"
  let ?v = "''fact_id: x'' @ DQ # ''}]''"
  let ?rest = "''---'' # [[], ''## statement''] @ body_lines f"
  have f: "storable f" using assms by (simp add: carries_def)
  have sl: "splitlines raw = ''---'' # (refs_before f @ [''external_refs: '' @ old]) @ ?rest"
    using assms by (simp add: carries_def fact_lines_refs)
  let ?raw = "join [LF] ((''---'' # refs_before f) @ (?u @ NEL # ?v) # ?rest) @ [LF]"
  have "set_refs_text split_refs raw = Some (join [LF] (''---'' # (refs_before f @ [''external_refs: '' @ ?new]) @ ?rest) @ [LF])"
    using sl refs_before_plain[of _ f] by (intro set_refs_split) (auto simp: strip_id strip_nonspace is_space_def)
  then have s: "set_refs_text split_refs raw = Some ?raw" by (simp add: split_refs_text)
  have o: "list_all one_line (''---'' # refs_before f)" "list_all one_line ?rest"
    using splitlines_one_line[of raw] unfolding sl by simp_all
  have uv: "one_line ?u" "one_line ?v" by (simp_all add: is_linebreak_def)
  have lines: "splitlines ?raw = (''---'' # refs_before f) @ ?u # ?v # ?rest"
    using splitlines_broken[OF o(1) uv o(2)] by simp
  have "fm_fact_id (parse_frontmatter flt ?raw) = ''x'' @ DQ # ''}]''"
  proof -
    obtain g m where gm: "fold (frontmatter_line flt) (refs_before f) (False, empty_frontmatter) = (g, m)" by force
    have ns: "\<forall>l \<in> set (refs_before f). strip l \<noteq> ''---''" using refs_before_plain by blast
    have e: "\<not> is_space (CHR ''e'')" "\<not> is_space (CHR ''f'')" by (simp_all add: is_space_def)
    have step: "frontmatter_loop flt True ((CHR ''e'' # p) # (CHR ''f'' # q) # b) st =
        frontmatter_loop flt True b (frontmatter_line flt (CHR ''f'' # q) (frontmatter_line flt (CHR ''e'' # p) st))" for p q b st
      using e by (simp add: fm_loop_line del: frontmatter_loop.simps)
    have fin: "frontmatter_loop flt True (''---'' # b) st = snd st" for b st
      by (simp add: strip_id is_space_def)
    have v: "strip (''x'' @ DQ # ''}]'') = ''x'' @ DQ # ''}]''" by (rule strip_id) (simp_all add: is_space_def)
    have "parse_frontmatter flt ?raw = frontmatter_loop flt True (refs_before f @ ?u # ?v # ?rest) (False, empty_frontmatter)"
      unfolding parse_frontmatter_def lines by (simp add: fm_line_skip is_space_def)
    then have "parse_frontmatter flt ?raw = snd (frontmatter_line flt ?v (frontmatter_line flt ?u (g, m)))"
      by (simp only: frontmatter_loop_append[OF ns] gm append.simps step fin)
    then show ?thesis
      using v by (simp add: fm_lines)
  qed
  moreover have "fact_id f \<noteq> ''x'' @ DQ # ''}]''"
    using f safe_id_chars[of "fact_id f"] by (auto simp: storable_def is_safe_id_char_def is_ascii_alnum_def is_ascii_alpha_def is_ascii_digit_def)
  ultimately show ?thesis using s by (auto simp: validate_fact_integrity_def)
qed


theorem refs_update_breaks_witness:
  "\<exists>raw'. set_refs_text split_refs (serialize_fact example_fact) = Some raw' \<and>
     validate_fact_integrity sha256_hex False (fact_id example_fact) (serialize_fact example_fact)
       (parse_frontmatter id (serialize_fact example_fact)) = None \<and>
     validate_fact_integrity sha256_hex False (fact_id example_fact) raw' (parse_frontmatter id raw') = Some NameMismatch"
proof -
  have "addressed sha256_hex example_fact" by (simp add: addressed_def example_fact_def)
  moreover have "CONTENT_FACT_ID (fact_id example_fact)"
    using sha.digest_prefix[of 16] by (simp add: example_fact_def compute_fact_id_def)
  ultimately have "validate_fact_integrity sha256_hex False (fact_id example_fact) (serialize_fact example_fact)
       (parse_frontmatter id (serialize_fact example_fact)) = None"
    using carried_intact[OF serialize_carries[OF example_fact_storable]] by blast
  with refs_update_breaks[OF serialize_carries[OF example_fact_storable], where flt = id and H = sha256_hex]
  show ?thesis by blast
qed

section \<open>What the selection returns\<close>

text \<open>A definition is referenced when its term occurs in one of the texts or in a referenced
  definition.\<close>

inductive referenced :: "string list \<Rightarrow> string dict \<Rightarrow> string \<times> string \<Rightarrow> bool" for texts available where
  by_text: "s \<in> set texts \<Longrightarrow> (t, d) \<in> set available \<Longrightarrow> term_occurs t s \<Longrightarrow> referenced texts available (t, d)"
| by_definition: "referenced texts available (u, e) \<Longrightarrow> (t, d) \<in> set available \<Longrightarrow> term_occurs t e \<Longrightarrow>
    referenced texts available (t, d)"

lemma referenced_available: "referenced ts av x \<Longrightarrow> x \<in> set av"
  by (induction rule: referenced.induct) auto

lemma term_occurs_nonempty: "term_occurs t s \<Longrightarrow> t \<noteq> [] \<and> s \<noteq> []"
  by (simp add: term_occurs_def)

lemma referenced_step:
  fixes s rest r
  defines "hit \<equiv> \<lambda>(t, d). term_occurs t s"
  defines "texts \<equiv> rest @ filter (\<lambda>d. d \<noteq> []) (map snd (sort_key fst (filter hit r)))"
    and "r' \<equiv> filter (\<lambda>(t, d). \<not> term_occurs t s) r"
  shows "referenced (s # rest) r x \<longleftrightarrow> x \<in> set (filter hit r) \<or> referenced texts r' x"
proof
  assume "referenced (s # rest) r x"
  then show "x \<in> set (filter hit r) \<or> referenced texts r' x"
  proof (induction rule: referenced.induct)
    case (by_text q t d)
    then show ?case
      by (cases "term_occurs t s") (auto simp: hit_def texts_def r'_def intro: referenced.by_text)
  next
    case (by_definition u e t d)
    show ?case
    proof (cases "term_occurs t s")
      case False
      then have td: "(t, d) \<in> set r'" using by_definition by (auto simp: r'_def)
      from by_definition.IH show ?thesis
      proof
        assume "(u, e) \<in> set (filter hit r)"
        then have "e \<in> set texts" using term_occurs_nonempty[OF by_definition.hyps(3)]
          by (auto simp: texts_def image_iff)
        then show ?thesis using td by_definition by (auto intro: referenced.by_text)
      qed (use td by_definition in \<open>auto intro: referenced.by_definition\<close>)
    qed (use by_definition in \<open>auto simp: hit_def\<close>)
  qed
next
  assume "x \<in> set (filter hit r) \<or> referenced texts r' x"
  then show "referenced (s # rest) r x"
  proof
    assume "x \<in> set (filter hit r)"
    moreover obtain t d where "x = (t, d)" by force
    ultimately show ?thesis by (auto simp: hit_def intro: referenced.by_text[of s])
  next
    assume "referenced texts r' x"
    then show ?thesis
    proof (induction rule: referenced.induct)
      case (by_text q t d)
      then have td: "(t, d) \<in> set r" by (simp add: r'_def)
      from by_text(1) consider "q \<in> set rest" | u where "(u, q) \<in> set (filter hit r)" by (auto simp: texts_def)
      then show ?case
      proof cases
        case (2 u)
        then have "referenced (s # rest) r (u, q)" by (auto simp: hit_def intro: referenced.by_text[of s])
        then show ?thesis using td by_text(3) by (rule referenced.by_definition)
      qed (use td by_text in \<open>auto intro: referenced.by_text\<close>)
    next
      case (by_definition u e t d)
      then show ?case by (auto simp: r'_def intro: referenced.by_definition)
    qed
  qed
qed

lemma referenced_none: "\<not> referenced [] r x" "\<not> referenced ts [] x"
proof -
  have "referenced [] r x \<Longrightarrow> False" by (induction rule: referenced.induct) auto
  then show "\<not> referenced [] r x" by blast
  show "\<not> referenced ts [] x" using referenced_available[of ts "[]" x] by auto
qed

lemma set_select_loop: "set (select_loop p r sel) = set sel \<union> {x. referenced p r x}"
proof (induction p r sel rule: select_loop.induct)
  case (1 p r sel)
  show ?case
  proof (cases p)
    case Nil
    then show ?thesis by (simp add: select_loop.simps referenced_none)
  next
    case (Cons s rest)
    show ?thesis
    proof (cases "r = []")
      case True
      then show ?thesis using Cons by (simp add: select_loop.simps referenced_none)
    next
      case False
      then show ?thesis
        using Cons 1[OF Cons False refl] referenced_step[of s rest r]
        by (subst select_loop.simps) (auto simp: Let_def)
    qed
  qed
qed

lemma keys_select_loop:
  "distinct (keys r) \<Longrightarrow> distinct (keys sel) \<Longrightarrow> set (keys r) \<inter> set (keys sel) = {} \<Longrightarrow> distinct (keys (select_loop p r sel))"
proof (induction p r sel rule: select_loop.induct)
  case (1 p r sel)
  show ?case
  proof (cases p)
    case (Cons s rest)
    let ?m = "sort_key fst (filter (\<lambda>(t, d). term_occurs t s) r)"
    have "mset (keys ?m) = mset (keys (filter (\<lambda>(t, d). term_occurs t s) r))" by simp
    then have m: "distinct (keys ?m)" using 1(2) by (metis distinct_map_filter mset_eq_imp_distinct_iff)
    have rr: "distinct (keys (filter (\<lambda>(t, d). \<not> term_occurs t s) r))" using 1(2) by (rule distinct_map_filter)
    have "set (keys ?m) \<inter> set (keys sel) = {}" using 1(4) by auto
    then have s: "distinct (keys (sel @ ?m))" using 1(3) m by auto
    have d: "set (keys (filter (\<lambda>(t, d). \<not> term_occurs t s) r)) \<inter> set (keys (sel @ ?m)) = {}"
      using 1(4) by auto
    show ?thesis
    proof (cases "r = []")
      case False
      then show ?thesis using Cons 1(1)[OF Cons False refl rr s d]
        by (subst select_loop.simps) (simp add: Let_def)
    qed (use Cons 1 in \<open>simp add: select_loop.simps\<close>)
  qed (use 1 in \<open>simp add: select_loop.simps\<close>)
qed

lemma referenced_filter: "referenced (filter (\<lambda>s. s \<noteq> []) ts) (filter (\<lambda>(t, d). t \<noteq> []) av) x \<longleftrightarrow> referenced ts av x"
proof
  assume "referenced (filter (\<lambda>s. s \<noteq> []) ts) (filter (\<lambda>(t, d). t \<noteq> []) av) x"
  then show "referenced ts av x" by (induction rule: referenced.induct) (auto intro: referenced.intros)
next
  assume "referenced ts av x"
  then show "referenced (filter (\<lambda>s. s \<noteq> []) ts) (filter (\<lambda>(t, d). t \<noteq> []) av) x"
  proof (induction rule: referenced.induct)
    case (by_text s t d)
    then show ?case using term_occurs_nonempty[of t s] by (auto intro!: referenced.by_text[of s])
  next
    case (by_definition u e t d)
    then show ?case using term_occurs_nonempty[of t e] by (auto intro!: referenced.by_definition[of _ _ u e])
  qed
qed

text \<open>
  Property C30. \<open>select_referenced_definitions\<close> returns exactly the definitions reachable from the texts
  through occurrences of their terms, each once and in the order of their terms.
\<close>

theorem selection_exact:
  assumes "distinct (keys available)"
  shows "set (select_referenced_definitions texts available) = {x. referenced texts available x} \<and>
    sorted (keys (select_referenced_definitions texts available)) \<and>
    distinct (keys (select_referenced_definitions texts available))"
proof -
  have "distinct (keys (filter (\<lambda>(t, d). t \<noteq> []) available))" using assms by (rule distinct_map_filter)
  then have "distinct (keys (select_referenced_definitions texts available))"
    unfolding select_referenced_definitions_def by (intro keys_sorted_items keys_select_loop) auto
  then show ?thesis
    by (simp add: select_referenced_definitions_def set_select_loop referenced_filter sorted_items_keys)
qed

theorem selection_exact_witness:
  "set (select_referenced_definitions [''let K_F be''] [(''K'', ''a''), (''K_F'', ''of F''), (''F'', ''set'')]) =
     {x. referenced [''let K_F be''] [(''K'', ''a''), (''K_F'', ''of F''), (''F'', ''set'')] x} \<and>
   select_referenced_definitions [''let K_F be''] [(''K'', ''a''), (''K_F'', ''of F''), (''F'', ''set'')] =
     [(''F'', ''set''), (''K_F'', ''of F'')]"
proof -
  have "distinct (keys [(''K'', ''a''), (''K_F'', ''of F''), (''F'', ''set'')])" by simp
  moreover have "select_referenced_definitions [''let K_F be''] [(''K'', ''a''), (''K_F'', ''of F''), (''F'', ''set'')] =
     [(''F'', ''set''), (''K_F'', ''of F'')]"
    by code_simp
  ultimately show ?thesis using selection_exact[of _ "[''let K_F be'']"] by blast
qed

end
