(* ===== verification/FactContext.thy ===== *)
theory FactContext
  imports FactFile
begin

text \<open>
  The read side of \<open>src/danus/core/factgraph.py\<close>: the files of a fact graph, the project and global
  glossaries, the bounded context of \<open>_context_unlocked\<close>, the adaptive verification context of
  \<open>_verification_context_unlocked\<close>, and the full fact identity derived from it. Every function reads
  one state of the files; that a reader holds one state is the shared lock's part.
\<close>

section \<open>Files\<close>

datatype path =
    ActiveFact string
  | RevokedFact string
  | GlossaryFile
  | RevocationLog
  | PendingAdd
  | PendingAddCommit
  | PendingAddAbort
  | PendingRevocation

type_synonym files = "(path \<times> string) list"

text \<open>What the code takes from its surroundings: SHA-256, \<open>float\<close> of the JSON reader, and the
  packaged global glossary.\<close>

record graph_env =
  env_hash :: "string \<Rightarrow> string"
  env_float :: "string \<Rightarrow> string"
  env_global :: "string dict"

datatype graph_error =
    InvalidFactId
  | Integrity integrity_error
  | GlossaryUnreadable
  | GlossaryNotStrings
  | GlossaryShadowsGlobal "string list"
  | NegativeDepth
  | BadProofMode
  | NegativeMaxChars
  | CandidateNotContentId
  | ExpandedNotList
  | ExpandedDuplicates
  | ExpandedNotContentIds
  | BadExpansionRound
  | RoundZeroExpanded
  | RoundWithoutProofs
  | BadExpandedBudget
  | RootNotContentId
  | ClosureNotContentId string
  | PredecessorNotContentId string
  | EmptyStatement string
  | ExpandedOutsideClosure "string list"
  | CandidateInClosure
  | EmptyProof string
  | DigestInInput
  | NotFinite
  | IdentityProblemId
  | IdentityPredecessors
  | IdentityDuplicatePredecessors
  | IdentityDigest
  | IdentityContext
  | IdentityClosure
  | IdentityClosureDuplicates
  | IdentityFactCard
  | IdentityBinding
  | IdentityIncomplete
  | FullIdentityMismatch
  | IdentityCollision

definition exists_file :: "files \<Rightarrow> path \<Rightarrow> bool" where
  "exists_file fs p \<longleftrightarrow> map_of fs p \<noteq> None"

definition get_raw_unchecked :: "files \<Rightarrow> string \<Rightarrow> graph_error + string option" where
  "get_raw_unchecked fs fid =
     (if SAFE_FACT_ID fid then Inr (map_option read_text (map_of fs (ActiveFact fid))) else Inl InvalidFactId)"

fun active_ids_of :: "files \<Rightarrow> string list" where
  "active_ids_of [] = []"
| "active_ids_of ((ActiveFact i, t) # fs) = i # active_ids_of fs"
| "active_ids_of (_ # fs) = active_ids_of fs"

definition list_unchecked :: "files \<Rightarrow> string list" where
  "list_unchecked fs = sort (uniq (active_ids_of fs))"

definition check_fact :: "graph_env \<Rightarrow> files \<Rightarrow> string \<Rightarrow> string \<Rightarrow> frontmatter \<Rightarrow> graph_error option" where
  "check_fact E fs fid raw m =
     map_option Integrity (validate_fact_integrity (env_hash E) (exists_file fs (RevokedFact fid)) fid raw m)"

section \<open>Glossaries\<close>

definition is_str :: "json \<Rightarrow> bool" where
  "is_str v = (case v of JStr s \<Rightarrow> True | _ \<Rightarrow> False)"

definition string_dict :: "json \<Rightarrow> string dict option" where
  "string_dict v =
     (case v of
        JObj kvs \<Rightarrow> if list_all (\<lambda>(k, v). is_str v) kvs then Some (map (\<lambda>(k, v). (k, to_str v)) kvs) else None
      | _ \<Rightarrow> None)"

definition read_project_glossary :: "graph_env \<Rightarrow> files \<Rightarrow> bool \<Rightarrow> graph_error + string dict" where
  "read_project_glossary E fs strict =
     (case map_of fs GlossaryFile of
        None \<Rightarrow> Inr []
      | Some raw \<Rightarrow>
          (case loads (env_float E) (read_text raw) of
             None \<Rightarrow> if strict then Inl GlossaryUnreadable else Inr []
           | Some v \<Rightarrow>
               (case string_dict v of
                  None \<Rightarrow> if strict then Inl GlossaryNotStrings else Inr []
                | Some loaded \<Rightarrow>
                    (let shadow = sort (map fst (filter (\<lambda>(t, d). case map_of (env_global E) t of None \<Rightarrow> False | Some g \<Rightarrow> g \<noteq> d) loaded)) in
                     if shadow = [] then Inr loaded
                     else if strict then Inl (GlossaryShadowsGlobal shadow)
                     else Inr (filter (\<lambda>(t, d). t \<notin> set shadow) loaded)))))"

definition dict_update :: "'v dict \<Rightarrow> 'v dict \<Rightarrow> 'v dict" where
  "dict_update d new = foldl (\<lambda>d (k, v). AList.update k v d) d new"

definition resolved_glossary_for_texts ::
    "graph_env \<Rightarrow> files \<Rightarrow> string list \<Rightarrow> string list \<Rightarrow> bool \<Rightarrow> graph_error + string dict" where
  "resolved_glossary_for_texts E fs texts excluded include_project =
     (case (if include_project then read_project_glossary E fs True else Inr []) of
        Inl e \<Rightarrow> Inl e
      | Inr project \<Rightarrow> Inr (select_referenced_definitions texts
          (filter (\<lambda>(t, d). t \<noteq> [] \<and> t \<notin> set excluded) (dict_update (env_global E) project))))"

section \<open>Digests\<close>

definition FACT_CONTEXT_SCHEMA_VERSION :: int where "FACT_CONTEXT_SCHEMA_VERSION = 1"
definition VERIFICATION_CONTEXT_SCHEMA_VERSION :: int where "VERIFICATION_CONTEXT_SCHEMA_VERSION = 3"
definition VERIFICATION_CONTEXT_PROJECTION :: string where
  "VERIFICATION_CONTEXT_PROJECTION = ''full-statement-closure-adaptive-proofs-v1''"

definition sha_digest :: "graph_env \<Rightarrow> json \<Rightarrow> string" where
  "sha_digest E v = ''sha256:'' @ env_hash E (utf8_encode (dumps_sorted compact_fmt v))"

definition fact_context_digest :: "graph_env \<Rightarrow> json \<Rightarrow> json \<Rightarrow> json \<Rightarrow> string" where
  "fact_context_digest E scope facts glossary =
     sha_digest E (JObj [(''schema_version'', JInt FACT_CONTEXT_SCHEMA_VERSION), (''scope'', scope), (''facts'', facts), (''glossary'', glossary)])"

definition verification_context_digest :: "graph_env \<Rightarrow> jobj \<Rightarrow> graph_error + string" where
  "verification_context_digest E ctx =
     (if has_key ctx ''digest'' then Inl DigestInInput
      else if \<not> all_finite (JObj ctx) then Inl NotFinite
      else Inr (sha_digest E (JObj ctx)))"

definition dependency_closure_digest :: "graph_env \<Rightarrow> json list \<Rightarrow> string" where
  "dependency_closure_digest E records = sha_digest E (JObj [(''schema_version'', JInt 1), (''records'', JArr records)])"

section \<open>Cards and budgets\<close>

record fact_card =
  card_id :: string
  card_statement :: string
  card_predecessors :: "string list"
  card_glossary :: "string dict"
  card_proof :: "string option"

definition card_json :: "fact_card \<Rightarrow> json" where
  "card_json c = JObj ([(''fact_id'', JStr (card_id c)), (''statement'', JStr (card_statement c)),
     (''predecessors'', str_list (card_predecessors c)), (''glossary_introduces'', str_dict (card_glossary c))] @
     (case card_proof c of None \<Rightarrow> [] | Some p \<Rightarrow> [(''proof'', JStr p)]))"

definition json_chars :: "json \<Rightarrow> int" where
  "json_chars v = int (length (dumps_sorted compact_fmt v))"

definition over_budget :: "int option \<Rightarrow> int \<Rightarrow> bool" where
  "over_budget budget n = (case budget of None \<Rightarrow> False | Some b \<Rightarrow> b < n)"

text \<open>Items are taken in order until the first that does not fit; that item and all later ones are
  omitted.\<close>

fun take_budget :: "int option \<Rightarrow> ('a \<Rightarrow> int) \<Rightarrow> int \<Rightarrow> 'a list \<Rightarrow> 'a list \<times> 'a list \<times> int" where
  "take_budget budget sz used [] = ([], [], used)"
| "take_budget budget sz used (x # xs) =
     (if over_budget budget (used + sz x) then ([], x # xs, used)
      else (case take_budget budget sz (used + sz x) xs of (inc, om, u) \<Rightarrow> (x # inc, om, u)))"

definition definition_chars :: "string \<times> string \<Rightarrow> int" where
  "definition_chars = (\<lambda>(t, d). json_chars (JObj [(''term'', JStr t), (''definition'', JStr d)]))"

abbreviation opt_int_json :: "int option \<Rightarrow> json" where
  "opt_int_json x \<equiv> (case x of None \<Rightarrow> JNull | Some i \<Rightarrow> JInt i)"

section \<open>The bounded context\<close>

text \<open>The predecessors any active file names; every id a traversal discovers beyond its roots is one
  of them.\<close>

definition predecessors_of :: "graph_env \<Rightarrow> string \<Rightarrow> string list" where
  "predecessors_of E raw = fm_predecessors (parse_frontmatter (env_float E) raw)"

definition pred_universe :: "graph_env \<Rightarrow> files \<Rightarrow> string set" where
  "pred_universe E fs = (\<Union>(p, raw) \<in> set fs. set (predecessors_of E (read_text raw)))"

lemma finite_pred_universe: "finite (pred_universe E fs)"
  by (auto simp: pred_universe_def)

lemma predecessors_in_universe:
  "get_raw_unchecked fs fid = Inr (Some raw) \<Longrightarrow> set (predecessors_of E raw) \<subseteq> pred_universe E fs"
  by (force simp: get_raw_unchecked_def pred_universe_def dest: map_of_SomeD split: if_splits)

definition fresh :: "string list \<Rightarrow> string list \<Rightarrow> string list" where
  "fresh disc ps = uniq (filter (\<lambda>p. p \<notin> set disc) ps)"

lemma fresh_decreases:
  assumes "set ps \<subseteq> U" "finite U"
  shows "card (U - set (disc @ fresh disc ps)) + length (fresh disc ps) = card (U - set disc)"
proof -
  let ?n = "set (fresh disc ps)"
  have n: "?n \<subseteq> U - set disc" using assms(1) by (auto simp: fresh_def)
  have "length (fresh disc ps) = card ?n"
    unfolding fresh_def by (rule distinct_card[symmetric]) (rule distinct_uniq)
  moreover have "U - set (disc @ fresh disc ps) = (U - set disc) - ?n" by auto
  moreover have "card ((U - set disc) - ?n) + card ?n = card (U - set disc)"
    using n assms(2) card_mono[of "U - set disc" ?n] by (simp add: card_Diff_subset finite_subset)
  ultimately show ?thesis by simp
qed

record walk =
  w_cards :: "fact_card list"
  w_missing :: "string list"
  w_revoked :: "string list"

definition walk_absent :: "files \<Rightarrow> string \<Rightarrow> walk \<Rightarrow> walk" where
  "walk_absent fs fid w =
     (if exists_file fs (RevokedFact fid) then w\<lparr>w_revoked := w_revoked w @ [fid]\<rparr>
      else w\<lparr>w_missing := w_missing w @ [fid]\<rparr>)"

definition fact_card_of :: "string \<Rightarrow> string \<Rightarrow> frontmatter \<Rightarrow> bool \<Rightarrow> fact_card" where
  "fact_card_of fid raw m with_proof =
     \<lparr>card_id = fid, card_statement = statement_of raw, card_predecessors = fm_predecessors m,
      card_glossary = fm_glossary m, card_proof = (if with_proof then Some (proof_of raw) else None)\<rparr>"

function context_walk ::
    "graph_env \<Rightarrow> files \<Rightarrow> int option \<Rightarrow> (string \<Rightarrow> bool) \<Rightarrow> (string \<times> int) list \<Rightarrow> string list \<Rightarrow> walk \<Rightarrow> graph_error + walk" where
  "context_walk E fs max_depth with_proof queue disc w =
     (case queue of
        [] \<Rightarrow> Inr w
      | (fid, depth) # q \<Rightarrow>
          (case get_raw_unchecked fs fid of
             Inl e \<Rightarrow> Inl e
           | Inr None \<Rightarrow> context_walk E fs max_depth with_proof q disc (walk_absent fs fid w)
           | Inr (Some raw) \<Rightarrow>
               (let m = parse_frontmatter (env_float E) raw in
                case check_fact E fs fid raw m of
                  Some e \<Rightarrow> Inl e
                | None \<Rightarrow>
                    (let new = (if (case max_depth of None \<Rightarrow> True | Some d \<Rightarrow> depth < d) then fresh disc (predecessors_of E raw) else []) in
                     context_walk E fs max_depth with_proof (q @ map (\<lambda>p. (p, depth + 1)) new) (disc @ new)
                       (w\<lparr>w_cards := w_cards w @ [fact_card_of fid raw m (with_proof fid)]\<rparr>)))))"
  by pat_completeness auto

termination context_walk
proof (relation "measure (\<lambda>(E, fs, max_depth, with_proof, queue, disc, w). card (pred_universe E fs - set disc) + length queue)", goal_cases)
  case (3 E fs max_depth with_proof queue disc w x q fid depth r raw m new)
  then show ?case
    using fresh_decreases[OF predecessors_in_universe finite_pred_universe, of fs fid raw E disc] by auto
qed auto

declare context_walk.simps [simp del]

definition empty_walk :: walk where
  "empty_walk = \<lparr>w_cards = [], w_missing = [], w_revoked = []\<rparr>"

text \<open>The texts a card contributes to the glossary selection, in the order the loop appends them.\<close>

definition card_texts :: "fact_card \<Rightarrow> string list" where
  "card_texts c = card_statement c # map snd (card_glossary c) @ (case card_proof c of None \<Rightarrow> [] | Some p \<Rightarrow> [p])"

definition context_unlocked ::
    "graph_env \<Rightarrow> files \<Rightarrow> string list \<Rightarrow> int option \<Rightarrow> string \<Rightarrow> int option \<Rightarrow> string list \<Rightarrow> string list \<Rightarrow> bool
     \<Rightarrow> graph_error + jobj" where
  "context_unlocked E fs fact_ids depth proof_mode max_chars texts exclude include_project =
     (if (case depth of None \<Rightarrow> False | Some d \<Rightarrow> d < 0) then Inl NegativeDepth
      else if proof_mode \<notin> {''none'', ''selected'', ''all''} then Inl BadProofMode
      else if (case max_chars of None \<Rightarrow> False | Some n \<Rightarrow> n < 0) then Inl NegativeMaxChars
      else
        (let roots = uniq (filter (\<lambda>i. i \<noteq> []) fact_ids) in
         case context_walk E fs depth (\<lambda>i. proof_mode = ''all'' \<or> (proof_mode = ''selected'' \<and> i \<in> set roots))
             (map (\<lambda>i. (i, 0)) roots) roots empty_walk of
           Inl e \<Rightarrow> Inl e
         | Inr w \<Rightarrow>
             (case resolved_glossary_for_texts E fs (texts @ concat (map card_texts (w_cards w)))
                 (exclude @ concat (map (\<lambda>c. keys (card_glossary c)) (w_cards w))) include_project of
                Inl e \<Rightarrow> Inl e
              | Inr resolved \<Rightarrow>
                  (case take_budget max_chars (\<lambda>c. json_chars (card_json c)) 0 (w_cards w) of
                     (included, omitted, used) \<Rightarrow>
                  (case (if omitted = [] then take_budget max_chars definition_chars used resolved else ([], resolved, used)) of
                     (gloss, omitted_gloss, used') \<Rightarrow>
                     (let scope = JObj [(''requested_fact_ids'', str_list roots), (''predecessor_depth'', opt_int_json depth),
                            (''proof_mode'', JStr proof_mode), (''include_project_glossary'', JBool include_project),
                            (''glossary_terms'', str_list (keys resolved))];
                          facts = JArr (map card_json included)
                      in Inr [(''schema_version'', JInt FACT_CONTEXT_SCHEMA_VERSION), (''scope'', scope), (''facts'', facts),
                        (''glossary'', str_dict gloss), (''digest'', JStr (fact_context_digest E scope facts (str_dict gloss))),
                        (''complete'', JBool (w_missing w = [] \<and> w_revoked w = [] \<and> omitted = [] \<and> omitted_gloss = [])),
                        (''truncated'', JBool (omitted \<noteq> [] \<or> omitted_gloss \<noteq> [])),
                        (''missing_fact_ids'', str_list (w_missing w)), (''revoked_fact_ids'', str_list (w_revoked w)),
                        (''omitted_fact_ids'', str_list (map card_id omitted)),
                        (''omitted_glossary_terms'', str_list (keys omitted_gloss)),
                        (''characters_used'', JInt used'), (''character_budget'', opt_int_json max_chars)]))))))"


section \<open>The verification context\<close>

record closure =
  cl_discovered :: "string list"
  cl_order :: "string list"
  cl_cards :: "fact_card list"
  cl_raws :: "string dict"
  cl_missing :: "string list"
  cl_revoked :: "string list"

definition start_closure :: "string list \<Rightarrow> closure" where
  "start_closure roots = \<lparr>cl_discovered = roots, cl_order = [], cl_cards = [], cl_raws = [], cl_missing = [], cl_revoked = []\<rparr>"

definition closure_absent :: "files \<Rightarrow> string \<Rightarrow> closure \<Rightarrow> closure" where
  "closure_absent fs fid c =
     (if exists_file fs (RevokedFact fid) then c\<lparr>cl_order := cl_order c @ [fid], cl_revoked := cl_revoked c @ [fid]\<rparr>
      else c\<lparr>cl_order := cl_order c @ [fid], cl_missing := cl_missing c @ [fid]\<rparr>)"

definition closure_present :: "graph_env \<Rightarrow> string \<Rightarrow> string \<Rightarrow> closure \<Rightarrow> closure" where
  "closure_present E fid raw c =
     c\<lparr>cl_order := cl_order c @ [fid],
       cl_cards := cl_cards c @ [fact_card_of fid raw (parse_frontmatter (env_float E) raw) False],
       cl_raws := cl_raws c @ [(fid, raw)],
       cl_discovered := cl_discovered c @ fresh (cl_discovered c) (predecessors_of E raw)\<rparr>"

text \<open>The checks on one active fact of the closure.\<close>

definition closure_check :: "graph_env \<Rightarrow> files \<Rightarrow> string \<Rightarrow> string \<Rightarrow> graph_error option" where
  "closure_check E fs fid raw =
     first_error [check_fact E fs fid raw (parse_frontmatter (env_float E) raw),
       fail_if (\<not> list_all CONTENT_FACT_ID (predecessors_of E raw)) (PredecessorNotContentId fid),
       fail_if (strip (statement_of raw) = []) (EmptyStatement fid)]"

function closure_walk :: "graph_env \<Rightarrow> files \<Rightarrow> string list \<Rightarrow> closure \<Rightarrow> graph_error + closure" where
  "closure_walk E fs queue c =
     (case queue of
        [] \<Rightarrow> Inr c
      | fid # q \<Rightarrow>
          if \<not> CONTENT_FACT_ID fid then Inl (ClosureNotContentId fid)
          else (case get_raw_unchecked fs fid of
             Inl e \<Rightarrow> Inl e
           | Inr None \<Rightarrow> closure_walk E fs q (closure_absent fs fid c)
           | Inr (Some raw) \<Rightarrow>
               (case closure_check E fs fid raw of
                  Some e \<Rightarrow> Inl e
                | None \<Rightarrow> closure_walk E fs (q @ fresh (cl_discovered c) (predecessors_of E raw)) (closure_present E fid raw c))))"
  by pat_completeness auto

termination closure_walk
proof (relation "measure (\<lambda>(E, fs, queue, c). card (pred_universe E fs - set (cl_discovered c)) + length queue)", goal_cases)
  case (2 E fs queue c fid q)
  then show ?case by (auto simp: closure_absent_def)
next
  case (3 E fs queue c fid q r raw)
  then show ?case
    using fresh_decreases[OF predecessors_in_universe finite_pred_universe, of fs fid raw E "cl_discovered c"]
    by (auto simp: closure_present_def)
qed auto

declare closure_walk.simps [simp del]

definition proof_json :: "string \<times> string \<Rightarrow> json" where
  "proof_json = (\<lambda>(fid, p). JObj [(''fact_id'', JStr fid), (''proof'', JStr p)])"

text \<open>Proof records that do not fit their own budget are skipped, later ones may still fit.\<close>

fun fitting_proofs :: "int option \<Rightarrow> int \<Rightarrow> (string \<times> string) list \<Rightarrow> (string \<times> string) list \<times> string list" where
  "fitting_proofs budget used [] = ([], [])"
| "fitting_proofs budget used (x # xs) =
     (if over_budget budget (used + json_chars (proof_json x))
      then (case fitting_proofs budget used xs of (inc, om) \<Rightarrow> (inc, fst x # om))
      else (case fitting_proofs budget (used + json_chars (proof_json x)) xs of (inc, om) \<Rightarrow> (x # inc, om)))"

text \<open>The arguments a caller takes over from a context it was given are JSON values.\<close>

definition proof_id_list :: "json \<Rightarrow> string list option" where
  "proof_id_list v =
     (case v of
        JNull \<Rightarrow> Some []
      | JArr xs \<Rightarrow> if list_all is_str xs then Some (map to_str xs) else None
      | _ \<Rightarrow> None)"

definition expansion_error :: "string list \<Rightarrow> json \<Rightarrow> json \<Rightarrow> graph_error option" where
  "expansion_error ids round budget =
     first_error [fail_if (\<not> distinct ids) ExpandedDuplicates,
       fail_if (\<not> list_all CONTENT_FACT_ID ids) ExpandedNotContentIds,
       (case round of
          JInt r \<Rightarrow> first_error [fail_if (r < 0) BadExpansionRound, fail_if (r = 0 \<and> ids \<noteq> []) RoundZeroExpanded,
            fail_if (0 < r \<and> ids = []) RoundWithoutProofs]
        | _ \<Rightarrow> Some BadExpansionRound),
       (case budget of JNull \<Rightarrow> None | JInt b \<Rightarrow> fail_if (b < 0) BadExpandedBudget | _ \<Rightarrow> Some BadExpandedBudget)]"

definition json_budget :: "json \<Rightarrow> int option" where
  "json_budget v = (case v of JInt b \<Rightarrow> Some b | _ \<Rightarrow> None)"

text \<open>Filling the envelope under the total budget: cards first, then proofs, then definitions.\<close>

record envelope =
  e_cards :: "fact_card list"
  e_omitted_cards :: "fact_card list"
  e_proofs :: "(string \<times> string) list"
  e_omitted_proofs :: "string list"
  e_glossary :: "string dict"
  e_omitted_glossary :: "string dict"
  e_used :: int
  e_proof_chars :: int

definition fill_envelope ::
    "int option \<Rightarrow> fact_card list \<Rightarrow> string list \<Rightarrow> (string \<times> string) list \<Rightarrow> string list \<Rightarrow> string dict \<Rightarrow> envelope" where
  "fill_envelope max_chars cards ordered proofs skipped resolved =
     (case take_budget max_chars (\<lambda>c. json_chars (card_json c)) 0 cards of (cs, ocs, used) \<Rightarrow>
      if ocs \<noteq> [] then
        \<lparr>e_cards = cs, e_omitted_cards = ocs, e_proofs = [], e_omitted_proofs = ordered, e_glossary = [],
         e_omitted_glossary = resolved, e_used = used, e_proof_chars = 0\<rparr>
      else
        (case take_budget max_chars (\<lambda>p. json_chars (proof_json p)) used proofs of (ps, ops, used') \<Rightarrow>
         (let omitted = skipped @ map fst ops in
          if omitted \<noteq> [] then
            \<lparr>e_cards = cs, e_omitted_cards = [], e_proofs = ps, e_omitted_proofs = filter (\<lambda>i. i \<in> set omitted) ordered,
             e_glossary = [], e_omitted_glossary = resolved, e_used = used', e_proof_chars = used' - used\<rparr>
          else
            (case take_budget max_chars definition_chars used' resolved of (g, og, used'') \<Rightarrow>
             \<lparr>e_cards = cs, e_omitted_cards = [], e_proofs = ps, e_omitted_proofs = [], e_glossary = g,
              e_omitted_glossary = og, e_used = used'', e_proof_chars = used' - used\<rparr>))))"

definition verification_scope :: "string option \<Rightarrow> string list \<Rightarrow> json \<Rightarrow> string list \<Rightarrow> string list \<Rightarrow> string list \<Rightarrow> jobj" where
  "verification_scope candidate roots round order ordered terms =
     [(''candidate_fact_id'', opt_text_json candidate), (''requested_fact_ids'', str_list roots),
      (''predecessor_depth'', JNull), (''proof_mode'', JStr ''adaptive''), (''include_project_glossary'', JBool False),
      (''projection'', JStr VERIFICATION_CONTEXT_PROJECTION), (''expansion_round'', round),
      (''closure_fact_ids'', str_list order), (''expanded_proof_ids'', str_list ordered), (''glossary_terms'', str_list terms)]"

definition verification_body :: "jobj \<Rightarrow> closure \<Rightarrow> envelope \<Rightarrow> int option \<Rightarrow> json \<Rightarrow> jobj" where
  "verification_body scope c e max_chars budget =
     [(''schema_version'', JInt VERIFICATION_CONTEXT_SCHEMA_VERSION), (''scope'', JObj scope),
      (''facts'', JArr (map card_json (e_cards e))), (''expanded_proofs'', JArr (map proof_json (e_proofs e))),
      (''glossary'', str_dict (e_glossary e)),
      (''complete'', JBool (cl_missing c = [] \<and> cl_revoked c = [] \<and> e_omitted_cards e = [] \<and>
         e_omitted_glossary e = [] \<and> e_omitted_proofs e = [])),
      (''truncated'', JBool (e_omitted_cards e \<noteq> [] \<or> e_omitted_glossary e \<noteq> [] \<or> e_omitted_proofs e \<noteq> [])),
      (''missing_fact_ids'', str_list (cl_missing c)), (''revoked_fact_ids'', str_list (cl_revoked c)),
      (''omitted_fact_ids'', str_list (map card_id (e_omitted_cards e))),
      (''omitted_glossary_terms'', str_list (keys (e_omitted_glossary e))),
      (''omitted_expanded_proof_ids'', str_list (e_omitted_proofs e)),
      (''characters_used'', JInt (e_used e)), (''character_budget'', opt_int_json max_chars),
      (''expanded_proof_characters'', JInt (e_proof_chars e)), (''expanded_proof_character_budget'', budget)]"

definition closure_context ::
    "graph_env \<Rightarrow> files \<Rightarrow> string list \<Rightarrow> closure \<Rightarrow> int option \<Rightarrow> string option \<Rightarrow> string list \<Rightarrow> json \<Rightarrow> json
     \<Rightarrow> string list \<Rightarrow> string list \<Rightarrow> graph_error + jobj" where
  "closure_context E fs roots c max_chars candidate ids round budget texts exclude =
     (let outside = filter (\<lambda>i. \<not> has_key (cl_raws c) i) ids;
          ordered = filter (\<lambda>i. i \<in> set ids) (cl_order c);
          proofs = map (\<lambda>(i, raw). (i, proof_of raw)) (filter (\<lambda>(i, raw). i \<in> set ids) (cl_raws c))
      in if outside \<noteq> [] then Inl (ExpandedOutsideClosure outside)
         else if (case candidate of None \<Rightarrow> False | Some i \<Rightarrow> i \<in> set (cl_discovered c)) then Inl CandidateInClosure
         else (case filter (\<lambda>(i, p). p = []) proofs of
             (i, _) # _ \<Rightarrow> Inl (EmptyProof i)
           | [] \<Rightarrow>
             (case fitting_proofs (json_budget budget) 0 proofs of (fit, skipped) \<Rightarrow>
              (case resolved_glossary_for_texts E fs
                  (texts @ concat (map card_texts (cl_cards c)) @ map snd fit)
                  (exclude @ concat (map (\<lambda>k. keys (card_glossary k)) (cl_cards c))) False of
                 Inl e \<Rightarrow> Inl e
               | Inr resolved \<Rightarrow>
                 (let e = fill_envelope max_chars (cl_cards c) ordered fit skipped resolved;
                      body = verification_body (verification_scope candidate roots round (cl_order c) ordered (keys resolved)) c e max_chars budget
                  in case verification_context_digest E body of
                       Inl er \<Rightarrow> Inl er
                     | Inr d \<Rightarrow> Inr (body @ [(''digest'', JStr d)]))))))"

definition verification_context_unlocked ::
    "graph_env \<Rightarrow> files \<Rightarrow> string list \<Rightarrow> int option \<Rightarrow> string option \<Rightarrow> json \<Rightarrow> json \<Rightarrow> json
     \<Rightarrow> string list \<Rightarrow> string list \<Rightarrow> graph_error + jobj" where
  "verification_context_unlocked E fs fact_ids max_chars candidate expanded round budget texts exclude =
     (if (case max_chars of None \<Rightarrow> False | Some n \<Rightarrow> n < 0) then Inl NegativeMaxChars
      else if (case candidate of None \<Rightarrow> False | Some i \<Rightarrow> \<not> CONTENT_FACT_ID i) then Inl CandidateNotContentId
      else (case proof_id_list expanded of
          None \<Rightarrow> Inl ExpandedNotList
        | Some ids \<Rightarrow>
          (case expansion_error ids round budget of
             Some e \<Rightarrow> Inl e
           | None \<Rightarrow>
             (let roots = uniq (filter (\<lambda>i. i \<noteq> []) fact_ids) in
              if \<not> list_all CONTENT_FACT_ID roots then Inl RootNotContentId
              else (case closure_walk E fs roots (start_closure roots) of
                  Inl e \<Rightarrow> Inl e
                | Inr c \<Rightarrow> closure_context E fs roots c max_chars candidate ids round budget texts exclude)))))"

section \<open>The closure is the set of ancestors\<close>

definition pred_edge :: "graph_env \<Rightarrow> files \<Rightarrow> string \<Rightarrow> string \<Rightarrow> bool" where
  "pred_edge E fs a b \<longleftrightarrow> (\<exists>raw. get_raw_unchecked fs a = Inr (Some raw) \<and> b \<in> set (predecessors_of E raw))"

text \<open>What the lists of a closure are, given the order of its nodes.\<close>

definition raw_of :: "files \<Rightarrow> string \<Rightarrow> string option" where
  "raw_of fs i = map_option read_text (map_of fs (ActiveFact i))"

definition raws_of :: "files \<Rightarrow> string list \<Rightarrow> string dict" where
  "raws_of fs order = concat (map (\<lambda>i. case raw_of fs i of None \<Rightarrow> [] | Some raw \<Rightarrow> [(i, raw)]) order)"

definition absent :: "files \<Rightarrow> string list \<Rightarrow> string list" where
  "absent fs order = filter (\<lambda>i. raw_of fs i = None) order"

definition closure_lists :: "graph_env \<Rightarrow> files \<Rightarrow> closure \<Rightarrow> bool" where
  "closure_lists E fs c \<longleftrightarrow>
     cl_raws c = raws_of fs (cl_order c) \<and>
     cl_cards c = map (\<lambda>(i, raw). fact_card_of i raw (parse_frontmatter (env_float E) raw) False) (cl_raws c) \<and>
     cl_missing c = filter (\<lambda>i. \<not> exists_file fs (RevokedFact i)) (absent fs (cl_order c)) \<and>
     cl_revoked c = filter (\<lambda>i. exists_file fs (RevokedFact i)) (absent fs (cl_order c)) \<and>
     list_all CONTENT_FACT_ID (cl_order c) \<and>
     list_all (\<lambda>(i, raw). closure_check E fs i raw = None) (cl_raws c)"

definition closure_inv :: "graph_env \<Rightarrow> files \<Rightarrow> string list \<Rightarrow> string list \<Rightarrow> closure \<Rightarrow> bool" where
  "closure_inv E fs roots queue c \<longleftrightarrow>
     closure_lists E fs c \<and> cl_discovered c = cl_order c @ queue \<and> distinct (cl_discovered c) \<and>
     set roots \<subseteq> set (cl_discovered c) \<and>
     (\<forall>i \<in> set (cl_discovered c). \<exists>r \<in> set roots. (pred_edge E fs)\<^sup>*\<^sup>* r i) \<and>
     (\<forall>i \<in> set (cl_order c). \<forall>j. pred_edge E fs i j \<longrightarrow> j \<in> set (cl_discovered c))"

lemma get_raw_raw_of: "CONTENT_FACT_ID i \<Longrightarrow> get_raw_unchecked fs i = Inr (raw_of fs i)"
  by (simp add: get_raw_unchecked_def hex16_safe raw_of_def)

lemma fresh_props: "set (fresh disc ps) = set ps - set disc" "distinct (fresh disc ps)"
  by (auto simp: fresh_def)

lemma closure_lists_absent:
  assumes "closure_lists E fs c" "CONTENT_FACT_ID fid" "raw_of fs fid = None"
  shows "closure_lists E fs (closure_absent fs fid c)"
  using assms by (auto simp: closure_lists_def closure_absent_def raws_of_def absent_def)

lemma closure_lists_present:
  assumes "closure_lists E fs c" "CONTENT_FACT_ID fid" "raw_of fs fid = Some raw" "closure_check E fs fid raw = None"
  shows "closure_lists E fs (closure_present E fid raw c)"
  using assms by (auto simp: closure_lists_def closure_present_def raws_of_def absent_def)

lemma closure_walk_inv:
  "closure_inv E fs roots queue c \<Longrightarrow> closure_walk E fs queue c = Inr c' \<Longrightarrow> closure_inv E fs roots [] c'"
proof (induction E fs queue c rule: closure_walk.induct)
  case (1 E fs queue c)
  show ?case
  proof (cases queue)
    case Nil
    then show ?thesis using 1(3,4) by (simp add: closure_walk.simps)
  next
    case (Cons fid q)
    then have h: "CONTENT_FACT_ID fid" using 1(4) by (auto simp: closure_walk.simps split: if_splits)
    note raw = get_raw_raw_of[OF h, of fs]
    note inv = 1(3)[unfolded closure_inv_def Cons]
    show ?thesis
    proof (cases "raw_of fs fid")
      case None
      have ne: "\<not> pred_edge E fs fid j" for j using raw None by (simp add: pred_edge_def)
      have d: "cl_discovered (closure_absent fs fid c) = cl_discovered c" "cl_order (closure_absent fs fid c) = cl_order c @ [fid]"
        by (simp_all add: closure_absent_def)
      have l: "closure_lists E fs (closure_absent fs fid c)" using inv closure_lists_absent[OF _ h None] by blast
      have "\<forall>i \<in> set (cl_order c @ [fid]). \<forall>j. pred_edge E fs i j \<longrightarrow> j \<in> set (cl_discovered c)"
      proof (intro ballI allI impI)
        fix i j assume "i \<in> set (cl_order c @ [fid])" and e: "pred_edge E fs i j"
        then have "i \<in> set (cl_order c)" using ne by auto
        then show "j \<in> set (cl_discovered c)" using inv e by blast
      qed
      moreover have "cl_discovered c = (cl_order c @ [fid]) @ q" using inv by simp
      ultimately have "closure_inv E fs roots q (closure_absent fs fid c)"
        using inv l unfolding closure_inv_def d by blast
      then show ?thesis using 1(1)[OF Cons, of None] 1(4) h raw None Cons by (simp add: closure_walk.simps[of E fs "fid # q"])
    next
      case (Some r)
      then have chk: "closure_check E fs fid r = None" and rec:
        "closure_walk E fs (q @ fresh (cl_discovered c) (predecessors_of E r)) (closure_present E fid r c) = Inr c'"
        using 1(4) h raw Cons by (auto simp: closure_walk.simps[of E fs "fid # q"] split: option.splits)
      have edge: "pred_edge E fs fid j \<longleftrightarrow> j \<in> set (predecessors_of E r)" for j using raw Some by (simp add: pred_edge_def)
      have "closure_inv E fs roots (q @ fresh (cl_discovered c) (predecessors_of E r)) (closure_present E fid r c)"
      proof -
        let ?n = "fresh (cl_discovered c) (predecessors_of E r)" and ?c = "closure_present E fid r c"
        have d: "cl_discovered ?c = cl_discovered c @ ?n" "cl_order ?c = cl_order c @ [fid]" by (simp_all add: closure_present_def)
        have reach: "\<exists>r \<in> set roots. (pred_edge E fs)\<^sup>*\<^sup>* r i" if "i \<in> set ?n" for i
        proof -
          have "pred_edge E fs fid i" using that edge fresh_props by auto
          moreover obtain r' where "r' \<in> set roots" "(pred_edge E fs)\<^sup>*\<^sup>* r' fid" using inv by auto
          ultimately show ?thesis by (meson rtranclp.rtrancl_into_rtrancl)
        qed
        have closed: "j \<in> set (cl_discovered c @ ?n)" if "i \<in> set (cl_order c @ [fid])" "pred_edge E fs i j" for i j
        proof (cases "i = fid")
          case True
          then show ?thesis using that edge fresh_props by auto
        next
          case False
          then have "i \<in> set (cl_order c)" using that by simp
          then have "j \<in> set (cl_discovered c)" using inv that by blast
          then show ?thesis by simp
        qed
        have "cl_discovered c @ ?n = (cl_order c @ [fid]) @ q @ ?n" using inv by simp
        moreover have "distinct (cl_discovered c @ ?n)" using inv fresh_props[of "cl_discovered c"] by auto
        moreover have "\<forall>i \<in> set (cl_discovered c @ ?n). \<exists>r \<in> set roots. (pred_edge E fs)\<^sup>*\<^sup>* r i" using inv reach by auto
        moreover have "set roots \<subseteq> set (cl_discovered c @ ?n)" using inv by auto
        moreover have "closure_lists E fs ?c" using inv closure_lists_present[OF _ h Some chk] by blast
        ultimately show ?thesis unfolding closure_inv_def d using closed by blast
      qed
      then show ?thesis using 1(2)[OF Cons, of "Some r"] h raw Some chk rec by simp
    qed
  qed
qed

lemma start_closure_inv: "distinct roots \<Longrightarrow> closure_inv E fs roots roots (start_closure roots)"
  by (auto simp: closure_inv_def closure_lists_def start_closure_def raws_of_def absent_def)

text \<open>
  Property C24. The verification closure is exactly the set of ancestors: a traversal that succeeds
  visits every id reachable from the requested facts over predecessor edges of active files, each
  once; its cards are the active ones in that order, every one with an intact file, content-addressed
  predecessors and a statement, and the remaining ids are reported as revoked or missing.
\<close>

theorem closure_exact:
  assumes "distinct roots" and "closure_walk E fs roots (start_closure roots) = Inr c"
  shows "set (cl_order c) = {i. \<exists>r \<in> set roots. (pred_edge E fs)\<^sup>*\<^sup>* r i} \<and> distinct (cl_order c) \<and>
    map card_id (cl_cards c) = filter (\<lambda>i. raw_of fs i \<noteq> None) (cl_order c) \<and>
    (\<forall>i raw. raw_of fs i = Some raw \<and> i \<in> set (cl_order c) \<longrightarrow> closure_check E fs i raw = None) \<and>
    set (cl_missing c) \<union> set (cl_revoked c) = {i \<in> set (cl_order c). raw_of fs i = None}"
proof -
  have inv: "closure_inv E fs roots [] c"
    using closure_walk_inv[OF start_closure_inv[OF assms(1)] assms(2)] .
  then have lists: "closure_lists E fs c" and d: "cl_discovered c = cl_order c" "distinct (cl_order c)"
    by (auto simp: closure_inv_def)
  have closed: "j \<in> set (cl_order c)" if "(pred_edge E fs)\<^sup>*\<^sup>* i j" "i \<in> set (cl_order c)" for i j
    using that inv d by (induction rule: rtranclp_induct) (auto simp: closure_inv_def)
  have "set (cl_order c) = {i. \<exists>r \<in> set roots. (pred_edge E fs)\<^sup>*\<^sup>* r i}"
    using inv d closed by (auto simp: closure_inv_def)
  moreover have ids: "map fst (raws_of fs is) = filter (\<lambda>i. raw_of fs i \<noteq> None) is" for "is"
    by (induction "is") (auto simp: raws_of_def)
  then have "map card_id (cl_cards c) = filter (\<lambda>i. raw_of fs i \<noteq> None) (cl_order c)"
    using lists by (simp add: closure_lists_def fact_card_of_def comp_def case_prod_beta')
  moreover have "closure_check E fs i raw = None" if "raw_of fs i = Some raw" "i \<in> set (cl_order c)" for i raw
  proof -
    have "(i, raw) \<in> set (cl_raws c)" using that lists by (force simp: closure_lists_def raws_of_def)
    then show ?thesis using lists by (auto simp: closure_lists_def list_all_iff)
  qed
  moreover have "set (cl_missing c) \<union> set (cl_revoked c) = {i \<in> set (cl_order c). raw_of fs i = None}"
    using lists by (auto simp: closure_lists_def absent_def)
  ultimately show ?thesis using d by blast
qed

section \<open>Budgets\<close>

lemma take_budget_spec:
  "take_budget b sz u xs = (inc, om, u') \<Longrightarrow>
   xs = inc @ om \<and> u' = u + sum_list (map sz inc) \<and> (om \<noteq> [] \<longrightarrow> over_budget b (u' + sz (hd om))) \<and>
   (\<not> over_budget b u \<longrightarrow> \<not> over_budget b u')"
proof (induction b sz u xs arbitrary: inc om u' rule: take_budget.induct)
  case (2 b sz u x xs)
  show ?case
  proof (cases "over_budget b (u + sz x)")
    case False
    then obtain i o' v where "take_budget b sz (u + sz x) xs = (i, o', v)" by (metis prod_cases3)
    then show ?thesis using 2 False by (auto simp: add.assoc)
  qed (use 2 in auto)
qed auto

lemma take_budget_unbounded: "take_budget None sz u xs = (xs, [], u + sum_list (map sz xs))"
  by (induction xs arbitrary: u) (auto simp: over_budget_def)

definition envelope_chars :: "envelope \<Rightarrow> int" where
  "envelope_chars e = sum_list (map (\<lambda>c. json_chars (card_json c)) (e_cards e)) +
     sum_list (map (\<lambda>p. json_chars (proof_json p)) (e_proofs e)) + sum_list (map definition_chars (e_glossary e))"

lemma fill_envelope_spec:
  assumes "fill_envelope b cards ordered proofs skipped resolved = e" "\<not> over_budget b 0"
  shows "e_used e = envelope_chars e \<and> \<not> over_budget b (e_used e) \<and> cards = e_cards e @ e_omitted_cards e \<and>
    resolved = e_glossary e @ e_omitted_glossary e \<and> prefix (e_proofs e) proofs \<and>
    (e_omitted_cards e = [] \<and> e_omitted_proofs e = [] \<and> set skipped \<union> set (map fst proofs) \<subseteq> set ordered \<longrightarrow> e_proofs e = proofs \<and> skipped = [])"
proof -
  obtain cs ocs u where a: "take_budget b (\<lambda>c. json_chars (card_json c)) 0 cards = (cs, ocs, u)" by (metis prod_cases3)
  obtain ps ops u' where p: "take_budget b (\<lambda>p. json_chars (proof_json p)) u proofs = (ps, ops, u')" by (metis prod_cases3)
  obtain g og u'' where g: "take_budget b definition_chars u' resolved = (g, og, u'')" by (metis prod_cases3)
  note s = take_budget_spec[OF a] take_budget_spec[OF p] take_budget_spec[OF g]
  consider "ocs \<noteq> []" | "ocs = []" "skipped @ map fst ops = []" | "ocs = []" "skipped @ map fst ops \<noteq> []" by blast
  then show ?thesis
  proof cases
    case 1
    then have e: "e = \<lparr>e_cards = cs, e_omitted_cards = ocs, e_proofs = [], e_omitted_proofs = ordered, e_glossary = [],
         e_omitted_glossary = resolved, e_used = u, e_proof_chars = 0\<rparr>"
      using assms(1) a by (simp add: fill_envelope_def)
    show ?thesis using 1 s(1) assms(2) by (auto simp: e envelope_chars_def)
  next
    case 2
    then have e: "e = \<lparr>e_cards = cs, e_omitted_cards = [], e_proofs = ps, e_omitted_proofs = [], e_glossary = g,
              e_omitted_glossary = og, e_used = u'', e_proof_chars = u' - u\<rparr>"
      using assms(1) a p g by (simp add: fill_envelope_def)
    show ?thesis using 2 s assms(2) by (auto simp: e envelope_chars_def)
  next
    case 3
    then have e: "e = \<lparr>e_cards = cs, e_omitted_cards = [], e_proofs = ps,
             e_omitted_proofs = filter (\<lambda>i. i \<in> set (skipped @ map fst ops)) ordered,
             e_glossary = [], e_omitted_glossary = resolved, e_used = u', e_proof_chars = u' - u\<rparr>"
      using assms(1) a p by (simp add: fill_envelope_def)
    have "filter (\<lambda>i. i \<in> set (skipped @ map fst ops)) ordered \<noteq> []" if "set skipped \<union> set (map fst proofs) \<subseteq> set ordered"
    proof -
      obtain i where "i \<in> set (skipped @ map fst ops)" using 3(2) by (meson list.set_sel(1))
      moreover then have "i \<in> set ordered" using that s(2) by auto
      ultimately show ?thesis by (auto simp: filter_empty_conv)
    qed
    then show ?thesis using 3(1) s(1,2) assms(2) by (auto simp: e envelope_chars_def simp del: filter_empty_conv set_append)
  qed
qed

section \<open>What a verification context contains\<close>

definition roots_of :: "string list \<Rightarrow> string list" where
  "roots_of fact_ids = uniq (filter (\<lambda>i. i \<noteq> []) fact_ids)"

lemma verification_context_parts:
  assumes "verification_context_unlocked E fs fact_ids mx candidate expanded round budget texts exclude = Inr ctx"
  obtains ids c fit skipped resolved d where
    "proof_id_list expanded = Some ids" "expansion_error ids round budget = None"
    "closure_walk E fs (roots_of fact_ids) (start_closure (roots_of fact_ids)) = Inr c"
    "list_all (has_key (cl_raws c)) ids" "\<not> over_budget mx 0"
    "fitting_proofs (json_budget budget) 0 (map (\<lambda>(i, raw). (i, proof_of raw)) (filter (\<lambda>(i, raw). i \<in> set ids) (cl_raws c))) = (fit, skipped)"
    "ctx = verification_body (verification_scope candidate (roots_of fact_ids) round (cl_order c) (filter (\<lambda>i. i \<in> set ids) (cl_order c)) (keys resolved))
       c (fill_envelope mx (cl_cards c) (filter (\<lambda>i. i \<in> set ids) (cl_order c)) fit skipped resolved) mx budget @ [(''digest'', JStr d)]"
proof -
  have mx: "\<not> (case mx of None \<Rightarrow> False | Some n \<Rightarrow> n < 0)"
    and cand: "\<not> (case candidate of None \<Rightarrow> False | Some i \<Rightarrow> \<not> CONTENT_FACT_ID i)"
    using assms by (auto simp: verification_context_unlocked_def split: if_splits)
  obtain ids where ids: "proof_id_list expanded = Some ids"
    using assms mx cand by (auto simp: verification_context_unlocked_def split: option.splits)
  have err: "expansion_error ids round budget = None"
    using assms mx cand ids by (cases "expansion_error ids round budget") (auto simp: verification_context_unlocked_def)
  obtain c where c: "closure_walk E fs (roots_of fact_ids) (start_closure (roots_of fact_ids)) = Inr c"
    and ctx: "closure_context E fs (roots_of fact_ids) c mx candidate ids round budget texts exclude = Inr ctx"
    using assms mx cand ids err by (auto simp: verification_context_unlocked_def Let_def roots_of_def split: if_splits sum.splits)
  let ?p = "map (\<lambda>(i, raw). (i, proof_of raw)) (filter (\<lambda>(i, raw). i \<in> set ids) (cl_raws c))"
  obtain fit skipped where f: "fitting_proofs (json_budget budget) 0 ?p = (fit, skipped)" by force
  have "list_all (has_key (cl_raws c)) ids"
    using ctx by (auto simp: closure_context_def Let_def list_all_iff filter_empty_conv split: if_splits)
  moreover obtain resolved d where "ctx = verification_body (verification_scope candidate (roots_of fact_ids) round (cl_order c) (filter (\<lambda>i. i \<in> set ids) (cl_order c)) (keys resolved))
       c (fill_envelope mx (cl_cards c) (filter (\<lambda>i. i \<in> set ids) (cl_order c)) fit skipped resolved) mx budget @ [(''digest'', JStr d)]"
    using ctx f by (auto simp: closure_context_def Let_def split: if_splits list.splits sum.splits)
  moreover have "\<not> over_budget mx 0" using mx by (cases mx) (auto simp: over_budget_def)
  ultimately show ?thesis using that ids err c f by blast
qed

lemma fitting_proofs_spec:
  "fitting_proofs b u xs = (fit, skipped) \<Longrightarrow> set fit \<subseteq> set xs \<and> set skipped \<subseteq> set (map fst xs) \<and> (skipped = [] \<longrightarrow> fit = xs)"
  by (induction b u xs arbitrary: fit skipped rule: fitting_proofs.induct) (auto split: if_splits prod.splits)

lemma verification_body_get:
  "jget (verification_body scope c e mx budget @ x) ''facts'' = Some (JArr (map card_json (e_cards e)))"
  "jget (verification_body scope c e mx budget @ x) ''expanded_proofs'' = Some (JArr (map proof_json (e_proofs e)))"
  "jget (verification_body scope c e mx budget @ x) ''glossary'' = Some (str_dict (e_glossary e))"
  "jget (verification_body scope c e mx budget @ x) ''characters_used'' = Some (JInt (e_used e))"
  "jget (verification_body scope c e mx budget @ x) ''complete'' = Some (JBool (cl_missing c = [] \<and> cl_revoked c = [] \<and>
      e_omitted_cards e = [] \<and> e_omitted_glossary e = [] \<and> e_omitted_proofs e = []))"
  "jget (verification_body scope c e mx budget @ x) ''scope'' = Some (JObj scope)"
  by (simp_all add: verification_body_def)

text \<open>
  Property C25. A verification context respects its character budget: the characters it reports are
  exactly those of the cards, proofs and definitions it carries, whole records only, and never more
  than the budget.
\<close>

theorem context_bounded:
  assumes "verification_context_unlocked E fs fact_ids (Some b) candidate expanded round budget texts exclude = Inr ctx"
  shows "\<exists>u cards proofs gloss. jget ctx ''characters_used'' = Some (JInt u) \<and> u \<le> b \<and>
    jget ctx ''facts'' = Some (JArr (map card_json cards)) \<and> jget ctx ''expanded_proofs'' = Some (JArr (map proof_json proofs)) \<and>
    jget ctx ''glossary'' = Some (str_dict gloss) \<and>
    u = sum_list (map (\<lambda>c. json_chars (card_json c)) cards) + sum_list (map (\<lambda>p. json_chars (proof_json p)) proofs) +
        sum_list (map definition_chars gloss)"
proof -
  obtain ids c fit skipped resolved d scope where p: "\<not> over_budget (Some b) 0"
    and ctx: "ctx = verification_body scope c (fill_envelope (Some b) (cl_cards c) (filter (\<lambda>i. i \<in> set ids) (cl_order c)) fit skipped resolved) (Some b) budget @ [(''digest'', JStr d)]"
    using verification_context_parts[OF assms] by metis
  let ?e = "fill_envelope (Some b) (cl_cards c) (filter (\<lambda>i. i \<in> set ids) (cl_order c)) fit skipped resolved"
  have "e_used ?e = envelope_chars ?e" "e_used ?e \<le> b"
    using fill_envelope_spec[OF refl p, of "cl_cards c" "filter (\<lambda>i. i \<in> set ids) (cl_order c)" fit skipped resolved]
    by (auto simp: over_budget_def)
  then show ?thesis
    unfolding ctx verification_body_get envelope_chars_def
    by (intro exI[of _ "e_used ?e"] exI[of _ "e_cards ?e"] exI[of _ "e_proofs ?e"] exI[of _ "e_glossary ?e"]) simp
qed



section \<open>A stored fact in a context\<close>

lemma carried_closure_check:
  assumes "carries raw f refs" "addressed (env_hash E) f" "CONTENT_FACT_ID (fact_id f)"
    "\<not> exists_file fs (RevokedFact (fact_id f))" "list_all CONTENT_FACT_ID (predecessors f)" "words (statement f) \<noteq> []"
  shows "closure_check E fs (fact_id f) raw = None" and "predecessors_of E raw = predecessors f"
proof -
  have "strip (statement_of raw) \<noteq> []" using words_statement_of[OF assms(1)] assms(6) by (metis words.simps(1) words_strip)
  then show "closure_check E fs (fact_id f) raw = None"
    using carried_intact[OF assms(1-3)] assms(4,5)
    by (simp add: closure_check_def check_fact_def predecessors_of_def parse_carried[OF assms(1)] fail_if_def then_check_def)
  show "predecessors_of E raw = predecessors f" by (simp add: predecessors_of_def parse_carried[OF assms(1)])
qed

definition example_env :: graph_env where
  "example_env = \<lparr>env_hash = sha256_hex, env_float = id, env_global = []\<rparr>"

definition example_files :: files where
  "example_files = [(ActiveFact (fact_id example_fact), serialize_fact example_fact)]"

lemma example_closure:
  "\<exists>c. closure_walk example_env example_files [fact_id example_fact] (start_closure [fact_id example_fact]) = Inr c \<and>
     cl_order c = [fact_id example_fact] \<and> cl_missing c = [] \<and> cl_revoked c = []"
proof -
  let ?i = "fact_id example_fact" and ?raw = "read_text (serialize_fact example_fact)"
  have c: "carries ?raw example_fact (dumps ascii_fmt (JArr (map JObj (external_refs example_fact))))"
    using serialize_carries[OF example_fact_storable] by (simp add: carries_read_text)
  have h: "CONTENT_FACT_ID ?i" using sha.digest_prefix[of 16] by (simp add: example_fact_def compute_fact_id_def)
  have a: "addressed (env_hash example_env) example_fact" by (simp add: addressed_def example_fact_def example_env_def)
  have nr: "\<not> exists_file example_files (RevokedFact ?i)" by (simp add: exists_file_def example_files_def)
  have pw: "list_all CONTENT_FACT_ID (predecessors example_fact)" "words (statement example_fact) \<noteq> []"
    by (simp_all add: example_fact_def is_space_def)
  have ps: "predecessors_of example_env ?raw = []"
    using carried_closure_check(2)[OF c a h nr pw] by (simp add: example_fact_def)
  have g: "get_raw_unchecked example_files ?i = Inr (Some ?raw)"
    using hex16_safe[OF h] by (simp add: get_raw_unchecked_def example_files_def)
  show ?thesis
    using h g ps carried_closure_check(1)[OF c a h nr pw]
    by (simp add: closure_walk.simps closure_present_def start_closure_def fresh_def)
qed

theorem closure_exact_witness:
  "\<exists>c. closure_walk example_env example_files [fact_id example_fact] (start_closure [fact_id example_fact]) = Inr c \<and>
     set (cl_order c) = {i. \<exists>r \<in> {fact_id example_fact}. (pred_edge example_env example_files)\<^sup>*\<^sup>* r i} \<and>
     map card_id (cl_cards c) = [fact_id example_fact]"
proof -
  let ?i = "fact_id example_fact"
  obtain c where c: "closure_walk example_env example_files [?i] (start_closure [?i]) = Inr c" "cl_order c = [?i]"
    using example_closure by blast
  have "raw_of example_files ?i \<noteq> None" by (simp add: raw_of_def example_files_def)
  then show ?thesis using closure_exact[OF _ c(1)] c by auto
qed

lemma finite_parts [simp]:
  "all_finite (str_list xs)" "all_finite (str_dict d)" "all_finite (card_json c)" "all_finite (proof_json p)"
  by (auto simp: str_list_def str_dict_def card_json_def proof_json_def list_all_iff split: option.splits prod.splits)

lemma body_digest:
  assumes "expansion_error ids round budget = None"
  shows "verification_context_digest E (verification_body (verification_scope cand roots round ord st terms) c e mx budget) =
    Inr (sha_digest E (JObj (verification_body (verification_scope cand roots round ord st terms) c e mx budget)))"
proof -
  have "all_finite round" "all_finite budget"
    using assms by (auto simp: expansion_error_def split: json.splits)
  then show ?thesis
    by (simp add: verification_context_digest_def verification_body_def verification_scope_def list_all_iff split: option.splits)
qed

lemma example_context:
  "\<exists>ctx. verification_context_unlocked example_env example_files [fact_id example_fact] mx None JNull (JInt 0) JNull [] [] = Inr ctx \<and>
     (mx = None \<longrightarrow> jget ctx ''complete'' = Some (JBool True))" if "mx = None \<or> mx = Some 100000"
proof -
  let ?i = "fact_id example_fact"
  obtain c where c: "closure_walk example_env example_files [?i] (start_closure [?i]) = Inr c" "cl_missing c = []" "cl_revoked c = []"
    using example_closure by blast
  have h: "CONTENT_FACT_ID ?i" using sha.digest_prefix[of 16] by (simp add: example_fact_def compute_fact_id_def)
  then have r: "uniq (filter (\<lambda>i. i \<noteq> []) [?i]) = [?i]" by (auto simp: hex_of_len_def)
  have x: "expansion_error [] (JInt 0) JNull = None" by (simp add: expansion_error_def)
  have "\<exists>ctx. closure_context example_env example_files [?i] c mx None [] (JInt 0) JNull [] [] = Inr ctx \<and>
      (mx = None \<longrightarrow> jget ctx ''complete'' = Some (JBool True))"
    using that c(2,3)
    by (auto simp: closure_context_def resolved_glossary_for_texts_def body_digest[OF x] Let_def verification_body_get
        fill_envelope_def take_budget_unbounded simp del: map_of_append)
  then show ?thesis
    using that c h x r by (auto simp: verification_context_unlocked_def proof_id_list_def Let_def)
qed

theorem context_bounded_witness:
  "\<exists>ctx u. verification_context_unlocked example_env example_files [fact_id example_fact] (Some 100000) None JNull (JInt 0) JNull [] [] = Inr ctx \<and>
     jget ctx ''characters_used'' = Some (JInt u) \<and> u \<le> 100000"
proof -
  obtain ctx where ctx: "verification_context_unlocked example_env example_files [fact_id example_fact] (Some 100000) None JNull (JInt 0) JNull [] [] = Inr ctx"
    using example_context[of "Some 100000"] by blast
  from context_bounded[OF ctx] ctx show ?thesis by blast
qed


end
