(* ===== verification/Storage.thy ===== *)
theory Storage
  imports FactContext
begin

text \<open>
  Durable storage as \<open>src/danus/core/factgraph.py\<close> uses it. A disk has its visible files and, for every
  file changed since its directory was last synchronised, the older contents that may come back
  after a loss of power. A computation runs on a disk under a schedule of faults: each primitive
  step succeeds, fails with an operating system error, or is where the process stops. The exception
  of the code is an outcome, so that its handlers and its \<open>finally\<close> order are part of the model.
\<close>

section \<open>Disks\<close>

datatype dir = ProjectDir | RootDir | FactsDir | RevokedDir

fun dir_of :: "path \<Rightarrow> dir" where
  "dir_of (ActiveFact i) = FactsDir"
| "dir_of (RevokedFact i) = RevokedDir"
| "dir_of _ = RootDir"

record disk =
  vis :: files
  pend :: "(path \<times> string option) list"

definition put :: "path \<Rightarrow> string option \<Rightarrow> disk \<Rightarrow> disk" where
  "put p v d = d\<lparr>vis := (case v of None \<Rightarrow> AList.delete p (vis d) | Some t \<Rightarrow> AList.update p t (vis d)),
     pend := (p, map_of (vis d) p) # pend d\<rparr>"

definition sync :: "dir \<Rightarrow> disk \<Rightarrow> disk" where
  "sync r d = d\<lparr>pend := filter (\<lambda>(p, v). dir_of p \<noteq> r) (pend d)\<rparr>"

abbreviation cur :: "disk \<Rightarrow> path \<Rightarrow> string option" where
  "cur d p \<equiv> map_of (vis d) p"

definition poss :: "disk \<Rightarrow> path \<Rightarrow> string option set" where
  "poss d p = insert (cur d p) {v. (p, v) \<in> set (pend d)}"

text \<open>The states of the files after a loss of power.\<close>

definition survives :: "disk \<Rightarrow> files \<Rightarrow> bool" where
  "survives d fs \<longleftrightarrow> (\<forall>p. map_of fs p \<in> poss d p)"

lemma cur_put [simp]: "cur (put p v d) q = (if q = p then v else cur d q)"
  by (simp add: put_def update_conv' delete_conv' split: option.split)

lemma poss_put [simp]: "poss (put p v d) q = (if q = p then insert v (poss d q) else poss d q)"
  by (auto simp: poss_def) (auto simp: put_def)

lemma cur_sync [simp]: "cur (sync r d) q = cur d q"
  by (simp add: sync_def)

lemma poss_sync [simp]: "poss (sync r d) q = (if dir_of q = r then {cur d q} else poss d q)"
  by (auto simp: poss_def sync_def)

lemma cur_poss [simp]: "cur d p \<in> poss d p"
  by (simp add: poss_def)

lemma survives_vis: "survives d (vis d)"
  by (simp add: survives_def)

section \<open>Computations\<close>

datatype fault = Go | Fail | Stop

datatype add_error =
    BadProblemId
  | BadAuthor
  | StatementBoundary
  | IntuitionBoundary
  | DuplicatePredecessor
  | BadReferences schema_error
  | PredecessorRevoked string
  | PredecessorUnknown string
  | FactRevoked
  | GlossaryConflict "string list"
  | UnknownFact
  | MalformedFactFile
  | ContextChanged
  | GlossaryInconsistent string
  | RevocationLogCorrupt
  | BothStoresActive string
  | PendingFactDisappeared string

datatype graph_exc =
    OsError
  | Err graph_error
  | Refused add_error
  | RecoveryError
  | RecoveryRequired
  | OutcomeUnknown

datatype 'a outcome = Ok 'a | Raised graph_exc | Crashed

type_synonym 'a io = "fault list \<Rightarrow> disk \<Rightarrow> 'a outcome \<times> fault list \<times> disk"

definition io_return :: "'a \<Rightarrow> 'a io" where
  "io_return x fl d = (Ok x, fl, d)"

definition io_raise :: "graph_exc \<Rightarrow> 'a io" where
  "io_raise e fl d = (Raised e, fl, d)"

definition io_bind :: "'a io \<Rightarrow> ('a \<Rightarrow> 'b io) \<Rightarrow> 'b io" where
  "io_bind m f fl d =
     (case m fl d of
        (Ok x, fl', d') \<Rightarrow> f x fl' d'
      | (Raised e, fl', d') \<Rightarrow> (Raised e, fl', d')
      | (Crashed, fl', d') \<Rightarrow> (Crashed, fl', d'))"

definition io_try :: "'a io \<Rightarrow> (graph_exc \<Rightarrow> 'a io) \<Rightarrow> 'a io" where
  "io_try m h fl d =
     (case m fl d of
        (Raised e, fl', d') \<Rightarrow> h e fl' d'
      | r \<Rightarrow> r)"

abbreviation io_then :: "'a io \<Rightarrow> 'b io \<Rightarrow> 'b io" where
  "io_then m n \<equiv> io_bind m (\<lambda>_. n)"

text \<open>Reading the visible files takes no step of the schedule.\<close>

definition io_read :: "(files \<Rightarrow> 'a) \<Rightarrow> 'a io" where
  "io_read f fl d = (Ok (f (vis d)), fl, d)"

definition io_lift :: "(files \<Rightarrow> graph_exc + 'a) \<Rightarrow> 'a io" where
  "io_lift f fl d = (case f (vis d) of Inl e \<Rightarrow> (Raised e, fl, d) | Inr x \<Rightarrow> (Ok x, fl, d))"

definition prim :: "(disk \<Rightarrow> disk) \<Rightarrow> unit io" where
  "prim eff fl d =
     (case fl of
        [] \<Rightarrow> (Ok (), [], eff d)
      | Go # fl' \<Rightarrow> (Ok (), fl', eff d)
      | Fail # fl' \<Rightarrow> (Raised OsError, fl', d)
      | Stop # fl' \<Rightarrow> (Crashed, fl', d))"

section \<open>The file operations\<close>

definition fsync_directory :: "dir \<Rightarrow> unit io" where
  "fsync_directory r = prim (sync r)"

definition fsync_directory_with_retry :: "dir \<Rightarrow> unit io" where
  "fsync_directory_with_retry r = io_try (fsync_directory r) (\<lambda>_. fsync_directory r)"

fun parent_dir :: "dir \<Rightarrow> dir" where
  "parent_dir FactsDir = RootDir"
| "parent_dir RevokedDir = RootDir"
| "parent_dir RootDir = ProjectDir"
| "parent_dir ProjectDir = ProjectDir"

text \<open>\<open>mkdir(parents=True, exist_ok=True)\<close>, then the barrier on the parent. Directories themselves are
  not part of the model: making one changes no file.\<close>

definition mkdir_durable :: "dir \<Rightarrow> unit io" where
  "mkdir_durable r = io_then (prim id) (fsync_directory_with_retry (parent_dir r))"

text \<open>The temporary file is written and synchronised (the first step), then renamed over the target,
  then the directory is synchronised.\<close>

definition atomic_write_text :: "path \<Rightarrow> string \<Rightarrow> unit io" where
  "atomic_write_text p t =
     io_then (mkdir_durable (dir_of p))
       (io_then (prim id) (io_then (prim (put p (Some t))) (fsync_directory (dir_of p))))"

definition unlink_durable :: "path \<Rightarrow> unit io" where
  "unlink_durable p =
     io_bind (io_read (\<lambda>fs. exists_file fs p)) (\<lambda>e.
       io_then (if e then prim (put p None) else io_return ()) (fsync_directory_with_retry (dir_of p)))"

definition set_file :: "path \<Rightarrow> string option \<Rightarrow> unit io" where
  "set_file p v = (case v of Some t \<Rightarrow> atomic_write_text p t | None \<Rightarrow> unlink_durable p)"

section \<open>What the operations do under faults\<close>

text \<open>A step that may set one file, and one that has set it durably; other files keep their contents.\<close>

definition changes :: "path \<Rightarrow> string option \<Rightarrow> disk \<Rightarrow> disk \<Rightarrow> bool" where
  "changes p v d d' \<longleftrightarrow> (\<forall>q. q \<noteq> p \<longrightarrow> cur d' q = cur d q \<and> poss d' q \<subseteq> poss d q) \<and>
     poss d' p \<subseteq> insert v (poss d p) \<and> cur d' p \<in> {cur d p, v}"

definition calms :: "disk \<Rightarrow> disk \<Rightarrow> bool" where
  "calms d d' \<longleftrightarrow> (\<forall>q. cur d' q = cur d q \<and> poss d' q \<subseteq> poss d q)"

lemma calms_refl [simp]: "calms d d"
  by (simp add: calms_def)

lemma calms_trans: "calms a b \<Longrightarrow> calms b c \<Longrightarrow> calms a c"
  by (fastforce simp: calms_def)

lemma calms_changes: "calms d d' \<Longrightarrow> changes p v d d'"
  by (auto simp: calms_def changes_def)

lemma changes_calms: "changes p v a b \<Longrightarrow> calms b c \<Longrightarrow> changes p v a c"
  by (fastforce simp: calms_def changes_def)

lemma calms_changes_trans: "calms a b \<Longrightarrow> changes p v b c \<Longrightarrow> changes p v a c"
  by (fastforce simp: calms_def changes_def)

lemma put_changes: "changes p v d (put p v d)"
  by (auto simp: changes_def)

lemma sync_calms: "calms d (sync r d)"
  by (auto simp: calms_def)

lemma prim_cases:
  assumes "prim eff fl d = (r, fl', d')"
  obtains "r = Ok ()" "d' = eff d" | "r = Raised OsError" "d' = d" | "r = Crashed" "d' = d"
  using assms by (auto simp: prim_def split: list.splits fault.splits)

lemma fsync_cases:
  assumes "fsync_directory s fl d = (r, fl', d')"
  obtains "r = Ok ()" "d' = sync s d" | "r = Raised OsError" "d' = d" | "r = Crashed" "d' = d"
  using assms unfolding fsync_directory_def by (rule prim_cases)

lemma fsync_retry_cases:
  assumes "fsync_directory_with_retry s fl d = (r, fl', d')"
  obtains "r = Ok ()" "d' = sync s d" | "r = Raised OsError" "d' = d" | "r = Crashed" "d' = d"
proof -
  obtain r1 f1 d1 where 1: "fsync_directory s fl d = (r1, f1, d1)" by (metis prod_cases3)
  from 1 show ?thesis
  proof (cases rule: fsync_cases)
    case 2
    then have "fsync_directory s f1 d = (r, fl', d')" using assms 1 by (simp add: fsync_directory_with_retry_def io_try_def)
    then show ?thesis by (cases rule: fsync_cases) (auto intro: that)
  qed (use assms 1 that in \<open>auto simp: fsync_directory_with_retry_def io_try_def\<close>)
qed

lemma mkdir_cases:
  assumes "mkdir_durable s fl d = (r, fl', d')"
  obtains "r = Ok ()" "calms d d'" | "r = Raised OsError" "d' = d" | "r = Crashed" "d' = d"
proof -
  obtain r1 f1 d1 where 1: "prim id fl d = (r1, f1, d1)" by (metis prod_cases3)
  from 1 show ?thesis
  proof (cases rule: prim_cases)
    case 1
    then have "fsync_directory_with_retry (parent_dir s) f1 d = (r, fl', d')"
      using assms \<open>prim id fl d = _\<close> by (simp add: mkdir_durable_def io_bind_def)
    then show ?thesis by (cases rule: fsync_retry_cases) (auto intro: that sync_calms)
  qed (use assms 1 that in \<open>auto simp: mkdir_durable_def io_bind_def\<close>)
qed

lemma atomic_write_cases:
  assumes "atomic_write_text p t fl d = (r, fl', d')"
  obtains "r = Ok ()" "changes p (Some t) d d'" "poss d' p = {Some t}"
    | "r = Raised OsError" "changes p (Some t) d d'" | "r = Crashed" "changes p (Some t) d d'"
proof -
  obtain r1 f1 d1 where 1: "mkdir_durable (dir_of p) fl d = (r1, f1, d1)" by (metis prod_cases3)
  obtain r2 f2 d2 where 2: "prim id f1 d1 = (r2, f2, d2)" by (metis prod_cases3)
  obtain r3 f3 d3 where 3: "prim (put p (Some t)) f2 d2 = (r3, f3, d3)" by (metis prod_cases3)
  note a = assms[unfolded atomic_write_text_def io_bind_def 1]
  from 1 show ?thesis
  proof (cases rule: mkdir_cases)
    case c1: 1
    from 2 show ?thesis
    proof (cases rule: prim_cases)
      case c2: 1
      from 3 show ?thesis
      proof (cases rule: prim_cases)
        case c3: 1
        have 4: "fsync_directory (dir_of p) f3 d3 = (r, fl', d')" using a c1 c2 c3 2 3 by simp
        have ch: "changes p (Some t) d d3"
          using c1 c2 c3 put_changes calms_changes_trans by simp
        from 4 show ?thesis
        proof (cases rule: fsync_cases)
          case 1
          have "poss d' p = {Some t}" using 1 c3 by simp
          then show ?thesis using that(1) 1 changes_calms[OF ch sync_calms] by simp
        qed (use that ch in auto)
      qed (use a c1 c2 2 3 that calms_changes in auto)
    qed (use a c1 2 that calms_changes in auto)
  qed (use a that calms_changes[OF calms_refl] in auto)
qed

lemma unlink_cases:
  assumes "unlink_durable p fl d = (r, fl', d')"
  obtains "r = Ok ()" "changes p None d d'" "poss d' p = {None}"
    | "r = Raised OsError" "changes p None d d'" | "r = Crashed" "changes p None d d'"
proof -
  let ?m = "if cur d p = None then io_return () else prim (put p None)"
  obtain r1 f1 d1 where 1: "?m fl d = (r1, f1, d1)" by (metis prod_cases3)
  have a: "(case r1 of Ok _ \<Rightarrow> fsync_directory_with_retry (dir_of p) f1 d1 | Raised e \<Rightarrow> (Raised e, f1, d1) | Crashed \<Rightarrow> (Crashed, f1, d1)) = (r, fl', d')"
    using assms 1 by (auto simp: unlink_durable_def io_bind_def io_read_def exists_file_def split: outcome.splits if_splits)
  have c: "(r1 = Ok () \<and> changes p None d d1 \<and> cur d1 p = None) \<or> ((r1 = Raised OsError \<or> r1 = Crashed) \<and> d1 = d)"
  proof (cases "cur d p = None")
    case True
    then show ?thesis using 1 by (auto simp: io_return_def calms_changes)
  next
    case False
    have "prim (put p None) fl d = (r1, f1, d1)" using 1 unfolding if_not_P[OF False] .
    then show ?thesis by (cases rule: prim_cases) (auto simp: put_changes)
  qed
  then show ?thesis
  proof (elim disjE conjE)
    assume c: "r1 = Ok ()" "changes p None d d1" "cur d1 p = None"
    then have "fsync_directory_with_retry (dir_of p) f1 d1 = (r, fl', d')" using a by simp
    then show ?thesis
    proof (cases rule: fsync_retry_cases)
      case 1
      then show ?thesis using that(1) c changes_calms[OF c(2) sync_calms] by simp
    qed (use that c in auto)
  qed (use a that calms_changes[OF calms_refl] in auto)
qed

end
