(* ===== verification/FactIdentity.thy ===== *)
theory FactIdentity
  imports FactContext
begin

text \<open>
  The full fact identity of \<open>src/danus/core/factgraph.py\<close>:
  \<open>fact_identity_from_verification_context\<close>, \<open>_canonical_fact_identity_unlocked\<close>, and the exact lookups
  of an active fact.
\<close>

section \<open>Identity from a context\<close>

definition content_ids :: "json \<Rightarrow> string list option" where
  "content_ids v =
     (case v of
        JArr xs \<Rightarrow> if list_all (\<lambda>x. is_str x \<and> CONTENT_FACT_ID (to_str x)) xs then Some (map to_str xs) else None
      | _ \<Rightarrow> None)"

definition is_sha_digest :: "string \<Rightarrow> bool" where
  "is_sha_digest s \<longleftrightarrow> prefix ''sha256:'' s \<and> is_hex64 (drop 7 s)"

definition without_digest :: "jobj \<Rightarrow> jobj" where
  "without_digest ctx = filter (\<lambda>(k, v). k \<noteq> ''digest'') ctx"

definition check_digest :: "graph_env \<Rightarrow> jobj \<Rightarrow> graph_error option" where
  "check_digest E ctx =
     (case jget_or_null ctx ''digest'' of
        JStr d \<Rightarrow>
          if \<not> is_sha_digest d then Some IdentityDigest
          else (case verification_context_digest E (without_digest ctx) of
              Inl e \<Rightarrow> Some e
            | Inr d' \<Rightarrow> fail_if (d' \<noteq> d) IdentityDigest)
      | _ \<Rightarrow> Some IdentityDigest)"

text \<open>The context must be the complete round zero snapshot of this very candidate.\<close>

definition exact_scope :: "jobj \<Rightarrow> string \<Rightarrow> string list \<Rightarrow> bool" where
  "exact_scope scope candidate preds \<longleftrightarrow>
     jget_or_null scope ''projection'' = JStr VERIFICATION_CONTEXT_PROJECTION \<and>
     jget_or_null scope ''candidate_fact_id'' = JStr candidate \<and>
     jget_or_null scope ''requested_fact_ids'' = str_list preds \<and>
     jget_or_null scope ''predecessor_depth'' = JNull \<and>
     jget_or_null scope ''proof_mode'' = JStr ''adaptive'' \<and>
     jget_or_null scope ''include_project_glossary'' = JBool False \<and>
     py_eq_int (jget_or_null scope ''expansion_round'') 0 \<and>
     jget_or_null scope ''expanded_proof_ids'' = JArr []"

definition exact_snapshot :: "jobj \<Rightarrow> bool" where
  "exact_snapshot ctx \<longleftrightarrow>
     py_eq_int (jget_or_null ctx ''schema_version'') VERIFICATION_CONTEXT_SCHEMA_VERSION \<and>
     jget_or_null ctx ''expanded_proofs'' = JArr [] \<and>
     jget_or_null ctx ''complete'' = JBool True \<and> jget_or_null ctx ''truncated'' = JBool False \<and>
     list_all (\<lambda>k. jget_or_null ctx k = JArr [])
       [''missing_fact_ids'', ''revoked_fact_ids'', ''omitted_fact_ids'', ''omitted_glossary_terms'', ''omitted_expanded_proof_ids'']"

definition parse_card :: "json \<Rightarrow> fact_card option" where
  "parse_card v =
     (case v of
        JObj r \<Rightarrow>
          if \<not> exact_keys r [''fact_id'', ''statement'', ''predecessors'', ''glossary_introduces''] then None
          else (case (jget_or_null r ''fact_id'', jget_or_null r ''statement'',
                   content_ids (jget_or_null r ''predecessors''), string_dict (jget_or_null r ''glossary_introduces'')) of
              (JStr i, JStr s, Some ps, Some g) \<Rightarrow>
                if CONTENT_FACT_ID i \<and> distinct ps
                then Some \<lparr>card_id = i, card_statement = s, card_predecessors = ps, card_glossary = g, card_proof = None\<rparr>
                else None
            | _ \<Rightarrow> None)
      | _ \<Rightarrow> None)"

fun parse_cards :: "json list \<Rightarrow> fact_card list option" where
  "parse_cards [] = Some []"
| "parse_cards (v # vs) =
     (case parse_card v of
        None \<Rightarrow> None
      | Some c \<Rightarrow> map_option (Cons c) (parse_cards vs))"

definition canonical_card :: "fact_card \<Rightarrow> json" where
  "canonical_card c = JObj [(''fact_id'', JStr (card_id c)), (''statement'', JStr (normalize (card_statement c))),
     (''predecessors'', str_list (sort (card_predecessors c))),
     (''glossary_introduces'', str_dict (map (\<lambda>(t, d). (t, normalize d)) (card_glossary c)))]"

definition context_bindings :: "json \<Rightarrow> json \<Rightarrow> fact_card list \<Rightarrow> json" where
  "context_bindings version projection cards =
     JObj [(''schema_version'', version), (''projection'', projection),
       (''closure_fact_ids'', str_list (sort (map card_id cards))),
       (''facts'', JArr (map canonical_card (sort_key card_id cards)))]"

definition bind_identity ::
    "graph_env \<Rightarrow> json \<Rightarrow> json \<Rightarrow> fact_card list \<Rightarrow> string dict \<Rightarrow> string \<Rightarrow> string list \<Rightarrow> string dict \<Rightarrow> string \<Rightarrow> string
     \<Rightarrow> graph_error + string" where
  "bind_identity E version projection cards glossary pid preds gloss stmt prf =
     (case compute_fact_identity (env_hash E) pid (sort preds) gloss stmt prf
         (context_bindings version projection cards)
         (select_referenced_definitions
            (stmt # prf # map snd gloss @ concat (map (\<lambda>c. card_statement c # map snd (card_glossary c)) cards)) glossary) of
        None \<Rightarrow> Inl NotFinite
      | Some i \<Rightarrow> Inr i)"

definition fact_identity_from_verification_context ::
    "graph_env \<Rightarrow> jobj \<Rightarrow> string \<Rightarrow> string list \<Rightarrow> string dict \<Rightarrow> string \<Rightarrow> string \<Rightarrow> graph_error + string" where
  "fact_identity_from_verification_context E ctx pid preds gloss stmt prf =
     (if pid = [] then Inl IdentityProblemId
      else if \<not> list_all CONTENT_FACT_ID preds then Inl IdentityPredecessors
      else if \<not> distinct preds then Inl IdentityDuplicatePredecessors
      else (case check_digest E ctx of
          Some e \<Rightarrow> Inl e
        | None \<Rightarrow>
          (case (jget_or_null ctx ''scope'', jget_or_null ctx ''facts'', string_dict (jget_or_null ctx ''glossary'')) of
             (JObj scope, JArr facts, Some glossary) \<Rightarrow>
               if \<not> (exact_snapshot ctx \<and> exact_scope scope (compute_fact_id (env_hash E) pid preds gloss stmt prf) preds \<and>
                     list_all (\<lambda>(t, d). \<not> has_key glossary t) gloss) then Inl IdentityContext
               else (case content_ids (jget_or_null scope ''closure_fact_ids'') of
                   None \<Rightarrow> Inl IdentityClosure
                 | Some closure \<Rightarrow>
                   if \<not> distinct closure then Inl IdentityClosureDuplicates
                   else (case parse_cards facts of
                       None \<Rightarrow> Inl IdentityFactCard
                     | Some cards \<Rightarrow>
                       if map card_id cards \<noteq> closure then Inl IdentityBinding
                       else bind_identity E (jget_or_null ctx ''schema_version'') (jget_or_null scope ''projection'')
                              cards glossary pid preds gloss stmt prf))
           | _ \<Rightarrow> Inl IdentityContext)))"

section \<open>The identity of a candidate in the graph\<close>

definition canonical_fact_identity_unlocked ::
    "graph_env \<Rightarrow> files \<Rightarrow> string \<Rightarrow> string list \<Rightarrow> string dict \<Rightarrow> string \<Rightarrow> string \<Rightarrow> string \<Rightarrow> graph_error + string" where
  "canonical_fact_identity_unlocked E fs pid preds gloss stmt prf fid =
     (case verification_context_unlocked E fs (sort preds) None (Some fid) (JArr []) (JInt 0) JNull
         (stmt # prf # map snd gloss) (keys gloss) of
        Inl e \<Rightarrow> Inl e
      | Inr ctx \<Rightarrow>
          if jget_or_null ctx ''complete'' \<noteq> JBool True \<or> jget_or_null ctx ''truncated'' \<noteq> JBool False \<or>
             list_ex (\<lambda>k. truthy (jget_or_null ctx k))
               [''missing_fact_ids'', ''revoked_fact_ids'', ''omitted_fact_ids'', ''omitted_glossary_terms'', ''omitted_expanded_proof_ids'']
          then Inl IdentityIncomplete
          else fact_identity_from_verification_context E ctx pid (sort preds) gloss stmt prf)"

definition recorded_mismatch :: "frontmatter \<Rightarrow> string \<Rightarrow> bool" where
  "recorded_mismatch m i \<longleftrightarrow> (case fm_identity m of None \<Rightarrow> False | Some j \<Rightarrow> j \<noteq> i)"

definition active_fact_identity_unlocked :: "graph_env \<Rightarrow> files \<Rightarrow> string \<Rightarrow> graph_error + string option" where
  "active_fact_identity_unlocked E fs fid =
     (if \<not> CONTENT_FACT_ID fid then Inl InvalidFactId
      else (case get_raw_unchecked fs fid of
          Inl e \<Rightarrow> Inl e
        | Inr None \<Rightarrow> Inr None
        | Inr (Some raw) \<Rightarrow>
          (let m = parse_frontmatter (env_float E) raw in
           case check_fact E fs fid raw m of
             Some e \<Rightarrow> Inl e
           | None \<Rightarrow>
             (case canonical_fact_identity_unlocked E fs (fm_problem_id m) (fm_predecessors m) (fm_glossary m)
                 (statement_of raw) (proof_of raw) fid of
                Inl e \<Rightarrow> Inl e
              | Inr i \<Rightarrow> if recorded_mismatch m i then Inl FullIdentityMismatch else Inr (Some i)))))"

definition lookup_active_exact_identity_unlocked ::
    "graph_env \<Rightarrow> files \<Rightarrow> string \<Rightarrow> string list \<Rightarrow> string dict \<Rightarrow> string \<Rightarrow> string \<Rightarrow> string
     \<Rightarrow> graph_error + (string \<times> string) option" where
  "lookup_active_exact_identity_unlocked E fs pid preds gloss stmt prf fid =
     (case get_raw_unchecked fs fid of
        Inl e \<Rightarrow> Inl e
      | Inr None \<Rightarrow> Inr None
      | Inr (Some raw) \<Rightarrow>
          (let m = parse_frontmatter (env_float E) raw in
           case check_fact E fs fid raw m of
             Some e \<Rightarrow> Inl e
           | None \<Rightarrow>
             (case canonical_fact_identity_unlocked E fs pid preds gloss stmt prf fid of
                Inl e \<Rightarrow> Inl e
              | Inr candidate \<Rightarrow>
                (case canonical_fact_identity_unlocked E fs (fm_problem_id m) (fm_predecessors m) (fm_glossary m)
                    (statement_of raw) (proof_of raw) fid of
                   Inl e \<Rightarrow> Inl e
                 | Inr existing \<Rightarrow>
                   if recorded_mismatch m existing then Inl FullIdentityMismatch
                   else if candidate \<noteq> existing then Inl IdentityCollision
                   else Inr (Some (fid, existing))))))"

text \<open>The public lookup, without the lock: the caller's lists are filtered and the short id computed.\<close>

definition lookup_active_exact_identity ::
    "graph_env \<Rightarrow> files \<Rightarrow> string \<Rightarrow> string \<Rightarrow> string \<Rightarrow> string list \<Rightarrow> string dict \<Rightarrow> graph_error + (string \<times> string) option" where
  "lookup_active_exact_identity E fs pid stmt prf preds gloss =
     (let roots = filter (\<lambda>p. p \<noteq> []) preds in
      lookup_active_exact_identity_unlocked E fs pid roots gloss stmt prf
        (compute_fact_id (env_hash E) pid roots gloss stmt prf))"

definition lookup_active_exact ::
    "graph_env \<Rightarrow> files \<Rightarrow> string \<Rightarrow> string \<Rightarrow> string \<Rightarrow> string list \<Rightarrow> string dict \<Rightarrow> graph_error + string option" where
  "lookup_active_exact E fs pid stmt prf preds gloss =
     map_sum id (map_option fst) (lookup_active_exact_identity E fs pid stmt prf preds gloss)"

section \<open>A complete context always yields an identity\<close>

lemma content_ids_str_list: "list_all CONTENT_FACT_ID xs \<Longrightarrow> content_ids (str_list xs) = Some xs"
  by (auto simp: content_ids_def str_list_def is_str_def to_str_def list_all_iff comp_def)

lemma string_dict_str_dict: "string_dict (str_dict d) = Some d"
  by (auto simp: string_dict_def str_dict_def is_str_def to_str_def list_all_iff comp_def case_prod_beta)

lemma parse_card_json:
  assumes "card_proof c = None" "CONTENT_FACT_ID (card_id c)" "list_all CONTENT_FACT_ID (card_predecessors c)" "distinct (card_predecessors c)"
  shows "parse_card (card_json c) = Some c"
  using assms by (simp add: parse_card_def card_json_def exact_keys_def jget_or_null_def content_ids_str_list string_dict_str_dict)

lemma parse_cards_json:
  "list_all (\<lambda>c. card_proof c = None \<and> CONTENT_FACT_ID (card_id c) \<and> list_all CONTENT_FACT_ID (card_predecessors c) \<and> distinct (card_predecessors c)) cs
   \<Longrightarrow> parse_cards (map card_json cs) = Some cs"
  by (induction cs) (auto simp: parse_card_json)

lemma canonical_card_finite: "all_finite (context_bindings (JInt v) (JStr p) cards)"
  by (auto simp: context_bindings_def canonical_card_def list_all_iff)

lemma bind_identity_total: "\<exists>x. bind_identity E (JInt v) (JStr p) cards g pid preds gloss stmt prf = Inr (env_hash E x)"
proof -
  have "all_finite (fact_identity_body pid (sort preds) gloss stmt prf (context_bindings (JInt v) (JStr p) cards) d)" for d
    using canonical_card_finite by (simp add: fact_identity_body_def normalized_dict_def)
  then show ?thesis by (auto simp: bind_identity_def compute_fact_identity_def Let_def)
qed

lemma resolved_excluded:
  "resolved_glossary_for_texts E fs texts exclude inc = Inr r \<Longrightarrow> t \<in> set exclude \<Longrightarrow> \<not> has_key r t"
proof -
  assume r: "resolved_glossary_for_texts E fs texts exclude inc = Inr r" and t: "t \<in> set exclude"
  then obtain av where "r = select_referenced_definitions texts (filter (\<lambda>(t, d). t \<noteq> [] \<and> t \<notin> set exclude) av)"
    by (auto simp: resolved_glossary_for_texts_def split: sum.splits)
  then have "set r \<subseteq> set (filter (\<lambda>(t, d). t \<noteq> [] \<and> t \<notin> set exclude) av)"
    by (auto simp: select_referenced_definitions_def set_select_loop dest: referenced_available)
  then show ?thesis using t by auto
qed


definition context_glossary :: "graph_env \<Rightarrow> closure \<Rightarrow> string dict \<Rightarrow> string \<Rightarrow> string \<Rightarrow> string dict" where
  "context_glossary E c gloss stmt prf =
     select_referenced_definitions ((stmt # prf # map snd gloss) @ concat (map card_texts (cl_cards c)))
       (filter (\<lambda>(t, d). t \<noteq> [] \<and> t \<notin> set (keys gloss @ concat (map (\<lambda>k. keys (card_glossary k)) (cl_cards c))))
         (dict_update (env_global E) []))"

lemma compute_fact_id_sort [simp]: "compute_fact_id H pid (sort ps) g s p = compute_fact_id H pid ps g s p"
  by (simp add: compute_fact_id_def fact_id_body_def sorted_sort_id)

definition closure_sound :: "graph_env \<Rightarrow> files \<Rightarrow> string list \<Rightarrow> closure \<Rightarrow> bool" where
  "closure_sound E fs preds c \<longleftrightarrow> closure_walk E fs (sort preds) (start_closure (sort preds)) = Inr c \<and>
     cl_missing c = [] \<and> cl_revoked c = [] \<and> list_all (\<lambda>k. distinct (card_predecessors k)) (cl_cards c)"

lemma sound_cards:
  assumes "closure_sound E fs preds c" "distinct preds"
  shows "map card_id (cl_cards c) = cl_order c" "distinct (cl_order c)" "list_all CONTENT_FACT_ID (cl_order c)" "cl_discovered c = cl_order c"
    "parse_cards (map card_json (cl_cards c)) = Some (cl_cards c)"
proof -
  have d: "distinct (sort preds)" using assms(2) by simp
  have w: "closure_walk E fs (sort preds) (start_closure (sort preds)) = Inr c" using assms(1) by (simp add: closure_sound_def)
  have inv: "closure_inv E fs (sort preds) [] c" using closure_walk_inv[OF start_closure_inv[OF d] w] .
  then have l: "closure_lists E fs c" and disc: "cl_discovered c = cl_order c" by (auto simp: closure_inv_def)
  have ids: "map fst (raws_of fs is) = filter (\<lambda>i. raw_of fs i \<noteq> None) is" for "is"
    by (induction "is") (auto simp: raws_of_def)
  have "absent fs (cl_order c) = []"
    using l assms(1) by (auto simp: closure_lists_def closure_sound_def absent_def filter_empty_conv)
  then have "filter (\<lambda>i. raw_of fs i \<noteq> None) (cl_order c) = cl_order c"
    by (simp add: absent_def filter_empty_conv filter_id_conv)
  then show ci: "map card_id (cl_cards c) = cl_order c"
    using l ids[of "cl_order c"] by (simp add: closure_lists_def fact_card_of_def comp_def case_prod_beta')
  show "distinct (cl_order c)" using inv by (auto simp: closure_inv_def)
  show ct: "list_all CONTENT_FACT_ID (cl_order c)" using l by (simp add: closure_lists_def)
  show "cl_discovered c = cl_order c" by (rule disc)
  have "list_all CONTENT_FACT_ID (card_predecessors k)" "card_proof k = None" if kc: "k \<in> set (cl_cards c)" for k
  proof -
    obtain i raw where k: "k = fact_card_of i raw (parse_frontmatter (env_float E) raw) False" "(i, raw) \<in> set (cl_raws c)"
    proof -
      have "k \<in> (\<lambda>(i, raw). fact_card_of i raw (parse_frontmatter (env_float E) raw) False) ` set (cl_raws c)"
        using kc l by (simp add: closure_lists_def)
      then show thesis by (auto intro: that)
    qed
    then have "closure_check E fs i raw = None" using l by (auto simp: closure_lists_def list_all_iff)
    then show "list_all CONTENT_FACT_ID (card_predecessors k)" "card_proof k = None"
      by (simp_all add: k closure_check_def predecessors_of_def fact_card_of_def)
  qed
  moreover have "CONTENT_FACT_ID (card_id k)" if "k \<in> set (cl_cards c)" for k
    using that ci ct by (metis (no_types, lifting) image_eqI list.set_map list_all_iff)
  ultimately show "parse_cards (map card_json (cl_cards c)) = Some (cl_cards c)"
    using assms(1) by (intro parse_cards_json) (auto simp: closure_sound_def list_all_iff)
qed

definition round_zero_envelope :: "closure \<Rightarrow> string dict \<Rightarrow> envelope" where
  "round_zero_envelope c g =
     \<lparr>e_cards = cl_cards c, e_omitted_cards = [], e_proofs = [], e_omitted_proofs = [], e_glossary = g, e_omitted_glossary = [],
      e_used = sum_list (map (\<lambda>c. json_chars (card_json c)) (cl_cards c)) + sum_list (map definition_chars g), e_proof_chars = 0\<rparr>"

lemma round_zero_context:
  assumes "hexdigest (env_hash E)" "distinct preds" "list_all CONTENT_FACT_ID preds" "closure_sound E fs preds c"
    "fid = compute_fact_id (env_hash E) pid preds gloss stmt prf" "fid \<notin> set (cl_discovered c)"
  defines "g \<equiv> context_glossary E c gloss stmt prf"
  defines "body \<equiv> verification_body (verification_scope (Some fid) (sort preds) (JInt 0) (cl_order c) [] (keys g)) c (round_zero_envelope c g) None JNull"
  shows "verification_context_unlocked E fs (sort preds) None (Some fid) (JArr []) (JInt 0) JNull (stmt # prf # map snd gloss) (keys gloss)
    = Inr (body @ [(''digest'', JStr (sha_digest E (JObj body)))])"
proof -

  have w: "closure_walk E fs (sort preds) (start_closure (sort preds)) = Inr c" using assms(4) by (simp add: closure_sound_def)
  have h: "CONTENT_FACT_ID fid" using hexdigest.digest_prefix[OF assms(1), of 16] by (simp add: assms(5) compute_fact_id_def)
  have "\<forall>i \<in> set preds. i \<noteq> []" using assms(3) by (auto simp: list_all_iff hex_of_len_def)
  then have r: "uniq (filter (\<lambda>i. i \<noteq> []) (sort preds)) = sort preds"
    using assms(2) by (subst filter_True) (auto intro: uniq_distinct)
  have x: "expansion_error [] (JInt 0) JNull = None" by (simp add: expansion_error_def)
  have rg: "resolved_glossary_for_texts E fs ((stmt # prf # map snd gloss) @ concat (map card_texts (cl_cards c)) @ [])
      (keys gloss @ concat (map (\<lambda>k. keys (card_glossary k)) (cl_cards c))) False = Inr g"
    by (simp add: resolved_glossary_for_texts_def g_def context_glossary_def)
  have fe: "fill_envelope None (cl_cards c) [] [] [] g = round_zero_envelope c g"
    by (simp add: fill_envelope_def take_budget_unbounded round_zero_envelope_def)
  have "closure_context E fs (sort preds) c None (Some fid) [] (JInt 0) JNull (stmt # prf # map snd gloss) (keys gloss) =
      Inr (body @ [(''digest'', JStr (sha_digest E (JObj body)))])"
    using assms(6) rg by (simp add: closure_context_def Let_def fe body_digest[OF x] body_def)
  moreover have "list_all CONTENT_FACT_ID (sort preds)" using assms(3) by (simp add: list_all_iff)
  ultimately show ?thesis
    using h w r x by (simp add: verification_context_unlocked_def proof_id_list_def)
qed


lemma is_sha_digest_sha: "hexdigest (env_hash E) \<Longrightarrow> is_sha_digest (sha_digest E v)"
  by (simp add: is_sha_digest_def sha_digest_def hexdigest.digest_hex)

lemma get_or_null: "jget d k = Some v \<Longrightarrow> jget_or_null d k = v"
  by (simp add: jget_or_null_def)

lemma body_digest_field:
  "jget_or_null (verification_body sc c e mx budget @ [(''digest'', JStr d)]) ''digest'' = JStr d"
  "without_digest (verification_body sc c e mx budget @ [(''digest'', JStr d)]) = verification_body sc c e mx budget"
  by (simp_all add: verification_body_def jget_or_null_def without_digest_def)

lemma scope_exact: "exact_scope (verification_scope (Some fid) preds (JInt 0) ord [] terms) fid preds"
  "jget_or_null (verification_scope (Some fid) preds (JInt 0) ord [] terms) ''closure_fact_ids'' = str_list ord"
  "jget_or_null (verification_scope (Some fid) preds (JInt 0) ord [] terms) ''projection'' = JStr VERIFICATION_CONTEXT_PROJECTION"
  by (simp_all add: exact_scope_def verification_scope_def jget_or_null_def py_eq_int_def str_list_def)

lemma body_fields:
  "jget_or_null (verification_body sc c e mx budget @ x) ''schema_version'' = JInt VERIFICATION_CONTEXT_SCHEMA_VERSION"
  "jget_or_null (verification_body sc c e mx budget @ x) ''scope'' = JObj sc"
  "jget_or_null (verification_body sc c e mx budget @ x) ''facts'' = JArr (map card_json (e_cards e))"
  "jget_or_null (verification_body sc c e mx budget @ x) ''glossary'' = str_dict (e_glossary e)"
  "jget_or_null (verification_body sc c e mx budget @ x) ''expanded_proofs'' = JArr (map proof_json (e_proofs e))"
  "jget_or_null (verification_body sc c e mx budget @ x) ''complete'' = JBool (cl_missing c = [] \<and> cl_revoked c = [] \<and>
      e_omitted_cards e = [] \<and> e_omitted_glossary e = [] \<and> e_omitted_proofs e = [])"
  "jget_or_null (verification_body sc c e mx budget @ x) ''truncated'' = JBool (e_omitted_cards e \<noteq> [] \<or> e_omitted_glossary e \<noteq> [] \<or> e_omitted_proofs e \<noteq> [])"
  "jget_or_null (verification_body sc c e mx budget @ x) ''missing_fact_ids'' = str_list (cl_missing c)"
  "jget_or_null (verification_body sc c e mx budget @ x) ''revoked_fact_ids'' = str_list (cl_revoked c)"
  "jget_or_null (verification_body sc c e mx budget @ x) ''omitted_fact_ids'' = str_list (map card_id (e_omitted_cards e))"
  "jget_or_null (verification_body sc c e mx budget @ x) ''omitted_glossary_terms'' = str_list (keys (e_omitted_glossary e))"
  "jget_or_null (verification_body sc c e mx budget @ x) ''omitted_expanded_proof_ids'' = str_list (e_omitted_proofs e)"
  by (simp_all add: verification_body_def jget_or_null_def)

lemma canonical_identity_value:
  assumes "hexdigest (env_hash E)" "pid \<noteq> []" "distinct preds" "list_all CONTENT_FACT_ID preds" "closure_sound E fs preds c"
    "fid = compute_fact_id (env_hash E) pid preds gloss stmt prf" "fid \<notin> set (cl_discovered c)"
  shows "canonical_fact_identity_unlocked E fs pid preds gloss stmt prf fid =
    bind_identity E (JInt VERIFICATION_CONTEXT_SCHEMA_VERSION) (JStr VERIFICATION_CONTEXT_PROJECTION) (cl_cards c)
      (context_glossary E c gloss stmt prf) pid (sort preds) gloss stmt prf"
proof -
  let ?g = "context_glossary E c gloss stmt prf"
  let ?sc = "verification_scope (Some fid) (sort preds) (JInt 0) (cl_order c) [] (keys ?g)"
  define e where "e = round_zero_envelope c ?g"
  then have e: "e_cards e = cl_cards c" "e_omitted_cards e = []" "e_proofs e = []" "e_omitted_proofs e = []" "e_glossary e = ?g"
      "e_omitted_glossary e = []"
    by (simp_all add: round_zero_envelope_def)
  note v = round_zero_context[OF assms(1,3,4,5,6,7), folded e_def]
  define b where "b = verification_body ?sc c e None JNull"
  have s: "cl_missing c = []" "cl_revoked c = []" using assms(5) by (simp_all add: closure_sound_def)
  have x: "expansion_error [] (JInt 0) JNull = None" by (simp add: expansion_error_def)
  let ?ctx = "b @ [(''digest'', JStr (sha_digest E (JObj b)))]"
  note fields = body_fields[where sc = ?sc and c = c and e = e and mx = None and budget = JNull, folded b_def]
  have dig: "check_digest E ?ctx = None"
    using is_sha_digest_sha[OF assms(1)] unfolding b_def
    by (simp add: check_digest_def body_digest_field body_digest[OF x])
  have snap: "exact_snapshot ?ctx"
    using s by (simp add: exact_snapshot_def fields e str_list_def py_eq_int_def)
  have "resolved_glossary_for_texts E fs ((stmt # prf # map snd gloss) @ concat (map card_texts (cl_cards c)))
      (keys gloss @ concat (map (\<lambda>k. keys (card_glossary k)) (cl_cards c))) False = Inr ?g"
    by (simp add: resolved_glossary_for_texts_def context_glossary_def)
  then have ex: "list_all (\<lambda>(t, d). \<not> has_key ?g t) gloss"
    using resolved_excluded by (force simp: list_all_iff)
  have dp: "distinct (sort preds)" "list_all CONTENT_FACT_ID (sort preds)" using assms(3,4) by (simp_all add: list_all_iff)
  note sc = sound_cards[OF assms(5,3)]
  have "fact_identity_from_verification_context E ?ctx pid (sort preds) gloss stmt prf =
      bind_identity E (JInt VERIFICATION_CONTEXT_SCHEMA_VERSION) (JStr VERIFICATION_CONTEXT_PROJECTION) (cl_cards c) ?g pid (sort preds) gloss stmt prf"
    unfolding fact_identity_from_verification_context_def fields e
    using assms(2) dp dig snap ex sc scope_exact[of fid "sort preds" "cl_order c" "keys ?g"]
    by (simp add: string_dict_str_dict content_ids_str_list assms(6)[symmetric])
  then show ?thesis
    unfolding canonical_fact_identity_unlocked_def v[folded b_def] using s
    by (simp add: fields e str_list_def)
qed

text \<open>
  Property C22. Computing the canonical identity never fails on a sound graph: when the ancestors of a
  candidate are all active and intact, the unbounded round zero context is accepted by every check
  of \<open>fact_identity_from_verification_context\<close>, and the identity is the hash of the candidate bound to
  the cards of exactly that closure.
\<close>

theorem canonical_identity_total:
  assumes "env_hash E = sha256_hex" and "pid \<noteq> []" and "distinct preds" and "list_all CONTENT_FACT_ID preds"
    and "closure_sound E fs preds c"
    and "compute_fact_id sha256_hex pid preds gloss stmt prf \<notin> set (cl_order c)"
  shows "\<exists>i. canonical_fact_identity_unlocked E fs pid preds gloss stmt prf (compute_fact_id sha256_hex pid preds gloss stmt prf) = Inr i \<and>
    FULL_FACT_IDENTITY i \<and>
    compute_fact_identity sha256_hex pid (sort preds) gloss stmt prf
      (context_bindings (JInt 3) (JStr VERIFICATION_CONTEXT_PROJECTION) (cl_cards c))
      (select_referenced_definitions (stmt # prf # map snd gloss @ concat (map (\<lambda>c. card_statement c # map snd (card_glossary c)) (cl_cards c)))
         (context_glossary E c gloss stmt prf)) = Some i"
proof -
  have h: "hexdigest (env_hash E)" unfolding assms(1) by (rule sha.hexdigest_axioms)
  let ?b = "bind_identity E (JInt VERIFICATION_CONTEXT_SCHEMA_VERSION) (JStr VERIFICATION_CONTEXT_PROJECTION) (cl_cards c)
      (context_glossary E c gloss stmt prf) pid (sort preds) gloss stmt prf"
  obtain y where y: "?b = Inr (sha256_hex y)" using bind_identity_total assms(1) by metis
  have eq: "compute_fact_id sha256_hex pid preds gloss stmt prf = compute_fact_id (env_hash E) pid preds gloss stmt prf"
    by (simp add: assms(1))
  have "compute_fact_id sha256_hex pid preds gloss stmt prf \<notin> set (cl_discovered c)"
    using assms(6) sound_cards(4)[OF assms(5,3)] by simp
  then have v: "canonical_fact_identity_unlocked E fs pid preds gloss stmt prf (compute_fact_id sha256_hex pid preds gloss stmt prf) = ?b"
    by (rule canonical_identity_value[OF h assms(2,3,4,5) eq])
  from y show ?thesis
    unfolding v by (auto simp: bind_identity_def VERIFICATION_CONTEXT_SCHEMA_VERSION_def assms(1) sha.digest_hex sorted_sort_id split: option.splits)
qed

theorem canonical_identity_total_witness:
  "\<exists>i. canonical_fact_identity_unlocked example_env example_files ''p'' [] [] ''S'' ''P'' (compute_fact_id sha256_hex ''p'' [] [] ''S'' ''P'') = Inr i \<and>
    FULL_FACT_IDENTITY i"
proof -
  have "closure_sound example_env example_files [] (start_closure [])"
    by (simp add: closure_sound_def closure_walk.simps start_closure_def)
  moreover have "env_hash example_env = sha256_hex" by (simp add: example_env_def)
  moreover have "compute_fact_id sha256_hex ''p'' [] [] ''S'' ''P'' \<notin> set (cl_order (start_closure []))" by (simp add: start_closure_def)
  ultimately show ?thesis
    using canonical_identity_total[of example_env "''p''" "[]" example_files "start_closure []" "[]" "''S''" "''P''"] by auto
qed

section \<open>The recorded identity and the stored text\<close>

text \<open>The bytes hashed for a candidate without predecessors and without definitions of its own.\<close>

definition identity_bytes :: "string \<Rightarrow> string \<Rightarrow> string \<Rightarrow> string dict \<Rightarrow> string" where
  "identity_bytes pid stmt prf gb = utf8_encode (dumps_sorted compact_fmt (fact_identity_body pid [] [] stmt prf
     (context_bindings (JInt 3) (JStr VERIFICATION_CONTEXT_PROJECTION) []) gb))"

lemma root_identity:
  assumes "hexdigest (env_hash E)" "pid \<noteq> []"
  shows "canonical_fact_identity_unlocked E fs pid [] [] stmt prf (compute_fact_id (env_hash E) pid [] [] stmt prf) =
    Inr (env_hash E (identity_bytes pid stmt prf (select_referenced_definitions [stmt, prf]
      (select_referenced_definitions [stmt, prf] (filter (\<lambda>(t, d). t \<noteq> []) (env_global E))))))"
proof -
  have s: "closure_sound E fs [] (start_closure [])"
    by (simp add: closure_sound_def closure_walk.simps start_closure_def)
  have "all_finite (fact_identity_body pid [] [] stmt prf (context_bindings (JInt 3) (JStr VERIFICATION_CONTEXT_PROJECTION) []) d)" for d
    using canonical_card_finite by (simp add: fact_identity_body_def normalized_dict_def)
  then show ?thesis
    using canonical_identity_value[OF assms(1,2) _ _ s refl, of "[]" stmt "prf"]
    by (simp add: start_closure_def bind_identity_def compute_fact_identity_def context_glossary_def Let_def identity_bytes_def
        VERIFICATION_CONTEXT_SCHEMA_VERSION_def dict_update_def)
qed

text \<open>A statement whose two-word notation is broken across two lines, and the global glossary that
  defines the notation.\<close>

definition broken_statement :: string where
  "broken_statement = ''open'' @ LF # ''interval''"

definition interval_glossary :: "string dict" where
  "interval_glossary = [(''open interval'', ''(a,b)'')]"

definition broken_fact :: "graph_env \<Rightarrow> fact" where
  "broken_fact E = \<lparr>fact_id = compute_fact_id (env_hash E) ''p'' [] [] broken_statement ''clear'',
     problem_id = ''p'', author = ''w'', predecessors = [], statement = broken_statement, proof_text = ''clear'',
     glossary_introduces = [], intuition = [],
     fact_identity = env_hash E (identity_bytes ''p'' broken_statement ''clear'' []), external_refs = []\<rparr>"

lemma selected_terms:
  "select_referenced_definitions [broken_statement, ''clear''] interval_glossary = []"
  "select_referenced_definitions [''open interval'', ''clear''] interval_glossary = interval_glossary"
  by code_simp+

lemma broken_fact_storable: "hexdigest (env_hash E) \<Longrightarrow> storable (broken_fact E)"
proof -
  assume h: "hexdigest (env_hash E)"
  have "CONTENT_FACT_ID (fact_id (broken_fact E))"
    using hexdigest.digest_prefix[OF h, of 16] by (simp add: broken_fact_def compute_fact_id_def)
  then have "SAFE_FACT_ID (fact_id (broken_fact E))" by (rule hex16_safe)
  then show ?thesis
    using hexdigest.digest_hex[OF h]
    by (simp add: storable_def broken_fact_def broken_statement_def LINE_BREAK_def has_heading_def is_linebreak_def heading_def
        py_lower_def lower_char_def strip_id is_space_def)
qed

text \<open>
  Property C23. The identity recorded for a fact can disagree with its own file: when a notation of the
  global glossary with a space in it is broken across two lines of the statement, \<open>add\<close> records an
  identity without that definition, but the statement read back is on one line and the recomputed
  identity has it. Then, for a hash that separates the two inputs, every exact lookup of the intact
  active fact, with the very texts it was added with, fails with an identity mismatch.
\<close>

theorem identity_unstable:
  assumes h: "hexdigest (env_hash E)" and g: "env_global E = interval_glossary"
    and sep: "env_hash E (identity_bytes ''p'' broken_statement ''clear'' []) \<noteq> env_hash E (identity_bytes ''p'' broken_statement ''clear'' interval_glossary)"
  defines "f \<equiv> broken_fact E"
  defines "fs \<equiv> [(ActiveFact (fact_id f), serialize_fact f)]"
  shows "canonical_fact_identity_unlocked E [] ''p'' [] [] broken_statement ''clear'' (fact_id f) = Inr (fact_identity f) \<and>
    check_fact E fs (fact_id f) (read_text (serialize_fact f)) (parse_frontmatter (env_float E) (read_text (serialize_fact f))) = None \<and>
    lookup_active_exact_identity E fs ''p'' broken_statement ''clear'' [] [] = Inl FullIdentityMismatch \<and>
    active_fact_identity_unlocked E fs (fact_id f) = Inl FullIdentityMismatch"
proof -
  let ?raw = "read_text (serialize_fact f)"
  have id: "fact_id f = compute_fact_id (env_hash E) ''p'' [] [] broken_statement ''clear''" by (simp add: f_def broken_fact_def)
  have c: "carries ?raw f (dumps ascii_fmt (JArr (map JObj (external_refs f))))"
    unfolding f_def carries_read_text using broken_fact_storable[OF h] by (rule serialize_carries)
  have ct: "CONTENT_FACT_ID (fact_id f)" using hexdigest.digest_prefix[OF h, of 16] by (simp add: id compute_fact_id_def)
  have "addressed (env_hash E) f" by (simp add: addressed_def f_def broken_fact_def)
  then have ok: "check_fact E fs (fact_id f) ?raw (parse_frontmatter (env_float E) ?raw) = None"
    using carried_intact[OF c _ ct] by (simp add: check_fact_def exists_file_def fs_def)
  have gf: "filter (\<lambda>(t, d). t \<noteq> []) (env_global E) = interval_glossary" by (simp add: g interval_glossary_def)
  have "select_referenced_definitions ts [] = []" for ts
    by (simp add: select_referenced_definitions_def select_loop.simps sorted_items_def split: list.splits)
  then have one: "canonical_fact_identity_unlocked E fs' ''p'' [] [] broken_statement ''clear'' (fact_id f) = Inr (fact_identity f)" for fs'
    using root_identity[OF h, of "''p''" fs' broken_statement "''clear''"] unfolding gf selected_terms id
    by (simp add: f_def broken_fact_def)
  have fl: "statement f = broken_statement" "proof_text f = ''clear''" "intuition f = []" "problem_id f = ''p''" "predecessors f = []"
    "glossary_introduces f = []" "fact_identity f = env_hash E (identity_bytes ''p'' broken_statement ''clear'' [])" by (simp_all add: f_def broken_fact_def)
  have st: "statement_of ?raw = ''open interval''"
    unfolding statement_of_carried[OF c] fl broken_statement_def by (simp add: text_lines_def strip_id is_space_def is_linebreak_def)
  have pf: "proof_of ?raw = ''clear''"
    unfolding proof_of_carried[OF c] fl by (simp add: text_lines_def strip_id is_space_def is_linebreak_def)
  have "words ''open interval'' = words broken_statement" by (simp add: broken_statement_def is_space_def)
  then have nm: "normalize ''open interval'' = normalize broken_statement" by (simp add: normalize_eq_iff)
  then have id2: "fact_id f = compute_fact_id (env_hash E) ''p'' [] [] ''open interval'' ''clear''"
    and b2: "identity_bytes ''p'' ''open interval'' ''clear'' gb = identity_bytes ''p'' broken_statement ''clear'' gb" for gb
    by (simp_all add: id compute_fact_id_def fact_id_body_def identity_bytes_def fact_identity_body_def)
  have two: "canonical_fact_identity_unlocked E fs' ''p'' [] [] ''open interval'' ''clear'' (fact_id f) =
      Inr (env_hash E (identity_bytes ''p'' broken_statement ''clear'' interval_glossary))" for fs'
    using root_identity[OF h, of "''p''" fs' "''open interval''" "''clear''"] unfolding gf selected_terms id2[symmetric] b2 by simp
  have raw: "get_raw_unchecked fs (fact_id f) = Inr (Some ?raw)"
    using hex16_safe[OF ct] by (simp add: get_raw_unchecked_def fs_def)
  have m: "fm_problem_id (parse_frontmatter (env_float E) ?raw) = ''p''" "fm_predecessors (parse_frontmatter (env_float E) ?raw) = []"
    "fm_glossary (parse_frontmatter (env_float E) ?raw) = []" "fm_identity (parse_frontmatter (env_float E) ?raw) = Some (fact_identity f)"
    using hexdigest.digest_nonempty[OF h] by (simp_all add: parse_carried[OF c] fl sorted_items_def)
  have mis: "recorded_mismatch (parse_frontmatter (env_float E) ?raw) (env_hash E (identity_bytes ''p'' broken_statement ''clear'' interval_glossary))"
    using sep by (simp add: recorded_mismatch_def m(4)) (simp add: fl)
  have "lookup_active_exact_identity E fs ''p'' broken_statement ''clear'' [] [] = Inl FullIdentityMismatch"
    unfolding lookup_active_exact_identity_def Let_def lookup_active_exact_identity_unlocked_def filter.simps id[symmetric] raw
    using ok one two mis by (simp add: m(1-3) st pf)
  moreover have "active_fact_identity_unlocked E fs (fact_id f) = Inl FullIdentityMismatch"
    unfolding active_fact_identity_unlocked_def Let_def raw using ok ct two mis by (simp add: m(1-3) st pf)
  ultimately show ?thesis using ok one by blast
qed


definition two_valued_hash :: "string \<Rightarrow> string" where
  "two_valued_hash s = replicate 64 (if s = identity_bytes ''p'' broken_statement ''clear'' [] then CHR ''0'' else CHR ''1'')"

lemma identity_bytes_differ:
  "identity_bytes ''p'' broken_statement ''clear'' interval_glossary \<noteq> identity_bytes ''p'' broken_statement ''clear'' []"
proof
  let ?ctx = "context_bindings (JInt 3) (JStr VERIFICATION_CONTEXT_PROJECTION) []"
  let ?body = "\<lambda>g. fact_identity_body ''p'' [] [] broken_statement ''clear'' ?ctx g"
  have plain: "json_plain (?body g)" if "distinct (keys g)" for g
    using that by (intro json_plain_identity_body) (simp_all add: context_bindings_def json_plain_str_list)
  assume "identity_bytes ''p'' broken_statement ''clear'' interval_glossary = identity_bytes ''p'' broken_statement ''clear'' []"
  then have "canon (?body interval_glossary) = canon (?body [])"
    unfolding identity_bytes_def by (subst (asm) dumps_sorted_inj) (simp_all add: plain interval_glossary_def)
  from canon_obj_get[OF this[unfolded fact_identity_body_def], of "''glossary_bindings''"]
  show False by (simp add: normalized_dict_def interval_glossary_def str_dict_def sorted_items_def)
qed

theorem identity_unstable_witness:
  "let E = \<lparr>env_hash = two_valued_hash, env_float = id, env_global = interval_glossary\<rparr>; f = broken_fact E in
   lookup_active_exact_identity E [(ActiveFact (fact_id f), serialize_fact f)] ''p'' broken_statement ''clear'' [] [] = Inl FullIdentityMismatch"
proof -
  let ?E = "\<lparr>env_hash = two_valued_hash, env_float = id, env_global = interval_glossary\<rparr>"
  have "hexdigest (env_hash ?E)"
    by unfold_locales (simp add: two_valued_hash_def hex_of_len_def is_lower_hex_def is_ascii_digit_def list_all_iff)
  moreover have "env_hash ?E (identity_bytes ''p'' broken_statement ''clear'' []) \<noteq> env_hash ?E (identity_bytes ''p'' broken_statement ''clear'' interval_glossary)"
    using identity_bytes_differ by (simp add: two_valued_hash_def)
  ultimately show ?thesis using identity_unstable[of ?E] by (simp add: Let_def)
qed

end
