(* ===== verification/FactGraph.thy ===== *)
theory FactGraph
  imports Storage FactIdentity
begin

text \<open>
  The write side of \<open>src/danus/core/factgraph.py\<close>: the journalled add transaction with its prepared,
  committed and rollback markers, their recovery, the cascade revocation with its journal and log,
  and the update of references. A mutation runs under the exclusive lock, so one computation at a
  time; a crash or a failing system call may stop it anywhere.
\<close>

section \<open>Markers\<close>

definition str_field :: "jobj \<Rightarrow> string \<Rightarrow> (string \<Rightarrow> bool) \<Rightarrow> bool" where
  "str_field d k P = (case jget_or_null d k of JStr s \<Rightarrow> P s | _ \<Rightarrow> False)"

definition opt_str_field :: "jobj \<Rightarrow> string \<Rightarrow> (string \<Rightarrow> bool) \<Rightarrow> bool" where
  "opt_str_field d k P = (case jget_or_null d k of JNull \<Rightarrow> True | JStr s \<Rightarrow> P s | _ \<Rightarrow> False)"

definition load_marker :: "graph_env \<Rightarrow> path \<Rightarrow> (jobj \<Rightarrow> bool) \<Rightarrow> files \<Rightarrow> graph_exc + jobj option" where
  "load_marker E p valid fs =
     (case map_of fs p of
        None \<Rightarrow> Inr None
      | Some raw \<Rightarrow>
          (case loads (env_float E) (read_text raw) of
             Some (JObj d) \<Rightarrow> if valid d then Inr (Some d) else Inl RecoveryError
           | _ \<Rightarrow> Inl RecoveryError))"

definition valid_legacy_add :: "jobj \<Rightarrow> bool" where
  "valid_legacy_add d \<longleftrightarrow> string_dict (jget_or_null d ''previous_glossary'') \<noteq> None \<and>
     (case jget_or_null d ''glossary_existed'' of JBool b \<Rightarrow> True | _ \<Rightarrow> False)"

definition valid_pending_add :: "jobj \<Rightarrow> bool" where
  "valid_pending_add d \<longleftrightarrow>
     str_field d ''fact_id'' SAFE_FACT_ID \<and> opt_str_field d ''previous_fact'' (\<lambda>s. True) \<and>
     (if py_eq_int (jget_or_null d ''schema_version'') 1 then valid_legacy_add d
      else py_eq_int (jget_or_null d ''schema_version'') 2 \<and> jget_or_null d ''state'' = JStr ''prepared'' \<and>
        str_field d ''fact_id'' CONTENT_FACT_ID \<and> str_field d ''transaction_id'' is_hex32 \<and>
        opt_str_field d ''previous_glossary_text'' (\<lambda>s. True) \<and> str_field d ''expected_fact_sha256'' is_hex64 \<and>
        opt_str_field d ''expected_glossary_sha256'' is_hex64)"

definition valid_commit :: "jobj \<Rightarrow> bool" where
  "valid_commit d \<longleftrightarrow>
     py_eq_int (jget_or_null d ''schema_version'') 2 \<and> jget_or_null d ''state'' = JStr ''committed'' \<and>
     str_field d ''transaction_id'' is_hex32 \<and> str_field d ''fact_id'' CONTENT_FACT_ID \<and>
     str_field d ''expected_fact_sha256'' is_hex64 \<and> opt_str_field d ''expected_glossary_sha256'' is_hex64"

definition valid_abort :: "jobj \<Rightarrow> bool" where
  "valid_abort d \<longleftrightarrow>
     py_eq_int (jget_or_null d ''schema_version'') 1 \<and> jget_or_null d ''state'' = JStr ''rollback_required'' \<and>
     str_field d ''transaction_id'' is_hex32 \<and> str_field d ''fact_id'' CONTENT_FACT_ID"

definition load_pending_add where "load_pending_add E = load_marker E PendingAdd valid_pending_add"
definition load_pending_add_commit where "load_pending_add_commit E = load_marker E PendingAddCommit valid_commit"
definition load_pending_add_abort where "load_pending_add_abort E = load_marker E PendingAddAbort valid_abort"

definition pending_add_text :: "jobj \<Rightarrow> string" where
  "pending_add_text d = dumps_sorted plain_fmt (JObj d) @ [LF]"

definition marker_str :: "jobj \<Rightarrow> string \<Rightarrow> string" where
  "marker_str d k = to_str (jget_or_null d k)"

definition marker_opt :: "jobj \<Rightarrow> string \<Rightarrow> string option" where
  "marker_opt d k = (case jget_or_null d k of JStr s \<Rightarrow> Some s | _ \<Rightarrow> None)"

section \<open>Recovery of an add\<close>

definition glossary_text :: "string dict \<Rightarrow> string" where
  "glossary_text g = dumps_indent2 (sorted_items g) @ [LF]"

definition restored_glossary :: "jobj \<Rightarrow> string option" where
  "restored_glossary d =
     (if py_eq_int (jget_or_null d ''schema_version'') 1 then
        (if truthy (jget_or_null d ''glossary_existed'')
         then map_option glossary_text (string_dict (jget_or_null d ''previous_glossary'')) else None)
      else marker_opt d ''previous_glossary_text'')"

definition restore_pending_add_snapshot :: "jobj \<Rightarrow> unit io" where
  "restore_pending_add_snapshot d =
     io_then (set_file (ActiveFact (marker_str d ''fact_id'')) (marker_opt d ''previous_fact''))
       (set_file GlossaryFile (restored_glossary d))"

definition recover_aborted_add :: "graph_env \<Rightarrow> jobj \<Rightarrow> unit io" where
  "recover_aborted_add E aborted =
     io_bind (io_lift (load_pending_add E)) (\<lambda>prepared.
       case prepared of
         None \<Rightarrow> io_raise RecoveryRequired
       | Some d \<Rightarrow>
           if \<not> (py_eq_int (jget_or_null d ''schema_version'') 2 \<and>
                 jget_or_null d ''transaction_id'' = jget_or_null aborted ''transaction_id'' \<and>
                 jget_or_null d ''fact_id'' = jget_or_null aborted ''fact_id'')
           then io_raise RecoveryRequired
           else io_then (io_try (unlink_durable PendingAddCommit) (\<lambda>_. io_return ()))
             (io_then (restore_pending_add_snapshot d)
             (io_bind (io_read (\<lambda>fs. exists_file fs PendingAddCommit)) (\<lambda>left.
                if left then io_raise RecoveryRequired
                else io_then (io_try (fsync_directory RootDir) (\<lambda>_. io_raise RecoveryRequired))
                  (io_then (unlink_durable PendingAddAbort) (unlink_durable PendingAdd))))))"

definition committed_exact :: "graph_env \<Rightarrow> jobj option \<Rightarrow> jobj \<Rightarrow> files \<Rightarrow> bool" where
  "committed_exact E prepared d fs \<longleftrightarrow>
     (case prepared of
        None \<Rightarrow> True
      | Some p \<Rightarrow> py_eq_int (jget_or_null p ''schema_version'') 2 \<and>
          list_all (\<lambda>k. jget_or_null p k = jget_or_null d k)
            [''transaction_id'', ''fact_id'', ''expected_fact_sha256'', ''expected_glossary_sha256'']) \<and>
     (case map_of fs (ActiveFact (marker_str d ''fact_id'')) of
        None \<Rightarrow> False
      | Some raw \<Rightarrow>
          env_hash E (utf8_encode raw) = marker_str d ''expected_fact_sha256'' \<and>
          check_fact E fs (marker_str d ''fact_id'') raw (parse_frontmatter (env_float E) raw) = None) \<and>
     (case marker_opt d ''expected_glossary_sha256'' of
        None \<Rightarrow> \<not> exists_file fs GlossaryFile
      | Some h \<Rightarrow>
          (case map_of fs GlossaryFile of
             None \<Rightarrow> False
           | Some g \<Rightarrow> env_hash E (utf8_encode g) = h \<and> \<not> isl (read_project_glossary E fs True)))"

definition validate_committed_add :: "graph_env \<Rightarrow> jobj option \<Rightarrow> jobj \<Rightarrow> files \<Rightarrow> graph_exc + unit" where
  "validate_committed_add E prepared d fs = (if committed_exact E prepared d fs then Inr () else Inl RecoveryRequired)"

text \<open>The barrier after a failed removal: gone for good only when the directory can be synchronised.\<close>

definition barrier_ok :: "bool io" where
  "barrier_ok = io_try (io_then (fsync_directory_with_retry RootDir) (io_return True)) (\<lambda>_. io_return False)"

definition remove_marker :: "path \<Rightarrow> bool io" where
  "remove_marker p =
     io_try (io_then (unlink_durable p) (io_return True))
       (\<lambda>_. io_bind (io_read (\<lambda>fs. exists_file fs p)) (\<lambda>e. if e then io_return False else barrier_ok))"

definition cleanup_committed_add :: "bool io" where
  "cleanup_committed_add =
     io_bind (io_read (\<lambda>fs. exists_file fs PendingAdd)) (\<lambda>e.
       io_bind (if e then remove_marker PendingAdd else barrier_ok) (\<lambda>ok.
         if \<not> ok then io_return False
         else io_bind (remove_marker PendingAddCommit) (\<lambda>ok'.
           if \<not> ok' then io_return False
           else io_read (\<lambda>fs. \<not> (exists_file fs PendingAdd \<or> exists_file fs PendingAddCommit)))))"

definition rollback_pending_add :: "graph_env \<Rightarrow> unit io" where
  "rollback_pending_add E =
     io_bind (io_lift (load_pending_add_abort E)) (\<lambda>aborted.
       case aborted of
         Some a \<Rightarrow> recover_aborted_add E a
       | None \<Rightarrow>
           io_bind (io_lift (load_pending_add_commit E)) (\<lambda>committed.
             case committed of
               Some c \<Rightarrow>
                 io_bind (io_lift (load_pending_add E)) (\<lambda>prepared.
                   io_then (io_lift (validate_committed_add E prepared c))
                     (io_bind cleanup_committed_add (\<lambda>ok. if ok then io_return () else io_raise RecoveryRequired)))
             | None \<Rightarrow>
                 io_bind (io_lift (load_pending_add E)) (\<lambda>payload.
                   case payload of
                     None \<Rightarrow> io_return ()
                   | Some d \<Rightarrow> io_then (restore_pending_add_snapshot d) (unlink_durable PendingAdd))))"

definition assert_graph_readable :: "graph_env \<Rightarrow> unit io" where
  "assert_graph_readable E =
     io_bind (io_lift (load_pending_add E)) (\<lambda>prepared.
     io_bind (io_lift (load_pending_add_abort E)) (\<lambda>aborted.
       io_bind
         (case aborted of
            Some a \<Rightarrow> io_return True
          | None \<Rightarrow>
              io_bind (io_lift (load_pending_add_commit E)) (\<lambda>committed.
                case committed of
                  Some c \<Rightarrow>
                    io_then (io_try (fsync_directory_with_retry RootDir) (\<lambda>_. io_raise RecoveryRequired))
                      (io_then (io_lift (validate_committed_add E prepared c)) (io_return False))
                | None \<Rightarrow> io_return (prepared \<noteq> None)))
         (\<lambda>pending.
            io_bind (io_read (\<lambda>fs. exists_file fs PendingRevocation)) (\<lambda>rev.
              if pending \<or> rev then io_raise RecoveryRequired else io_return ()))))"


section \<open>Revocation\<close>

definition reverse_edges :: "graph_env \<Rightarrow> files \<Rightarrow> string list \<Rightarrow> (string \<times> string) list" where
  "reverse_edges E fs ids =
     concat (map (\<lambda>i. case map_of fs (ActiveFact i) of
        None \<Rightarrow> []
      | Some raw \<Rightarrow> map (\<lambda>p. (p, i)) (predecessors_of E (read_text raw))) ids)"

text \<open>The frontier is a stack, its top first.\<close>

function descend :: "(string \<times> string) list \<Rightarrow> string list \<Rightarrow> string list \<Rightarrow> string list \<Rightarrow> string list" where
  "descend edges frontier seen out =
     (case frontier of
        [] \<Rightarrow> out
      | i # rest \<Rightarrow>
          (let new = fresh seen (map snd (filter (\<lambda>(p, j). p = i) edges))
           in descend edges (rev new @ rest) (seen @ new) (out @ new)))"
  by pat_completeness auto

termination descend
proof (relation "measure (\<lambda>(edges, frontier, seen, out). card (snd ` set edges - set seen) + length frontier)", goal_cases)
  case (2 edges frontier seen out i rest new)
  have "set (map snd (filter (\<lambda>(p, j). p = i) edges)) \<subseteq> snd ` set edges" by auto
  from fresh_decreases[OF this, of seen] 2 show ?case by auto
qed simp

declare descend.simps [simp del]

definition descendants_unchecked :: "graph_env \<Rightarrow> files \<Rightarrow> string \<Rightarrow> string list" where
  "descendants_unchecked E fs fid = descend (reverse_edges E fs (list_unchecked fs)) [fid] [fid] []"

text \<open>Rebuilding the project glossary from the active facts outside a set.\<close>

fun merge_local :: "string dict \<Rightarrow> string dict \<Rightarrow> add_error + string dict" where
  "merge_local rebuilt [] = Inr rebuilt"
| "merge_local rebuilt ((t, d) # rest) =
     (case map_of rebuilt t of
        Some prior \<Rightarrow> if prior \<noteq> d then Inl (GlossaryInconsistent t) else merge_local (AList.update t d rebuilt) rest
      | None \<Rightarrow> merge_local (AList.update t d rebuilt) rest)"

fun rebuild_glossary :: "graph_env \<Rightarrow> files \<Rightarrow> string list \<Rightarrow> string dict \<Rightarrow> graph_exc + string dict" where
  "rebuild_glossary E fs [] rebuilt = Inr rebuilt"
| "rebuild_glossary E fs (i # ids) rebuilt =
     (case get_raw_unchecked fs i of
        Inl e \<Rightarrow> Inl (Err e)
      | Inr None \<Rightarrow> Inl (Refused UnknownFact)
      | Inr (Some raw) \<Rightarrow>
          (let m = parse_frontmatter (env_float E) raw in
           case check_fact E fs i raw m of
             Some e \<Rightarrow> Inl (Err e)
           | None \<Rightarrow>
               (case merge_local rebuilt (sorted_items (fm_glossary m)) of
                  Inl e \<Rightarrow> Inl (Refused e)
                | Inr g \<Rightarrow> rebuild_glossary E fs ids g)))"

definition active_glossary_excluding :: "graph_env \<Rightarrow> files \<Rightarrow> string list \<Rightarrow> graph_exc + string dict" where
  "active_glossary_excluding E fs excluded =
     rebuild_glossary E fs (filter (\<lambda>i. i \<notin> set excluded) (list_unchecked fs)) []"

definition valid_pending_revocation :: "jobj \<Rightarrow> bool" where
  "valid_pending_revocation d \<longleftrightarrow>
     py_eq_int (jget_or_null d ''schema_version'') 1 \<and> is_str (jget_or_null d ''revocation_id'') \<and>
     is_str (jget_or_null d ''timestamp_utc'') \<and> is_str (jget_or_null d ''reason'') \<and>
     str_field d ''root_fact_id'' SAFE_FACT_ID \<and>
     (case jget_or_null d ''fact_ids'' of
        JArr xs \<Rightarrow> xs \<noteq> [] \<and> hd xs = jget_or_null d ''root_fact_id'' \<and> no_py_duplicates xs \<and>
          list_all (\<lambda>x. is_str x \<and> SAFE_FACT_ID (to_str x)) xs
      | _ \<Rightarrow> False)"

definition load_pending_revocation where
  "load_pending_revocation E = load_marker E PendingRevocation valid_pending_revocation"

definition revocation_ids :: "jobj \<Rightarrow> string list" where
  "revocation_ids d = (case jget_or_null d ''fact_ids'' of JArr xs \<Rightarrow> map to_str xs | _ \<Rightarrow> [])"

fun parse_log :: "graph_env \<Rightarrow> string list \<Rightarrow> graph_exc + jobj list" where
  "parse_log E [] = Inr []"
| "parse_log E (l # ls) =
     (if strip l = [] then parse_log E ls
      else (case loads (env_float E) l of
          Some (JObj d) \<Rightarrow> map_sum id (Cons d) (parse_log E ls)
        | _ \<Rightarrow> Inl (Refused RevocationLogCorrupt)))"

definition read_revocation_log_strict :: "graph_env \<Rightarrow> files \<Rightarrow> graph_exc + jobj list" where
  "read_revocation_log_strict E fs =
     (case map_of fs RevocationLog of None \<Rightarrow> Inr [] | Some raw \<Rightarrow> parse_log E (splitlines (read_text raw)))"

definition logged_ids :: "jobj list \<Rightarrow> string list" where
  "logged_ids es = map (\<lambda>e. marker_str e ''fact_id'') (filter (\<lambda>e. is_str (jget_or_null e ''fact_id'')) es)"

definition log_entry :: "jobj \<Rightarrow> string \<Rightarrow> jobj" where
  "log_entry pending i =
     [(''timestamp_utc'', jget_or_null pending ''timestamp_utc''), (''fact_id'', JStr i), (''reason'', jget_or_null pending ''reason''),
      (''revoked_as_dependent_of'', if i \<noteq> marker_str pending ''root_fact_id'' then JStr (marker_str pending ''root_fact_id'') else JNull),
      (''revocation_id'', jget_or_null pending ''revocation_id'')]"

fun append_entries :: "jobj \<Rightarrow> string list \<Rightarrow> string list \<Rightarrow> jobj list" where
  "append_entries pending logged [] = []"
| "append_entries pending logged (i # ids) =
     (if i \<in> set logged then append_entries pending logged ids
      else log_entry pending i # append_entries pending (i # logged) ids)"

definition log_text :: "jobj list \<Rightarrow> string" where
  "log_text es = concat (map (\<lambda>e. dumps plain_fmt (JObj e) @ [LF]) es)"

definition write_revocation_log_atomic :: "graph_env \<Rightarrow> jobj \<Rightarrow> unit io" where
  "write_revocation_log_atomic E pending =
     io_bind (io_lift (read_revocation_log_strict E)) (\<lambda>es.
       atomic_write_text RevocationLog (log_text (es @ append_entries pending (logged_ids es) (revocation_ids pending))))"

text \<open>One file moves from the active to the revoked directory; then both directories are
  synchronised. A file that has already moved is left alone.\<close>

definition move_fact :: "string \<Rightarrow> disk \<Rightarrow> disk" where
  "move_fact i d = put (ActiveFact i) None (put (RevokedFact i) (cur d (ActiveFact i)) d)"

definition move_pending :: "string \<Rightarrow> unit io" where
  "move_pending i =
     io_bind (io_read (\<lambda>fs. (exists_file fs (ActiveFact i), exists_file fs (RevokedFact i)))) (\<lambda>(s, t).
       if s \<and> t then io_raise (Refused (BothStoresActive i))
       else if s then io_then (prim (move_fact i)) (io_then (fsync_directory FactsDir) (fsync_directory RevokedDir))
       else if \<not> t then io_raise (Refused (PendingFactDisappeared i))
       else io_return ())"

fun move_all :: "string list \<Rightarrow> unit io" where
  "move_all [] = io_return ()"
| "move_all (i # ids) = io_then (move_pending i) (move_all ids)"

definition resume_pending_revocation :: "graph_env \<Rightarrow> jobj option io" where
  "resume_pending_revocation E =
     io_bind (io_lift (load_pending_revocation E)) (\<lambda>p.
       case p of
         None \<Rightarrow> io_return None
       | Some d \<Rightarrow>
           io_bind (io_lift (\<lambda>fs. active_glossary_excluding E fs (revocation_ids d))) (\<lambda>g.
             io_then (atomic_write_text GlossaryFile (glossary_text g))
             (io_then (mkdir_durable RevokedDir)
             (io_then (move_all (revocation_ids d))
             (io_then (write_revocation_log_atomic E d)
             (io_then (unlink_durable PendingRevocation) (io_return (Some d))))))))"

definition recover_pending_transactions :: "graph_env \<Rightarrow> jobj option io" where
  "recover_pending_transactions E = io_then (rollback_pending_add E) (resume_pending_revocation E)"

text \<open>The mutation lock: the root directory is synchronised before any recovery state is read.\<close>

definition with_mutation_lock :: "'a io \<Rightarrow> 'a io" where
  "with_mutation_lock m =
     io_then (io_try (fsync_directory_with_retry RootDir) (\<lambda>_. io_raise RecoveryRequired)) m"

definition completed_revocation_ids :: "graph_env \<Rightarrow> files \<Rightarrow> string \<Rightarrow> graph_exc + string list" where
  "completed_revocation_ids E fs fid =
     (case read_revocation_log_strict E fs of
        Inl e \<Rightarrow> Inl e
      | Inr es \<Rightarrow>
          (let roots = filter (\<lambda>e. jget_or_null e ''fact_id'' = JStr fid \<and> jget_or_null e ''revoked_as_dependent_of'' = JNull) es in
           if roots = [] then Inr []
           else (case jget_or_null (last roots) ''revocation_id'' of
               JStr r \<Rightarrow> Inr (logged_ids (filter (\<lambda>e. jget_or_null e ''revocation_id'' = JStr r) es))
             | _ \<Rightarrow> Inr (fid # logged_ids (filter (\<lambda>e. jget_or_null e ''revoked_as_dependent_of'' = JStr fid) es)))))"

definition revocation_payload :: "string \<Rightarrow> string \<Rightarrow> string \<Rightarrow> string \<Rightarrow> string list \<Rightarrow> jobj" where
  "revocation_payload rid now fid reason ids =
     [(''schema_version'', JInt 1), (''revocation_id'', JStr rid), (''timestamp_utc'', JStr now),
      (''root_fact_id'', JStr fid), (''reason'', JStr reason), (''fact_ids'', str_list ids)]"

definition revoke_unlocked :: "graph_env \<Rightarrow> string \<Rightarrow> string \<Rightarrow> string \<Rightarrow> string \<Rightarrow> string list io" where
  "revoke_unlocked E rid now fid reason =
     io_bind (io_read (\<lambda>fs. (SAFE_FACT_ID fid \<and> exists_file fs (ActiveFact fid), exists_file fs (RevokedFact fid)))) (\<lambda>(active, revoked).
       if \<not> active then
         (if \<not> SAFE_FACT_ID fid then io_raise (Err InvalidFactId)
          else if revoked then io_bind (io_lift (\<lambda>fs. completed_revocation_ids E fs fid)) (\<lambda>ids.
            if ids \<noteq> [] then io_return ids else io_raise (Refused UnknownFact))
          else io_raise (Refused UnknownFact))
       else io_bind (io_read (\<lambda>fs. fid # descendants_unchecked E fs fid)) (\<lambda>ids.
         io_then (atomic_write_text PendingRevocation (pending_add_text (revocation_payload rid now fid reason ids)))
           (io_bind (resume_pending_revocation E) (\<lambda>r.
              case r of None \<Rightarrow> io_raise RecoveryError | Some d \<Rightarrow> io_return (revocation_ids d)))))"

definition revoke :: "graph_env \<Rightarrow> string \<Rightarrow> string \<Rightarrow> string \<Rightarrow> string \<Rightarrow> string list io" where
  "revoke E rid now fid reason =
     with_mutation_lock (io_bind (recover_pending_transactions E) (\<lambda>recovered.
       case recovered of
         Some d \<Rightarrow> if jget_or_null d ''root_fact_id'' = JStr fid then io_return (revocation_ids d) else revoke_unlocked E rid now fid reason
       | None \<Rightarrow> revoke_unlocked E rid now fid reason))"


section \<open>References\<close>

definition set_external_refs_unlocked :: "string \<Rightarrow> json \<Rightarrow> jobj list io" where
  "set_external_refs_unlocked fid refs =
     io_bind (io_read (\<lambda>fs. map_of fs (ActiveFact fid))) (\<lambda>raw.
       if \<not> SAFE_FACT_ID fid then io_raise (Err InvalidFactId)
       else (case raw of
           None \<Rightarrow> io_raise (Refused UnknownFact)
         | Some t \<Rightarrow>
           (case clean_external_refs refs of
              Inl e \<Rightarrow> io_raise (Refused (BadReferences e))
            | Inr rs \<Rightarrow>
              (case set_refs_text rs (read_text t) of
                 None \<Rightarrow> io_raise (Refused MalformedFactFile)
               | Some t' \<Rightarrow> io_then (atomic_write_text (ActiveFact fid) t') (io_return rs)))))"

definition set_external_refs :: "graph_env \<Rightarrow> string \<Rightarrow> json \<Rightarrow> jobj list io" where
  "set_external_refs E fid refs =
     with_mutation_lock (io_then (recover_pending_transactions E) (set_external_refs_unlocked fid refs))"

section \<open>The glossary gate\<close>

definition glossary_conflicts_against :: "graph_env \<Rightarrow> string dict \<Rightarrow> string dict \<Rightarrow> string list" where
  "glossary_conflicts_against E current new =
     sort (map fst (filter (\<lambda>(t, d).
       (case map_of current t of None \<Rightarrow> False | Some c \<Rightarrow> c \<noteq> d) \<or>
       (case map_of (env_global E) t of None \<Rightarrow> False | Some g \<Rightarrow> g \<noteq> d)) new))"

definition prepare_glossary_merge :: "graph_env \<Rightarrow> files \<Rightarrow> string dict \<Rightarrow> graph_exc + string dict" where
  "prepare_glossary_merge E fs new =
     (case read_project_glossary E fs True of
        Inl e \<Rightarrow> Inl (Err e)
      | Inr current \<Rightarrow>
          (let conflicts = glossary_conflicts_against E current new in
           if conflicts \<noteq> [] then Inl (Refused (GlossaryConflict conflicts)) else Inr (dict_update current new)))"

section \<open>Adding a fact\<close>

record add_args =
  a_problem :: string
  a_author :: string
  a_statement :: string
  a_proof :: string
  a_predecessors :: "string list"
  a_glossary :: "string dict"
  a_intuition :: string
  a_refs :: json

fun check_predecessors :: "files \<Rightarrow> string list \<Rightarrow> graph_exc option" where
  "check_predecessors fs [] = None"
| "check_predecessors fs (p # ps) =
     (if \<not> SAFE_FACT_ID p then Some (Err InvalidFactId)
      else if exists_file fs (RevokedFact p) then Some (Refused (PredecessorRevoked p))
      else if \<not> exists_file fs (ActiveFact p) then Some (Refused (PredecessorUnknown p))
      else check_predecessors fs ps)"

definition check_add_args :: "files \<Rightarrow> add_args \<Rightarrow> string list \<Rightarrow> graph_exc option" where
  "check_add_args fs a preds =
     first_error [
       fail_if (a_problem a = [] \<or> a_problem a \<noteq> strip (a_problem a) \<or> LINE_BREAK (a_problem a)) (Refused BadProblemId),
       fail_if (LINE_BREAK (a_author a)) (Refused BadAuthor),
       fail_if (list_ex (\<lambda>l. heading l = ''## proof'') (splitlines (a_statement a))) (Refused StatementBoundary),
       fail_if (list_ex (\<lambda>l. heading l = ''## intuition'') (splitlines (a_intuition a))) (Refused IntuitionBoundary),
       fail_if (\<not> distinct preds) (Refused DuplicatePredecessor),
       (case clean_external_refs (a_refs a) of Inl e \<Rightarrow> Some (Refused (BadReferences e)) | Inr rs \<Rightarrow> None),
       check_predecessors fs preds]"

record add_plan =
  pl_id :: string
  pl_text :: string
  pl_prev_glossary :: "string option"
  pl_new_glossary :: "string option"
  pl_writes_glossary :: bool

definition make_fact :: "add_args \<Rightarrow> string list \<Rightarrow> string \<Rightarrow> string \<Rightarrow> fact" where
  "make_fact a preds fid identity =
     \<lparr>fact_id = fid, problem_id = a_problem a, author = a_author a, predecessors = preds, statement = a_statement a,
      proof_text = a_proof a, glossary_introduces = a_glossary a, intuition = a_intuition a, fact_identity = identity,
      external_refs = (case clean_external_refs (a_refs a) of Inr rs \<Rightarrow> rs | Inl e \<Rightarrow> [])\<rparr>"

text \<open>Everything before the transaction: the id of an equal active fact, or what is to be written.\<close>

definition prepare_add :: "graph_env \<Rightarrow> add_args \<Rightarrow> files \<Rightarrow> graph_exc + (string + add_plan)" where
  "prepare_add E a fs =
     (let preds = filter (\<lambda>p. p \<noteq> []) (a_predecessors a);
          fid = compute_fact_id (env_hash E) (a_problem a) preds (a_glossary a) (a_statement a) (a_proof a)
      in case check_add_args fs a preds of
           Some e \<Rightarrow> Inl e
         | None \<Rightarrow>
           if exists_file fs (RevokedFact fid) then Inl (Refused FactRevoked)
           else (case lookup_active_exact_identity_unlocked E fs (a_problem a) preds (a_glossary a) (a_statement a) (a_proof a) fid of
               Inl e \<Rightarrow> Inl (Err e)
             | Inr (Some (i, _)) \<Rightarrow> Inr (Inl i)
             | Inr None \<Rightarrow>
               (case canonical_fact_identity_unlocked E fs (a_problem a) preds (a_glossary a) (a_statement a) (a_proof a) fid of
                  Inl e \<Rightarrow> Inl (Err e)
                | Inr identity \<Rightarrow>
                  (case prepare_glossary_merge E fs (a_glossary a) of
                     Inl e \<Rightarrow> Inl e
                   | Inr merged \<Rightarrow>
                     (let prev = map_option read_text (map_of fs GlossaryFile) in
                      Inr (Inr \<lparr>pl_id = fid, pl_text = serialize_fact (make_fact a preds fid identity), pl_prev_glossary = prev,
                        pl_new_glossary = (if a_glossary a \<noteq> [] then Some (glossary_text merged) else prev),
                        pl_writes_glossary = (a_glossary a \<noteq> [])\<rparr>))))))"

definition opt_hash :: "graph_env \<Rightarrow> string option \<Rightarrow> json" where
  "opt_hash E t = (case t of None \<Rightarrow> JNull | Some s \<Rightarrow> JStr (env_hash E (utf8_encode s)))"

definition prepared_marker :: "graph_env \<Rightarrow> string \<Rightarrow> add_plan \<Rightarrow> jobj" where
  "prepared_marker E tid pl =
     [(''schema_version'', JInt 2), (''state'', JStr ''prepared''), (''transaction_id'', JStr tid), (''fact_id'', JStr (pl_id pl)),
      (''previous_fact'', JNull), (''previous_glossary_text'', opt_text_json (pl_prev_glossary pl)),
      (''expected_fact_sha256'', JStr (env_hash E (utf8_encode (pl_text pl)))),
      (''expected_glossary_sha256'', opt_hash E (pl_new_glossary pl))]"

definition committed_marker :: "graph_env \<Rightarrow> string \<Rightarrow> add_plan \<Rightarrow> jobj" where
  "committed_marker E tid pl =
     filter (\<lambda>(k, v). k \<in> {''schema_version'', ''transaction_id'', ''fact_id'', ''expected_fact_sha256'', ''expected_glossary_sha256''})
       (prepared_marker E tid pl) @ [(''state'', JStr ''committed'')]"

definition abort_marker :: "string \<Rightarrow> add_plan \<Rightarrow> jobj" where
  "abort_marker tid pl =
     [(''schema_version'', JInt 1), (''state'', JStr ''rollback_required''), (''transaction_id'', JStr tid), (''fact_id'', JStr (pl_id pl))]"

text \<open>Python compares dictionaries without regard to order.\<close>

definition same_dict :: "jobj \<Rightarrow> jobj \<Rightarrow> bool" where
  "same_dict a b \<longleftrightarrow> sorted_items a = sorted_items b"

text \<open>After the commit marker could not be written: record the rollback intent, then roll back.\<close>

definition abort_add :: "graph_env \<Rightarrow> string \<Rightarrow> add_plan \<Rightarrow> graph_exc \<Rightarrow> unit io" where
  "abort_add E tid pl e =
     io_then
       (io_try (atomic_write_text PendingAddAbort (pending_add_text (abort_marker tid pl)))
          (\<lambda>_. io_bind (io_try (io_lift (load_pending_add_abort E)) (\<lambda>_. io_raise OutcomeUnknown)) (\<lambda>visible.
             if \<not> (case visible of None \<Rightarrow> False | Some v \<Rightarrow> same_dict v (abort_marker tid pl)) then io_raise OutcomeUnknown
             else io_try (fsync_directory RootDir) (\<lambda>_. io_raise OutcomeUnknown))))
       (io_then (io_try (recover_aborted_add E (abort_marker tid pl)) (\<lambda>_. io_raise RecoveryRequired)) (io_raise e))"

definition commit_add :: "graph_env \<Rightarrow> string \<Rightarrow> add_plan \<Rightarrow> string io" where
  "commit_add E tid pl =
     io_then (atomic_write_text PendingAdd (pending_add_text (prepared_marker E tid pl)))
     (io_then
       (io_try
         (io_then (atomic_write_text (ActiveFact (pl_id pl)) (pl_text pl))
           (case (pl_writes_glossary pl, pl_new_glossary pl) of
              (True, Some g) \<Rightarrow> atomic_write_text GlossaryFile g
            | _ \<Rightarrow> io_return ()))
         (\<lambda>e. io_then (io_try (rollback_pending_add E) (\<lambda>_. io_raise RecoveryRequired)) (io_raise e)))
     (io_then
       (io_try (atomic_write_text PendingAddCommit (pending_add_text (committed_marker E tid pl))) (abort_add E tid pl))
     (io_then (io_try cleanup_committed_add (\<lambda>_. io_return False)) (io_return (pl_id pl)))))"

definition add_unlocked :: "graph_env \<Rightarrow> string \<Rightarrow> add_args \<Rightarrow> string io" where
  "add_unlocked E tid a =
     io_bind (io_lift (prepare_add E a)) (\<lambda>r.
       case r of
         Inl i \<Rightarrow> io_return i
       | Inr pl \<Rightarrow> io_then (mkdir_durable FactsDir) (commit_add E tid pl))"

definition add :: "graph_env \<Rightarrow> string \<Rightarrow> add_args \<Rightarrow> string io" where
  "add E tid a = with_mutation_lock (io_then (recover_pending_transactions E) (add_unlocked E tid a))"

end
