(* ===== verification/StorageLogic.thy ===== *)
theory StorageLogic
  imports Storage
begin

text \<open>
  A program logic for the computations of \<open>Storage\<close>: \<open>holds m Q d\<close> says that every run of \<open>m\<close> from
  the disk \<open>d\<close>, whatever faults strike, ends with an outcome and a disk that satisfy \<open>Q\<close>.
\<close>

definition holds :: "'a io \<Rightarrow> ('a outcome \<Rightarrow> disk \<Rightarrow> bool) \<Rightarrow> disk \<Rightarrow> bool" where
  "holds m Q d \<longleftrightarrow> (\<forall>fl r fl' d'. m fl d = (r, fl', d') \<longrightarrow> Q r d')"

lemma holdsD: "holds m Q d \<Longrightarrow> m fl d = (r, fl', d') \<Longrightarrow> Q r d'"
  by (simp add: holds_def)

lemma holds_mono: "holds m Q d \<Longrightarrow> (\<And>r d'. Q r d' \<Longrightarrow> Q' r d') \<Longrightarrow> holds m Q' d"
  by (simp add: holds_def)

lemma holds_return [simp]: "holds (io_return x) Q d \<longleftrightarrow> Q (Ok x) d"
  by (simp add: holds_def io_return_def)

lemma holds_raise [simp]: "holds (io_raise e) Q d \<longleftrightarrow> Q (Raised e) d"
  by (simp add: holds_def io_raise_def)

lemma holds_read [simp]: "holds (io_read f) Q d \<longleftrightarrow> Q (Ok (f (vis d))) d"
  by (simp add: holds_def io_read_def)

lemma holds_lift [simp]:
  "holds (io_lift f) Q d \<longleftrightarrow> (case f (vis d) of Inl e \<Rightarrow> Q (Raised e) d | Inr x \<Rightarrow> Q (Ok x) d)"
  by (auto simp: holds_def io_lift_def split: sum.splits)

definition after_bind :: "('a \<Rightarrow> 'b io) \<Rightarrow> ('b outcome \<Rightarrow> disk \<Rightarrow> bool) \<Rightarrow> 'a outcome \<Rightarrow> disk \<Rightarrow> bool" where
  "after_bind f Q r d = (case r of Ok x \<Rightarrow> holds (f x) Q d | Raised e \<Rightarrow> Q (Raised e) d | Crashed \<Rightarrow> Q Crashed d)"

definition after_try :: "(graph_exc \<Rightarrow> 'a io) \<Rightarrow> ('a outcome \<Rightarrow> disk \<Rightarrow> bool) \<Rightarrow> 'a outcome \<Rightarrow> disk \<Rightarrow> bool" where
  "after_try h Q r d = (case r of Ok x \<Rightarrow> Q (Ok x) d | Raised e \<Rightarrow> holds (h e) Q d | Crashed \<Rightarrow> Q Crashed d)"

lemma after_simps [simp]:
  "after_bind f Q (Ok x) d = holds (f x) Q d" "after_bind f Q (Raised e) d = Q (Raised e) d" "after_bind f Q Crashed d = Q Crashed d"
  "after_try h Q' (Ok y) d = Q' (Ok y) d" "after_try h Q' (Raised e) d = holds (h e) Q' d" "after_try h Q' Crashed d = Q' Crashed d"
  by (simp_all add: after_bind_def after_try_def)

lemma holds_bind: "holds m (after_bind f Q) d \<Longrightarrow> holds (io_bind m f) Q d"
  unfolding holds_def after_bind_def io_bind_def by (auto split: outcome.splits prod.splits)

lemma holds_try: "holds m (after_try h Q) d \<Longrightarrow> holds (io_try m h) Q d"
  unfolding holds_def after_try_def io_try_def by (auto split: outcome.splits prod.splits)

text \<open>The usual shape of a result: \<open>X\<close> after success, \<open>Y\<close> after a system error or a crash.\<close>

definition ends :: "(disk \<Rightarrow> bool) \<Rightarrow> (disk \<Rightarrow> bool) \<Rightarrow> 'a outcome \<Rightarrow> disk \<Rightarrow> bool" where
  "ends X Y r d = (case r of Ok x \<Rightarrow> X d | Raised e \<Rightarrow> e = OsError \<and> Y d | Crashed \<Rightarrow> Y d)"

lemma ends_simps [simp]: "ends X Y (Ok x) d = X d" "ends X Y (Raised e) d = (e = OsError \<and> Y d)" "ends X Y Crashed d = Y d"
  by (simp_all add: ends_def)

text \<open>Chaining: the rest of a computation is run from any state that satisfies \<open>X\<close>.\<close>

lemma holds_then:
  fixes m :: "'a io"
  assumes "holds m (ends X Y) d" "\<And>d' x. X d' \<Longrightarrow> holds (f x) Q d'" "\<And>d'. Y d' \<Longrightarrow> Q (Raised OsError) d' \<and> Q Crashed d'"
  shows "holds (io_bind m f) Q d"
proof (rule holds_bind, rule holds_mono[OF assms(1)])
  fix r :: "'a outcome" and d' assume "ends X Y r d'"
  then show "after_bind f Q r d'" using assms(2,3) by (cases r) auto
qed

lemma holds_catch:
  fixes m :: "'a io"
  assumes "holds m (ends X Y) d" "\<And>d' x. X d' \<Longrightarrow> Q (Ok x) d'" "\<And>d'. Y d' \<Longrightarrow> holds (h OsError) Q d' \<and> Q Crashed d'"
  shows "holds (io_try m h) Q d"
proof (rule holds_try, rule holds_mono[OF assms(1)])
  fix r :: "'a outcome" and d' assume "ends X Y r d'"
  then show "after_try h Q r d'" using assms(2,3) by (cases r) auto
qed

lemma set_file_simps: "atomic_write_text p t = set_file p (Some t)" "unlink_durable p = set_file p None"
  by (simp_all add: set_file_def)

lemma holds_set_file: "holds (set_file p v) (ends (\<lambda>d'. changes p v d d' \<and> poss d' p = {v}) (changes p v d)) d"
  unfolding holds_def
proof (intro allI impI)
  fix fl r fl' d' assume a: "set_file p v fl d = (r, fl', d')"
  show "ends (\<lambda>d'. changes p v d d' \<and> poss d' p = {v}) (changes p v d) r d'"
  proof (cases v)
    case None
    then have "unlink_durable p fl d = (r, fl', d')" using a by (simp add: set_file_def)
    then show ?thesis by (cases rule: unlink_cases) (use None in auto)
  next
    case (Some t)
    then have "atomic_write_text p t fl d = (r, fl', d')" using a by (simp add: set_file_def)
    then show ?thesis by (cases rule: atomic_write_cases) (use Some in auto)
  qed
qed

lemma holds_fsync: "holds (fsync_directory s) (ends (\<lambda>d'. d' = sync s d) (\<lambda>d'. d' = d)) d"
  unfolding holds_def by (auto elim!: fsync_cases)

lemma holds_fsync_retry: "holds (fsync_directory_with_retry s) (ends (\<lambda>d'. d' = sync s d) (\<lambda>d'. d' = d)) d"
  unfolding holds_def by (auto elim!: fsync_retry_cases)

lemma holds_mkdir: "holds (mkdir_durable s) (ends (calms d) (calms d)) d"
  unfolding holds_def by (auto elim!: mkdir_cases)

end
