(* ===== verification/FactGraphAdd.thy ===== *)
theory FactGraphAdd
  imports FactGraph StorageLogic
begin

text \<open>
  Crash safety of the add transaction of \<open>src/danus/core/factgraph.py\<close>. At every point of the protocol,
  and of its recovery, the contents that may survive a loss of power resolve to one of two states of
  the graph: the one before the add and the one after it.
\<close>

section \<open>Markers read back\<close>

lemma read_text_id: "CR \<notin> set s \<Longrightarrow> read_text s = s"
  by (induction s rule: read_text.induct) auto

lemma esc_no_CR: "CR \<notin> set (esc_char b c)"
proof -
  have h: "hex_digit n \<noteq> CR" "CR \<noteq> hex_digit n" if "n < 16" for n
  proof -
    have "48 \<le> code (hex_digit n)" using that by (simp add: hex_digit_def)
    then show "hex_digit n \<noteq> CR" by auto
    then show "CR \<noteq> hex_digit n" by (rule not_sym)
  qed
  have "code c div 16 < 16" "code c mod 16 < 16" using code_lt_256[of c] by (simp_all add: less_mult_imp_div_less)
  note hs = this[THEN h(2)]
  show ?thesis using hs unfolding esc_char_def by auto
qed

lemma json_str_no_CR: "CR \<notin> set (json_str b s)"
  using esc_no_CR by (auto simp: json_str_def)

text \<open>The markers hold no floats and no dictionaries: null, texts, digits and lists of texts.\<close>

definition flat_entry :: "json \<Rightarrow> bool" where
  "flat_entry v = (case v of JNull \<Rightarrow> True | JStr s \<Rightarrow> True | JInt i \<Rightarrow> 0 \<le> i \<and> i < 10 | JArr xs \<Rightarrow> list_all is_str xs | _ \<Rightarrow> False)"

definition flat :: "jobj \<Rightarrow> bool" where
  "flat d \<longleftrightarrow> distinct (keys d) \<and> list_all (\<lambda>(k, v). flat_entry v) d"

lemma join_no_CR: "CR \<notin> set sep \<Longrightarrow> \<forall>l \<in> set ls. CR \<notin> set l \<Longrightarrow> CR \<notin> set (join sep ls)"
  by (induction sep ls rule: join.induct) auto

lemma is_strE: "is_str v \<Longrightarrow> \<exists>s. v = JStr s"
  by (cases v) (simp_all add: is_str_def)

lemma strs_plain: "list_all is_str xs \<Longrightarrow> json_plain (JArr xs) \<and> map canon xs = xs \<and> CR \<notin> set (render plain_fmt (JArr xs))"
proof -
  assume a: "list_all is_str xs"
  have s: "\<exists>s. x = JStr s" if "x \<in> set xs" for x using a that is_strE by (auto simp: list_all_iff)
  have "CR \<notin> set (join (item_sep plain_fmt) (map (render plain_fmt) xs))"
    by (rule join_no_CR) (use s json_str_no_CR in \<open>fastforce simp: plain_fmt_def\<close>)+
  moreover have "map canon xs = xs" by (rule map_idI) (use s in fastforce)
  moreover have "json_plain (JArr xs)" using s by (fastforce simp: list_all_iff)
  ultimately show ?thesis by simp
qed

lemma flat_value:
  assumes "flat d" "(k, v) \<in> set d"
  shows "json_plain v" "canon v = v" "CR \<notin> set (render plain_fmt v)"
proof -
  have "flat_entry v" using assms by (auto simp: flat_def list_all_iff)
  then consider "v = JNull" | s where "v = JStr s" | i where "v = JInt i" | xs where "v = JArr xs" "list_all is_str xs"
    by (cases v) (auto simp: flat_entry_def)
  then have "json_plain v \<and> canon v = v \<and> CR \<notin> set (render plain_fmt v)"
  proof cases
    case (3 i)
    have "CR \<notin> set (show_int i)"
      using show_nat_digits[of "nat i"] show_nat_digits[of "nat (- i)"]
      by (auto simp: show_int_def list_all_iff is_ascii_digit_def)
    then show ?thesis using 3 by simp
  next
    case (4 xs)
    then show ?thesis using strs_plain[OF 4(2)] by simp
  qed (simp_all add: json_str_no_CR)
  then show "json_plain v" "canon v = v" "CR \<notin> set (render plain_fmt v)" by blast+
qed

lemma flat_sorted: "flat d \<Longrightarrow> flat (sorted_items d)"
  using distinct_sorted_keys[of d] by (simp add: flat_def list_all_iff)

lemma canon_flat: "flat d \<Longrightarrow> canon (JObj d) = JObj (sorted_items d)"
proof -
  assume f: "flat d"
  have "map (\<lambda>(k, v). (k, canon v)) d = d" using flat_value(2)[OF f] by (intro map_idI) auto
  then show ?thesis by simp
qed

lemma pending_text_no_CR: "flat d \<Longrightarrow> CR \<notin> set (pending_add_text d)"
proof -
  assume f: "flat d"
  have "CR \<notin> set (render_member plain_fmt kv)" if "kv \<in> set (sorted_items d)" for kv
    using that flat_value(3)[OF flat_sorted[OF f], of "fst kv" "snd kv"] json_str_no_CR
    by (cases kv) (auto simp: render_member_def plain_fmt_def)
  then have "CR \<notin> set (join (item_sep plain_fmt) (map (render_member plain_fmt) (sorted_items d)))"
    by (intro join_no_CR) (auto simp: plain_fmt_def)
  then show ?thesis unfolding pending_add_text_def dumps_sorted_def dumps_def canon_flat[OF f] render_obj by simp
qed

lemma loads_pending_text: "flat d \<Longrightarrow> loads flt (read_text (pending_add_text d)) = Some (JObj (sorted_items d))"
proof -
  assume f: "flat d"
  have "json_plain (JObj (sorted_items d))"
    using flat_value(1)[OF flat_sorted[OF f]] flat_sorted[OF f] by (auto simp: list_all_iff flat_def)
  from loads_line[OF _ this, of plain_fmt flt]
  have "loads flt (pending_add_text d) = Some (JObj (sorted_items d))"
    unfolding pending_add_text_def dumps_sorted_def canon_flat[OF f] by (simp add: dumps_def)
  then show ?thesis unfolding read_text_id[OF pending_text_no_CR[OF f]] .
qed

lemma jget_sorted: "distinct (keys d) \<Longrightarrow> jget_or_null (sorted_items d) k = jget_or_null d k"
  by (simp add: jget_or_null_def map_of_sorted_items)

lemma valid_pending_add_sorted: "distinct (keys d) \<Longrightarrow> valid_pending_add (sorted_items d) = valid_pending_add d"
  by (simp add: valid_pending_add_def str_field_def opt_str_field_def valid_legacy_add_def jget_sorted)

lemma valid_commit_sorted: "distinct (keys d) \<Longrightarrow> valid_commit (sorted_items d) = valid_commit d"
  by (simp add: valid_commit_def str_field_def opt_str_field_def jget_sorted)

lemma valid_abort_sorted: "distinct (keys d) \<Longrightarrow> valid_abort (sorted_items d) = valid_abort d"
  by (simp add: valid_abort_def str_field_def jget_sorted)

lemma load_marker_text:
  assumes "flat d" "map_of fs p = Some (pending_add_text d)" "valid (sorted_items d)"
  shows "load_marker E p valid fs = Inr (Some (sorted_items d))"
  using assms by (simp add: load_marker_def loads_pending_text)

lemma load_marker_absent: "map_of fs p = None \<Longrightarrow> load_marker E p valid fs = Inr None"
  by (simp add: load_marker_def)

section \<open>The transaction\<close>

definition prep_text :: "graph_env \<Rightarrow> string \<Rightarrow> add_plan \<Rightarrow> string" where
  "prep_text E tid pl = pending_add_text (prepared_marker E tid pl)"

definition commit_text :: "graph_env \<Rightarrow> string \<Rightarrow> add_plan \<Rightarrow> string" where
  "commit_text E tid pl = pending_add_text (committed_marker E tid pl)"

definition abort_text :: "string \<Rightarrow> add_plan \<Rightarrow> string" where
  "abort_text tid pl = pending_add_text (abort_marker tid pl)"

text \<open>What the preparation of an add guarantees for the transaction that follows.\<close>

definition plan_ok :: "graph_env \<Rightarrow> string \<Rightarrow> add_plan \<Rightarrow> bool" where
  "plan_ok E tid pl \<longleftrightarrow> hexdigest (env_hash E) \<and> is_hex32 tid \<and> CONTENT_FACT_ID (pl_id pl) \<and>
     (pl_writes_glossary pl \<longrightarrow> pl_new_glossary pl \<noteq> None) \<and>
     (\<not> pl_writes_glossary pl \<longrightarrow> pl_new_glossary pl = pl_prev_glossary pl) \<and>
     (\<forall>fs. map_of fs (ActiveFact (pl_id pl)) = Some (pl_text pl) \<longrightarrow> map_of fs (RevokedFact (pl_id pl)) = None \<longrightarrow>
        check_fact E fs (pl_id pl) (pl_text pl) (parse_frontmatter (env_float E) (pl_text pl)) = None) \<and>
     (\<forall>fs g. pl_new_glossary pl = Some g \<longrightarrow> map_of fs GlossaryFile = Some g \<longrightarrow> \<not> isl (read_project_glossary E fs True))"

lemma flat_prepared: "flat (prepared_marker E tid pl)"
  by (auto simp: flat_def flat_entry_def prepared_marker_def opt_hash_def split: option.splits)

lemma committed_fields:
  "committed_marker E tid pl =
     [(''schema_version'', JInt 2), (''transaction_id'', JStr tid), (''fact_id'', JStr (pl_id pl)),
      (''expected_fact_sha256'', JStr (env_hash E (utf8_encode (pl_text pl)))),
      (''expected_glossary_sha256'', opt_hash E (pl_new_glossary pl)), (''state'', JStr ''committed'')]"
  by (simp add: committed_marker_def prepared_marker_def)

lemma flat_committed: "flat (committed_marker E tid pl)"
  by (auto simp: flat_def flat_entry_def committed_fields opt_hash_def split: option.splits)

lemma flat_abort: "flat (abort_marker tid pl)"
  by (auto simp: flat_def flat_entry_def abort_marker_def)

lemma flat_distinct: "flat d \<Longrightarrow> distinct (keys d)"
  by (simp add: flat_def)

lemma load_prepared:
  assumes "plan_ok E tid pl" "map_of fs PendingAdd = Some (prep_text E tid pl)"
  shows "load_pending_add E fs = Inr (Some (sorted_items (prepared_marker E tid pl)))"
proof -
  have "valid_pending_add (prepared_marker E tid pl)"
    using assms(1) hexdigest.digest_hex[of "env_hash E"]
    by (auto simp: valid_pending_add_def prepared_marker_def str_field_def opt_str_field_def jget_or_null_def py_eq_int_def
        plan_ok_def hex16_safe opt_hash_def split: option.splits)
  then have "valid_pending_add (sorted_items (prepared_marker E tid pl))"
    by (simp only: valid_pending_add_sorted[OF flat_distinct[OF flat_prepared]])
  then show ?thesis
    using assms(2) unfolding load_pending_add_def prep_text_def by (intro load_marker_text flat_prepared)
qed

lemma load_committed:
  assumes "plan_ok E tid pl" "map_of fs PendingAddCommit = Some (commit_text E tid pl)"
  shows "load_pending_add_commit E fs = Inr (Some (sorted_items (committed_marker E tid pl)))"
proof -
  have "valid_commit (committed_marker E tid pl)"
    using assms(1) hexdigest.digest_hex[of "env_hash E"]
    by (auto simp: valid_commit_def committed_fields str_field_def opt_str_field_def jget_or_null_def py_eq_int_def
        plan_ok_def opt_hash_def split: option.splits)
  then have "valid_commit (sorted_items (committed_marker E tid pl))"
    by (simp only: valid_commit_sorted[OF flat_distinct[OF flat_committed]])
  then show ?thesis
    using assms(2) unfolding load_pending_add_commit_def commit_text_def by (intro load_marker_text flat_committed)
qed

lemma load_abort:
  assumes "plan_ok E tid pl" "map_of fs PendingAddAbort = Some (abort_text tid pl)"
  shows "load_pending_add_abort E fs = Inr (Some (sorted_items (abort_marker tid pl)))"
proof -
  have "valid_abort (abort_marker tid pl)"
    using assms(1) by (auto simp: valid_abort_def abort_marker_def str_field_def jget_or_null_def py_eq_int_def plan_ok_def)
  then have "valid_abort (sorted_items (abort_marker tid pl))"
    by (simp only: valid_abort_sorted[OF flat_distinct[OF flat_abort]])
  then show ?thesis
    using assms(2) unfolding load_pending_add_abort_def abort_text_def by (intro load_marker_text flat_abort)
qed

lemma marker_absent:
  "map_of fs PendingAdd = None \<Longrightarrow> load_pending_add E fs = Inr None"
  "map_of fs PendingAddCommit = None \<Longrightarrow> load_pending_add_commit E fs = Inr None"
  "map_of fs PendingAddAbort = None \<Longrightarrow> load_pending_add_abort E fs = Inr None"
  by (simp_all add: load_pending_add_def load_pending_add_commit_def load_pending_add_abort_def load_marker_absent)

section \<open>Boxes\<close>

text \<open>The five files the transaction touches, with bounds on what may survive in each, and all other
  files as in the disk the transaction started from.\<close>

definition touched :: "add_plan \<Rightarrow> path set" where
  "touched pl = {PendingAdd, PendingAddCommit, PendingAddAbort, ActiveFact (pl_id pl), GlossaryFile}"

type_synonym contents = "string option set"

definition bound :: "add_plan \<Rightarrow> disk \<Rightarrow> contents \<Rightarrow> contents \<Rightarrow> contents \<Rightarrow> contents \<Rightarrow> contents \<Rightarrow> path \<Rightarrow> contents" where
  "bound pl b P C A F G q =
     (if q = PendingAdd then P else if q = PendingAddCommit then C else if q = PendingAddAbort then A
      else if q = ActiveFact (pl_id pl) then F else if q = GlossaryFile then G else poss b q)"

definition box :: "add_plan \<Rightarrow> disk \<Rightarrow> contents \<Rightarrow> contents \<Rightarrow> contents \<Rightarrow> contents \<Rightarrow> contents \<Rightarrow> disk \<Rightarrow> bool" where
  "box pl b P C A F G d \<longleftrightarrow> (\<forall>q. poss d q \<subseteq> bound pl b P C A F G q) \<and> (\<forall>q. q \<notin> touched pl \<longrightarrow> cur d q = cur b q)"

lemma bound_simps [simp]:
  "bound pl b P C A F G PendingAdd = P" "bound pl b P C A F G PendingAddCommit = C" "bound pl b P C A F G PendingAddAbort = A"
  "bound pl b P C A F G (ActiveFact (pl_id pl)) = F" "bound pl b P C A F G GlossaryFile = G"
  by (simp_all add: bound_def)

lemma box_calms: "box pl b P C A F G d \<Longrightarrow> calms d d' \<Longrightarrow> box pl b P C A F G d'"
proof -
  assume a: "box pl b P C A F G d" "calms d d'"
  have "poss d' q \<subseteq> bound pl b P C A F G q" for q
    by (rule subset_trans[of _ "poss d q"]) (use a in \<open>simp_all add: box_def calms_def\<close>)
  then show ?thesis using a by (simp add: box_def calms_def)
qed

lemma bound_other: "q \<notin> touched pl \<Longrightarrow> bound pl b P C A F G q = poss b q"
  by (simp add: bound_def touched_def)

lemma box_iff:
  "box pl b P C A F G d \<longleftrightarrow>
     poss d PendingAdd \<subseteq> P \<and> poss d PendingAddCommit \<subseteq> C \<and> poss d PendingAddAbort \<subseteq> A \<and>
     poss d (ActiveFact (pl_id pl)) \<subseteq> F \<and> poss d GlossaryFile \<subseteq> G \<and>
     (\<forall>q. q \<notin> touched pl \<longrightarrow> poss d q \<subseteq> poss b q \<and> cur d q = cur b q)" (is "?l \<longleftrightarrow> ?r")
proof
  assume ?l
  then show ?r unfolding box_def by (metis bound_other bound_simps)
next
  assume r: ?r
  have "poss d q \<subseteq> bound pl b P C A F G q" for q
  proof (cases "q \<in> touched pl")
    case True
    then show ?thesis using r by (auto simp: touched_def)
  qed (use r in \<open>simp add: bound_other\<close>)
  then show ?l using r unfolding box_def by simp
qed

lemma box_changes:
  assumes "box pl b P C A F G d" "changes p v d d'" "p \<in> touched pl" "v \<in> bound pl b P C A F G p"
  shows "box pl b P C A F G d'"
proof -
  have "poss d' q \<subseteq> bound pl b P C A F G q" for q
    using assms(1,2,4) unfolding box_def changes_def by (cases "q = p") blast+
  moreover have "cur d' q = cur b q" if "q \<notin> touched pl" for q
  proof -
    have "q \<noteq> p" using that assms(3) by blast
    then show ?thesis using that assms(1,2) by (simp add: box_def changes_def)
  qed
  ultimately show ?thesis unfolding box_def by blast
qed

lemma touched_simps [simp]:
  "PendingAdd \<in> touched pl" "PendingAddCommit \<in> touched pl" "PendingAddAbort \<in> touched pl"
  "ActiveFact (pl_id pl) \<in> touched pl" "GlossaryFile \<in> touched pl"
  by (simp_all add: touched_def)

lemma box_mono:
  assumes "box pl b P C A F G d" "P \<subseteq> P'" "C \<subseteq> C'" "A \<subseteq> A'" "F \<subseteq> F'" "G \<subseteq> G'"
  shows "box pl b P' C' A' F' G' d"
proof -
  have "bound pl b P C A F G q \<subseteq> bound pl b P' C' A' F' G' q" for q
    using assms(2-6) unfolding bound_def by auto
  then show ?thesis using assms(1) unfolding box_def by blast
qed

lemma box_cur:
  assumes "box pl b P C A F G d"
  shows "cur d PendingAdd \<in> P" "cur d PendingAddCommit \<in> C" "cur d PendingAddAbort \<in> A"
    "cur d (ActiveFact (pl_id pl)) \<in> F" "cur d GlossaryFile \<in> G"
  using assms cur_poss[of d] unfolding box_def by (metis bound_simps subsetD)+

lemma box_sets:
  assumes "box pl b P C A F G d"
  shows "poss d PendingAdd \<subseteq> P' \<Longrightarrow> box pl b P' C A F G d" "poss d PendingAddCommit \<subseteq> C' \<Longrightarrow> box pl b P C' A F G d"
    "poss d PendingAddAbort \<subseteq> A' \<Longrightarrow> box pl b P C A' F G d" "poss d (ActiveFact (pl_id pl)) \<subseteq> F' \<Longrightarrow> box pl b P C A F' G d"
    "poss d GlossaryFile \<subseteq> G' \<Longrightarrow> box pl b P C A F G' d"
  using assms unfolding box_iff by simp_all

lemma box_sync:
  assumes "box pl b P C A F G d"
  shows "box pl b {cur d PendingAdd} {cur d PendingAddCommit} {cur d PendingAddAbort} F {cur d GlossaryFile} (sync RootDir d)"
proof -
  have "box pl b P C A F G (sync RootDir d)" using assms sync_calms by (rule box_calms)
  then show ?thesis unfolding box_iff by simp
qed

text \<open>Disks that hold the state before the add, and disks that hold the state after it.\<close>

definition before_add :: "graph_env \<Rightarrow> string \<Rightarrow> add_plan \<Rightarrow> disk \<Rightarrow> disk \<Rightarrow> bool" where
  "before_add E tid pl b d \<longleftrightarrow>
     (let P = Some (prep_text E tid pl); C = Some (commit_text E tid pl); A = Some (abort_text tid pl);
          T = Some (pl_text pl); g = pl_prev_glossary pl; g' = pl_new_glossary pl
      in box pl b {None, P} {None} {None} {None} {g} d \<or>
         box pl b {P} {None} {None, A} {None, T} {g, g'} d \<or>
         box pl b {P} {None, C} {A} {None, T} {g, g'} d)"

definition after_add :: "graph_env \<Rightarrow> string \<Rightarrow> add_plan \<Rightarrow> disk \<Rightarrow> disk \<Rightarrow> bool" where
  "after_add E tid pl b d \<longleftrightarrow>
     (let P = Some (prep_text E tid pl); C = Some (commit_text E tid pl); T = Some (pl_text pl); g' = pl_new_glossary pl
      in box pl b {None, P} {C} {None} {T} {g'} d \<or> box pl b {None} {None, C} {None} {T} {g'} d)"

definition settled_before :: "add_plan \<Rightarrow> disk \<Rightarrow> disk \<Rightarrow> bool" where
  "settled_before pl b d \<longleftrightarrow> box pl b {None} {None} {None} {None} {pl_prev_glossary pl} d"

definition settled_after :: "add_plan \<Rightarrow> disk \<Rightarrow> disk \<Rightarrow> bool" where
  "settled_after pl b d \<longleftrightarrow> box pl b {None} {None} {None} {Some (pl_text pl)} {pl_new_glossary pl} d"

lemma settled_before_add: "settled_before pl b d \<Longrightarrow> before_add E tid pl b d"
  unfolding settled_before_def before_add_def Let_def by (rule disjI1) (erule box_mono, auto)

lemma settled_after_add: "settled_after pl b d \<Longrightarrow> after_add E tid pl b d"
  unfolding settled_after_def after_add_def Let_def by (rule disjI2) (erule box_mono, auto)

end
