(* ===== verification/FactGraphCommit.thy ===== *)
theory FactGraphCommit
  imports FactGraphAdd
begin

text \<open>
  The add transaction and its recovery, run under every schedule of faults, on the boxes of
  \<open>FactGraphAdd\<close>.
\<close>

section \<open>Steps on boxes\<close>

lemma holds_read_bind: "holds (f (g (vis d))) Q d \<Longrightarrow> holds (io_bind (io_read g) f) Q d"
  by (rule holds_bind) simp

lemma holds_lift_bind: "g (vis d) = Inr x \<Longrightarrow> holds (f x) Q d \<Longrightarrow> holds (io_bind (io_lift g) f) Q d"
  by (rule holds_bind) simp

lemma holds_box:
  assumes "box pl b P C A F G d" "p \<in> touched pl" "v \<in> bound pl b P C A F G p"
  shows "holds (set_file p v) (ends (\<lambda>d'. box pl b P C A F G d' \<and> poss d' p = {v}) (box pl b P C A F G)) d"
  by (rule holds_mono[OF holds_set_file]) (use box_changes[OF assms(1) _ assms(2,3)] in \<open>auto simp: ends_def split: outcome.splits\<close>)

lemma holds_step:
  assumes "box pl b P C A F G d"
  shows
    "v \<in> P \<Longrightarrow> holds (set_file PendingAdd v) (ends (box pl b {v} C A F G) (box pl b P C A F G)) d"
    "v \<in> C \<Longrightarrow> holds (set_file PendingAddCommit v) (ends (box pl b P {v} A F G) (box pl b P C A F G)) d"
    "v \<in> A \<Longrightarrow> holds (set_file PendingAddAbort v) (ends (box pl b P C {v} F G) (box pl b P C A F G)) d"
    "v \<in> F \<Longrightarrow> holds (set_file (ActiveFact (pl_id pl)) v) (ends (box pl b P C A {v} G) (box pl b P C A F G)) d"
    "v \<in> G \<Longrightarrow> holds (set_file GlossaryFile v) (ends (box pl b P C A F {v}) (box pl b P C A F G)) d"
proof -
  have m: "ends (\<lambda>d'. box pl b P C A F G d' \<and> poss d' p = {v}) Y r d' \<Longrightarrow>
      (\<And>d'. box pl b P C A F G d' \<Longrightarrow> poss d' p = {v} \<Longrightarrow> X d') \<Longrightarrow> ends X Y r d'" for p v X Y and r :: "unit outcome" and d'
    by (cases r) auto
  show "v \<in> P \<Longrightarrow> holds (set_file PendingAdd v) (ends (box pl b {v} C A F G) (box pl b P C A F G)) d"
    by (rule holds_mono[OF holds_box[OF assms, of PendingAdd]]) (auto elim!: m intro: box_sets)
  show "v \<in> C \<Longrightarrow> holds (set_file PendingAddCommit v) (ends (box pl b P {v} A F G) (box pl b P C A F G)) d"
    by (rule holds_mono[OF holds_box[OF assms, of PendingAddCommit]]) (auto elim!: m intro: box_sets)
  show "v \<in> A \<Longrightarrow> holds (set_file PendingAddAbort v) (ends (box pl b P C {v} F G) (box pl b P C A F G)) d"
    by (rule holds_mono[OF holds_box[OF assms, of PendingAddAbort]]) (auto elim!: m intro: box_sets)
  show "v \<in> F \<Longrightarrow> holds (set_file (ActiveFact (pl_id pl)) v) (ends (box pl b P C A {v} G) (box pl b P C A F G)) d"
    by (rule holds_mono[OF holds_box[OF assms, of "ActiveFact (pl_id pl)"]]) (auto elim!: m intro: box_sets)
  show "v \<in> G \<Longrightarrow> holds (set_file GlossaryFile v) (ends (box pl b P C A F {v}) (box pl b P C A F G)) d"
    by (rule holds_mono[OF holds_box[OF assms, of GlossaryFile]]) (auto elim!: m intro: box_sets)
qed

lemma holds_root_fsync:
  assumes "box pl b P C A F G d"
  shows "holds (fsync_directory RootDir)
      (ends (\<lambda>d'. d' = sync RootDir d \<and> box pl b {cur d PendingAdd} {cur d PendingAddCommit} {cur d PendingAddAbort} F {cur d GlossaryFile} d')
        (\<lambda>d'. d' = d)) d"
    "holds (fsync_directory_with_retry RootDir)
      (ends (\<lambda>d'. d' = sync RootDir d \<and> box pl b {cur d PendingAdd} {cur d PendingAddCommit} {cur d PendingAddAbort} F {cur d GlossaryFile} d')
        (\<lambda>d'. d' = d)) d"
  using box_sync[OF assms]
  by (rule_tac holds_mono[OF holds_fsync], auto simp: ends_def split: outcome.splits)
     (rule_tac holds_mono[OF holds_fsync_retry], auto simp: ends_def split: outcome.splits)

section \<open>Rolling back\<close>

lemma restore_fields:
  assumes "flat (prepared_marker E tid pl)" "d0 = sorted_items (prepared_marker E tid pl)"
  shows "marker_str d0 ''fact_id'' = pl_id pl" "marker_opt d0 ''previous_fact'' = None"
    "restored_glossary d0 = pl_prev_glossary pl" "py_eq_int (jget_or_null d0 ''schema_version'') 2"
    "jget_or_null d0 ''transaction_id'' = JStr tid" "jget_or_null d0 ''fact_id'' = JStr (pl_id pl)"
proof -
  have j: "jget_or_null d0 k = jget_or_null (prepared_marker E tid pl) k" for k
    using assms jget_sorted[OF flat_distinct] by simp
  show "marker_str d0 ''fact_id'' = pl_id pl" "marker_opt d0 ''previous_fact'' = None"
    "restored_glossary d0 = pl_prev_glossary pl" "py_eq_int (jget_or_null d0 ''schema_version'') 2"
    "jget_or_null d0 ''transaction_id'' = JStr tid" "jget_or_null d0 ''fact_id'' = JStr (pl_id pl)"
    unfolding marker_str_def marker_opt_def restored_glossary_def j
    by (simp_all add: prepared_marker_def jget_or_null_def py_eq_int_def to_str_def split: option.splits)
qed

lemma restore_box:
  assumes "box pl b P C A F G d" "None \<in> F" "pl_prev_glossary pl \<in> G" "d0 = sorted_items (prepared_marker E tid pl)"
  shows "holds (restore_pending_add_snapshot d0) (ends (box pl b P C A {None} {pl_prev_glossary pl}) (box pl b P C A F G)) d"
  unfolding restore_pending_add_snapshot_def restore_fields[OF flat_prepared assms(4)]
proof (rule holds_then[OF holds_step(4)[OF assms(1,2)]])
  fix d' assume b: "box pl b P C A {None} G d'"
  show "holds (set_file GlossaryFile (pl_prev_glossary pl)) (ends (box pl b P C A {None} {pl_prev_glossary pl}) (box pl b P C A F G)) d'"
    by (rule holds_mono[OF holds_step(5)[OF b assms(3)]]) (use box_mono[where F = "{None}" and F' = F] assms(2) in \<open>auto simp: ends_def split: outcome.splits\<close>)
qed simp

section \<open>Recovery from an unfinished add\<close>

abbreviation "prepared_state E tid pl b \<equiv> box pl b {Some (prep_text E tid pl)}"

text \<open>The two unfinished states a writer finds after the barrier of the mutation lock.\<close>

definition unfinished :: "graph_env \<Rightarrow> string \<Rightarrow> add_plan \<Rightarrow> disk \<Rightarrow> disk \<Rightarrow> bool" where
  "unfinished E tid pl b d \<longleftrightarrow>
     prepared_state E tid pl b {None} {None} {None, Some (pl_text pl)} {pl_prev_glossary pl, pl_new_glossary pl} d"

definition aborting :: "graph_env \<Rightarrow> string \<Rightarrow> add_plan \<Rightarrow> disk \<Rightarrow> disk \<Rightarrow> bool" where
  "aborting E tid pl b d \<longleftrightarrow>
     prepared_state E tid pl b {None, Some (commit_text E tid pl)} {Some (abort_text tid pl)}
       {None, Some (pl_text pl)} {pl_prev_glossary pl, pl_new_glossary pl} d"

lemma before_unfinished: "unfinished E tid pl b d \<Longrightarrow> before_add E tid pl b d"
  unfolding unfinished_def before_add_def Let_def by (rule disjI2, rule disjI1) (erule box_mono, auto)

lemma before_aborting: "aborting E tid pl b d \<Longrightarrow> before_add E tid pl b d"
  unfolding aborting_def before_add_def Let_def by blast

lemma before_third: "box pl b {Some (prep_text E tid pl)} {None} {None, Some (abort_text tid pl)} {None} {pl_prev_glossary pl} d \<Longrightarrow> before_add E tid pl b d"
  unfolding before_add_def Let_def by (rule disjI2, rule disjI1) (erule box_mono, auto)

lemma before_prepared: "box pl b {None, Some (prep_text E tid pl)} {None} {None} {None} {pl_prev_glossary pl} d \<Longrightarrow> before_add E tid pl b d"
  unfolding before_add_def Let_def by blast

text \<open>What a recovery from the state before an add leaves: that state, settled when it returns.\<close>

definition undone :: "graph_env \<Rightarrow> string \<Rightarrow> add_plan \<Rightarrow> disk \<Rightarrow> 'a outcome \<Rightarrow> disk \<Rightarrow> bool" where
  "undone E tid pl b r d \<longleftrightarrow> before_add E tid pl b d \<and>
     (case r of Ok x \<Rightarrow> settled_before pl b d | Raised e \<Rightarrow> e = OsError \<or> e = RecoveryRequired | Crashed \<Rightarrow> True)"

lemma undone_ends: "ends (settled_before pl b) (before_add E tid pl b) r d \<Longrightarrow> undone E tid pl b r d"
  using settled_before_add by (cases r) (auto simp: undone_def)

lemma undone_simps [simp]:
  "undone E tid pl b (Ok x) d \<longleftrightarrow> settled_before pl b d"
  "undone E tid pl b (Raised e) d \<longleftrightarrow> before_add E tid pl b d \<and> (e = OsError \<or> e = RecoveryRequired)"
  "undone E tid pl b Crashed d \<longleftrightarrow> before_add E tid pl b d"
  using settled_before_add by (auto simp: undone_def)

lemma ends_weaken: "ends X Y r d \<Longrightarrow> (\<And>d. X d \<Longrightarrow> X' d) \<Longrightarrow> (\<And>d. Y d \<Longrightarrow> Y' d) \<Longrightarrow> ends X' Y' r d"
  by (cases r) auto

lemma remove_prepared:
  assumes "box pl b {None, Some (prep_text E tid pl)} {None} {None} {None} {pl_prev_glossary pl} d"
  shows "holds (unlink_durable PendingAdd) (undone E tid pl b) d"
  unfolding set_file_simps
  by (rule holds_mono[OF holds_step(1)[OF assms], of None])
     (auto intro!: undone_ends elim!: ends_weaken simp: settled_before_def before_prepared)

lemma recover_unfinished:
  assumes "unfinished E tid pl b d" "d0 = sorted_items (prepared_marker E tid pl)"
  shows "holds (io_then (restore_pending_add_snapshot d0) (unlink_durable PendingAdd)) (undone E tid pl b) d"
proof (rule holds_then[OF restore_box[OF assms(1)[unfolded unfinished_def] _ _ assms(2)]])
  fix d' assume "prepared_state E tid pl b {None} {None} {None} {pl_prev_glossary pl} d'"
  then show "holds (unlink_durable PendingAdd) (undone E tid pl b) d'"
    by (intro remove_prepared) (erule box_mono, auto)
qed (auto simp: unfinished_def[symmetric] before_unfinished)

lemma load_prepared_state: "plan_ok E tid pl \<Longrightarrow> prepared_state E tid pl b C A F G d \<Longrightarrow>
    load_pending_add E (vis d) = Inr (Some (sorted_items (prepared_marker E tid pl)))"
  using load_prepared box_cur(1) by blast

lemma recover_aborting:
  assumes ok: "plan_ok E tid pl" and a: "aborting E tid pl b d"
    and m: "jget_or_null m ''transaction_id'' = JStr tid" "jget_or_null m ''fact_id'' = JStr (pl_id pl)"
  shows "holds (recover_aborted_add E m) (undone E tid pl b) d"
proof -
  let ?g = "pl_prev_glossary pl" and ?G = "{pl_prev_glossary pl, pl_new_glossary pl}" and ?F = "{None, Some (pl_text pl)}"
  let ?C = "{None, Some (commit_text E tid pl)}" and ?A = "{Some (abort_text tid pl)}"
  let ?box = "prepared_state E tid pl b"
  define d0 where "d0 = sorted_items (prepared_marker E tid pl)"
  note f = restore_fields[OF flat_prepared d0_def]
  have load: "load_pending_add E (vis d) = Inr (Some d0)"
    using load_prepared_state[OF ok a[unfolded aborting_def]] by (simp add: d0_def)
  have keep: "before_add E tid pl b d'" if "?box C A F G d'" "C \<subseteq> ?C" "A = ?A" "F \<subseteq> ?F" "G \<subseteq> ?G" for C A F G d'
    using that by (intro before_aborting) (auto simp: aborting_def elim: box_mono)
  have fin: "holds (io_then (unlink_durable PendingAddAbort) (unlink_durable PendingAdd)) (undone E tid pl b) d'"
    if b: "?box {None} ?A {None} {?g} d'" for d'
    unfolding set_file_simps(2)
  proof (rule holds_then)
    show "holds (set_file PendingAddAbort None) (ends (?box {None} {None} {None} {?g}) (?box {None} {None, Some (abort_text tid pl)} {None} {?g})) d'"
      by (rule holds_step(3)[OF box_mono[OF b]]) auto
  next
    fix d1 assume "?box {None} {None} {None} {?g} d1"
    then show "holds (set_file PendingAdd None) (undone E tid pl b) d1"
      using remove_prepared[of pl b E tid d1] box_mono by (simp add: set_file_simps)
  qed (auto simp: before_third)
  have mid: "holds (io_then (restore_pending_add_snapshot d0)
       (io_bind (io_read (\<lambda>fs. exists_file fs PendingAddCommit)) (\<lambda>left.
          if left then io_raise RecoveryRequired
          else io_then (io_try (fsync_directory RootDir) (\<lambda>_. io_raise RecoveryRequired))
            (io_then (unlink_durable PendingAddAbort) (unlink_durable PendingAdd))))) (undone E tid pl b) d'"
    if b: "?box ?C ?A ?F ?G d'" for d'
  proof (rule holds_then[OF restore_box[OF b _ _ d0_def]])
    fix d1 assume b1: "?box ?C ?A {None} {?g} d1"
    have bk: "before_add E tid pl b d1" using b1 by (rule keep) auto
    show "holds (io_bind (io_read (\<lambda>fs. exists_file fs PendingAddCommit)) (\<lambda>left.
          if left then io_raise RecoveryRequired
          else io_then (io_try (fsync_directory RootDir) (\<lambda>_. io_raise RecoveryRequired))
            (io_then (unlink_durable PendingAddAbort) (unlink_durable PendingAdd)))) (undone E tid pl b) d1"
    proof (cases "cur d1 PendingAddCommit = None")
      case True
      have "holds (io_then (io_try (fsync_directory RootDir) (\<lambda>_. io_raise RecoveryRequired))
            (io_then (unlink_durable PendingAddAbort) (unlink_durable PendingAdd))) (undone E tid pl b) d1"
      proof (rule holds_bind, rule holds_try, rule holds_mono[OF holds_root_fsync(1)[OF b1]])
        fix r d2 assume "ends (\<lambda>d'. d' = sync RootDir d1 \<and> box pl b {cur d1 PendingAdd} {cur d1 PendingAddCommit} {cur d1 PendingAddAbort} {None} {cur d1 GlossaryFile} d')
          (\<lambda>d'. d' = d1) r d2"
        then show "after_try (\<lambda>_. io_raise RecoveryRequired) (after_bind (\<lambda>_. io_then (unlink_durable PendingAddAbort) (unlink_durable PendingAdd))
            (undone E tid pl b)) r d2"
          using bk fin[of d2] box_cur[OF b1] True by (cases r) auto
      qed
      then show ?thesis using True by (intro holds_bind) (simp add: exists_file_def)
    qed (intro holds_bind, simp add: exists_file_def bk)
  qed (use keep in auto)
  have "holds (io_then (io_try (unlink_durable PendingAddCommit) (\<lambda>_. io_return ()))
       (io_then (restore_pending_add_snapshot d0)
       (io_bind (io_read (\<lambda>fs. exists_file fs PendingAddCommit)) (\<lambda>left.
          if left then io_raise RecoveryRequired
          else io_then (io_try (fsync_directory RootDir) (\<lambda>_. io_raise RecoveryRequired))
            (io_then (unlink_durable PendingAddAbort) (unlink_durable PendingAdd)))))) (undone E tid pl b) d"
  proof (rule holds_bind, rule holds_catch)
    show "holds (unlink_durable PendingAddCommit) (ends (?box ?C ?A ?F ?G) (?box ?C ?A ?F ?G)) d"
      unfolding set_file_simps
      by (rule holds_mono[OF holds_step(2)[OF a[unfolded aborting_def]]]) (auto elim!: ends_weaken box_mono)
  qed (use mid keep in auto)
  then show ?thesis
    unfolding recover_aborted_add_def using load f m by (intro holds_bind) simp
qed

section \<open>Finishing a committed add\<close>

text \<open>The base disk has no pending revocation and does not hold the new fact among the revoked ones.\<close>

definition clear_base :: "add_plan \<Rightarrow> disk \<Rightarrow> bool" where
  "clear_base pl b \<longleftrightarrow> cur b PendingRevocation = None \<and> cur b (RevokedFact (pl_id pl)) = None"

lemma box_clear:
  "clear_base pl b \<Longrightarrow> box pl b P C A F G d \<Longrightarrow> cur d PendingRevocation = None \<and> cur d (RevokedFact (pl_id pl)) = None"
  by (simp add: clear_base_def box_iff touched_def)

lemma committed_values:
  assumes "c = sorted_items (committed_marker E tid pl)"
  shows "jget_or_null c ''transaction_id'' = JStr tid" "jget_or_null c ''fact_id'' = JStr (pl_id pl)"
    "jget_or_null c ''expected_fact_sha256'' = JStr (env_hash E (utf8_encode (pl_text pl)))"
    "jget_or_null c ''expected_glossary_sha256'' = opt_hash E (pl_new_glossary pl)"
proof -
  have j: "jget_or_null c k = jget_or_null (committed_marker E tid pl) k" for k
    using assms jget_sorted[OF flat_distinct[OF flat_committed]] by simp
  show "jget_or_null c ''transaction_id'' = JStr tid" "jget_or_null c ''fact_id'' = JStr (pl_id pl)"
    "jget_or_null c ''expected_fact_sha256'' = JStr (env_hash E (utf8_encode (pl_text pl)))"
    "jget_or_null c ''expected_glossary_sha256'' = opt_hash E (pl_new_glossary pl)"
    unfolding j by (simp_all add: committed_fields jget_or_null_def)
qed

lemma prepared_values:
  assumes "p = sorted_items (prepared_marker E tid pl)"
  shows "jget_or_null p ''expected_fact_sha256'' = JStr (env_hash E (utf8_encode (pl_text pl)))"
    "jget_or_null p ''expected_glossary_sha256'' = opt_hash E (pl_new_glossary pl)"
proof -
  have j: "jget_or_null p k = jget_or_null (prepared_marker E tid pl) k" for k
    using assms jget_sorted[OF flat_distinct[OF flat_prepared]] by simp
  show "jget_or_null p ''expected_fact_sha256'' = JStr (env_hash E (utf8_encode (pl_text pl)))"
    "jget_or_null p ''expected_glossary_sha256'' = opt_hash E (pl_new_glossary pl)"
    unfolding j by (simp_all add: prepared_marker_def jget_or_null_def)
qed

lemma committed_is_exact:
  assumes ok: "plan_ok E tid pl" and f: "cur d (ActiveFact (pl_id pl)) = Some (pl_text pl)"
    and g: "cur d GlossaryFile = pl_new_glossary pl" and r: "cur d (RevokedFact (pl_id pl)) = None"
    and c: "c = sorted_items (committed_marker E tid pl)" and p: "p \<in> {None, Some (sorted_items (prepared_marker E tid pl))}"
  shows "validate_committed_add E p c (vis d) = Inr ()"
proof -
  have m: "marker_str c ''fact_id'' = pl_id pl"
    "marker_str c ''expected_fact_sha256'' = env_hash E (utf8_encode (pl_text pl))"
    "marker_opt c ''expected_glossary_sha256'' = map_option (\<lambda>t. env_hash E (utf8_encode t)) (pl_new_glossary pl)"
    unfolding marker_str_def marker_opt_def committed_values[OF c] by (simp_all add: to_str_def opt_hash_def split: option.split)
  have "(case p of None \<Rightarrow> True
      | Some p \<Rightarrow> py_eq_int (jget_or_null p ''schema_version'') 2 \<and>
          list_all (\<lambda>k. jget_or_null p k = jget_or_null c k)
            [''transaction_id'', ''fact_id'', ''expected_fact_sha256'', ''expected_glossary_sha256''])"
    using p restore_fields[OF flat_prepared refl, of E tid pl] prepared_values[OF refl, of E tid pl] committed_values[OF c] by auto
  moreover have "check_fact E (vis d) (pl_id pl) (pl_text pl) (parse_frontmatter (env_float E) (pl_text pl)) = None"
    using ok f r unfolding plan_ok_def by blast
  moreover have "\<not> isl (read_project_glossary E (vis d) True)" if "pl_new_glossary pl = Some t" for t
    using ok g that unfolding plan_ok_def by metis
  ultimately have "committed_exact E p c (vis d)"
    using f g unfolding committed_exact_def m by (auto simp: exists_file_def split: option.split)
  then show ?thesis by (simp add: validate_committed_add_def)
qed

text \<open>What the clean-up after the commit leaves: the new state, settled when it reports success.\<close>

definition finished :: "graph_env \<Rightarrow> string \<Rightarrow> add_plan \<Rightarrow> disk \<Rightarrow> bool outcome \<Rightarrow> disk \<Rightarrow> bool" where
  "finished E tid pl b r d \<longleftrightarrow> after_add E tid pl b d \<and>
     (case r of Ok x \<Rightarrow> x \<longrightarrow> settled_after pl b d | Raised e \<Rightarrow> False | Crashed \<Rightarrow> True)"

definition removed :: "(disk \<Rightarrow> bool) \<Rightarrow> (disk \<Rightarrow> bool) \<Rightarrow> bool outcome \<Rightarrow> disk \<Rightarrow> bool" where
  "removed X Y r d = (case r of Ok x \<Rightarrow> if x then X d else Y d | Raised e \<Rightarrow> False | Crashed \<Rightarrow> Y d)"

lemma removed_simps [simp]:
  "removed X Y (Ok True) d = X d" "removed X Y (Ok False) d = Y d" "removed X Y (Raised e) d = False" "removed X Y Crashed d = Y d"
  by (simp_all add: removed_def)

lemma remove_marker_box:
  assumes step: "holds (unlink_durable p) (ends X Y) d"
    and barrier: "\<And>d'. Y d' \<Longrightarrow> cur d' p = None \<Longrightarrow> holds (fsync_directory_with_retry RootDir) (ends X Y) d'"
  shows "holds (remove_marker p) (removed X Y) d"
proof -
  let ?Q = "removed X Y"
  have b: "holds barrier_ok ?Q d'" if y: "Y d'" "cur d' p = None" for d'
    unfolding barrier_ok_def
  proof (rule holds_try, rule holds_bind, rule holds_mono[OF barrier[OF y]])
    fix r d2 assume "ends X Y r d2"
    then show "after_bind (\<lambda>_. io_return True) (after_try (\<lambda>_. io_return False) ?Q) r d2" by (cases r) auto
  qed
  show ?thesis
    unfolding remove_marker_def
  proof (rule holds_try, rule holds_bind, rule holds_mono[OF step])
    fix r d' assume "ends X Y r d'"
    then show "after_bind (\<lambda>_. io_return True)
       (after_try (\<lambda>_. io_bind (io_read (\<lambda>fs. exists_file fs p)) (\<lambda>e. if e then io_return False else barrier_ok)) ?Q) r d'"
      using b[of d'] by (cases r) (auto intro!: holds_bind simp: exists_file_def)
  qed
qed

lemma barrier_removed:
  assumes "holds (fsync_directory_with_retry RootDir) (ends X Y) d"
  shows "holds barrier_ok (removed X Y) d"
  unfolding barrier_ok_def
proof (rule holds_try, rule holds_bind, rule holds_mono[OF assms])
  fix r d2 assume "ends X Y r d2"
  then show "after_bind (\<lambda>_. io_return True) (after_try (\<lambda>_. io_return False) (removed X Y)) r d2" by (cases r) auto
qed

lemma removed_cases: "removed X Y r d \<Longrightarrow> (r = Ok True \<and> X d) \<or> (r = Ok False \<and> Y d) \<or> (r = Crashed \<and> Y d)"
  by (auto simp: removed_def split: outcome.splits if_splits)

lemma after_first: "box pl b {None, Some (prep_text E tid pl)} {Some (commit_text E tid pl)} {None} {Some (pl_text pl)} {pl_new_glossary pl} d \<Longrightarrow> after_add E tid pl b d"
  unfolding after_add_def Let_def by blast

lemma after_second: "box pl b {None} {None, Some (commit_text E tid pl)} {None} {Some (pl_text pl)} {pl_new_glossary pl} d \<Longrightarrow> after_add E tid pl b d"
  unfolding after_add_def Let_def by blast

lemma cleanup_after:
  assumes a: "box pl b {None, Some (prep_text E tid pl)} {Some (commit_text E tid pl)} {None} {Some (pl_text pl)} {pl_new_glossary pl} d"
  shows "holds cleanup_committed_add (finished E tid pl b) d"
proof -
  let ?P = "{None, Some (prep_text E tid pl)}" and ?C = "Some (commit_text E tid pl)"
  let ?B = "\<lambda>P C. box pl b P C {None} {Some (pl_text pl)} {pl_new_glossary pl}"
  have first: "holds (if exists_file (vis d) PendingAdd then remove_marker PendingAdd else barrier_ok)
      (removed (?B {None} {?C}) (?B ?P {?C})) d"
  proof (cases "cur d PendingAdd = None")
    case True
    have "holds (fsync_directory_with_retry RootDir) (ends (?B {None} {?C}) (?B ?P {?C})) d"
      by (rule holds_mono[OF holds_root_fsync(2)[OF a]]) (use True box_cur[OF a] a in \<open>auto elim!: ends_weaken\<close>)
    then show ?thesis using barrier_removed True by (simp add: exists_file_def)
  next
    case False
    have "holds (remove_marker PendingAdd) (removed (?B {None} {?C}) (?B ?P {?C})) d"
    proof (rule remove_marker_box)
      show "holds (unlink_durable PendingAdd) (ends (?B {None} {?C}) (?B ?P {?C})) d"
        unfolding set_file_simps by (rule holds_step(1)[OF a]) simp
      fix d' assume y: "?B ?P {?C} d'" "cur d' PendingAdd = None"
      show "holds (fsync_directory_with_retry RootDir) (ends (?B {None} {?C}) (?B ?P {?C})) d'"
        by (rule holds_mono[OF holds_root_fsync(2)[OF y(1)]]) (use y(2) box_cur[OF y(1)] y(1) in \<open>auto elim!: ends_weaken\<close>)
    qed
    then show ?thesis using False by (simp add: exists_file_def)
  qed
  have second: "holds (io_bind (remove_marker PendingAddCommit) (\<lambda>ok'.
           if \<not> ok' then io_return False
           else io_read (\<lambda>fs. \<not> (exists_file fs PendingAdd \<or> exists_file fs PendingAddCommit)))) (finished E tid pl b) d1"
    if d1: "?B {None} {?C} d1" for d1
  proof (rule holds_bind)
    have "holds (remove_marker PendingAddCommit) (removed (?B {None} {None}) (?B {None} {None, ?C})) d1"
    proof (rule remove_marker_box)
      have w: "?B {None} {None, ?C} d1" using d1 by (rule box_mono) auto
      show "holds (unlink_durable PendingAddCommit) (ends (?B {None} {None}) (?B {None} {None, ?C})) d1"
        unfolding set_file_simps by (rule holds_step(2)[OF w]) simp
      fix d' assume y: "?B {None} {None, ?C} d'" "cur d' PendingAddCommit = None"
      show "holds (fsync_directory_with_retry RootDir) (ends (?B {None} {None}) (?B {None} {None, ?C})) d'"
        by (rule holds_mono[OF holds_root_fsync(2)[OF y(1)]]) (use y(2) box_cur[OF y(1)] y(1) in \<open>auto elim!: ends_weaken\<close>)
    qed
    then show "holds (remove_marker PendingAddCommit) (after_bind (\<lambda>ok'.
           if \<not> ok' then io_return False
           else io_read (\<lambda>fs. \<not> (exists_file fs PendingAdd \<or> exists_file fs PendingAddCommit))) (finished E tid pl b)) d1"
      by (rule holds_mono)
        (use settled_after_add after_second in \<open>auto dest!: removed_cases simp: finished_def settled_after_def\<close>)
  qed
  show ?thesis
    unfolding cleanup_committed_add_def
  proof (rule holds_read_bind, rule holds_bind, rule holds_mono[OF first])
  qed (use second after_first in \<open>auto dest!: removed_cases simp: finished_def\<close>)
qed

section \<open>Recovery\<close>

lemma rollback_unfinished:
  assumes ok: "plan_ok E tid pl" and u: "unfinished E tid pl b d"
  shows "holds (rollback_pending_add E) (undone E tid pl b) d"
  unfolding rollback_pending_add_def
proof (rule holds_lift_bind, rule marker_absent, use box_cur[OF u[unfolded unfinished_def]] in blast, simp,
    rule holds_lift_bind, rule marker_absent, use box_cur[OF u[unfolded unfinished_def]] in blast, simp)
  show "holds (io_bind (io_lift (load_pending_add E)) (\<lambda>payload. case payload of None \<Rightarrow> io_return ()
      | Some d \<Rightarrow> io_then (restore_pending_add_snapshot d) (unlink_durable PendingAdd))) (undone E tid pl b) d"
    by (rule holds_lift_bind, rule load_prepared_state[OF ok u[unfolded unfinished_def]]) (use recover_unfinished[OF u refl] in simp)
qed

lemma abort_values:
  assumes "m = sorted_items (abort_marker tid pl)"
  shows "jget_or_null m ''transaction_id'' = JStr tid" "jget_or_null m ''fact_id'' = JStr (pl_id pl)"
proof -
  have j: "jget_or_null m k = jget_or_null (abort_marker tid pl) k" for k
    using assms jget_sorted[OF flat_distinct[OF flat_abort]] by simp
  show "jget_or_null m ''transaction_id'' = JStr tid" "jget_or_null m ''fact_id'' = JStr (pl_id pl)"
    unfolding j by (simp_all add: abort_marker_def jget_or_null_def)
qed

lemma rollback_aborting:
  assumes ok: "plan_ok E tid pl" and a: "aborting E tid pl b d"
  shows "holds (rollback_pending_add E) (undone E tid pl b) d"
proof -
  have "load_pending_add_abort E (vis d) = Inr (Some (sorted_items (abort_marker tid pl)))"
    by (rule load_abort[OF ok]) (use box_cur(3)[OF a[unfolded aborting_def]] in blast)
  then show ?thesis
    unfolding rollback_pending_add_def
    by (rule holds_lift_bind) (use recover_aborting[OF ok a abort_values[OF refl]] in simp)
qed

definition redone :: "graph_env \<Rightarrow> string \<Rightarrow> add_plan \<Rightarrow> disk \<Rightarrow> 'a outcome \<Rightarrow> disk \<Rightarrow> bool" where
  "redone E tid pl b r d \<longleftrightarrow> after_add E tid pl b d \<and>
     (case r of Ok x \<Rightarrow> settled_after pl b d | Raised e \<Rightarrow> e = RecoveryRequired | Crashed \<Rightarrow> True)"

lemma rollback_after:
  assumes ok: "plan_ok E tid pl" and k: "clear_base pl b"
    and a: "box pl b P {Some (commit_text E tid pl)} {None} {Some (pl_text pl)} {pl_new_glossary pl} d"
    and P: "P \<in> {{None}, {Some (prep_text E tid pl)}}"
  shows "holds (rollback_pending_add E) (redone E tid pl b) d"
proof -
  let ?c = "sorted_items (committed_marker E tid pl)"
  note cur = box_cur[OF a]
  obtain p where p: "load_pending_add E (vis d) = Inr p" "p \<in> {None, Some (sorted_items (prepared_marker E tid pl))}"
    using P cur(1) marker_absent(1)[of "vis d" E] load_prepared[OF ok, of "vis d"] by auto
  have v: "validate_committed_add E p ?c (vis d) = Inr ()"
    by (rule committed_is_exact[OF ok _ _ _ refl p(2)]) (use cur box_clear[OF k a] in auto)
  have "box pl b {None, Some (prep_text E tid pl)} {Some (commit_text E tid pl)} {None} {Some (pl_text pl)} {pl_new_glossary pl} d"
    by (rule box_mono[OF a]) (use P in auto)
  note c = cleanup_after[OF this]
  have c': "holds (io_bind cleanup_committed_add (\<lambda>ok. if ok then io_return () else io_raise RecoveryRequired)) (redone E tid pl b) d"
    by (rule holds_bind, rule holds_mono[OF c]) (auto simp: finished_def redone_def after_bind_def split: outcome.splits)
  show ?thesis
    unfolding rollback_pending_add_def
  proof (rule holds_lift_bind, rule marker_absent, use cur in blast, simp,
      rule holds_lift_bind, rule load_committed[OF ok], use cur in blast, simp, rule holds_lift_bind, rule p)
    show "holds (io_then (io_lift (validate_committed_add E p ?c))
        (io_bind cleanup_committed_add (\<lambda>ok. if ok then io_return () else io_raise RecoveryRequired))) (redone E tid pl b) d"
      using v c' by (rule holds_lift_bind)
  qed
qed

lemma rollback_nothing:
  assumes "cur d PendingAdd = None" "cur d PendingAddCommit = None" "cur d PendingAddAbort = None"
  shows "rollback_pending_add E fl d = (Ok (), fl, d)"
  using assms by (simp add: rollback_pending_add_def io_bind_def io_lift_def marker_absent io_return_def)

end
