(* ===== verification/FactGraphCrash.thy ===== *)
theory FactGraphCrash
  imports FactGraphCommit
begin

text \<open>
  The add transaction as a whole: what the mutation lock recovers from a disk an add left behind,
  what a run of an add under faults leaves, and what a reader sees.
\<close>

section \<open>What recovery decides\<close>

text \<open>The commit marker or the rollback marker may have reached the disk: both outcomes are possible.\<close>

definition undecided :: "graph_env \<Rightarrow> string \<Rightarrow> add_plan \<Rightarrow> disk \<Rightarrow> disk \<Rightarrow> bool" where
  "undecided E tid pl b d \<longleftrightarrow>
     prepared_state E tid pl b {None, Some (commit_text E tid pl)} {None, Some (abort_text tid pl)}
       {Some (pl_text pl)} {pl_new_glossary pl} d"

lemma sync_undecided:
  assumes "undecided E tid pl b d"
  shows "before_add E tid pl b (sync RootDir d) \<or> after_add E tid pl b (sync RootDir d)"
proof -
  note b = assms[unfolded undecided_def]
  note s = box_sync[OF b]
  consider "cur d PendingAddAbort = Some (abort_text tid pl)" | "cur d PendingAddAbort = None" "cur d PendingAddCommit = None"
    | "cur d PendingAddAbort = None" "cur d PendingAddCommit = Some (commit_text E tid pl)"
    using box_cur(2,3)[OF b] by auto
  then show ?thesis
  proof cases
    case 1
    have "aborting E tid pl b (sync RootDir d)"
      unfolding aborting_def by (rule box_mono[OF s]) (use 1 box_cur[OF b] in auto)
    then show ?thesis using before_aborting by blast
  next
    case 2
    have "unfinished E tid pl b (sync RootDir d)"
      unfolding unfinished_def by (rule box_mono[OF s]) (use 2 box_cur[OF b] in auto)
    then show ?thesis using before_unfinished by blast
  next
    case 3
    have "box pl b {None, Some (prep_text E tid pl)} {Some (commit_text E tid pl)} {None} {Some (pl_text pl)} {pl_new_glossary pl} (sync RootDir d)"
      by (rule box_mono[OF s]) (use 3 box_cur[OF b] in auto)
    then show ?thesis using after_first by blast
  qed
qed

lemma sync_before:
  assumes "before_add E tid pl b d"
  defines "d1 \<equiv> sync RootDir d"
  shows "settled_before pl b d1 \<or> unfinished E tid pl b d1 \<or> aborting E tid pl b d1"
proof -
  consider (1) "box pl b {None, Some (prep_text E tid pl)} {None} {None} {None} {pl_prev_glossary pl} d"
    | (2) "prepared_state E tid pl b {None} {None, Some (abort_text tid pl)} {None, Some (pl_text pl)} {pl_prev_glossary pl, pl_new_glossary pl} d"
    | (3) "aborting E tid pl b d"
    using assms(1) unfolding before_add_def aborting_def Let_def by blast
  then show ?thesis
  proof cases
    case 1
    show ?thesis
    proof (cases "cur d PendingAdd = None")
      case True
      have "settled_before pl b d1" unfolding d1_def settled_before_def by (rule box_mono[OF box_sync[OF 1]]) (use True box_cur[OF 1] in auto)
      then show ?thesis by blast
    next
      case False
      have "unfinished E tid pl b d1" unfolding d1_def unfinished_def by (rule box_mono[OF box_sync[OF 1]]) (use False box_cur[OF 1] in auto)
      then show ?thesis by blast
    qed
  next
    case 2
    show ?thesis
    proof (cases "cur d PendingAddAbort = None")
      case True
      have "unfinished E tid pl b d1" unfolding d1_def unfinished_def by (rule box_mono[OF box_sync[OF 2]]) (use True box_cur[OF 2] in auto)
      then show ?thesis by blast
    next
      case False
      have "aborting E tid pl b d1" unfolding d1_def aborting_def by (rule box_mono[OF box_sync[OF 2]]) (use False box_cur[OF 2] in auto)
      then show ?thesis by blast
    qed
  next
    case 3
    have "aborting E tid pl b d1" using box_calms[OF 3[unfolded aborting_def] sync_calms] unfolding d1_def aborting_def .
    then show ?thesis by blast
  qed
qed

lemma sync_after:
  assumes "after_add E tid pl b d"
  defines "d1 \<equiv> sync RootDir d"
  shows "settled_after pl b d1 \<or>
    (\<exists>P \<in> {{None}, {Some (prep_text E tid pl)}}. box pl b P {Some (commit_text E tid pl)} {None} {Some (pl_text pl)} {pl_new_glossary pl} d1)"
proof -
  consider (1) "box pl b {None, Some (prep_text E tid pl)} {Some (commit_text E tid pl)} {None} {Some (pl_text pl)} {pl_new_glossary pl} d"
    | (2) "box pl b {None} {None, Some (commit_text E tid pl)} {None} {Some (pl_text pl)} {pl_new_glossary pl} d"
    using assms(1) unfolding after_add_def Let_def by blast
  then show ?thesis
  proof cases
    case 1
    have "box pl b {cur d PendingAdd} {Some (commit_text E tid pl)} {None} {Some (pl_text pl)} {pl_new_glossary pl} d1"
      unfolding d1_def by (rule box_mono[OF box_sync[OF 1]]) (use box_cur[OF 1] in auto)
    then show ?thesis using box_cur(1)[OF 1] by auto
  next
    case 2
    show ?thesis
    proof (cases "cur d PendingAddCommit = None")
      case True
      have "settled_after pl b d1" unfolding settled_after_def d1_def by (rule box_mono[OF box_sync[OF 2]]) (use True box_cur[OF 2] in auto)
      then show ?thesis by blast
    next
      case False
      have "box pl b {None} {Some (commit_text E tid pl)} {None} {Some (pl_text pl)} {pl_new_glossary pl} d1"
        unfolding d1_def by (rule box_mono[OF box_sync[OF 2]]) (use False box_cur[OF 2] in auto)
      then show ?thesis by blast
    qed
  qed
qed

section \<open>Recovery under the lock\<close>

abbreviation recover :: "graph_env \<Rightarrow> jobj option io" where
  "recover E \<equiv> with_mutation_lock (recover_pending_transactions E)"

lemma no_revocation: "cur d PendingRevocation = None \<Longrightarrow> resume_pending_revocation E fl d = (Ok None, fl, d)"
  by (simp add: resume_pending_revocation_def io_bind_def io_lift_def load_pending_revocation_def load_marker_absent io_return_def)

lemma holds_eq: "(\<And>fl. m fl d = (Ok x, fl, d)) \<Longrightarrow> Q (Ok x) d \<Longrightarrow> holds m Q d"
  by (auto simp: holds_def)

lemma before_clear: "clear_base pl b \<Longrightarrow> before_add E tid pl b d \<Longrightarrow> cur d PendingRevocation = None"
  unfolding before_add_def Let_def by (elim disjE) (auto dest: box_clear)

lemma after_clear: "clear_base pl b \<Longrightarrow> after_add E tid pl b d \<Longrightarrow> cur d PendingRevocation = None"
  unfolding after_add_def Let_def by (elim disjE) (auto dest: box_clear)

lemma then_resume:
  fixes m :: "unit io"
  assumes k: "clear_base pl b"
  shows "holds m (undone E tid pl b) d \<Longrightarrow> holds (io_then m (resume_pending_revocation E)) (undone E tid pl b) d"
    "holds m (redone E tid pl b) d \<Longrightarrow> holds (io_then m (resume_pending_revocation E)) (redone E tid pl b) d"
proof -
  assume h: "holds m (undone E tid pl b) d"
  show "holds (io_then m (resume_pending_revocation E)) (undone E tid pl b) d"
  proof (rule holds_bind, rule holds_mono[OF h])
    fix r d' assume u: "undone E tid pl b (r :: unit outcome) d'"
    then have "cur d' PendingRevocation = None" using before_clear[OF k] by (auto simp: undone_def)
    then show "after_bind (\<lambda>_. resume_pending_revocation E) (undone E tid pl b) r d'"
      using u by (cases r) (auto intro: holds_eq no_revocation)
  qed
next
  assume h: "holds m (redone E tid pl b) d"
  show "holds (io_then m (resume_pending_revocation E)) (redone E tid pl b) d"
  proof (rule holds_bind, rule holds_mono[OF h])
    fix r d' assume u: "redone E tid pl b (r :: unit outcome) d'"
    then have "cur d' PendingRevocation = None" using after_clear[OF k] by (auto simp: redone_def)
    then show "after_bind (\<lambda>_. resume_pending_revocation E) (redone E tid pl b) r d'"
      using u by (cases r) (auto intro!: holds_eq no_revocation simp: redone_def)
  qed
qed

lemma rollback_settled:
  assumes "box pl b {None} {None} {None} F G d"
  shows "rollback_pending_add E fl d = (Ok (), fl, d)"
  using box_cur[OF assms] by (intro rollback_nothing) auto

lemma rollback_before:
  assumes "plan_ok E tid pl" "before_add E tid pl b d"
  shows "holds (rollback_pending_add E) (undone E tid pl b) (sync RootDir d)"
  using sync_before[OF assms(2)]
proof (elim disjE)
  assume s: "settled_before pl b (sync RootDir d)"
  show ?thesis
    by (rule holds_eq, rule rollback_settled, rule s[unfolded settled_before_def]) (simp add: s)
qed (use rollback_unfinished[OF assms(1)] rollback_aborting[OF assms(1)] in blast)+

lemma rollback_after_add:
  assumes "plan_ok E tid pl" "clear_base pl b" "after_add E tid pl b d"
  shows "holds (rollback_pending_add E) (redone E tid pl b) (sync RootDir d)"
  using sync_after[OF assms(3)]
proof
  assume s: "settled_after pl b (sync RootDir d)"
  show ?thesis
  proof (rule holds_eq)
    show "rollback_pending_add E fl (sync RootDir d) = (Ok (), fl, sync RootDir d)" for fl
      using s unfolding settled_after_def by (rule rollback_settled)
    show "redone E tid pl b (Ok ()) (sync RootDir d)" using s settled_after_add by (auto simp: redone_def)
  qed
qed (use rollback_after[OF assms(1,2)] in blast)

lemma locked:
  assumes "holds m Q (sync RootDir d)" "Q (Raised RecoveryRequired) d" "Q Crashed d"
  shows "holds (with_mutation_lock m) Q d"
  unfolding with_mutation_lock_def
proof (rule holds_bind, rule holds_try, rule holds_mono[OF holds_fsync_retry])
  fix r d' assume "ends (\<lambda>d'. d' = sync RootDir d) (\<lambda>d'. d' = d) r d'"
  then show "after_try (\<lambda>_. io_raise RecoveryRequired) (after_bind (\<lambda>_. m) Q) r d'" using assms by (cases r) auto
qed

lemma recover_before:
  assumes "plan_ok E tid pl" "clear_base pl b" "before_add E tid pl b d"
  shows "holds (recover E) (undone E tid pl b) d"
  by (rule locked) (use assms(3) then_resume(1)[OF assms(2) rollback_before[OF assms(1,3)]] in \<open>simp_all add: recover_pending_transactions_def\<close>)

lemma recover_after:
  assumes "plan_ok E tid pl" "clear_base pl b" "after_add E tid pl b d"
  shows "holds (recover E) (redone E tid pl b) d"
  by (rule locked) (use assms(3) then_resume(2)[OF assms(2) rollback_after_add[OF assms]] in \<open>simp_all add: recover_pending_transactions_def redone_def\<close>)

text \<open>Every disk an add may leave behind, and what one recovery makes of it.\<close>

definition in_doubt :: "graph_env \<Rightarrow> string \<Rightarrow> add_plan \<Rightarrow> disk \<Rightarrow> disk \<Rightarrow> bool" where
  "in_doubt E tid pl b d \<longleftrightarrow> before_add E tid pl b d \<or> after_add E tid pl b d \<or> undecided E tid pl b d"

definition recovered :: "graph_env \<Rightarrow> string \<Rightarrow> add_plan \<Rightarrow> disk \<Rightarrow> 'a outcome \<Rightarrow> disk \<Rightarrow> bool" where
  "recovered E tid pl b r d \<longleftrightarrow> in_doubt E tid pl b d \<and>
     (case r of Ok x \<Rightarrow> settled_before pl b d \<or> settled_after pl b d | Raised e \<Rightarrow> e = OsError \<or> e = RecoveryRequired | Crashed \<Rightarrow> True)"

lemma undone_recovered: "undone E tid pl b r d \<Longrightarrow> recovered E tid pl b r d"
  by (auto simp: undone_def recovered_def in_doubt_def split: outcome.splits)

lemma redone_recovered: "redone E tid pl b r d \<Longrightarrow> recovered E tid pl b r d"
  by (auto simp: redone_def recovered_def in_doubt_def split: outcome.splits)

lemma recover_in_doubt:
  assumes "plan_ok E tid pl" "clear_base pl b" "in_doubt E tid pl b d"
  shows "holds (recover E) (recovered E tid pl b) d"
  using assms(3) unfolding in_doubt_def
proof (elim disjE)
  assume "before_add E tid pl b d"
  from recover_before[OF assms(1,2) this] show ?thesis by (rule holds_mono) (rule undone_recovered)
next
  assume "after_add E tid pl b d"
  from recover_after[OF assms(1,2) this] show ?thesis by (rule holds_mono) (rule redone_recovered)
next
  assume u: "undecided E tid pl b d"
  have ss: "sync RootDir (sync RootDir d) = sync RootDir d" by (simp add: sync_def)
  have "holds (recover_pending_transactions E) (recovered E tid pl b) (sync RootDir d)"
    using sync_undecided[OF u]
  proof
    assume a: "before_add E tid pl b (sync RootDir d)"
    show ?thesis
      unfolding recover_pending_transactions_def
      by (rule holds_mono[OF then_resume(1)[OF assms(2)]]) (use rollback_before[OF assms(1) a] ss in \<open>auto intro: undone_recovered\<close>)
  next
    assume a: "after_add E tid pl b (sync RootDir d)"
    show ?thesis
      unfolding recover_pending_transactions_def
      by (rule holds_mono[OF then_resume(2)[OF assms(2)]]) (use rollback_after_add[OF assms(1,2) a] ss in \<open>auto intro: redone_recovered\<close>)
  qed
  then show ?thesis by (rule locked) (simp_all add: recovered_def in_doubt_def u)
qed

section \<open>Loss of power\<close>

definition restart :: "files \<Rightarrow> disk" where
  "restart fs = \<lparr>vis = fs, pend = []\<rparr>"

lemma poss_restart [simp]: "poss (restart fs) q = {map_of fs q}" "vis (restart fs) = fs"
  by (simp_all add: poss_def restart_def)

lemma survives_restart: "survives (restart fs) fs' \<longleftrightarrow> map_of fs' = map_of fs"
  by (auto simp: survives_def)

lemma box_survives:
  assumes "box pl (restart f0) P C A F G d" "survives d fs"
  shows "box pl (restart f0) P C A F G (restart fs)"
proof -
  have s: "map_of fs q \<in> poss d q" for q using assms(2) by (simp add: survives_def)
  have o: "map_of fs q = map_of f0 q" if "q \<notin> touched pl" for q
    using that s[of q] assms(1) unfolding box_iff by auto
  show ?thesis using s o assms(1) unfolding box_iff by auto
qed

lemma before_survives: "before_add E tid pl (restart f0) d \<Longrightarrow> survives d fs \<Longrightarrow> before_add E tid pl (restart f0) (restart fs)"
  unfolding before_add_def Let_def using box_survives by blast

lemma after_survives: "after_add E tid pl (restart f0) d \<Longrightarrow> survives d fs \<Longrightarrow> after_add E tid pl (restart f0) (restart fs)"
  unfolding after_add_def Let_def using box_survives by blast

lemma in_doubt_survives: "in_doubt E tid pl (restart f0) d \<Longrightarrow> survives d fs \<Longrightarrow> in_doubt E tid pl (restart f0) (restart fs)"
  using before_survives after_survives box_survives[of pl f0] unfolding in_doubt_def undecided_def by (elim disjE) simp_all

text \<open>Any number of recoveries, each cut off by a fault and followed by a restart from files that survived.\<close>

inductive restarts :: "graph_env \<Rightarrow> disk \<Rightarrow> disk \<Rightarrow> bool" for E where
  here: "restarts E d d"
| crash: "restarts E d d1 \<Longrightarrow> survives d1 fs \<Longrightarrow> restarts E d (restart fs)"
| attempt: "restarts E d d1 \<Longrightarrow> recover E fl d1 = (r, fl', d2) \<Longrightarrow> restarts E d d2"

inductive_cases restartsE: "restarts E d d'"

lemma restarts_in_doubt:
  assumes "restarts E d d'" "plan_ok E tid pl" "clear_base pl (restart f0)" "in_doubt E tid pl (restart f0) d"
  shows "in_doubt E tid pl (restart f0) d'"
  using assms
proof (induction rule: restarts.induct)
  case (attempt d d1 fl r fl' d2)
  then show ?case using holdsD[OF recover_in_doubt] by (simp add: recovered_def)
qed (auto intro: in_doubt_survives)

lemma restarts_before:
  assumes "restarts E d d'" "plan_ok E tid pl" "clear_base pl (restart f0)" "before_add E tid pl (restart f0) d"
  shows "before_add E tid pl (restart f0) d'"
  using assms
proof (induction rule: restarts.induct)
  case (attempt d d1 fl r fl' d2)
  then show ?case using holdsD[OF recover_before] by (simp add: undone_def)
qed (auto intro: before_survives)

lemma restarts_after:
  assumes "restarts E d d'" "plan_ok E tid pl" "clear_base pl (restart f0)" "after_add E tid pl (restart f0) d"
  shows "after_add E tid pl (restart f0) d'"
  using assms
proof (induction rule: restarts.induct)
  case (attempt d d1 fl r fl' d2)
  then show ?case using holdsD[OF recover_after] by (simp add: redone_def)
qed (auto intro: after_survives)

section \<open>The transaction under faults\<close>

text \<open>A run that does not return: the graph is as before, except after \<open>OutcomeUnknown\<close> or a crash,
  when the next recovery decides.\<close>

definition failed :: "graph_env \<Rightarrow> string \<Rightarrow> add_plan \<Rightarrow> disk \<Rightarrow> 'a outcome \<Rightarrow> disk \<Rightarrow> bool" where
  "failed E tid pl b r d \<longleftrightarrow>
     (case r of
        Ok x \<Rightarrow> False
      | Raised e \<Rightarrow> if e = OutcomeUnknown then in_doubt E tid pl b d else before_add E tid pl b d
      | Crashed \<Rightarrow> in_doubt E tid pl b d)"

definition outcome_ok :: "graph_env \<Rightarrow> string \<Rightarrow> add_plan \<Rightarrow> disk \<Rightarrow> string outcome \<Rightarrow> disk \<Rightarrow> bool" where
  "outcome_ok E tid pl b r d \<longleftrightarrow> failed E tid pl b r d \<or> (r = Ok (pl_id pl) \<and> after_add E tid pl b d)"

lemma failed_simps [simp]:
  "failed E tid pl b (Ok x) d \<longleftrightarrow> False"
  "failed E tid pl b (Raised e) d \<longleftrightarrow> (if e = OutcomeUnknown then in_doubt E tid pl b d else before_add E tid pl b d)"
  "failed E tid pl b Crashed d \<longleftrightarrow> in_doubt E tid pl b d"
  by (simp_all add: failed_def)

lemma outcome_ok_simps [simp]:
  "outcome_ok E tid pl b (Ok i) d \<longleftrightarrow> i = pl_id pl \<and> after_add E tid pl b d"
  "outcome_ok E tid pl b (Raised e) d \<longleftrightarrow> failed E tid pl b (Raised e :: unit outcome) d"
  "outcome_ok E tid pl b Crashed d \<longleftrightarrow> in_doubt E tid pl b d"
  by (auto simp: outcome_ok_def)

lemma before_in_doubt: "before_add E tid pl b d \<Longrightarrow> in_doubt E tid pl b d"
  by (simp add: in_doubt_def)

lemma run_cleanup:
  assumes "prepared_state E tid pl b {Some (commit_text E tid pl)} {None} {Some (pl_text pl)} {pl_new_glossary pl} d"
  shows "holds (io_then (io_try cleanup_committed_add (\<lambda>_. io_return False)) (io_return (pl_id pl))) (outcome_ok E tid pl b) d"
proof (rule holds_bind, rule holds_try)
  have "box pl b {None, Some (prep_text E tid pl)} {Some (commit_text E tid pl)} {None} {Some (pl_text pl)} {pl_new_glossary pl} d"
    by (rule box_mono[OF assms]) auto
  from cleanup_after[OF this]
  show "holds cleanup_committed_add (after_try (\<lambda>_. io_return False) (after_bind (\<lambda>_. io_return (pl_id pl)) (outcome_ok E tid pl b))) d"
    by (rule holds_mono) (auto simp: finished_def after_try_def in_doubt_def split: outcome.splits)
qed

lemma undo_then_raise:
  fixes m :: "unit io"
  assumes "holds m (undone E tid pl b) d" "e \<noteq> OutcomeUnknown"
  shows "holds (io_then (io_try m (\<lambda>_. io_raise RecoveryRequired)) (io_raise e)) (failed E tid pl b) d"
proof (rule holds_bind, rule holds_try, rule holds_mono[OF assms(1)])
  fix r d' assume "undone E tid pl b (r :: unit outcome) d'"
  then show "after_try (\<lambda>_. io_raise RecoveryRequired) (after_bind (\<lambda>_. io_raise e) (failed E tid pl b)) r d'"
    using assms(2) settled_before_add before_in_doubt by (cases r) auto
qed

lemma marker_visible:
  assumes "plan_ok E tid pl" "cur d PendingAddAbort \<in> {None, Some (abort_text tid pl)}"
  shows "load_pending_add_abort E (vis d) =
    Inr (if cur d PendingAddAbort = None then None else Some (sorted_items (abort_marker tid pl)))"
  using assms load_abort[OF assms(1)] marker_absent(3) by auto

lemma same_dict_sorted: "same_dict (sorted_items d) d"
  by (simp add: same_dict_def sorted_items_idem)

lemma abort_marker_values:
  "jget_or_null (abort_marker tid pl) ''transaction_id'' = JStr tid" "jget_or_null (abort_marker tid pl) ''fact_id'' = JStr (pl_id pl)"
  by (simp_all add: abort_marker_def jget_or_null_def)

text \<open>The rollback intent is durable, or the outcome is unknown.\<close>

definition intent :: "graph_env \<Rightarrow> string \<Rightarrow> add_plan \<Rightarrow> unit io" where
  "intent E tid pl =
     io_try (atomic_write_text PendingAddAbort (pending_add_text (abort_marker tid pl)))
          (\<lambda>_. io_bind (io_try (io_lift (load_pending_add_abort E)) (\<lambda>_. io_raise OutcomeUnknown)) (\<lambda>visible.
             if \<not> (case visible of None \<Rightarrow> False | Some v \<Rightarrow> same_dict v (abort_marker tid pl)) then io_raise OutcomeUnknown
             else io_try (fsync_directory RootDir) (\<lambda>_. io_raise OutcomeUnknown)))"

lemma run_intent:
  assumes ok: "plan_ok E tid pl" and b: "undecided E tid pl b d"
  shows "holds (intent E tid pl) (\<lambda>r d'. r = Ok () \<and> aborting E tid pl b d' \<or> failed E tid pl b r d') d"
proof -
  let ?Q = "\<lambda>r d'. r = Ok () \<and> aborting E tid pl b d' \<or> failed E tid pl b r d'"
  let ?A = "Some (abort_text tid pl)" and ?C = "{None, Some (commit_text E tid pl)}" and ?F = "{Some (pl_text pl)}" and ?G = "{pl_new_glossary pl}"
  have ab: "aborting E tid pl b d1" if "prepared_state E tid pl b C {?A} ?F ?G d1" "C \<subseteq> ?C" for C d1
    unfolding aborting_def by (rule box_mono[OF that(1)]) (use that in auto)
  have u: "undecided E tid pl b d1 \<Longrightarrow> in_doubt E tid pl b d1" for d1 by (simp add: in_doubt_def)
  have handler: "holds (io_bind (io_try (io_lift (load_pending_add_abort E)) (\<lambda>_. io_raise OutcomeUnknown)) (\<lambda>visible.
             if \<not> (case visible of None \<Rightarrow> False | Some v \<Rightarrow> same_dict v (abort_marker tid pl)) then io_raise OutcomeUnknown
             else io_try (fsync_directory RootDir) (\<lambda>_. io_raise OutcomeUnknown))) ?Q d1" if d1: "undecided E tid pl b d1" for d1
  proof (rule holds_bind, rule holds_try)
    note d1' = d1[unfolded undecided_def]
    have f: "holds (io_try (fsync_directory RootDir) (\<lambda>_. io_raise OutcomeUnknown)) ?Q d1" if "cur d1 PendingAddAbort = ?A"
    proof (rule holds_try, rule holds_mono[OF holds_root_fsync(1)[OF d1']])
      fix r d2 assume e: "ends (\<lambda>d'. d' = sync RootDir d1 \<and> box pl b {cur d1 PendingAdd} {cur d1 PendingAddCommit} {cur d1 PendingAddAbort} ?F {cur d1 GlossaryFile} d')
          (\<lambda>d'. d' = d1) (r :: unit outcome) d2"
      show "after_try (\<lambda>_. io_raise OutcomeUnknown) ?Q r d2"
      proof (cases r)
        case (Ok x)
        then have "prepared_state E tid pl b {cur d1 PendingAddCommit} {?A} ?F ?G d2" using e that box_cur(1,5)[OF d1'] by auto
        then show ?thesis using ab box_cur(2)[OF d1'] Ok by auto
      qed (use e u[OF d1] in auto)
    qed
    show "holds (io_lift (load_pending_add_abort E)) (after_try (\<lambda>_. io_raise OutcomeUnknown) (after_bind (\<lambda>visible.
             if \<not> (case visible of None \<Rightarrow> False | Some v \<Rightarrow> same_dict v (abort_marker tid pl)) then io_raise OutcomeUnknown
             else io_try (fsync_directory RootDir) (\<lambda>_. io_raise OutcomeUnknown)) ?Q)) d1"
      using f u[OF d1] box_cur(3)[OF d1'] by (auto simp: marker_visible[OF ok box_cur(3)[OF d1']] same_dict_sorted)
  qed
  have "holds (set_file PendingAddAbort ?A) (ends (prepared_state E tid pl b ?C {?A} ?F ?G) (undecided E tid pl b)) d"
    by (rule holds_mono[OF holds_step(3)[OF b[unfolded undecided_def]]]) (auto simp: undecided_def elim: ends_weaken)
  then have "holds (atomic_write_text PendingAddAbort (pending_add_text (abort_marker tid pl)))
      (ends (prepared_state E tid pl b ?C {?A} ?F ?G) (undecided E tid pl b)) d"
    by (simp add: set_file_simps abort_text_def)
  then show ?thesis unfolding intent_def by (rule holds_catch) (use ab handler u in auto)
qed

lemma run_abort:
  assumes ok: "plan_ok E tid pl" and e: "e \<noteq> OutcomeUnknown" and b: "undecided E tid pl b d"
  shows "holds (abort_add E tid pl e) (failed E tid pl b) d"
proof -
  have i: "abort_add E tid pl e = io_then (intent E tid pl)
      (io_then (io_try (recover_aborted_add E (abort_marker tid pl)) (\<lambda>_. io_raise RecoveryRequired)) (io_raise e))"
    by (simp add: abort_add_def intent_def)
  show ?thesis
    unfolding i
  proof (rule holds_bind, rule holds_mono[OF run_intent[OF ok b]])
    fix r d' assume "r = Ok () \<and> aborting E tid pl b d' \<or> failed E tid pl b r d'"
    then show "after_bind (\<lambda>_. io_then (io_try (recover_aborted_add E (abort_marker tid pl)) (\<lambda>_. io_raise RecoveryRequired)) (io_raise e))
        (failed E tid pl b) r d'"
      using undo_then_raise[OF recover_aborting[OF ok _ abort_marker_values] e] by (cases r) auto
  qed
qed

lemma failed_lift: "failed E tid pl b (r :: unit outcome) d \<Longrightarrow> after_bind f (outcome_ok E tid pl b) r d"
  by (cases r) auto

lemma run_commit:
  assumes ok: "plan_ok E tid pl"
    and b: "prepared_state E tid pl b {None} {None} {Some (pl_text pl)} {pl_new_glossary pl} d"
  shows "holds (io_then (io_try (atomic_write_text PendingAddCommit (pending_add_text (committed_marker E tid pl))) (abort_add E tid pl))
      (io_then (io_try cleanup_committed_add (\<lambda>_. io_return False)) (io_return (pl_id pl)))) (outcome_ok E tid pl b) d"
proof (rule holds_bind, rule holds_catch)
  let ?C = "Some (commit_text E tid pl)"
  let ?B = "\<lambda>C. prepared_state E tid pl b C {None} {Some (pl_text pl)} {pl_new_glossary pl}"
  have "?B {None, ?C} d" using b by (rule box_mono) auto
  then show "holds (atomic_write_text PendingAddCommit (pending_add_text (committed_marker E tid pl))) (ends (?B {?C}) (?B {None, ?C})) d"
    unfolding set_file_simps commit_text_def by (rule holds_step(2)) simp
  fix d1 assume y: "?B {None, ?C} d1"
  have u: "undecided E tid pl b d1" unfolding undecided_def using y by (rule box_mono) auto
  have "holds (abort_add E tid pl OsError)
      (after_bind (\<lambda>_. io_then (io_try cleanup_committed_add (\<lambda>_. io_return False)) (io_return (pl_id pl))) (outcome_ok E tid pl b)) d1"
    by (rule holds_mono[OF run_abort[OF ok _ u]], simp, rule failed_lift)
  then show "holds (abort_add E tid pl OsError)
      (after_bind (\<lambda>_. io_then (io_try cleanup_committed_add (\<lambda>_. io_return False)) (io_return (pl_id pl))) (outcome_ok E tid pl b)) d1 \<and>
    after_bind (\<lambda>_. io_then (io_try cleanup_committed_add (\<lambda>_. io_return False)) (io_return (pl_id pl))) (outcome_ok E tid pl b) Crashed d1"
    using u by (simp add: in_doubt_def)
qed (simp add: run_cleanup)

text \<open>The two data files.\<close>

definition write_data :: "add_plan \<Rightarrow> unit io" where
  "write_data pl =
     io_then (atomic_write_text (ActiveFact (pl_id pl)) (pl_text pl))
       (case (pl_writes_glossary pl, pl_new_glossary pl) of
          (True, Some g) \<Rightarrow> atomic_write_text GlossaryFile g
        | _ \<Rightarrow> io_return ())"

lemma run_data:
  assumes ok: "plan_ok E tid pl" and b: "prepared_state E tid pl b {None} {None} {None} {pl_prev_glossary pl} d"
  shows "holds (write_data pl)
    (ends (prepared_state E tid pl b {None} {None} {Some (pl_text pl)} {pl_new_glossary pl}) (unfinished E tid pl b)) d"
  unfolding write_data_def
proof (rule holds_then)
  let ?G = "{pl_prev_glossary pl, pl_new_glossary pl}"
  let ?B = "\<lambda>F. prepared_state E tid pl b {None} {None} F ?G"
  have u: "unfinished E tid pl b d1" if "?B F d1" "F \<subseteq> {None, Some (pl_text pl)}" for F d1
    unfolding unfinished_def by (rule box_mono[OF that(1)]) (use that in auto)
  have w: "prepared_state E tid pl b {None} {None} {None, Some (pl_text pl)} {pl_prev_glossary pl} d" using b by (rule box_mono) auto
  show "holds (atomic_write_text (ActiveFact (pl_id pl)) (pl_text pl))
      (ends (prepared_state E tid pl b {None} {None} {Some (pl_text pl)} {pl_prev_glossary pl}) (unfinished E tid pl b)) d"
    unfolding set_file_simps
    by (rule holds_mono[OF holds_step(4)[OF w]], simp, erule ends_weaken) (auto simp: unfinished_def elim: box_mono)
  fix d1 assume d1: "prepared_state E tid pl b {None} {None} {Some (pl_text pl)} {pl_prev_glossary pl} d1"
  have w1: "?B {Some (pl_text pl)} d1" using d1 by (rule box_mono) auto
  show "holds (case (pl_writes_glossary pl, pl_new_glossary pl) of (True, Some g) \<Rightarrow> atomic_write_text GlossaryFile g | _ \<Rightarrow> io_return ())
      (ends (prepared_state E tid pl b {None} {None} {Some (pl_text pl)} {pl_new_glossary pl}) (unfinished E tid pl b)) d1"
  proof (cases "pl_writes_glossary pl")
    case True
    then obtain g where g: "pl_new_glossary pl = Some g" using ok by (auto simp: plan_ok_def)
    have "holds (set_file GlossaryFile (Some g))
        (ends (prepared_state E tid pl b {None} {None} {Some (pl_text pl)} {Some g}) (unfinished E tid pl b)) d1"
      by (rule holds_mono[OF holds_step(5)[OF w1]]) (use g u in \<open>auto elim: ends_weaken\<close>)
    then show ?thesis using True g by (simp add: set_file_simps)
  next
    case False
    then have "pl_new_glossary pl = pl_prev_glossary pl" using ok by (auto simp: plan_ok_def)
    then show ?thesis using False d1 by simp
  qed
qed (use before_unfinished in auto)

lemma run_add:
  assumes ok: "plan_ok E tid pl" and s: "settled_before pl b d"
  shows "holds (commit_add E tid pl) (outcome_ok E tid pl b) d"
proof -
  let ?B = "\<lambda>P. box pl b P {None} {None} {None} {pl_prev_glossary pl}"
  let ?P = "Some (prep_text E tid pl)"
  have c: "commit_add E tid pl = io_then (atomic_write_text PendingAdd (pending_add_text (prepared_marker E tid pl)))
     (io_then (io_try (write_data pl) (\<lambda>e. io_then (io_try (rollback_pending_add E) (\<lambda>_. io_raise RecoveryRequired)) (io_raise e)))
     (io_then (io_try (atomic_write_text PendingAddCommit (pending_add_text (committed_marker E tid pl))) (abort_add E tid pl))
     (io_then (io_try cleanup_committed_add (\<lambda>_. io_return False)) (io_return (pl_id pl)))))"
    by (simp add: commit_add_def write_data_def)
  have "?B {None, ?P} d" using s unfolding settled_before_def by (rule box_mono) auto
  then have first: "holds (atomic_write_text PendingAdd (pending_add_text (prepared_marker E tid pl))) (ends (?B {?P}) (?B {None, ?P})) d"
    unfolding set_file_simps prep_text_def by (rule holds_step(1)) simp
  have second: "holds (io_then (io_try (write_data pl) (\<lambda>e. io_then (io_try (rollback_pending_add E) (\<lambda>_. io_raise RecoveryRequired)) (io_raise e)))
     (io_then (io_try (atomic_write_text PendingAddCommit (pending_add_text (committed_marker E tid pl))) (abort_add E tid pl))
     (io_then (io_try cleanup_committed_add (\<lambda>_. io_return False)) (io_return (pl_id pl))))) (outcome_ok E tid pl b) d1" (is "holds (io_then _ ?rest) _ _")
    if d1: "?B {?P} d1" for d1
  proof (rule holds_bind, rule holds_catch[OF run_data[OF ok d1]])
    fix d2 assume u: "unfinished E tid pl b d2"
    have "holds (io_then (io_try (rollback_pending_add E) (\<lambda>_. io_raise RecoveryRequired)) (io_raise OsError :: unit io)) (failed E tid pl b) d2"
      by (rule undo_then_raise[OF rollback_unfinished[OF ok u]]) simp
    then have "holds (io_then (io_try (rollback_pending_add E) (\<lambda>_. io_raise RecoveryRequired)) (io_raise OsError :: unit io))
        (after_bind (\<lambda>_. ?rest) (outcome_ok E tid pl b)) d2"
      by (rule holds_mono) (rule failed_lift)
    then show "holds (io_then (io_try (rollback_pending_add E) (\<lambda>_. io_raise RecoveryRequired)) (io_raise OsError :: unit io))
        (after_bind (\<lambda>_. ?rest) (outcome_ok E tid pl b)) d2 \<and> after_bind (\<lambda>_. ?rest) (outcome_ok E tid pl b) Crashed d2"
      using before_unfinished[OF u] before_in_doubt by simp
  qed (use run_commit[OF ok] in simp)
  show ?thesis
    unfolding c by (rule holds_then[OF first]) (use second before_prepared before_in_doubt in auto)
qed

section \<open>What the preparation guarantees\<close>

lemma read_text_idem: "read_text (read_text s) = read_text s"
proof (rule read_text_id)
  show "CR \<notin> set (read_text s)" by (induction s rule: read_text.induct) auto
qed

lemma read_glossary_cong:
  assumes "map_option read_text (map_of fs GlossaryFile) = map_option read_text (map_of fs' GlossaryFile)"
  shows "read_project_glossary E fs strict = read_project_glossary E fs' strict"
  using assms unfolding read_project_glossary_def by (auto split: option.splits)

lemma dumps_indent2_no_CR: "CR \<notin> set (dumps_indent2 d)"
proof -
  have "CR \<notin> set (render_member indent_fmt (k, JStr v))" for k v
    using json_str_no_CR by (auto simp: render_member_def indent_fmt_def)
  then have "CR \<notin> set (join (item_sep indent_fmt) (map (\<lambda>(k, v). render_member indent_fmt (k, JStr v)) d))"
    by (intro join_no_CR) (auto simp: indent_fmt_def)
  then show ?thesis by (auto simp: dumps_indent2_def)
qed

lemma glossary_text_no_CR: "CR \<notin> set (glossary_text g)"
  using dumps_indent2_no_CR by (simp add: glossary_text_def)

lemma glossary_read_back:
  assumes "distinct (keys g)" "map_of fs GlossaryFile = Some (glossary_text g)"
    "\<And>t d. map_of g t = Some d \<Longrightarrow> map_of (env_global E) t \<in> {None, Some d}"
  shows "read_project_glossary E fs strict = Inr (sorted_items g)"
proof -
  have l: "loads (env_float E) (read_text (glossary_text g)) = Some (JObj (map (\<lambda>(k, v). (k, JStr v)) (sorted_items g)))"
    unfolding read_text_id[OF glossary_text_no_CR] unfolding glossary_text_def
    by (rule loads_indent2) (simp add: keys_sorted_items assms(1))
  have d: "string_dict (JObj (map (\<lambda>(k, v). (k, JStr v)) (sorted_items g))) = Some (sorted_items g)"
    by (simp add: string_dict_def list_all_iff is_str_def to_str_def comp_def case_prod_beta')
  have "map_of (env_global E) t \<in> {None, Some d}" if "(t, d) \<in> set (sorted_items g)" for t d
    using that assms(1,3) keys_sorted_items[OF assms(1)] map_of_sorted_items[OF assms(1)] by (metis map_of_is_SomeI)
  then have "filter (\<lambda>(t, d). case map_of (env_global E) t of None \<Rightarrow> False | Some g \<Rightarrow> g \<noteq> d) (sorted_items g) = []"
    by (fastforce simp: filter_empty_conv split: option.splits)
  then show ?thesis using l d assms(2) by (simp add: read_project_glossary_def)
qed

lemma dict_update_map_of: "distinct (keys new) \<Longrightarrow> map_of (dict_update d new) t = (case map_of new t of None \<Rightarrow> map_of d t | Some x \<Rightarrow> Some x)"
  unfolding dict_update_def
proof (induction new arbitrary: d)
  case (Cons kv new)
  have "map_of new k = None" if "k \<notin> fst ` set new" for k using that by (simp add: map_of_eq_None_iff)
  then show ?case using Cons by (cases kv) (auto simp: update_conv' split: option.split)
qed simp

lemma dict_update_distinct: "distinct (keys d) \<Longrightarrow> distinct (keys (dict_update d new))"
  unfolding dict_update_def by (induction new arbitrary: d) (auto simp: distinct_update)

end
