(* ===== verification/FactGraphAtomic.thy ===== *)
theory FactGraphAtomic
  imports FactGraphCrash
begin

text \<open>
  The properties of the add transaction: what \<open>_add_unlocked\<close> prepares is a plan the transaction can
  carry out, an add cut off anywhere is all or nothing once the next mutation has recovered it, and a
  reader that is let in sees one of the two states.
\<close>

section \<open>The plan\<close>

lemma foldl_update_distinct: "distinct (keys d) \<Longrightarrow> distinct (keys (foldl (\<lambda>d (k, v). AList.update k v d) d ps))"
  by (induction ps arbitrary: d) (auto simp: distinct_update)

lemma loads_distinct: "loads flt s = Some (JObj d) \<Longrightarrow> distinct (keys d)"
proof -
  let ?h = "default_hooks flt"
  have n: "parse_const ?h t \<noteq> Some (JObj d, r)" for t r
    by (auto simp: parse_const_def parse_num_def default_hooks_def Let_def split: option.splits prod.splits if_splits list.splits)
  assume "loads flt s = Some (JObj d)"
  then obtain r where "parse_value ?h (Suc (length s)) (skip_ws s) = Some (JObj d, r)"
    by (auto simp: loads_def loads_with_def split: option.splits if_splits)
  then show ?thesis
    using n foldl_update_distinct[of "[]"]
    by (auto simp: default_hooks_def split: list.splits if_splits option.splits)
qed

lemma string_dict_keys: "string_dict (JObj o') = Some d \<Longrightarrow> keys d = keys o'"
  by (auto simp: string_dict_def split: if_splits)

lemma sort_Nil: "sort xs = [] \<longleftrightarrow> xs = []"
  by (metis length_0_conv length_sort)

lemma read_glossary_facts:
  assumes "read_project_glossary E fs True = Inr g"
  shows "distinct (keys g)" "map_of g t = Some d \<Longrightarrow> map_of (env_global E) t \<in> {None, Some d}"
proof -
  have a: "distinct (keys g) \<and> (\<forall>(t, d) \<in> set g. map_of (env_global E) t \<in> {None, Some d})"
  proof (cases "map_of fs GlossaryFile")
    case None
    then show ?thesis using assms by (simp add: read_project_glossary_def)
  next
    case (Some raw)
    let ?bad = "\<lambda>(t, d). (\<exists>y. map_of (env_global E) t = Some y) \<and> map_of (env_global E) t \<noteq> Some d"
    obtain v where v: "loads (env_float E) (read_text raw) = Some v" "string_dict v = Some g" and f: "filter ?bad g = []"
      using assms Some unfolding read_project_glossary_def
      by (simp add: Let_def sort_Nil split: option.splits if_splits)
    have s: "\<forall>(t, d) \<in> set g. map_of (env_global E) t \<in> {None, Some d}"
      using f by (fastforce simp: filter_empty_conv split: option.splits)
    from v obtain o' where o': "loads (env_float E) (read_text raw) = Some (JObj o')" "string_dict (JObj o') = Some g"
      by (cases v) (auto simp: string_dict_def)
    show ?thesis using loads_distinct[OF o'(1)] string_dict_keys[OF o'(2)] s by simp
  qed
  then show "distinct (keys g)" by blast
  show "map_of g t = Some d \<Longrightarrow> map_of (env_global E) t \<in> {None, Some d}" using a map_of_SomeD[of g t d] by blast
qed

lemma identity_hex:
  assumes "hexdigest (env_hash E)" "canonical_fact_identity_unlocked E fs pid preds gloss stmt prf fid = Inr i"
  shows "FULL_FACT_IDENTITY i"
  using assms hexdigest.digest_hex[OF assms(1)]
  by (auto simp: canonical_fact_identity_unlocked_def fact_identity_from_verification_context_def bind_identity_def
      compute_fact_identity_def Let_def split: sum.splits if_splits option.splits json.splits)

lemma predecessors_safe: "check_predecessors fs ps = None \<Longrightarrow> list_all SAFE_FACT_ID ps"
  by (induction fs ps rule: check_predecessors.induct) (auto split: if_splits)

lemma conflict_free:
  assumes "glossary_conflicts_against E current new = []" "(t, d) \<in> set new"
  shows "map_of (env_global E) t \<in> {None, Some d}"
proof -
  have "filter (\<lambda>(t, d). (case map_of current t of None \<Rightarrow> False | Some c \<Rightarrow> c \<noteq> d) \<or>
       (case map_of (env_global E) t of None \<Rightarrow> False | Some g \<Rightarrow> g \<noteq> d)) new = []"
    using assms(1) by (simp only: glossary_conflicts_against_def sort_Nil map_is_Nil_conv)
  with assms(2) show ?thesis by (fastforce simp: filter_empty_conv split: option.splits)
qed

lemma merged_glossary:
  assumes "prepare_glossary_merge E fs new = Inr g" "distinct (keys new)"
  shows "distinct (keys g)" "map_of g t = Some d \<Longrightarrow> map_of (env_global E) t \<in> {None, Some d}"
    "\<not> isl (read_project_glossary E fs True)"
proof -
  obtain current where c: "read_project_glossary E fs True = Inr current" "glossary_conflicts_against E current new = []"
    and g: "g = dict_update current new"
    using assms(1) by (auto simp: prepare_glossary_merge_def Let_def split: sum.splits if_splits)
  show "distinct (keys g)" using read_glossary_facts(1)[OF c(1)] dict_update_distinct g by simp
  show "\<not> isl (read_project_glossary E fs True)" using c by simp
  show "map_of g t = Some d \<Longrightarrow> map_of (env_global E) t \<in> {None, Some d}"
    using read_glossary_facts(2)[OF c(1)] conflict_free[OF c(2)] map_of_SomeD[of new t d]
    by (auto simp: g dict_update_map_of[OF assms(2)] split: option.splits)
qed

text \<open>The arguments of a call: a dictionary of definitions, references whose floats print on one line,
  as every Python float does.\<close>

definition args_ok :: "add_args \<Rightarrow> bool" where
  "args_ok a \<longleftrightarrow> distinct (keys (a_glossary a)) \<and>
     (\<forall>rs. clean_external_refs (a_refs a) = Inr rs \<longrightarrow> list_all float_lines (map JObj rs))"

lemma prepared_storable:
  assumes "args_ok a" "check_add_args fs a preds = None" "SAFE_FACT_ID fid" "FULL_FACT_IDENTITY identity"
  shows "storable (make_fact a preds fid identity)"
proof -
  have c: "a_problem a \<noteq> []" "a_problem a = strip (a_problem a)" "\<not> LINE_BREAK (a_problem a)" "\<not> LINE_BREAK (a_author a)"
    "\<not> list_ex (\<lambda>l. heading l = ''## proof'') (splitlines (a_statement a))"
    "\<not> list_ex (\<lambda>l. heading l = ''## intuition'') (splitlines (a_intuition a))" "check_predecessors fs preds = None"
    using assms(2) by (simp_all add: check_add_args_def first_error_None del: list_ex_iff)
  obtain rs where rs: "clean_external_refs (a_refs a) = Inr rs"
    using assms(2) by (auto simp: check_add_args_def first_error_None split: sum.splits)
  show ?thesis
    using c rs assms(1,3,4) predecessors_safe[OF c(7)]
    by (simp add: storable_def make_fact_def args_ok_def has_heading_def)
qed

lemma lookup_absent:
  "lookup_active_exact_identity_unlocked E fs pid preds gloss stmt prf fid = Inr None \<Longrightarrow> map_of fs (ActiveFact fid) = None"
  by (auto simp: lookup_active_exact_identity_unlocked_def get_raw_unchecked_def Let_def split: sum.splits option.splits if_splits)

lemma prepare_add_plan:
  assumes "prepare_add E a fs = Inr (Inr pl)"
  defines "preds \<equiv> filter (\<lambda>p. p \<noteq> []) (a_predecessors a)"
  defines "fid \<equiv> compute_fact_id (env_hash E) (a_problem a) preds (a_glossary a) (a_statement a) (a_proof a)"
  obtains identity merged where "check_add_args fs a preds = None" "map_of fs (RevokedFact fid) = None" "map_of fs (ActiveFact fid) = None"
    "canonical_fact_identity_unlocked E fs (a_problem a) preds (a_glossary a) (a_statement a) (a_proof a) fid = Inr identity"
    "prepare_glossary_merge E fs (a_glossary a) = Inr merged"
    "pl_id pl = fid" "pl_text pl = serialize_fact (make_fact a preds fid identity)"
    "pl_prev_glossary pl = map_option read_text (map_of fs GlossaryFile)"
    "pl_new_glossary pl = (if a_glossary a \<noteq> [] then Some (glossary_text merged) else pl_prev_glossary pl)"
    "pl_writes_glossary pl = (a_glossary a \<noteq> [])"
  using assms(1) unfolding prepare_add_def Let_def preds_def[symmetric] fid_def[symmetric]
  by (auto simp: exists_file_def dest: lookup_absent split: option.splits sum.splits if_splits)

lemma prepared_plan_ok:
  assumes h: "hexdigest (env_hash E)" and t: "is_hex32 tid" and a: "args_ok a" and p: "prepare_add E a fs = Inr (Inr pl)"
  shows "plan_ok E tid pl" "map_of fs (RevokedFact (pl_id pl)) = None" "map_of fs (ActiveFact (pl_id pl)) = None"
    "pl_prev_glossary pl = map_option read_text (map_of fs GlossaryFile)"
proof -
  define preds where "preds = filter (\<lambda>p. p \<noteq> []) (a_predecessors a)"
  from prepare_add_plan[OF p] obtain identity merged where c1: "check_add_args fs a preds = None" "map_of fs (RevokedFact (pl_id pl)) = None"
    and act: "map_of fs (ActiveFact (pl_id pl)) = None" and c3:
    "canonical_fact_identity_unlocked E fs (a_problem a) preds (a_glossary a) (a_statement a) (a_proof a) (pl_id pl) = Inr identity"
    and m: "prepare_glossary_merge E fs (a_glossary a) = Inr merged"
    and pl: "pl_id pl = compute_fact_id (env_hash E) (a_problem a) preds (a_glossary a) (a_statement a) (a_proof a)"
    "pl_text pl = serialize_fact (make_fact a preds (pl_id pl) identity)"
    "pl_prev_glossary pl = map_option read_text (map_of fs GlossaryFile)"
    "pl_new_glossary pl = (if a_glossary a \<noteq> [] then Some (glossary_text merged) else pl_prev_glossary pl)"
    "pl_writes_glossary pl = (a_glossary a \<noteq> [])"
    unfolding preds_def[symmetric] by metis
  note c = c1 c3
  show "map_of fs (ActiveFact (pl_id pl)) = None" by (rule act)
  show "map_of fs (RevokedFact (pl_id pl)) = None" "pl_prev_glossary pl = map_option read_text (map_of fs GlossaryFile)"
    by (rule c(2), rule pl(3))
  have id: "CONTENT_FACT_ID (pl_id pl)" unfolding pl(1) compute_fact_id_def using hexdigest.digest_prefix[OF h, of 16] by simp
  let ?f = "make_fact a preds (pl_id pl) identity"
  have s: "storable ?f" by (rule prepared_storable[OF a c(1) hex16_safe[OF id] identity_hex[OF h c(3)]])
  have adr: "addressed (env_hash E) ?f" using pl(1) by (simp add: addressed_def make_fact_def)
  have fact: "check_fact E gs (pl_id pl) (pl_text pl) (parse_frontmatter (env_float E) (pl_text pl)) = None"
    if "map_of gs (RevokedFact (pl_id pl)) = None" for gs
    using that carried_intact[OF serialize_carries[OF s] adr, of "env_float E"] id
    by (simp add: check_fact_def exists_file_def pl(2) make_fact_def)
  have d: "distinct (keys (a_glossary a))" using a by (simp add: args_ok_def)
  have gloss: "\<not> isl (read_project_glossary E gs True)" if g: "pl_new_glossary pl = Some g" "map_of gs GlossaryFile = Some g" for gs g
  proof (cases "a_glossary a = []")
    case True
    then have "map_option read_text (map_of gs GlossaryFile) = map_option read_text (map_of fs GlossaryFile)"
      using g pl(3,4) by (auto simp: read_text_idem)
    from read_glossary_cong[OF this] show ?thesis using merged_glossary(3)[OF m d] by simp
  next
    case False
    then have "map_of gs GlossaryFile = Some (glossary_text merged)" using g pl(4) by simp
    from glossary_read_back[OF merged_glossary(1)[OF m d] this merged_glossary(2)[OF m d]] show ?thesis by simp
  qed
  show "plan_ok E tid pl"
    unfolding plan_ok_def using h t id fact gloss pl(4,5) by auto
qed

section \<open>A whole add\<close>

text \<open>A graph between two mutations, everything synchronised: no marker, no pending revocation, and a
  glossary file with line feeds only, as the engine writes it.\<close>

definition at_rest :: "files \<Rightarrow> bool" where
  "at_rest f0 \<longleftrightarrow> list_all (\<lambda>p. map_of f0 p = None) [PendingAdd, PendingAddCommit, PendingAddAbort, PendingRevocation] \<and>
     (case map_of f0 GlossaryFile of None \<Rightarrow> True | Some g \<Rightarrow> CR \<notin> set g)"

lemma sync_restart [simp]: "sync s (restart f0) = restart f0"
  by (simp add: sync_def restart_def)

lemma at_rest_recover: "at_rest f0 \<Longrightarrow> recover_pending_transactions E fl (restart f0) = (Ok None, fl, restart f0)"
  by (simp add: recover_pending_transactions_def io_bind_def rollback_nothing no_revocation at_rest_def)

lemma planned:
  assumes "hexdigest (env_hash E)" "is_hex32 tid" "args_ok a" "at_rest f0" "prepare_add E a f0 = Inr (Inr pl)"
  shows "plan_ok E tid pl" "clear_base pl (restart f0)" "settled_before pl (restart f0) (restart f0)"
proof -
  note p = prepared_plan_ok[OF assms(1-3,5)]
  show "plan_ok E tid pl" by (rule p)
  show "clear_base pl (restart f0)" using p(2) assms(4) by (simp add: clear_base_def at_rest_def)
  have "pl_prev_glossary pl = map_of f0 GlossaryFile"
    using p(4) assms(4) read_text_id by (auto simp: at_rest_def split: option.splits)
  then show "settled_before pl (restart f0) (restart f0)"
    using assms(4) p(3) by (simp add: settled_before_def box_iff at_rest_def)
qed

text \<open>A run of an add: nothing was to be written or nothing has been, or a transaction was run.\<close>

definition add_run :: "graph_env \<Rightarrow> string \<Rightarrow> add_args \<Rightarrow> files \<Rightarrow> string outcome \<Rightarrow> disk \<Rightarrow> bool" where
  "add_run E tid a f0 r d \<longleftrightarrow>
     (d = restart f0 \<and> (\<forall>i. r = Ok i \<longrightarrow> prepare_add E a f0 = Inr (Inl i))) \<or>
     (\<exists>pl. prepare_add E a f0 = Inr (Inr pl) \<and> outcome_ok E tid pl (restart f0) r d)"

lemma run_whole_add:
  assumes "hexdigest (env_hash E)" "is_hex32 tid" "args_ok a" "at_rest f0"
  shows "holds (add E tid a) (add_run E tid a f0) (restart f0)"
proof -
  have u: "holds (add_unlocked E tid a) (add_run E tid a f0) (restart f0)"
  proof (cases "prepare_add E a f0")
    case (Inl e)
    then show ?thesis unfolding add_unlocked_def by (intro holds_bind) (simp add: add_run_def)
  next
    case (Inr x)
    show ?thesis
    proof (cases x)
      case i: (Inl i)
      show ?thesis unfolding add_unlocked_def by (intro holds_lift_bind[where x = "Inl i"]) (use Inr i in \<open>simp_all add: add_run_def\<close>)
    next
      case pl: (Inr pl)
      note p = planned[OF assms Inr[unfolded pl]]
      have s: "settled_before pl (restart f0) d" if "calms (restart f0) d" for d
        using p(3) that box_calms unfolding settled_before_def by blast
      have "holds (io_then (mkdir_durable FactsDir) (commit_add E tid pl)) (outcome_ok E tid pl (restart f0)) (restart f0)"
        by (rule holds_then[OF holds_mkdir]) (use run_add[OF p(1) s] s settled_before_add before_in_doubt in auto)
      then have "holds (io_then (mkdir_durable FactsDir) (commit_add E tid pl)) (add_run E tid a f0) (restart f0)"
        by (rule holds_mono) (use Inr pl in \<open>auto simp: add_run_def\<close>)
      then show ?thesis unfolding add_unlocked_def by (intro holds_lift_bind[where x = "Inr pl"]) (use Inr pl in simp_all)
    qed
  qed
  show ?thesis
    unfolding add_def
  proof (rule locked)
    show "holds (io_then (recover_pending_transactions E) (add_unlocked E tid a)) (add_run E tid a f0) (sync RootDir (restart f0))"
      by (rule holds_bind, rule holds_eq) (use at_rest_recover[OF assms(4)] u in simp_all)
  qed (simp_all add: add_run_def)
qed

lemma box_settled:
  assumes "box pl (restart f0) {None} {None} {None} {F} {G} d" "at_rest f0"
  shows "map_of (vis d) = (map_of f0)(ActiveFact (pl_id pl) := F, GlossaryFile := G)"
    "survives d fs \<Longrightarrow> map_of fs = map_of (vis d)"
proof -
  let ?m = "(map_of f0)(ActiveFact (pl_id pl) := F, GlossaryFile := G)"
  note b = assms(1)[unfolded box_iff]
  have s: "poss d q \<subseteq> {?m q}" for q
  proof (cases "q \<in> touched pl")
    case True
    have m: "?m PendingAdd = None" "?m PendingAddCommit = None" "?m PendingAddAbort = None" using assms(2) by (simp_all add: at_rest_def)
    show ?thesis using True b m unfolding touched_def by (elim insertE emptyE) simp_all
  next
    case False
    then have "?m q = map_of f0 q" by (auto simp: touched_def)
    then show ?thesis using False b by simp
  qed
  have p: "poss d q = {?m q}" for q
    using subset_singletonD[OF s[of q]] cur_poss[of d q] by (metis empty_iff)
  show v: "map_of (vis d) = (map_of f0)(ActiveFact (pl_id pl) := F, GlossaryFile := G)"
  proof
    fix q show "map_of (vis d) q = ((map_of f0)(ActiveFact (pl_id pl) := F, GlossaryFile := G)) q"
      using p[of q] cur_poss[of d q] by (metis singletonD)
  qed
  show "map_of fs = map_of (vis d)" if "survives d fs"
  proof
    fix q show "map_of fs q = map_of (vis d) q"
      using p[of q] that v unfolding survives_def by (metis singletonD)
  qed
qed

text \<open>The files after an add: the fact and the glossary of the plan over the files before.\<close>

definition added :: "files \<Rightarrow> add_plan \<Rightarrow> path \<Rightarrow> string option" where
  "added f0 pl = (map_of f0)(ActiveFact (pl_id pl) \<mapsto> pl_text pl, GlossaryFile := pl_new_glossary pl)"

lemma settled_before_files:
  assumes "settled_before pl (restart f0) d" "at_rest f0" "settled_before pl (restart f0) (restart f0)"
  shows "map_of (vis d) = map_of f0"
proof -
  have "pl_prev_glossary pl = map_of f0 GlossaryFile" "map_of f0 (ActiveFact (pl_id pl)) = None"
    using assms(3) by (simp_all add: settled_before_def box_iff)
  then show ?thesis using box_settled(1)[OF assms(1)[unfolded settled_before_def] assms(2)] by auto
qed

lemma recover_at_rest:
  assumes "at_rest f0"
  shows "holds (recover E) (\<lambda>r d. d = restart f0) (restart f0)"
  by (rule locked) (use assms in \<open>auto intro: holds_eq at_rest_recover\<close>)

lemma restarts_at_rest:
  assumes "restarts E d d'" "d = restart f0" "at_rest f0"
  shows "\<exists>f. d' = restart f \<and> map_of f = map_of f0"
  using assms
proof (induction rule: restarts.induct)
  case (crash d d1 fs)
  then show ?case by (auto simp: survives_restart)
next
  case (attempt d d1 fl r fl' d2)
  then obtain f where f: "d1 = restart f" "map_of f = map_of f0" by blast
  then have "at_rest f" using attempt.prems by (simp add: at_rest_def)
  then show ?case using holdsD[OF recover_at_rest] attempt.hyps(2) f by blast
qed auto

lemma untouched_stays:
  assumes "at_rest f0" "restarts E (restart f0) d2" "recover E fl2 d2 = (Ok x, fl3, d3)"
  shows "map_of (vis d3) = map_of f0" "survives d3 fs \<Longrightarrow> map_of fs = map_of (vis d3)"
proof -
  have "restarts E (restart f0) d3" using assms(2,3) by (rule restarts.attempt)
  then obtain f where "d3 = restart f" "map_of f = map_of f0" using restarts_at_rest[OF _ refl assms(1)] by blast
  then show "map_of (vis d3) = map_of f0" "survives d3 fs \<Longrightarrow> map_of fs = map_of (vis d3)" by (simp_all add: survives_restart)
qed

text \<open>The three ways a transaction ends, seen after a recovery that returns.\<close>

lemma transaction_ends:
  fixes f0 pl
  defines "b \<equiv> restart f0"
  assumes ok: "plan_ok E tid pl" and k: "clear_base pl b" and rest: "at_rest f0" and s: "settled_before pl b b"
    and st: "restarts E d1 d2" and rec: "recover E fl2 d2 = (Ok x, fl3, d3)"
  shows "before_add E tid pl b d1 \<Longrightarrow> map_of (vis d3) = map_of f0"
    "after_add E tid pl b d1 \<Longrightarrow> map_of (vis d3) = added f0 pl"
    "in_doubt E tid pl b d1 \<Longrightarrow> map_of (vis d3) = map_of f0 \<or> map_of (vis d3) = added f0 pl"
    "in_doubt E tid pl b d1 \<Longrightarrow> survives d3 fs \<Longrightarrow> map_of fs = map_of (vis d3)"
proof -
  note k' = k[unfolded b_def] and s' = s[unfolded b_def]
  have bef: "map_of (vis d3) = map_of f0" if "settled_before pl b d3"
    using settled_before_files[OF that[unfolded b_def] rest s'] .
  have aft: "map_of (vis d3) = added f0 pl" if "settled_after pl b d3"
    using box_settled(1)[OF that[unfolded b_def settled_after_def] rest] by (simp add: added_def)
  show "map_of (vis d3) = map_of f0" if "before_add E tid pl b d1"
    using holdsD[OF recover_before[OF ok k' restarts_before[OF st ok k' that[unfolded b_def]]] rec] bef by (simp add: b_def)
  show "map_of (vis d3) = added f0 pl" if "after_add E tid pl b d1"
    using holdsD[OF recover_after[OF ok k' restarts_after[OF st ok k' that[unfolded b_def]]] rec] aft by (simp add: redone_def b_def)
  have dec: "settled_before pl b d3 \<or> settled_after pl b d3" if "in_doubt E tid pl b d1"
    using holdsD[OF recover_in_doubt[OF ok k' restarts_in_doubt[OF st ok k' that[unfolded b_def]]] rec] by (simp add: recovered_def b_def)
  then show "map_of (vis d3) = map_of f0 \<or> map_of (vis d3) = added f0 pl" if "in_doubt E tid pl b d1" using that bef aft by blast
  show "map_of fs = map_of (vis d3)" if "in_doubt E tid pl b d1" "survives d3 fs"
    using dec[OF that(1)] box_settled(2)[OF _ rest that(2)] unfolding b_def settled_before_def settled_after_def by blast
qed

end
