(* ===== verification/FactGraphCompletes.thy ===== *)
theory FactGraphCompletes
  imports FactGraphAtomic
begin

text \<open>
  Liveness of recovery: once the faults stop, the next mutation recovers the graph and goes on, from
  any disk an unfinished add can leave.
\<close>

section \<open>Runs without faults\<close>

definition runs :: "'a io \<Rightarrow> (disk \<Rightarrow> bool) \<Rightarrow> disk \<Rightarrow> bool" where
  "runs m X d \<longleftrightarrow> (\<exists>x d'. m [] d = (Ok x, [], d') \<and> X d')"

lemma runs_prim [simp]: "prim eff [] d = (Ok (), [], eff d)"
  by (simp add: prim_def)

lemma fsync_runs [simp]: "fsync_directory s [] d = (Ok (), [], sync s d)"
  "fsync_directory_with_retry s [] d = (Ok (), [], sync s d)"
  by (simp_all add: fsync_directory_def fsync_directory_with_retry_def io_try_def)

lemma set_file_runs: "\<exists>d'. set_file p v [] d = (Ok (), [], d')"
  by (auto simp: set_file_def atomic_write_text_def unlink_durable_def mkdir_durable_def io_bind_def io_read_def io_return_def split: option.split)

lemma runs_ends:
  assumes "holds m (ends X Y) d" "\<exists>d'. m [] d = (Ok (), [], d')"
  shows "runs m X d"
  using assms holdsD[OF assms(1)] by (fastforce simp: runs_def)

lemma runs_set: "holds (set_file p v) (ends X Y) d \<Longrightarrow> runs (set_file p v) X d"
  by (erule runs_ends) (rule set_file_runs)

lemma runs_bind: "runs m X d \<Longrightarrow> (\<And>x d'. X d' \<Longrightarrow> runs (f x) Y d') \<Longrightarrow> runs (io_bind m f) Y d"
  by (fastforce simp: runs_def io_bind_def)

lemma runs_try: "runs m X d \<Longrightarrow> runs (io_try m h) X d"
  by (auto simp: runs_def io_try_def)

lemma runs_lift: "g (vis d) = Inr x \<Longrightarrow> runs (f x) X d \<Longrightarrow> runs (io_bind (io_lift g) f) X d"
  by (simp add: runs_def io_bind_def io_lift_def)

lemma runs_read: "runs (f (g (vis d))) X d \<Longrightarrow> runs (io_bind (io_read g) f) X d"
  by (simp add: runs_def io_bind_def io_read_def)

lemma runs_return: "X d \<Longrightarrow> runs (io_return x) X d"
  by (simp add: runs_def io_return_def)

lemma runs_mono: "runs m X d \<Longrightarrow> (\<And>d. X d \<Longrightarrow> Y d) \<Longrightarrow> runs m Y d"
  by (auto simp: runs_def)

section \<open>Rolling back\<close>

lemma restore_runs:
  assumes "box pl b P C A F G d" "None \<in> F" "pl_prev_glossary pl \<in> G" "d0 = sorted_items (prepared_marker E tid pl)"
  shows "runs (restore_pending_add_snapshot d0) (box pl b P C A {None} {pl_prev_glossary pl}) d"
  unfolding restore_pending_add_snapshot_def restore_fields[OF flat_prepared assms(4)]
  by (rule runs_bind[OF runs_set[OF holds_step(4)[OF assms(1,2)]]]) (rule runs_set[OF holds_step(5)], assumption, rule assms(3))

lemma unlink_runs: "box pl b P C A F G d \<Longrightarrow> None \<in> P \<Longrightarrow> runs (unlink_durable PendingAdd) (box pl b {None} C A F G) d"
  "box pl b P C A F G d \<Longrightarrow> None \<in> C \<Longrightarrow> runs (unlink_durable PendingAddCommit) (box pl b P {None} A F G) d"
  "box pl b P C A F G d \<Longrightarrow> None \<in> A \<Longrightarrow> runs (unlink_durable PendingAddAbort) (box pl b P C {None} F G) d"
  unfolding set_file_simps by (erule runs_set[OF holds_step(1)] runs_set[OF holds_step(2)] runs_set[OF holds_step(3)], assumption)+

lemma unfinished_runs:
  assumes "plan_ok E tid pl" "unfinished E tid pl b d"
  shows "runs (rollback_pending_add E) (settled_before pl b) d"
proof -
  note u = assms(2)[unfolded unfinished_def]
  let ?d0 = "sorted_items (prepared_marker E tid pl)"
  have last: "runs (unlink_durable PendingAdd) (settled_before pl b) d1" if "prepared_state E tid pl b {None} {None} {None} {pl_prev_glossary pl} d1" for d1
  proof -
    have "box pl b {None, Some (prep_text E tid pl)} {None} {None} {None} {pl_prev_glossary pl} d1" using that by (rule box_mono) auto
    from unlink_runs(1)[OF this] show ?thesis by (simp add: settled_before_def[abs_def])
  qed
  have "runs (io_then (restore_pending_add_snapshot ?d0) (unlink_durable PendingAdd)) (settled_before pl b) d"
    by (rule runs_bind[OF restore_runs[OF u _ _ refl]]) (use last in auto)
  then show ?thesis
    unfolding rollback_pending_add_def
    by (rule_tac runs_lift, rule_tac marker_absent, use box_cur[OF u] in blast, simp, rule_tac runs_lift, rule_tac marker_absent,
        use box_cur[OF u] in blast, simp, rule_tac runs_lift, rule_tac load_prepared_state[OF assms(1) u], simp)
qed

lemma fsync_root_runs:
  assumes "box pl b P C A F G d"
  shows "runs (fsync_directory RootDir) (box pl b {cur d PendingAdd} {cur d PendingAddCommit} {cur d PendingAddAbort} F {cur d GlossaryFile}) d"
  using box_sync[OF assms] by (simp add: runs_def)

lemma aborting_runs:
  assumes "plan_ok E tid pl" "aborting E tid pl b d"
  shows "runs (rollback_pending_add E) (settled_before pl b) d"
proof -
  note a = assms(2)[unfolded aborting_def]
  let ?d0 = "sorted_items (prepared_marker E tid pl)" and ?m = "sorted_items (abort_marker tid pl)"
  let ?g = "pl_prev_glossary pl" and ?A = "{Some (abort_text tid pl)}"
  let ?box = "prepared_state E tid pl b"
  let ?tail = "io_then (unlink_durable PendingAddAbort) (unlink_durable PendingAdd)"
  let ?check = "io_bind (io_read (\<lambda>fs. exists_file fs PendingAddCommit)) (\<lambda>left.
          if left then io_raise RecoveryRequired
          else io_then (io_try (fsync_directory RootDir) (\<lambda>_. io_raise RecoveryRequired)) ?tail)"
  have tail: "runs ?tail (settled_before pl b) d1" if t: "?box {None} ?A {None} {?g} d1" for d1
  proof (rule runs_bind)
    have "?box {None} {None, Some (abort_text tid pl)} {None} {?g} d1" using t by (rule box_mono) auto
    then show "runs (unlink_durable PendingAddAbort) (?box {None} {None} {None} {?g}) d1" by (rule unlink_runs) simp
    fix d2 assume "?box {None} {None} {None} {?g} d2"
    then have "box pl b {None, Some (prep_text E tid pl)} {None} {None} {None} {?g} d2" by (rule box_mono) auto
    from unlink_runs(1)[OF this] show "runs (unlink_durable PendingAdd) (settled_before pl b) d2"
      by (simp add: settled_before_def[abs_def])
  qed
  have check: "runs ?check (settled_before pl b) d1" if c: "?box {None} ?A {None} {?g} d1" for d1
  proof (rule runs_read)
    have n: "\<not> exists_file (vis d1) PendingAddCommit" using box_cur(2)[OF c] by (simp add: exists_file_def)
    have "runs (io_then (io_try (fsync_directory RootDir) (\<lambda>_. io_raise RecoveryRequired)) ?tail) (settled_before pl b) d1"
      by (rule runs_bind[OF runs_try[OF fsync_root_runs[OF c]]]) (use tail box_cur[OF c] in auto)
    then show "runs (if exists_file (vis d1) PendingAddCommit then io_raise RecoveryRequired
          else io_then (io_try (fsync_directory RootDir) (\<lambda>_. io_raise RecoveryRequired)) ?tail) (settled_before pl b) d1"
      using n by simp
  qed
  have body: "runs (io_then (io_try (unlink_durable PendingAddCommit) (\<lambda>_. io_return ()))
      (io_then (restore_pending_add_snapshot ?d0) ?check)) (settled_before pl b) d"
  proof (rule runs_bind[OF runs_try[OF unlink_runs(2)[OF a]]])
    fix d1 assume "?box {None} ?A {None, Some (pl_text pl)} {?g, pl_new_glossary pl} d1"
    from restore_runs[OF this _ _ refl] show "runs (io_then (restore_pending_add_snapshot ?d0) ?check) (settled_before pl b) d1"
      by (rule runs_bind) (use check in auto)
  qed simp
  have load: "load_pending_add_abort E (vis d) = Inr (Some ?m)"
    by (rule load_abort[OF assms(1)]) (use box_cur(3)[OF a] in blast)
  have "runs (recover_aborted_add E ?m) (settled_before pl b) d"
    unfolding recover_aborted_add_def
    by (rule_tac runs_lift, rule_tac load_prepared_state[OF assms(1) a])
       (use body restore_fields[OF flat_prepared refl, of E tid pl] abort_values[OF refl, of tid pl] in simp)
  then show ?thesis
    unfolding rollback_pending_add_def by (rule_tac runs_lift, rule_tac load) simp
qed

section \<open>Finishing\<close>

lemma remove_marker_runs: "runs (unlink_durable p) X d \<Longrightarrow> \<exists>d'. remove_marker p [] d = (Ok True, [], d') \<and> X d'"
  by (auto simp: runs_def remove_marker_def io_try_def io_bind_def io_return_def)

lemma cleanup_runs:
  assumes a: "box pl b P {Some (commit_text E tid pl)} {None} F {g} d" and P: "P \<subseteq> {None, Some (prep_text E tid pl)}"
  shows "\<exists>d'. cleanup_committed_add [] d = (Ok True, [], d')"
proof -
  let ?C = "Some (commit_text E tid pl)"
  let ?B = "\<lambda>P C. box pl b P C {None} F {g}"
  have a': "?B {None, Some (prep_text E tid pl)} {?C} d" using a P by (blast intro: box_mono)
  obtain d1 where d1: "(if exists_file (vis d) PendingAdd then remove_marker PendingAdd else barrier_ok) [] d = (Ok True, [], d1)"
    "?B {None} {?C} d1"
  proof (cases "cur d PendingAdd = None")
    case True
    have "?B {None} {?C} (sync RootDir d)"
      by (rule box_mono[OF box_sync[OF a]]) (use True box_cur[OF a] in auto)
    then show ?thesis using that True by (simp add: exists_file_def barrier_ok_def io_try_def io_bind_def io_return_def)
  next
    case False
    from remove_marker_runs[OF unlink_runs(1)[OF a']] show ?thesis using that False by (auto simp: exists_file_def)
  qed
  have "?B {None} {None, ?C} d1" using d1(2) by (rule box_mono) auto
  from remove_marker_runs[OF unlink_runs(2)[OF this]] obtain d2
    where d2: "remove_marker PendingAddCommit [] d1 = (Ok True, [], d2)" "?B {None} {None} d2" by auto
  have "\<not> exists_file (vis d2) PendingAdd" "\<not> exists_file (vis d2) PendingAddCommit"
    using box_cur[OF d2(2)] by (simp_all add: exists_file_def)
  then have "cleanup_committed_add [] d = (Ok True, [], d2)"
    unfolding cleanup_committed_add_def io_bind_def io_read_def using d1(1) d2(1) by simp
  then show ?thesis by blast
qed

lemma committed_runs:
  assumes ok: "plan_ok E tid pl" and k: "clear_base pl b"
    and a: "box pl b P {Some (commit_text E tid pl)} {None} {Some (pl_text pl)} {pl_new_glossary pl} d"
    and P: "P \<in> {{None}, {Some (prep_text E tid pl)}}"
  shows "\<exists>d'. rollback_pending_add E [] d = (Ok (), [], d')"
proof -
  let ?c = "sorted_items (committed_marker E tid pl)"
  note cur = box_cur[OF a]
  obtain p where p: "load_pending_add E (vis d) = Inr p" "p \<in> {None, Some (sorted_items (prepared_marker E tid pl))}"
    using P cur(1) marker_absent(1)[of "vis d" E] load_prepared[OF ok, of "vis d"] by auto
  have v: "validate_committed_add E p ?c (vis d) = Inr ()"
    by (rule committed_is_exact[OF ok _ _ _ refl p(2)]) (use cur box_clear[OF k a] in auto)
  have ab: "load_pending_add_abort E (vis d) = Inr None" and co: "load_pending_add_commit E (vis d) = Inr (Some ?c)"
    using cur marker_absent(3) load_committed[OF ok] by blast+
  obtain d' where "cleanup_committed_add [] d = (Ok True, [], d')" using cleanup_runs[OF a] P by blast
  then show ?thesis
    unfolding rollback_pending_add_def io_bind_def io_lift_def ab co sum.case option.case outcome.case prod.case p(1) v
    by (simp add: io_return_def)
qed

lemma decided:
  assumes "in_doubt E tid pl b d"
  shows "before_add E tid pl b (sync RootDir d) \<or> after_add E tid pl b (sync RootDir d)"
proof -
  have b: "before_add E tid pl b (sync RootDir d)" if "before_add E tid pl b d"
    using sync_before[OF that] by (elim disjE) (simp_all add: settled_before_add before_unfinished before_aborting)
  have c: "after_add E tid pl b (sync RootDir d)"
    if "P \<in> {{None}, {Some (prep_text E tid pl)}}"
      "box pl b P {Some (commit_text E tid pl)} {None} {Some (pl_text pl)} {pl_new_glossary pl} (sync RootDir d)" for P
    by (rule after_first, rule box_mono[OF that(2)]) (use that(1) in auto)
  have a: "after_add E tid pl b (sync RootDir d)" if "after_add E tid pl b d"
    using sync_after[OF that]
  proof
    assume "settled_after pl b (sync RootDir d)" then show ?thesis by (rule settled_after_add)
  qed (use c in blast)
  show ?thesis using assms a b sync_undecided unfolding in_doubt_def by (elim disjE) simp_all
qed

lemma sync_sync: "sync s (sync s d) = sync s d"
  by (simp add: sync_def)

lemma before_completes:
  assumes "plan_ok E tid pl" "before_add E tid pl b (sync RootDir d)"
  shows "\<exists>d'. rollback_pending_add E [] (sync RootDir d) = (Ok (), [], d')"
  using sync_before[OF assms(2)] unfolding sync_sync
proof (elim disjE)
  assume "settled_before pl b (sync RootDir d)"
  then show ?thesis using rollback_settled unfolding settled_before_def by blast
next
  assume "unfinished E tid pl b (sync RootDir d)"
  from unfinished_runs[OF assms(1) this] show ?thesis by (auto simp: runs_def)
next
  assume "aborting E tid pl b (sync RootDir d)"
  from aborting_runs[OF assms(1) this] show ?thesis by (auto simp: runs_def)
qed

lemma after_completes:
  assumes "plan_ok E tid pl" "clear_base pl b" "after_add E tid pl b (sync RootDir d)"
  shows "\<exists>d'. rollback_pending_add E [] (sync RootDir d) = (Ok (), [], d')"
  using sync_after[OF assms(3)] unfolding sync_sync
proof
  assume "settled_after pl b (sync RootDir d)"
  then show ?thesis using rollback_settled unfolding settled_after_def by blast
qed (use committed_runs[OF assms(1,2)] in blast)

lemma recover_completes:
  assumes "plan_ok E tid pl" "clear_base pl b" "in_doubt E tid pl b d"
  shows "\<exists>d'. recover E [] d = (Ok None, [], d')"
proof -
  obtain d' where r: "rollback_pending_add E [] (sync RootDir d) = (Ok (), [], d')"
    and n: "cur d' PendingRevocation = None"
    using decided[OF assms(3)]
  proof
    assume b: "before_add E tid pl b (sync RootDir d)"
    from before_completes[OF assms(1) b] obtain d' where r: "rollback_pending_add E [] (sync RootDir d) = (Ok (), [], d')" by blast
    have "before_add E tid pl b d'"
      using holdsD[OF rollback_before[OF assms(1) b, unfolded sync_sync] r] settled_before_add by simp
    then show ?thesis using that r before_clear[OF assms(2)] by blast
  next
    assume a: "after_add E tid pl b (sync RootDir d)"
    from after_completes[OF assms(1,2) a] obtain d' where r: "rollback_pending_add E [] (sync RootDir d) = (Ok (), [], d')" by blast
    have "after_add E tid pl b d'"
      using holdsD[OF rollback_after_add[OF assms(1,2) a, unfolded sync_sync] r] by (simp add: redone_def)
    then show ?thesis using that r after_clear[OF assms(2)] by blast
  qed
  then show ?thesis
    unfolding with_mutation_lock_def recover_pending_transactions_def io_bind_def io_try_def
    using no_revocation by simp
qed

section \<open>Readers\<close>

lemma bind_Ok: "io_bind m f fl d = (Ok x, fl', d') \<longleftrightarrow> (\<exists>y f1 d1. m fl d = (Ok y, f1, d1) \<and> f y f1 d1 = (Ok x, fl', d'))"
  by (auto simp: io_bind_def split: prod.splits outcome.splits)

lemma lift_Ok: "io_lift g fl d = (Ok x, fl', d') \<longleftrightarrow> g (vis d) = Inr x \<and> fl' = fl \<and> d' = d"
  by (auto simp: io_lift_def split: sum.splits)

lemma read_Ok: "io_read g fl d = (Ok x, fl', d') \<longleftrightarrow> g (vis d) = x \<and> fl' = fl \<and> d' = d"
  by (auto simp: io_read_def)

lemma raise_Ok: "io_raise e fl d = (Ok x, fl', d') \<longleftrightarrow> False" "io_return y fl d = (Ok x, fl', d') \<longleftrightarrow> y = x \<and> fl' = fl \<and> d' = d"
  by (auto simp: io_raise_def io_return_def)

lemma barrier_Ok: "io_try (fsync_directory_with_retry s) (\<lambda>_. io_raise e) fl d = (Ok x, fl', d') \<Longrightarrow> d' = sync s d"
  by (auto simp: io_try_def io_raise_def split: prod.splits outcome.splits elim: fsync_retry_cases)

lemma readable_marks:
  assumes "assert_graph_readable E fl d = (Ok (), fl', d')"
  shows "load_pending_add_abort E (vis d) = Inr None \<and>
    ((load_pending_add E (vis d) = Inr None \<and> load_pending_add_commit E (vis d) = Inr None \<and> d' = d) \<or>
     (\<exists>c. load_pending_add_commit E (vis d) = Inr (Some c) \<and> d' = sync RootDir d))"
proof -
  let ?decide = "\<lambda>prepared aborted. case aborted of
            Some a \<Rightarrow> io_return True
          | None \<Rightarrow>
              io_bind (io_lift (load_pending_add_commit E)) (\<lambda>committed.
                case committed of
                  Some c \<Rightarrow>
                    io_then (io_try (fsync_directory_with_retry RootDir) (\<lambda>_. io_raise RecoveryRequired))
                      (io_then (io_lift (validate_committed_add E prepared c)) (io_return False))
                | None \<Rightarrow> io_return (prepared \<noteq> None))"
  obtain p a f1 where l: "load_pending_add E (vis d) = Inr p" "load_pending_add_abort E (vis d) = Inr a"
    and u: "?decide p a fl d = (Ok False, f1, d')"
    using assms unfolding assert_graph_readable_def bind_Ok lift_Ok read_Ok by (auto simp: raise_Ok split: if_splits)
  have a: "a = None" using u by (cases a) (simp_all add: raise_Ok)
  obtain c where c: "load_pending_add_commit E (vis d) = Inr c" using u unfolding a by (auto simp: bind_Ok lift_Ok)
  show ?thesis
  proof (cases c)
    case None
    then show ?thesis using u c l unfolding a by (auto simp: bind_Ok lift_Ok raise_Ok)
  next
    case (Some x)
    then have "d' = sync RootDir d" using u c unfolding a by (auto simp: bind_Ok lift_Ok raise_Ok dest: barrier_Ok)
    then show ?thesis using l c Some a by blast
  qed
qed

lemma reader_decides:
  assumes ok: "plan_ok E tid pl" and i: "in_doubt E tid pl b d" and r: "assert_graph_readable E fl d = (Ok (), fl', d')"
  shows "(before_add E tid pl b d' \<and> box pl b {None, Some (prep_text E tid pl)} {None} {None} {None} {pl_prev_glossary pl} d') \<or>
    after_add E tid pl b d'"
proof -
  note m = readable_marks[OF r]
  have a: "cur d PendingAddAbort \<noteq> Some (abort_text tid pl)" using m load_abort[OF ok, of "vis d"] by auto
  from m have "(cur d PendingAdd \<noteq> Some (prep_text E tid pl) \<and> d' = d) \<or> (cur d PendingAddCommit \<noteq> None \<and> d' = sync RootDir d)"
    using load_prepared[OF ok, of "vis d"] marker_absent(2)[of "vis d" E] by auto
  then show ?thesis
  proof
    assume p: "cur d PendingAdd \<noteq> Some (prep_text E tid pl) \<and> d' = d"
    then have no: "\<not> prepared_state E tid pl b C A F G d" for C A F G using box_cur(1)[of pl b _ C A F G d] by auto
    then have "box pl b {None, Some (prep_text E tid pl)} {None} {None} {None} {pl_prev_glossary pl} d \<or> after_add E tid pl b d"
      using i unfolding in_doubt_def before_add_def undecided_def Let_def by simp
    then show ?thesis using p before_prepared by blast
  next
    assume c: "cur d PendingAddCommit \<noteq> None \<and> d' = sync RootDir d"
    from i have "after_add E tid pl b d \<or> undecided E tid pl b d"
    proof -
      have "\<not> before_add E tid pl b d"
      proof
        assume b: "before_add E tid pl b d"
        have no: "\<not> box pl b P {None} A F G d" for P A F G using box_cur(2)[of pl b P "{None}" A F G d] c by auto
        have "\<not> aborting E tid pl b d"
        proof
          assume "aborting E tid pl b d"
          from box_cur(3)[OF this[unfolded aborting_def]] a show False by simp
        qed
        then show False using b no unfolding before_add_def aborting_def Let_def by simp
      qed
      then show ?thesis using i by (simp add: in_doubt_def)
    qed
    then show ?thesis
    proof
      assume f: "after_add E tid pl b d"
      have "box pl b P C A F G (sync RootDir d)" if "box pl b P C A F G d" for P C A F G
        using that sync_calms by (rule box_calms)
      then have "after_add E tid pl b (sync RootDir d)" using f unfolding after_add_def Let_def by (elim disjE) simp_all
      then show ?thesis using c by simp
    next
      assume u: "undecided E tid pl b d"
      note u' = u[unfolded undecided_def]
      have "box pl b {None, Some (prep_text E tid pl)} {Some (commit_text E tid pl)} {None} {Some (pl_text pl)} {pl_new_glossary pl} (sync RootDir d)"
        by (rule box_mono[OF box_sync[OF u']]) (use c a box_cur[OF u'] in auto)
      then show ?thesis using after_first c by blast
    qed
  qed
qed

definition add_marker :: "path \<Rightarrow> bool" where
  "add_marker p \<longleftrightarrow> p \<in> {PendingAdd, PendingAddCommit, PendingAddAbort}"

lemma box_data:
  assumes "box pl (restart f0) P C A {F} {G} d" "\<not> add_marker p"
  shows "cur d p = ((map_of f0)(ActiveFact (pl_id pl) := F, GlossaryFile := G)) p"
proof (cases "p \<in> touched pl")
  case True
  then show ?thesis using box_cur(4,5)[OF assms(1)] assms(2) by (auto simp: touched_def add_marker_def)
next
  case False
  then show ?thesis using assms(1) by (auto simp: box_iff touched_def)
qed

lemma assert_at_rest:
  assumes "at_rest f" "assert_graph_readable E fl (restart f) = (Ok (), fl', d')"
  shows "d' = restart f"
  using readable_marks[OF assms(2)] by auto

lemma assert_in_doubt:
  assumes p: "plan_ok E tid pl" "clear_base pl (restart f0)" "settled_before pl (restart f0) (restart f0)" and rest: "at_rest f0"
    and i: "in_doubt E tid pl (restart f0) d2" and r: "assert_graph_readable E fl d2 = (Ok (), fl', d3)"
  shows "\<exists>m \<in> {map_of f0, added f0 pl}. (\<forall>q. \<not> add_marker q \<longrightarrow> cur d3 q = m q) \<and>
    (\<forall>d4 fl4 x fl5 d5. restarts E d3 d4 \<longrightarrow> recover E fl4 d4 = (Ok x, fl5, d5) \<longrightarrow> map_of (vis d5) = m)"
  using reader_decides[OF p(1) i r]
proof
  assume b: "before_add E tid pl (restart f0) d3 \<and>
    box pl (restart f0) {None, Some (prep_text E tid pl)} {None} {None} {None} {pl_prev_glossary pl} d3"
  have "pl_prev_glossary pl = map_of f0 GlossaryFile" "map_of f0 (ActiveFact (pl_id pl)) = None"
    using p(3) by (simp_all add: settled_before_def box_iff)
  then have "cur d3 q = map_of f0 q" if "\<not> add_marker q" for q
    using box_data[OF conjunct2[OF b] that] by auto
  then show ?thesis using transaction_ends(1)[OF p(1,2) rest p(3) _ _ conjunct1[OF b]] by blast
next
  assume a: "after_add E tid pl (restart f0) d3"
  then obtain P C A where "box pl (restart f0) P C A {Some (pl_text pl)} {pl_new_glossary pl} d3"
    unfolding after_add_def Let_def by blast
  from box_data[OF this] have "cur d3 q = added f0 pl q" if "\<not> add_marker q" for q
    using that by (simp add: added_def)
  then show ?thesis using transaction_ends(2)[OF p(1,2) rest p(3) _ _ a] by blast
qed

section \<open>An example\<close>

definition example_args :: add_args where
  "example_args = \<lparr>a_problem = ''p'', a_author = ''w'', a_statement = ''s'', a_proof = ''t'', a_predecessors = [],
     a_glossary = [], a_intuition = [], a_refs = JNull\<rparr>"

definition example_tid :: string where
  "example_tid = replicate 32 (CHR ''0'')"

lemma example_args_ok: "args_ok example_args" "is_hex32 example_tid" "at_rest []" "hexdigest (env_hash example_env)"
  using sha.hexdigest_axioms
  by (simp_all add: args_ok_def example_args_def clean_external_refs_def example_tid_def hex_of_len_def is_lower_hex_def
      is_ascii_digit_def list_all_iff at_rest_def example_env_def)

lemma example_prepared:
  "\<exists>pl. prepare_add example_env example_args [] = Inr (Inr pl) \<and> \<not> pl_writes_glossary pl"
proof -
  let ?i = "compute_fact_id (env_hash example_env) ''p'' [] [] ''s'' ''t''"
  have "CONTENT_FACT_ID ?i" using sha.digest_prefix[of 16] by (simp add: compute_fact_id_def example_env_def)
  then have s: "SAFE_FACT_ID ?i" by (rule hex16_safe)
  have c: "check_add_args [] example_args [] = None"
    by (simp add: check_add_args_def example_args_def first_error_None LINE_BREAK_def is_linebreak_def strip_id is_space_def
        heading_def py_lower_def lower_char_def clean_external_refs_def)
  have l: "lookup_active_exact_identity_unlocked example_env [] ''p'' [] [] ''s'' ''t'' ?i = Inr None"
    using s by (simp add: lookup_active_exact_identity_unlocked_def get_raw_unchecked_def)
  obtain x where x: "canonical_fact_identity_unlocked example_env [] ''p'' [] [] ''s'' ''t'' ?i = Inr x"
    using root_identity[OF example_args_ok(4), of "''p''" "[]" "''s''" "''t''"] by simp
  have g: "prepare_glossary_merge example_env [] [] = Inr []"
    by (simp add: prepare_glossary_merge_def read_project_glossary_def glossary_conflicts_against_def dict_update_def)
  show ?thesis
    unfolding prepare_add_def Let_def using c l x g by (simp add: example_args_def exists_file_def)
qed

lemma example_crash:
  "\<exists>d. add example_env example_tid example_args (replicate 17 Go @ [Stop]) (restart []) = (Crashed, [], d) \<and> cur d PendingAddCommit \<noteq> None"
proof -
  obtain pl where pl: "prepare_add example_env example_args [] = Inr (Inr pl)" "\<not> pl_writes_glossary pl" using example_prepared by blast
  have 17: "replicate 17 Go = [Go, Go, Go, Go, Go, Go, Go, Go, Go, Go, Go, Go, Go, Go, Go, Go, Go]" by (simp add: numeral_eq_Suc)
  note lock = at_rest_recover[OF example_args_ok(3), of example_env]
  show ?thesis
    unfolding add_def with_mutation_lock_def add_unlocked_def 17 commit_add_def
    by (simp add: io_bind_def io_try_def io_lift_def io_return_def fsync_directory_with_retry_def fsync_directory_def prim_def lock pl
        mkdir_durable_def atomic_write_text_def)
qed

text \<open>The crash of the example strikes between the rename of the commit marker and the synchronisation.\<close>

lemma recovery_returns:
  assumes "hexdigest (env_hash E)" and "is_hex32 tid" and "args_ok a" and "at_rest f0"
    and "add E tid a fl (restart f0) = (r, fl1, d1)" and "restarts E d1 d2"
  shows "\<exists>d3. recover E [] d2 = (Ok None, [], d3)"
proof -
  from holdsD[OF run_whole_add[OF assms(1-4)] assms(5)] consider
      (1) "d1 = restart f0"
    | (2) pl where "prepare_add E a f0 = Inr (Inr pl)" "outcome_ok E tid pl (restart f0) r d1"
    unfolding add_run_def by blast
  then show ?thesis
  proof cases
    case 1
    from restarts_at_rest[OF assms(6) this assms(4)] obtain f where f: "d2 = restart f" "map_of f = map_of f0" by blast
    then have "at_rest f" using assms(4) by (simp add: at_rest_def)
    then show ?thesis
      using f(1) at_rest_recover by (simp add: with_mutation_lock_def io_bind_def io_try_def)
  next
    case 2
    note p = planned[OF assms(1-4) 2(1)]
    have "in_doubt E tid pl (restart f0) d1" using 2(2) by (cases r) (auto simp: in_doubt_def split: if_splits)
    from restarts_in_doubt[OF assms(6) p(1,2) this] show ?thesis by (rule recover_completes[OF p(1,2)])
  qed
qed

lemma example_recovered:
  "\<exists>d1 d3. add example_env example_tid example_args (replicate 17 Go @ [Stop]) (restart []) = (Crashed, [], d1) \<and>
    cur d1 PendingAddCommit \<noteq> None \<and> recover example_env [] d1 = (Ok None, [], d3)"
  using example_crash recovery_returns[OF example_args_ok(4,2,1,3) _ restarts.here] by blast

lemma unmarked_readable:
  assumes "cur d PendingAdd = None" "cur d PendingAddCommit = None" "cur d PendingAddAbort = None" "cur d PendingRevocation = None"
  shows "assert_graph_readable E fl d = (Ok (), fl, d)"
  using assms by (simp add: assert_graph_readable_def io_bind_def io_lift_def io_read_def io_return_def marker_absent exists_file_def)

lemma recovered_unmarked:
  assumes a: "add example_env example_tid example_args fl (restart []) = (Crashed, fl1, d1)"
    and rec: "recover example_env fl2 d1 = (Ok x, fl3, d3)" and q: "q = PendingRevocation \<or> add_marker q"
  shows "cur d3 q = None"
proof -
  note ok = example_args_ok(4,2,1,3)
  obtain pl where pl: "prepare_add example_env example_args [] = Inr (Inr pl)" using example_prepared by blast
  note p = planned[OF ok pl]
  have "in_doubt example_env example_tid pl (restart []) d1"
    using holdsD[OF run_whole_add[OF ok] a] pl settled_before_add[OF p(3)] by (auto simp: add_run_def in_doubt_def)
  from holdsD[OF recover_in_doubt[OF p(1,2) this] rec]
  have "settled_before pl (restart []) d3 \<or> settled_after pl (restart []) d3" by (simp add: recovered_def)
  then obtain F G where b: "box pl (restart []) {None} {None} {None} F G d3" unfolding settled_before_def settled_after_def by blast
  show ?thesis using q box_cur[OF b] box_clear[OF p(2) b] by (auto simp: add_marker_def)
qed

section \<open>Properties\<close>

text \<open>
  Property C1. An add is all or nothing. However it ends, by a result, an exception or a crash, under
  any faults, and after any number of restarts and interrupted recoveries, once a recovery returns
  the files are exactly those before the add or exactly those with the new fact and glossary, and
  nothing that could still be lost. A result means the fact is there; an exception, other than the
  one that says the outcome is unknown, means it is not.
\<close>

theorem add_atomic:
  assumes "hexdigest (env_hash E)" and "is_hex32 tid" and "args_ok a" and "at_rest f0"
    and "add E tid a fl (restart f0) = (r, fl1, d1)"
    and "restarts E d1 d2" and "recover E fl2 d2 = (Ok x, fl3, d3)"
  shows "(\<forall>fs. survives d3 fs \<longrightarrow> map_of fs = map_of (vis d3)) \<and>
    (case r of
       Ok i \<Rightarrow> (prepare_add E a f0 = Inr (Inl i) \<and> map_of (vis d3) = map_of f0) \<or>
         (\<exists>pl. prepare_add E a f0 = Inr (Inr pl) \<and> i = pl_id pl \<and> map_of (vis d3) = added f0 pl)
     | Raised e \<Rightarrow> map_of (vis d3) = map_of f0 \<or>
         (e = OutcomeUnknown \<and> (\<exists>pl. prepare_add E a f0 = Inr (Inr pl) \<and> map_of (vis d3) = added f0 pl))
     | Crashed \<Rightarrow> map_of (vis d3) = map_of f0 \<or>
         (\<exists>pl. prepare_add E a f0 = Inr (Inr pl) \<and> map_of (vis d3) = added f0 pl))"
proof -
  from holdsD[OF run_whole_add[OF assms(1-4)] assms(5)] consider
      (1) "d1 = restart f0" "\<forall>i. r = Ok i \<longrightarrow> prepare_add E a f0 = Inr (Inl i)"
    | (2) pl where "prepare_add E a f0 = Inr (Inr pl)" "outcome_ok E tid pl (restart f0) r d1"
    unfolding add_run_def by blast
  then show ?thesis
  proof cases
    case 1
    then show ?thesis using untouched_stays[OF assms(4) _ assms(7)] assms(6) by (auto split: outcome.split)
  next
    case 2
    note e = transaction_ends[OF planned(1,2)[OF assms(1-4) 2(1)] assms(4) planned(3)[OF assms(1-4) 2(1)] assms(6,7)]
    have "in_doubt E tid pl (restart f0) d1" using 2(2) by (cases r) (auto simp: in_doubt_def split: if_splits)
    note d = e(3,4)[OF this]
    show ?thesis
    proof (cases r)
      case (Ok i)
      then show ?thesis using 2 e(2) d(2) by auto
    next
      case (Raised x)
      then show ?thesis using 2 e(1) d by (cases "x = OutcomeUnknown") auto
    next
      case Crashed
      then show ?thesis using 2 d by auto
    qed
  qed
qed

theorem add_atomic_witness:
  "\<exists>d1 d3. add example_env example_tid example_args (replicate 17 Go @ [Stop]) (restart []) = (Crashed, [], d1) \<and>
    recover example_env [] d1 = (Ok None, [], d3) \<and>
    (map_of (vis d3) = Map.empty \<or> (\<exists>pl. prepare_add example_env example_args [] = Inr (Inr pl) \<and> map_of (vis d3) = added [] pl))"
proof -
  obtain d1 d3 where d: "add example_env example_tid example_args (replicate 17 Go @ [Stop]) (restart []) = (Crashed, [], d1)"
    "recover example_env [] d1 = (Ok None, [], d3)" using example_recovered by blast
  show ?thesis using add_atomic[OF example_args_ok(4,2,1,3) d(1) restarts.here d(2)] d by auto
qed

text \<open>
  Property C2. Recovery always finishes once the faults stop: whatever an add, however interrupted, and
  any number of interrupted recoveries and restarts after it have left, one recovery without a fault
  returns.
\<close>

theorem recovery_completes:
  assumes "hexdigest (env_hash E)" and "is_hex32 tid" and "args_ok a" and "at_rest f0"
    and "add E tid a fl (restart f0) = (r, fl1, d1)" and "restarts E d1 d2"
  shows "\<exists>d3. recover E [] d2 = (Ok None, [], d3)"
  by (rule recovery_returns[OF assms])

theorem recovery_completes_witness:
  "\<exists>d1 d3. add example_env example_tid example_args (replicate 17 Go @ [Stop]) (restart []) = (Crashed, [], d1) \<and>
    cur d1 PendingAddCommit \<noteq> None \<and> recover example_env [] d1 = (Ok None, [], d3)"
  using example_crash recovery_completes[OF example_args_ok(4,2,1,3) _ restarts.here] by blast

text \<open>
  Property C3. A reader never sees a half-done add: when \<open>_assert_graph_readable_unlocked\<close> lets it in,
  on whatever disk an interrupted add, interrupted recoveries and restarts have left, every file but
  the markers is as before the add or as after it, and no later loss of power or recovery changes
  which.
\<close>

theorem reader_exact:
  assumes "hexdigest (env_hash E)" and "is_hex32 tid" and "args_ok a" and "at_rest f0"
    and "add E tid a fl (restart f0) = (r, fl1, d1)" and "restarts E d1 d2"
    and "assert_graph_readable E fl2 d2 = (Ok (), fl3, d3)"
  shows "\<exists>m. (m = map_of f0 \<or> (\<exists>pl. prepare_add E a f0 = Inr (Inr pl) \<and> m = added f0 pl)) \<and>
    (\<forall>q. \<not> add_marker q \<longrightarrow> cur d3 q = m q) \<and>
    (\<forall>d4 fl4 x fl5 d5. restarts E d3 d4 \<longrightarrow> recover E fl4 d4 = (Ok x, fl5, d5) \<longrightarrow> map_of (vis d5) = m)"
proof -
  from holdsD[OF run_whole_add[OF assms(1-4)] assms(5)] consider
      (1) "d1 = restart f0"
    | (2) pl where "prepare_add E a f0 = Inr (Inr pl)" "outcome_ok E tid pl (restart f0) r d1"
    unfolding add_run_def by blast
  then show ?thesis
  proof cases
    case 1
    from restarts_at_rest[OF assms(6) this assms(4)] obtain f where f: "d2 = restart f" "map_of f = map_of f0" by blast
    then have fr: "at_rest f" using assms(4) by (simp add: at_rest_def)
    have d3: "d3 = restart f" using assert_at_rest[OF fr] assms(7) f(1) by blast
    have "map_of (vis d5) = map_of f0" if "restarts E d3 d4" "recover E fl4 d4 = (Ok x, fl5, d5)" for d4 fl4 x fl5 d5
      using untouched_stays(1)[OF fr that[unfolded d3]] f(2) by simp
    then show ?thesis using d3 f(2) by auto
  next
    case 2
    note p = planned[OF assms(1-4) 2(1)]
    have "in_doubt E tid pl (restart f0) d1" using 2(2) by (cases r) (auto simp: in_doubt_def split: if_splits)
    from assert_in_doubt[OF p assms(4) restarts_in_doubt[OF assms(6) p(1,2) this] assms(7)] 2(1) show ?thesis by blast
  qed
qed

theorem reader_exact_witness:
  "\<exists>d1 d2 m. add example_env example_tid example_args (replicate 17 Go @ [Stop]) (restart []) = (Crashed, [], d1) \<and>
    recover example_env [] d1 = (Ok None, [], d2) \<and> assert_graph_readable example_env [] d2 = (Ok (), [], d2) \<and>
    (m = Map.empty \<or> (\<exists>pl. prepare_add example_env example_args [] = Inr (Inr pl) \<and> m = added [] pl)) \<and>
    list_all (\<lambda>q. cur d2 q = m q) [GlossaryFile, ActiveFact (fact_id example_fact), RevocationLog]"
proof -
  obtain d1 d3 where d: "add example_env example_tid example_args (replicate 17 Go @ [Stop]) (restart []) = (Crashed, [], d1)"
    "recover example_env [] d1 = (Ok None, [], d3)" using example_recovered by blast
  note st = restarts.attempt[OF restarts.here d(2)]
  have "cur d3 q = None" if "q = PendingRevocation \<or> add_marker q" for q
    by (rule recovered_unmarked[OF d that])
  then have r: "assert_graph_readable example_env [] d3 = (Ok (), [], d3)" by (intro unmarked_readable) (simp_all add: add_marker_def)
  obtain m where m: "m = map_of [] \<or> (\<exists>pl. prepare_add example_env example_args [] = Inr (Inr pl) \<and> m = added [] pl)"
    "\<forall>q. \<not> add_marker q \<longrightarrow> cur d3 q = m q"
    using reader_exact[OF example_args_ok(4,2,1,3) d(1) st r] by blast
  have "list_all (\<lambda>q. cur d3 q = m q) [GlossaryFile, ActiveFact (fact_id example_fact), RevocationLog]"
    using m(2) by (simp add: add_marker_def)
  then show ?thesis using d r m(1) by auto
qed

end
