(* ===== verification/FactGraphRevoke.thy ===== *)
theory FactGraphRevoke
  imports FactGraphCompletes
begin

text \<open>
  The cascade revocation of \<open>src/danus/core/factgraph.py\<close>: what \<open>descendants\<close> collects, and what a
  revocation does to the graph, against a specification on two maps, the active facts and the
  revoked ones.
\<close>

section \<open>Descendants\<close>

definition descend_inv :: "(string \<times> string) list \<Rightarrow> string \<Rightarrow> string list \<Rightarrow> string list \<Rightarrow> string list \<Rightarrow> bool" where
  "descend_inv edges root frontier seen out \<longleftrightarrow>
     set frontier \<subseteq> set seen \<and> root \<in> set seen \<and> distinct out \<and> set out = set seen - {root} \<and>
     (\<forall>x \<in> set seen. (root, x) \<in> (set edges)\<^sup>*) \<and>
     (\<forall>x \<in> set seen - set frontier. \<forall>j. (x, j) \<in> set edges \<longrightarrow> j \<in> set seen)"

lemma successors: "set (map snd (filter (\<lambda>(p, j). p = i) edges)) = {j. (i, j) \<in> set edges}"
  by force

lemma descend_step:
  assumes "descend_inv edges root (i # rest) seen out"
  defines "new \<equiv> fresh seen (map snd (filter (\<lambda>(p, j). p = i) edges))"
  shows "descend_inv edges root (rev new @ rest) (seen @ new) (out @ new)"
proof -
  have n: "set new = {j. (i, j) \<in> set edges} - set seen" "distinct new"
    unfolding new_def fresh_props(1) successors by (rule refl, rule fresh_props(2))
  have a: "set (i # rest) \<subseteq> set seen" "root \<in> set seen" "distinct out" "set out = set seen - {root}"
    "\<And>x. x \<in> set seen \<Longrightarrow> (root, x) \<in> (set edges)\<^sup>*"
    "\<And>x j. x \<in> set seen - set (i # rest) \<Longrightarrow> (x, j) \<in> set edges \<Longrightarrow> j \<in> set seen"
    using assms(1) unfolding descend_inv_def by blast+
  have i: "(root, i) \<in> (set edges)\<^sup>*" using a(1,5) by simp
  have r: "(root, j) \<in> (set edges)\<^sup>*" if "j \<in> set new" for j
    using that unfolding n(1) by (intro rtrancl_into_rtrancl[OF i]) simp
  have c: "j \<in> set (seen @ new)" if x: "x \<in> set (seen @ new) - set (rev new @ rest)" and e: "(x, j) \<in> set edges" for x j
  proof (cases "x = i")
    case True
    then show ?thesis using e unfolding set_append n(1) by blast
  next
    case False
    then have "x \<in> set seen - set (i # rest)" using x by auto
    from a(6)[OF this e] show ?thesis by simp
  qed
  have f1: "set (rev new @ rest) \<subseteq> set (seen @ new)" using a(1) by auto
  have f2: "distinct (out @ new)" unfolding distinct_append n(1) a(4) using a(3) n(2) by blast
  have f3: "set (out @ new) = set (seen @ new) - {root}" unfolding set_append n(1) a(4) using a(2) by blast
  have f4: "\<forall>x \<in> set (seen @ new). (root, x) \<in> (set edges)\<^sup>*" using a(5) r unfolding set_append by blast
  have f5: "\<forall>x \<in> set (seen @ new) - set (rev new @ rest). \<forall>j. (x, j) \<in> set edges \<longrightarrow> j \<in> set (seen @ new)" using c by blast
  have f6: "root \<in> set (seen @ new)" using a(2) by simp
  show ?thesis unfolding descend_inv_def using f1 f6 f2 f3 f4 f5 by (intro conjI)
qed

lemma descend_reach:
  assumes "descend_inv edges root frontier seen out"
  shows "distinct (descend edges frontier seen out) \<and> set (descend edges frontier seen out) = {j. (root, j) \<in> (set edges)\<^sup>*} - {root}"
  using assms
proof (induction edges frontier seen out rule: descend.induct)
  case (1 edges frontier seen out)
  show ?case
  proof (cases frontier)
    case Nil
    have inv: "root \<in> set seen" "\<And>x j. x \<in> set seen \<Longrightarrow> (x, j) \<in> set edges \<Longrightarrow> j \<in> set seen"
      using 1(2) unfolding Nil descend_inv_def by auto
    have "x \<in> set seen" if "(root, x) \<in> (set edges)\<^sup>*" for x
      using that
    proof (induction rule: rtrancl_induct)
      case (step y z)
      show ?case using inv(2)[OF step.IH step.hyps(2)] .
    qed (rule inv(1))
    then have "set seen = {j. (root, j) \<in> (set edges)\<^sup>*}"
      using 1(2) unfolding descend_inv_def by blast
    moreover have "descend edges [] seen out = out" by (subst descend.simps) simp
    ultimately show ?thesis using 1(2) unfolding Nil descend_inv_def by simp
  next
    case (Cons i rest)
    have "descend edges (i # rest) seen out = descend edges (rev (fresh seen (map snd (filter (\<lambda>(p, j). p = i) edges))) @ rest)
        (seen @ fresh seen (map snd (filter (\<lambda>(p, j). p = i) edges))) (out @ fresh seen (map snd (filter (\<lambda>(p, j). p = i) edges)))"
      by (subst descend.simps) (simp add: Let_def)
    then show ?thesis using 1(1)[OF Cons refl] descend_step[OF 1(2)[unfolded Cons]] unfolding Cons by simp
  qed
qed

text \<open>\<open>depends E fs i j\<close>: the active fact \<open>j\<close> names \<open>i\<close> among its predecessors.\<close>

definition depends :: "graph_env \<Rightarrow> files \<Rightarrow> (string \<times> string) set" where
  "depends E fs = {(i, j). \<exists>raw. map_of fs (ActiveFact j) = Some raw \<and> i \<in> set (predecessors_of E (read_text raw))}"

lemma active_ids: "i \<in> set (active_ids_of fs) \<longleftrightarrow> map_of fs (ActiveFact i) \<noteq> None"
  by (induction fs rule: active_ids_of.induct) auto

lemma set_list_unchecked [simp]: "set (list_unchecked fs) = {i. map_of fs (ActiveFact i) \<noteq> None}"
  using active_ids by (auto simp: list_unchecked_def)

lemma reverse_edges_depends: "set (reverse_edges E fs (list_unchecked fs)) = depends E fs"
  by (force simp: reverse_edges_def depends_def split: option.splits)

lemma descendants_reach:
  "distinct (descendants_unchecked E fs i) \<and> set (descendants_unchecked E fs i) = {j. (i, j) \<in> (depends E fs)\<^sup>*} - {i}"
  unfolding descendants_unchecked_def reverse_edges_depends[symmetric]
  by (rule descend_reach) (simp add: descend_inv_def)

section \<open>Runs without faults on a synchronised disk\<close>

definition holding :: "(path \<Rightarrow> string option) \<Rightarrow> disk \<Rightarrow> bool" where
  "holding m d \<longleftrightarrow> map_of (vis d) = m \<and> (\<forall>q. poss d q = {m q})"

lemma holding_cur: "holding m d \<Longrightarrow> cur d q = m q"
  by (simp add: holding_def)

lemma holding_poss: "(\<And>q. cur d q = m q) \<Longrightarrow> (\<And>q. poss d q \<subseteq> {m q}) \<Longrightarrow> holding m d"
  using cur_poss[of d] unfolding holding_def by (auto intro!: ext)

lemma set_file_holding: "holding m d \<Longrightarrow> runs (set_file p v) (holding (m(p := v))) d"
proof (rule runs_mono[OF runs_set[OF holds_set_file]])
  fix d' assume h: "holding m d" and c: "changes p v d d' \<and> poss d' p = {v}"
  have "cur d' p = v" using c cur_poss[of d' p] by simp
  moreover have "cur d' q = m q" "poss d' q \<subseteq> {m q}" if "q \<noteq> p" for q
    using that h c by (auto simp: changes_def holding_def)
  ultimately show "holding (m(p := v)) d'" using c by (intro holding_poss) auto
qed

lemma holding_calms: "holding m d \<Longrightarrow> calms d d' \<Longrightarrow> holding m d'"
  by (intro holding_poss) (auto simp: calms_def holding_def)

lemma mkdir_runs: "holding m d \<Longrightarrow> runs (mkdir_durable s) (holding m) d"
  using holding_calms[OF _ sync_calms] by (simp add: runs_def mkdir_durable_def io_bind_def)

definition moved :: "string \<Rightarrow> (path \<Rightarrow> string option) \<Rightarrow> path \<Rightarrow> string option" where
  "moved i m = m(ActiveFact i := None, RevokedFact i := m (ActiveFact i))"

lemma move_holding:
  assumes "holding m d" "m (ActiveFact i) \<noteq> None" "m (RevokedFact i) = None"
  shows "runs (move_pending i) (holding (moved i m)) d"
proof -
  let ?d = "sync RevokedDir (sync FactsDir (move_fact i d))"
  have "move_pending i [] d = (Ok (), [], ?d)"
    using assms holding_cur[OF assms(1)] by (simp add: move_pending_def io_bind_def io_read_def exists_file_def)
  moreover have "holding (moved i m) ?d"
  proof (rule holding_poss)
    show "cur ?d q = moved i m q" for q using holding_cur[OF assms(1)] by (simp add: moved_def move_fact_def)
    show "poss ?d q \<subseteq> {moved i m q}" for q
      using assms(1) by (cases q) (auto simp: move_fact_def moved_def holding_def)
  qed
  ultimately show ?thesis by (auto simp: runs_def)
qed

lemma moved_facts:
  "fold moved is m (ActiveFact j) = (if j \<in> set is then None else m (ActiveFact j))"
  "distinct is \<Longrightarrow> fold moved is m (RevokedFact j) = (if j \<in> set is then m (ActiveFact j) else m (RevokedFact j))"
  "(\<And>i. p \<noteq> ActiveFact i \<and> p \<noteq> RevokedFact i) \<Longrightarrow> fold moved is m p = m p"
  by (induction "is" arbitrary: m) (auto simp: moved_def)

lemma move_all_holding:
  "holding m d \<Longrightarrow> distinct is \<Longrightarrow> \<forall>i \<in> set is. m (ActiveFact i) \<noteq> None \<and> m (RevokedFact i) = None \<Longrightarrow>
    runs (move_all is) (holding (fold moved is m)) d"
proof (induction "is" arbitrary: m d)
  case Nil
  then show ?case by (simp add: runs_return)
next
  case (Cons i "is")
  have "runs (move_all is) (holding (fold moved is (moved i m))) d'" if "holding (moved i m) d'" for d'
    by (rule Cons.IH[OF that]) (use Cons.prems in \<open>auto simp: moved_def\<close>)
  moreover have "runs (move_pending i) (holding (moved i m)) d"
    by (rule move_holding[OF Cons.prems(1)]) (use Cons.prems in auto)
  ultimately have "runs (io_then (move_pending i) (move_all is)) (holding (fold moved is (moved i m))) d" by (rule runs_bind[rotated])
  then show ?case by simp
qed

section \<open>What the files determine\<close>

lemma list_unchecked_cong:
  assumes "\<And>i. map_of fs (ActiveFact i) = None \<longleftrightarrow> map_of fs' (ActiveFact i) = None"
  shows "list_unchecked fs = list_unchecked fs'"
proof (rule sorted_distinct_set_unique)
  show "set (list_unchecked fs) = set (list_unchecked fs')" using assms by auto
qed (simp_all add: list_unchecked_def)

lemma rebuild_cong:
  assumes "\<And>i. map_of fs (ActiveFact i) = map_of fs' (ActiveFact i)" "\<And>i. map_of fs (RevokedFact i) = map_of fs' (RevokedFact i)"
  shows "rebuild_glossary E fs ids g = rebuild_glossary E fs' ids g"
proof (induction ids arbitrary: g)
  case (Cons i ids)
  have "get_raw_unchecked fs i = get_raw_unchecked fs' i" "\<And>raw m. check_fact E fs i raw m = check_fact E fs' i raw m"
    using assms by (simp_all add: get_raw_unchecked_def check_fact_def exists_file_def)
  then show ?case using Cons by (simp add: Let_def split: sum.split option.split)
qed simp

lemma glossary_cong:
  assumes "\<And>i. map_of fs (ActiveFact i) = map_of fs' (ActiveFact i)" "\<And>i. map_of fs (RevokedFact i) = map_of fs' (RevokedFact i)"
  shows "active_glossary_excluding E fs ids = active_glossary_excluding E fs' ids"
  unfolding active_glossary_excluding_def
  using list_unchecked_cong[of fs fs'] rebuild_cong[OF assms] assms(1) by simp

lemma log_cong: "map_of fs RevocationLog = map_of fs' RevocationLog \<Longrightarrow> read_revocation_log_strict E fs = read_revocation_log_strict E fs'"
  by (simp add: read_revocation_log_strict_def)

section \<open>The journal\<close>

lemma flat_payload: "flat (revocation_payload rid now fid reason ids)"
  by (simp add: flat_def flat_entry_def revocation_payload_def str_list_def list_all_iff is_str_def)

definition journal :: "string \<Rightarrow> string \<Rightarrow> string \<Rightarrow> string \<Rightarrow> string list \<Rightarrow> jobj" where
  "journal rid now fid reason ids = sorted_items (revocation_payload rid now fid reason ids)"

lemma journal_get: "jget_or_null (journal rid now fid reason ids) k = jget_or_null (revocation_payload rid now fid reason ids) k"
  unfolding journal_def by (rule jget_sorted[OF flat_distinct[OF flat_payload]])

lemma journal_ids [simp]: "revocation_ids (journal rid now fid reason ids) = ids"
  unfolding revocation_ids_def journal_get by (simp add: revocation_payload_def jget_or_null_def str_list_def to_str_def map_idI)

lemma valid_revocation_sorted: "distinct (keys d) \<Longrightarrow> valid_pending_revocation (sorted_items d) = valid_pending_revocation d"
  unfolding valid_pending_revocation_def str_field_def by (simp only: jget_sorted)

lemma distinct_texts: "distinct xs \<Longrightarrow> no_py_duplicates (map JStr xs)"
  by (induction xs) (auto simp: list_all_iff py_eq_scalar_def)

lemma payload_valid:
  assumes "list_all SAFE_FACT_ID (fid # ids)" "distinct (fid # ids)"
  shows "valid_pending_revocation (revocation_payload rid now fid reason (fid # ids))"
proof -
  have "list_all (\<lambda>x. is_str x \<and> SAFE_FACT_ID (to_str x)) (map JStr (fid # ids))"
    using assms(1) by (simp add: list_all_iff is_str_def to_str_def)
  then show ?thesis
    using distinct_texts[OF assms(2)] assms(1)
    by (simp add: valid_pending_revocation_def revocation_payload_def jget_or_null_def str_field_def is_str_def py_eq_int_def str_list_def)
qed

lemma journal_loads:
  assumes "map_of fs PendingRevocation = Some (pending_add_text (revocation_payload rid now fid reason (fid # ids)))"
    "list_all SAFE_FACT_ID (fid # ids)" "distinct (fid # ids)"
  shows "load_pending_revocation E fs = Inr (Some (journal rid now fid reason (fid # ids)))"
  unfolding load_pending_revocation_def journal_def
  by (rule load_marker_text[OF flat_payload assms(1)])
    (simp only: valid_revocation_sorted[OF flat_distinct[OF flat_payload]] payload_valid[OF assms(2,3)])

section \<open>A revocation\<close>

text \<open>The specification: the facts that depend on the root go from one store to the other.\<close>

record stores =
  st_active :: "string \<Rightarrow> string option"
  st_revoked :: "string \<Rightarrow> string option"

definition stores_of :: "files \<Rightarrow> stores" where
  "stores_of fs = \<lparr>st_active = (\<lambda>i. map_of fs (ActiveFact i)), st_revoked = (\<lambda>i. map_of fs (RevokedFact i))\<rparr>"

definition dependents :: "graph_env \<Rightarrow> stores \<Rightarrow> string \<Rightarrow> string set" where
  "dependents E s i = {j. (i, j) \<in> {(p, q). \<exists>raw. st_active s q = Some raw \<and> p \<in> set (predecessors_of E (read_text raw))}\<^sup>*}"

definition revoke_spec :: "graph_env \<Rightarrow> string \<Rightarrow> stores \<Rightarrow> stores" where
  "revoke_spec E i s =
     \<lparr>st_active = (\<lambda>j. if j \<in> dependents E s i then None else st_active s j),
      st_revoked = (\<lambda>j. if j \<in> dependents E s i then st_active s j else st_revoked s j)\<rparr>"

text \<open>No active fact rests on a fact that is not active.\<close>

definition grounded :: "graph_env \<Rightarrow> stores \<Rightarrow> bool" where
  "grounded E s \<longleftrightarrow> (\<forall>j raw p. st_active s j = Some raw \<longrightarrow> p \<in> set (predecessors_of E (read_text raw)) \<longrightarrow> st_active s p \<noteq> None)"

lemma revoke_spec_grounded: "grounded E s \<Longrightarrow> grounded E (revoke_spec E i s)"
  unfolding grounded_def
proof (intro allI impI)
  fix j raw p
  assume g: "\<forall>j raw p. st_active s j = Some raw \<longrightarrow> p \<in> set (predecessors_of E (read_text raw)) \<longrightarrow> st_active s p \<noteq> None"
    and a: "st_active (revoke_spec E i s) j = Some raw" and p: "p \<in> set (predecessors_of E (read_text raw))"
  let ?R = "{(p, q). \<exists>raw. st_active s q = Some raw \<and> p \<in> set (predecessors_of E (read_text raw))}"
  have j: "st_active s j = Some raw" "(i, j) \<notin> ?R\<^sup>*" using a by (auto simp: revoke_spec_def dependents_def split: if_splits)
  then have "(p, j) \<in> ?R" using p by blast
  then have "(i, p) \<notin> ?R\<^sup>*" using j(2) by (meson rtrancl_into_rtrancl)
  then show "st_active (revoke_spec E i s) p \<noteq> None" using g j(1) p by (simp add: revoke_spec_def dependents_def)
qed

definition revoked_map :: "jobj list \<Rightarrow> jobj \<Rightarrow> string list \<Rightarrow> string dict \<Rightarrow> (path \<Rightarrow> string option) \<Rightarrow> path \<Rightarrow> string option" where
  "revoked_map es j ids g m =
     (fold moved ids (m(GlossaryFile \<mapsto> glossary_text g)))
       (RevocationLog \<mapsto> log_text (es @ append_entries j (logged_ids es) ids), PendingRevocation := None)"

lemma resume_runs:
  assumes h: "holding m d" and j: "load_pending_revocation E (vis d) = Inr (Some j)" and ids: "revocation_ids j = ids" "distinct ids"
    and a: "\<forall>i \<in> set ids. m (ActiveFact i) \<noteq> None \<and> m (RevokedFact i) = None"
    and g: "active_glossary_excluding E (vis d) ids = Inr g" and l: "read_revocation_log_strict E (vis d) = Inr es"
  shows "\<exists>d'. resume_pending_revocation E [] d = (Ok (Some j), [], d') \<and> holding (revoked_map es j ids g m) d'"
proof -
  let ?m1 = "m(GlossaryFile \<mapsto> glossary_text g)"
  have a1: "\<forall>i \<in> set ids. ?m1 (ActiveFact i) \<noteq> None \<and> ?m1 (RevokedFact i) = None" using a by simp
  obtain d1 where 1: "atomic_write_text GlossaryFile (glossary_text g) [] d = (Ok (), [], d1)" "holding ?m1 d1"
    using set_file_holding[OF h, of GlossaryFile "Some (glossary_text g)"] by (auto simp: set_file_simps runs_def)
  obtain d2 where 2: "mkdir_durable RevokedDir [] d1 = (Ok (), [], d2)" "holding ?m1 d2"
    using mkdir_runs[OF 1(2)] by (auto simp: runs_def)
  obtain d3 where 3: "move_all ids [] d2 = (Ok (), [], d3)" "holding (fold moved ids ?m1) d3"
    using move_all_holding[OF 2(2) ids(2) a1] unfolding runs_def by auto
  have "map_of (vis d3) RevocationLog = map_of (vis d) RevocationLog"
    using holding_cur[OF 3(2)] holding_cur[OF h] moved_facts(3)[of RevocationLog ids ?m1] by simp
  then have l3: "read_revocation_log_strict E (vis d3) = Inr es" using l log_cong by metis
  let ?t = "log_text (es @ append_entries j (logged_ids es) ids)"
  obtain d4 where 4: "atomic_write_text RevocationLog ?t [] d3 = (Ok (), [], d4)" "holding ((fold moved ids ?m1)(RevocationLog \<mapsto> ?t)) d4"
    using set_file_holding[OF 3(2), of RevocationLog "Some ?t"] by (auto simp: set_file_simps runs_def)
  obtain d5 where 5: "unlink_durable PendingRevocation [] d4 = (Ok (), [], d5)" "holding (revoked_map es j ids g m) d5"
    using set_file_holding[OF 4(2), of PendingRevocation None] by (auto simp: set_file_simps revoked_map_def runs_def)
  have "resume_pending_revocation E [] d = (Ok (Some j), [], d5)"
    using j g 1(1) 2(1) 3(1) 4(1) 5(1) l3
    by (simp add: resume_pending_revocation_def write_revocation_log_atomic_def io_bind_def io_lift_def io_return_def ids(1))
  then show ?thesis using 5(2) by blast
qed

text \<open>What a revocation starts from: a graph at rest whose facts have proper names, none of them in both
  stores, with a readable log and consistent definitions outside the dependents.\<close>

definition revocable :: "graph_env \<Rightarrow> files \<Rightarrow> string \<Rightarrow> bool" where
  "revocable E f0 fid \<longleftrightarrow> at_rest f0 \<and> map_of f0 (ActiveFact fid) \<noteq> None \<and>
     list_all (\<lambda>i. SAFE_FACT_ID i \<and> map_of f0 (RevokedFact i) = None) (list_unchecked f0) \<and>
     \<not> isl (read_revocation_log_strict E f0) \<and>
     \<not> isl (active_glossary_excluding E f0 (fid # descendants_unchecked E f0 fid))"

lemma dependents_reach: "dependents E (stores_of fs) i = {j. (i, j) \<in> (depends E fs)\<^sup>*}"
  by (simp add: dependents_def depends_def stores_of_def)

lemma depends_active: "(i, j) \<in> (depends E fs)\<^sup>* \<Longrightarrow> j = i \<or> map_of fs (ActiveFact j) \<noteq> None"
  by (induction rule: rtrancl_induct) (auto simp: depends_def)

lemma revoked_map_values:
  assumes "distinct ids"
  shows "revoked_map es j ids g m (ActiveFact i) = (if i \<in> set ids then None else m (ActiveFact i))"
    "revoked_map es j ids g m (RevokedFact i) = (if i \<in> set ids then m (ActiveFact i) else m (RevokedFact i))"
    "revoked_map es j ids g m GlossaryFile = Some (glossary_text g)" "revoked_map es j ids g m PendingRevocation = None"
    "revoked_map es j ids g m RevocationLog = Some (log_text (es @ append_entries j (logged_ids es) ids))"
    "p \<in> {PendingAdd, PendingAddCommit, PendingAddAbort} \<Longrightarrow> revoked_map es j ids g m p = m p"
  using assms by (auto simp: revoked_map_def moved_facts)

lemma revoke_list:
  assumes "revocable E f0 fid"
  defines "ids \<equiv> fid # descendants_unchecked E f0 fid"
  shows "distinct ids" "set ids = dependents E (stores_of f0) fid" "list_all SAFE_FACT_ID ids"
    "\<forall>i \<in> set ids. map_of f0 (ActiveFact i) \<noteq> None \<and> map_of f0 (RevokedFact i) = None"
proof -
  note d = descendants_reach[of E f0 fid]
  show "distinct ids" using d by (simp add: ids_def)
  show s: "set ids = dependents E (stores_of f0) fid" unfolding dependents_reach ids_def using d by auto
  have a: "map_of f0 (ActiveFact i) \<noteq> None" if "i \<in> set ids" for i
    using that depends_active[of fid i E f0] assms(1) unfolding s dependents_reach revocable_def by auto
  then show "list_all SAFE_FACT_ID ids" "\<forall>i \<in> set ids. map_of f0 (ActiveFact i) \<noteq> None \<and> map_of f0 (RevokedFact i) = None"
    using assms(1) by (auto simp: revocable_def list_all_iff)
qed

lemma revoke_unlocked_runs:
  fixes rid now reason :: string
  assumes "revocable E f0 fid" and g: "active_glossary_excluding E f0 (fid # descendants_unchecked E f0 fid) = Inr g"
    and l: "read_revocation_log_strict E f0 = Inr es"
  defines "ids \<equiv> fid # descendants_unchecked E f0 fid"
  defines "j \<equiv> journal rid now fid reason ids"
  shows "\<exists>d1 d2. atomic_write_text PendingRevocation (pending_add_text (revocation_payload rid now fid reason ids)) [] (restart f0) = (Ok (), [], d1) \<and>
    holding ((map_of f0)(PendingRevocation \<mapsto> pending_add_text (revocation_payload rid now fid reason ids))) d1 \<and>
    load_pending_revocation E (vis d1) = Inr (Some j) \<and>
    active_glossary_excluding E (vis d1) ids = Inr g \<and> read_revocation_log_strict E (vis d1) = Inr es \<and>
    resume_pending_revocation E [] d1 = (Ok (Some j), [], d2) \<and> holding (revoked_map es j ids g (map_of f0)) d2"
proof -
  note r = revoke_list[OF assms(1), folded ids_def]
  let ?t = "pending_add_text (revocation_payload rid now fid reason ids)"
  let ?m = "(map_of f0)(PendingRevocation \<mapsto> ?t)"
  have "holding (map_of f0) (restart f0)" by (simp add: holding_def)
  from set_file_holding[OF this, of PendingRevocation "Some ?t"] obtain d1
    where 1: "atomic_write_text PendingRevocation ?t [] (restart f0) = (Ok (), [], d1)" "holding ?m d1"
    by (auto simp: set_file_simps runs_def)
  note c = holding_cur[OF 1(2)]
  have J: "load_pending_revocation E (vis d1) = Inr (Some j)"
    unfolding j_def ids_def by (rule journal_loads) (use c r(1,3) in \<open>simp_all add: ids_def\<close>)
  have g1: "active_glossary_excluding E (vis d1) ids = Inr g"
    using g glossary_cong[of "vis d1" f0 E ids] c by (simp add: ids_def)
  have l1: "read_revocation_log_strict E (vis d1) = Inr es" using l log_cong[of "vis d1" f0] c by simp
  have ji: "revocation_ids j = ids" by (simp add: j_def)
  obtain d2 where 2: "resume_pending_revocation E [] d1 = (Ok (Some j), [], d2)" "holding (revoked_map es j ids g ?m) d2"
    using resume_runs[OF 1(2) J ji r(1) _ g1 l1] r(4) by auto
  have "revoked_map es j ids g ?m = revoked_map es j ids g (map_of f0)"
  proof
    fix q show "revoked_map es j ids g ?m q = revoked_map es j ids g (map_of f0) q"
      using r(1) by (cases q) (simp_all add: revoked_map_def moved_facts)
  qed
  then show ?thesis using 1 J g1 l1 2 by auto
qed

lemma revoke_runs:
  assumes "revocable E f0 fid" and g: "active_glossary_excluding E f0 (fid # descendants_unchecked E f0 fid) = Inr g"
    and l: "read_revocation_log_strict E f0 = Inr es"
  shows "\<exists>d. revoke E rid now fid reason [] (restart f0) = (Ok (fid # descendants_unchecked E f0 fid), [], d) \<and>
    holding (revoked_map es (journal rid now fid reason (fid # descendants_unchecked E f0 fid)) (fid # descendants_unchecked E f0 fid) g (map_of f0)) d"
proof -
  let ?ids = "fid # descendants_unchecked E f0 fid"
  let ?j = "journal rid now fid reason ?ids"
  obtain d1 d2 where d: "atomic_write_text PendingRevocation (pending_add_text (revocation_payload rid now fid reason ?ids)) [] (restart f0) = (Ok (), [], d1)"
    "resume_pending_revocation E [] d1 = (Ok (Some ?j), [], d2)" "holding (revoked_map es ?j ?ids g (map_of f0)) d2"
    using revoke_unlocked_runs[OF assms] by blast
  have rest: "at_rest f0" and act: "SAFE_FACT_ID fid" "map_of f0 (ActiveFact fid) \<noteq> None"
    using assms(1) revoke_list(3)[OF assms(1)] by (auto simp: revocable_def)
  have "revoke_unlocked E rid now fid reason [] (restart f0) = (Ok ?ids, [], d2)"
    using act d(1,2) by (simp add: revoke_unlocked_def io_bind_def io_read_def io_return_def exists_file_def)
  then have "revoke E rid now fid reason [] (restart f0) = (Ok ?ids, [], d2)"
    using at_rest_recover[OF rest] by (simp add: revoke_def with_mutation_lock_def io_bind_def io_try_def)
  then show ?thesis using d(3) by blast
qed

text \<open>
  Property C4. A revocation refines its specification: when it returns, the facts that depend on the
  root, and no others, have gone from the active to the revoked store, the list it returns is exactly
  those facts, a grounded graph is grounded again, the journal is gone, and everything is durable.
\<close>

theorem revoke_refines:
  assumes "revocable E f0 fid"
  shows "\<exists>ids d. revoke E rid now fid reason [] (restart f0) = (Ok ids, [], d) \<and>
    distinct ids \<and> set ids = dependents E (stores_of f0) fid \<and>
    stores_of (vis d) = revoke_spec E fid (stores_of f0) \<and>
    (grounded E (stores_of f0) \<longrightarrow> grounded E (stores_of (vis d))) \<and>
    at_rest (vis d) \<and> (\<forall>fs. survives d fs \<longrightarrow> map_of fs = map_of (vis d))"
proof -
  obtain g es where gl: "active_glossary_excluding E f0 (fid # descendants_unchecked E f0 fid) = Inr g"
    "read_revocation_log_strict E f0 = Inr es"
    using assms unfolding revocable_def by (auto simp: isl_def split: sum.splits) (meson Inl_Inr_False sum.exhaust_sel)
  let ?ids = "fid # descendants_unchecked E f0 fid"
  let ?j = "journal rid now fid reason ?ids" and ?m = "revoked_map es (journal rid now fid reason ?ids) ?ids g (map_of f0)"
  note r = revoke_list[OF assms]
  obtain d2 where run: "revoke E rid now fid reason [] (restart f0) = (Ok ?ids, [], d2)" and h: "holding ?m d2"
    using revoke_runs[OF assms gl] by blast
  have rest: "at_rest f0" using assms by (simp add: revocable_def)
  have st: "stores_of (vis d2) = revoke_spec E fid (stores_of f0)"
    unfolding stores_of_def revoke_spec_def holding_cur[OF h] revoked_map_values[OF r(1)] r(2) by (simp add: stores_of_def cong: if_cong)
  have ar: "at_rest (vis d2)"
    using rest glossary_text_no_CR unfolding at_rest_def holding_cur[OF h] by (simp add: revoked_map_values[OF r(1)])
  have du: "map_of fs = map_of (vis d2)" if "survives d2 fs" for fs
    using that h by (auto simp: survives_def holding_def fun_eq_iff)
  show ?thesis using run r(1,2) st ar du revoke_spec_grounded[of E "stores_of f0" fid] by auto
qed

section \<open>An example\<close>

lemma example_ids: "CONTENT_FACT_ID (fact_id example_fact)"
  using sha.digest_prefix[of 16] by (simp add: example_fact_def compute_fact_id_def)

lemma example_depends: "depends example_env example_files = {}"
proof -
  let ?i = "fact_id example_fact" and ?raw = "read_text (serialize_fact example_fact)"
  have c: "carries ?raw example_fact (dumps ascii_fmt (JArr (map JObj (external_refs example_fact))))"
    using serialize_carries[OF example_fact_storable] by (simp add: carries_read_text)
  have "predecessors_of example_env ?raw = predecessors example_fact"
    unfolding predecessors_of_def parse_carried[OF c] by simp
  then show ?thesis by (auto simp: depends_def example_files_def example_fact_def split: if_splits)
qed

lemma example_descendants: "descendants_unchecked example_env example_files (fact_id example_fact) = []"
  using descendants_reach[of example_env example_files "fact_id example_fact"] by (auto simp: example_depends)

lemma no_others_glossary:
  assumes "\<And>i. map_of fs (ActiveFact i) \<noteq> None \<Longrightarrow> i \<in> set ids"
  shows "active_glossary_excluding E fs ids = Inr []"
proof -
  have "filter (\<lambda>i. i \<notin> set ids) (list_unchecked fs) = []" using assms by (auto simp: filter_empty_conv)
  then show ?thesis by (simp add: active_glossary_excluding_def)
qed

lemma example_revocable: "revocable example_env example_files (fact_id example_fact)"
proof -
  have "active_glossary_excluding example_env example_files [fact_id example_fact] = Inr []"
    by (rule no_others_glossary) (auto simp: example_files_def split: if_splits)
  moreover have "at_rest example_files" "map_of example_files (ActiveFact (fact_id example_fact)) \<noteq> None"
    "list_all (\<lambda>i. SAFE_FACT_ID i \<and> map_of example_files (RevokedFact i) = None) (list_unchecked example_files)"
    "\<not> isl (read_revocation_log_strict example_env example_files)"
    using hex16_safe[OF example_ids] by (simp_all add: at_rest_def example_files_def read_revocation_log_strict_def list_unchecked_def)
  ultimately show ?thesis unfolding revocable_def example_descendants by simp
qed

theorem revoke_refines_witness:
  "\<exists>ids d. revoke example_env ''r'' ''t'' (fact_id example_fact) ''wrong'' [] (restart example_files) = (Ok ids, [], d) \<and>
    st_active (stores_of (vis d)) (fact_id example_fact) = None \<and>
    st_revoked (stores_of (vis d)) (fact_id example_fact) = Some (serialize_fact example_fact)"
proof -
  have "fact_id example_fact \<in> dependents example_env (stores_of example_files) (fact_id example_fact)"
    by (simp add: dependents_def)
  moreover obtain ids d where "revoke example_env ''r'' ''t'' (fact_id example_fact) ''wrong'' [] (restart example_files) = (Ok ids, [], d)"
    and "stores_of (vis d) = revoke_spec example_env (fact_id example_fact) (stores_of example_files)"
    using revoke_refines[OF example_revocable, of "''r''" "''t''" "''wrong''"] by blast
  moreover have "st_active (stores_of example_files) (fact_id example_fact) = Some (serialize_fact example_fact)"
    by (simp add: stores_of_def example_files_def)
  ultimately show ?thesis unfolding revoke_spec_def by (intro exI[of _ ids] exI[of _ d]) simp
qed

section \<open>A retry that does not synchronise\<close>

lemma survives_update: "survives d fs \<Longrightarrow> Some t \<in> poss d p \<Longrightarrow> survives d (AList.update p t fs)"
  by (simp add: survives_def update_conv')

lemma survives_delete: "survives d fs \<Longrightarrow> None \<in> poss d p \<Longrightarrow> survives d (AList.delete p fs)"
  by (simp add: survives_def delete_conv')

lemma cur_move [simp]: "cur (move_fact i d) q = (if q = ActiveFact i then None else if q = RevokedFact i then cur d (ActiveFact i) else cur d q)"
  by (simp add: move_fact_def)

definition gap_files :: "disk \<Rightarrow> files" where
  "gap_files d = AList.update (ActiveFact (fact_id example_fact)) (serialize_fact example_fact) (AList.delete (RevokedFact (fact_id example_fact)) (vis d))"

text \<open>
  Property C5. A finished revocation can be undone by a loss of power: when the process stops right
  after a fact was moved, before the two directories were synchronised, the next mutation finds the
  fact moved, skips the synchronisation, writes the log and removes the journal. The files that may
  then survive have the fact active again, with no journal left to say so.
\<close>

theorem revocation_gap:
  "\<exists>d1 j d2. revoke example_env ''r'' ''t'' (fact_id example_fact) ''wrong'' (replicate 14 Go @ [Stop]) (restart example_files) = (Crashed, [], d1) \<and>
    recover example_env [] d1 = (Ok (Some j), [], d2) \<and> survives d2 (gap_files d2) \<and>
    map_of (gap_files d2) (ActiveFact (fact_id example_fact)) = map_of example_files (ActiveFact (fact_id example_fact)) \<and>
    map_of (gap_files d2) (RevokedFact (fact_id example_fact)) = None \<and>
    map_of (gap_files d2) PendingRevocation = None \<and> at_rest (gap_files d2)"
proof -
  let ?i = "fact_id example_fact" and ?t = "serialize_fact example_fact"
  let ?pay = "revocation_payload ''r'' ''t'' ?i ''wrong'' [?i]" and ?j = "journal ''r'' ''t'' ?i ''wrong'' [?i]"
  have 14: "replicate 14 Go = [Go, Go, Go, Go, Go, Go, Go, Go, Go, Go, Go, Go, Go, Go]" by (simp add: numeral_eq_Suc)
  have rest: "at_rest example_files" by (simp add: at_rest_def example_files_def)
  note lock = at_rest_recover[OF rest, of example_env]
  have safe: "SAFE_FACT_ID ?i" by (rule hex16_safe[OF example_ids])
  have J: "load_pending_revocation example_env (vis d) = Inr (Some ?j)" if "cur d PendingRevocation = Some (pending_add_text ?pay)" for d
    by (rule journal_loads) (use that safe in simp_all)
  have G: "active_glossary_excluding example_env (vis d) [?i] = Inr []" if "\<forall>i. cur d (ActiveFact i) \<noteq> None \<longrightarrow> i = ?i" for d
    by (rule no_others_glossary) (use that in auto)
  have L: "read_revocation_log_strict example_env (vis d) = Inr []" if "cur d RevocationLog = None" for d
    using that by (simp add: read_revocation_log_strict_def)
  note io = io_bind_def io_try_def io_lift_def io_return_def io_read_def fsync_directory_with_retry_def fsync_directory_def prim_def
    atomic_write_text_def mkdir_durable_def exists_file_def
  define b where "b = sync RootDir (put PendingRevocation (Some (pending_add_text ?pay)) (restart example_files))"
  define d1 where "d1 = move_fact ?i (sync RootDir (sync RootDir (put GlossaryFile (Some (glossary_text [])) (sync ProjectDir b))))"
  have cb: "cur b q = (if q = PendingRevocation then Some (pending_add_text ?pay) else map_of example_files q)" for q
    by (simp add: b_def)
  have f: "map_of example_files (ActiveFact i) = (if i = ?i then Some ?t else None)" "map_of example_files (RevokedFact i) = None"
    "map_of example_files RevocationLog = None" for i by (simp_all add: example_files_def)
  have run: "resume_pending_revocation example_env [Go, Go, Go, Go, Go, Go, Go, Go, Stop] b = (Crashed, [], d1)"
    using J[of b] G[of b]
    by (simp add: resume_pending_revocation_def io move_pending_def cb f d1_def)
  have 1: "revoke example_env ''r'' ''t'' ?i ''wrong'' (replicate 14 Go @ [Stop]) (restart example_files) = (Crashed, [], d1)"
    unfolding revoke_def with_mutation_lock_def 14
    using lock run by (simp add: io revoke_unlocked_def f safe example_descendants b_def)
  have n: "cur (sync RootDir d1) q = None" if "q \<in> {PendingAdd, PendingAddCommit, PendingAddAbort}" for q
    using that by (auto simp: d1_def cb example_files_def)
  have rb: "rollback_pending_add example_env fl (sync RootDir d1) = (Ok (), fl, sync RootDir d1)" for fl
    by (rule rollback_nothing) (use n in auto)
  define e where "e = sync RootDir (put GlossaryFile (Some (glossary_text [])) (sync ProjectDir (sync RootDir d1)))"
  define d2 where "d2 = sync RootDir (put PendingRevocation None
      (sync RootDir (put RevocationLog (Some (log_text (append_entries ?j [] [?i]))) (sync ProjectDir (sync RootDir e)))))"
  have c1: "cur d1 q = (if q = ActiveFact ?i then None else if q = RevokedFact ?i then Some ?t
      else if q = GlossaryFile then Some (glossary_text []) else cur b q)" for q
    by (simp add: d1_def cb f)
  have 2: "resume_pending_revocation example_env [] (sync RootDir d1) = (Ok (Some ?j), [], d2)"
    using J[of "sync RootDir d1"] G[of "sync RootDir d1"] L[of "sync RootDir e"]
    by (simp add: resume_pending_revocation_def io move_pending_def c1 cb f write_revocation_log_atomic_def unlink_durable_def e_def d2_def logged_ids_def)
  have 3: "recover example_env [] d1 = (Ok (Some ?j), [], d2)"
    unfolding with_mutation_lock_def recover_pending_transactions_def using rb 2 by (simp add: io)
  have p: "Some ?t \<in> poss d2 (ActiveFact ?i)" "None \<in> poss d2 (RevokedFact ?i)"
    by (simp_all add: d2_def e_def d1_def b_def move_fact_def f)
  have s: "survives d2 (gap_files d2)"
    unfolding gap_files_def by (intro survives_update survives_delete survives_vis p)
  have c2: "cur d2 q = (if q = PendingRevocation then None else if q = RevocationLog then Some (log_text (append_entries ?j [] [?i]))
      else if q = GlossaryFile then Some (glossary_text []) else cur d1 q)" for q
    by (simp add: d2_def e_def)
  have m: "map_of (gap_files d2) q = (if q = ActiveFact ?i then Some ?t else if q = RevokedFact ?i then None else cur d2 q)" for q
    by (simp add: gap_files_def update_conv' delete_conv')
  have "at_rest (gap_files d2)"
    using glossary_text_no_CR by (simp add: at_rest_def m c2 c1 cb example_files_def)
  then show ?thesis using 1 3 s by (intro exI conjI) (assumption | simp add: m c2 f)+
qed

end
