(* ===== verification/FactGraphLog.thy ===== *)
theory FactGraphLog
  imports FactGraphRevoke
begin

text \<open>
  The revocation log: it is written with the reason as it is and read with \<open>str.splitlines\<close>, which
  also splits at U+0085.
\<close>

section \<open>A truncated line\<close>

lemma parse_str_open: "parse_str (concat (map (esc_char b) s)) = None"
  by (induction s) (simp_all add: parse_str_esc_char)

lemma parse_text: "parse_value h (Suc n) (json_str b v @ r) = Some (JStr v, r)"
  by (simp add: json_str_def parse_str_escaped)

lemma member_step:
  "parse_members h (Suc (Suc n)) (json_str b k @ '': '' @ json_str b v @ '', '' @ DQ # t) =
    map_option (\<lambda>(ps, q). ((k, JStr v) # ps, q)) (parse_members h (Suc n) (DQ # t))"
  by (simp add: json_str_def parse_str_escaped is_json_ws_def del: parse_members.simps(2)) (subst parse_members.simps(2), simp add: parse_str_escaped is_json_ws_def del: parse_members.simps(2))

lemma member_open:
  "parse_members h n (json_str b k @ '': '' @ DQ # concat (map (esc_char b) r)) = None"
proof (cases n)
  case (Suc m)
  then show ?thesis by (cases m) (simp_all add: json_str_def parse_str_escaped parse_str_open is_json_ws_def)
qed simp

definition open_line :: "string \<Rightarrow> string \<Rightarrow> string \<Rightarrow> string" where
  "open_line now fid r = CHR ''{'' # json_str False ''timestamp_utc'' @ '': '' @ json_str False now @ '', '' @
     json_str False ''fact_id'' @ '': '' @ json_str False fid @ '', '' @ json_str False ''reason'' @ '': '' @ DQ # concat (map (esc_char False) r)"

lemma members_open:
  assumes "s1 = json_str b k1 @ '': '' @ json_str b v1 @ '', '' @ DQ # t1" "DQ # t1 = json_str b k2 @ '': '' @ json_str b v2 @ '', '' @ DQ # t2"
    "DQ # t2 = json_str b k3 @ '': '' @ DQ # concat (map (esc_char b) r)"
  shows "parse_members h (Suc (Suc (Suc n))) s1 = None"
  unfolding assms(1) member_step unfolding assms(2) member_step unfolding assms(3) member_open by simp

lemma open_line_loads: "loads flt (open_line now fid r) = None"
proof -
  define k where "k = length (open_line now fid r) - 3"
  have l: "length (open_line now fid r) = Suc (Suc (Suc k))" by (simp add: k_def open_line_def json_str_def)
  define t2 where "t2 = ''reason'' @ DQ # '': '' @ DQ # concat (map (esc_char False) r)"
  define t1 where "t1 = ''fact_id'' @ DQ # '': '' @ json_str False fid @ '', '' @ DQ # t2"
  define s1 where "s1 = json_str False ''timestamp_utc'' @ '': '' @ json_str False now @ '', '' @ DQ # t1"
  have q: "json_str False ''reason'' = DQ # ''reason'' @ [DQ]" "json_str False ''fact_id'' = DQ # ''fact_id'' @ [DQ]"
    by (simp_all add: json_str_def esc_char_def)
  have p: "parse_members (default_hooks flt) (Suc (Suc (Suc k))) s1 = None"
    by (rule members_open[OF s1_def, where ?k2.0 = "''fact_id''" and ?v2.0 = fid and ?t2.0 = t2 and ?k3.0 = "''reason''" and r = r]) (simp_all add: t1_def t2_def q)
  have o: "open_line now fid r = CHR ''{'' # s1" by (simp add: open_line_def s1_def t1_def t2_def q)
  obtain s2 where s2: "s1 = DQ # s2" by (simp add: s1_def json_str_def)
  have w: "skip_ws (CHR ''{'' # s1) = CHR ''{'' # s1" "skip_ws (DQ # s2) = DQ # s2" by (simp_all add: is_json_ws_def)
  have "parse_value (default_hooks flt) (Suc (Suc (Suc (Suc k)))) (CHR ''{'' # s1) = None"
    using p w(2) unfolding s2 by (simp del: parse_members.simps)
  then show ?thesis unfolding loads_def loads_with_def l unfolding o w(1) by (simp only: option.case)
qed

lemma esc_char_one_line: "c \<noteq> NEL \<Longrightarrow> one_line (esc_char False c)"
proof -
  assume n: "c \<noteq> NEL"
  have h: "\<not> is_linebreak (hex_digit n)" if "n < 16" for n
    using that by (auto simp: hex_digit_def is_linebreak_def)
  have "code c div 16 < 16" "code c mod 16 < 16"
    using code_lt_256[of c] by (simp_all add: less_mult_imp_div_less)
  then have u: "one_line [BS, CHR ''u'', CHR ''0'', CHR ''0'', hex_digit (code c div 16), hex_digit (code c mod 16)]"
    using h by (simp add: is_linebreak_def[of BS] is_linebreak_def[of "CHR ''u''"] is_linebreak_def[of "CHR ''0''"])
  have "code c \<noteq> 133" using n by (simp add: char_eq_code)
  then have "one_line [c]" if "\<not> code c < 32"
    using not_linebreak_code[of c] that by auto
  then show ?thesis unfolding esc_char_def using u
    by (simp only: simp_thms split: if_split) (simp add: is_linebreak_def)
qed

lemma esc_one_line: "NEL \<notin> set s \<Longrightarrow> one_line (concat (map (esc_char False) s))"
proof (induction s)
  case (Cons c s)
  then have "one_line (esc_char False c)" by (intro esc_char_one_line) auto
  then show ?case using Cons by simp
qed simp

lemma open_line_one_line:
  assumes "NEL \<notin> set now" "NEL \<notin> set fid" "NEL \<notin> set r"
  shows "one_line (open_line now fid r)"
  using esc_one_line[OF assms(1)] esc_one_line[OF assms(2)] esc_one_line[OF assms(3)]
  by (simp add: open_line_def json_str_def esc_char_def is_linebreak_def)

lemma entry_values:
  "log_entry (journal rid now fid reason ids) i =
     [(''timestamp_utc'', JStr now), (''fact_id'', JStr i), (''reason'', JStr reason),
      (''revoked_as_dependent_of'', if i \<noteq> fid then JStr fid else JNull), (''revocation_id'', JStr rid)]"
  unfolding log_entry_def marker_str_def journal_get by (simp add: revocation_payload_def jget_or_null_def to_str_def)

lemma entry_text:
  "\<exists>t. dumps plain_fmt (JObj (log_entry (journal rid now fid (r @ NEL # s) ids) fid)) = open_line now fid r @ NEL # t"
proof -
  have n: "concat (map (esc_char False) (r @ NEL # s)) = concat (map (esc_char False) r) @ NEL # concat (map (esc_char False) s)"
    by (simp add: esc_char_def)
  have m: "render_member plain_fmt (k, JStr v) = json_str False k @ '': '' @ json_str False v"
    "render_member plain_fmt (k, JNull) = json_str False k @ '': '' @ ''null''" for k v
    by (simp_all add: render_member_def plain_fmt_def)
  have q: "json_str False (r @ NEL # s) = DQ # concat (map (esc_char False) r) @ NEL # concat (map (esc_char False) s) @ [DQ]"
    unfolding json_str_def n by simp
  have "item_sep plain_fmt = '', ''" by (simp add: plain_fmt_def)
  then show ?thesis
    unfolding entry_values dumps_def render_obj open_line_def by (simp add: m q)
qed

lemma open_log_corrupt:
  assumes "NEL \<notin> set now" "NEL \<notin> set fid" "NEL \<notin> set r"
    "map_of fs RevocationLog = Some (log_text (log_entry (journal rid now fid (r @ NEL # s) ids) fid # es))"
  shows "read_revocation_log_strict E fs = Inl (Refused RevocationLogCorrupt)"
proof -
  obtain t where t: "dumps plain_fmt (JObj (log_entry (journal rid now fid (r @ NEL # s) ids) fid)) = open_line now fid r @ NEL # t"
    using entry_text by blast
  let ?raw = "log_text (log_entry (journal rid now fid (r @ NEL # s) ids) fid # es)"
  obtain u where u: "?raw = open_line now fid r @ NEL # u" by (simp add: log_text_def t)
  have sp: "splitlines (read_text ?raw) = open_line now fid r # splitlines u"
    unfolding splitlines_read_text u by (rule splitlines_NEL[OF open_line_one_line[OF assms(1-3)]])
  have "strip (open_line now fid r) \<noteq> []" by (simp add: open_line_def strip_nonspace is_space_def)
  then show ?thesis using assms(4) sp open_line_loads by (simp add: read_revocation_log_strict_def)
qed

section \<open>After it\<close>

text \<open>Steps that leave the log alone.\<close>

definition keeps_log :: "'a io \<Rightarrow> bool" where
  "keeps_log m \<longleftrightarrow> (\<forall>fl d r fl' d'. m fl d = (r, fl', d') \<longrightarrow> cur d' RevocationLog = cur d RevocationLog)"

lemma keeps_bind: "keeps_log m \<Longrightarrow> (\<And>x. keeps_log (f x)) \<Longrightarrow> keeps_log (io_bind m f)"
  unfolding keeps_log_def io_bind_def by (auto split: prod.splits outcome.splits)

lemma keeps_set: "p \<noteq> RevocationLog \<Longrightarrow> keeps_log (set_file p v)"
  using holdsD[OF holds_set_file] unfolding keeps_log_def
  by (fastforce simp: ends_def changes_def split: outcome.splits)

lemma keeps_mkdir: "keeps_log (mkdir_durable s)"
  using holdsD[OF holds_mkdir] unfolding keeps_log_def
  by (fastforce simp: ends_def calms_def split: outcome.splits)

lemma keeps_simple: "keeps_log (io_return x)" "keeps_log (io_raise e)" "keeps_log (io_read g)" "keeps_log (fsync_directory s)"
  "keeps_log (prim (move_fact i))"
  by (auto simp: keeps_log_def io_return_def io_raise_def io_read_def fsync_directory_def elim!: prim_cases)

lemma keeps_moves: "keeps_log (move_pending i)" "keeps_log (move_all is)"
proof -
  show k: "keeps_log (move_pending i)" for i
    unfolding move_pending_def by (intro keeps_bind keeps_simple) (auto intro!: keeps_bind keeps_simple split: prod.split)
  show "keeps_log (move_all is)" by (induction "is") (auto intro: keeps_simple keeps_bind k)
qed

lemma keepsD: "keeps_log m \<Longrightarrow> m fl d = (r, fl', d') \<Longrightarrow> cur d' RevocationLog = cur d RevocationLog"
  unfolding keeps_log_def by blast

lemma resume_needs_log:
  assumes "resume_pending_revocation E fl d = (Ok (Some j), fl', d')"
  shows "\<not> isl (read_revocation_log_strict E (vis d))"
proof -
  from assms obtain g f1 d1 f2 d2 f3 d3 f4 d4
    where "atomic_write_text GlossaryFile (glossary_text g) fl d = (Ok (), f1, d1)" "mkdir_durable RevokedDir f1 d1 = (Ok (), f2, d2)"
      "move_all (revocation_ids j) f2 d2 = (Ok (), f3, d3)" "write_revocation_log_atomic E j f3 d3 = (Ok (), f4, d4)"
    unfolding resume_pending_revocation_def by (auto simp: bind_Ok lift_Ok raise_Ok split: option.splits)
  note s = this
  have "cur d3 RevocationLog = cur d RevocationLog"
    using keepsD[OF keeps_set s(1)[unfolded set_file_simps]] keepsD[OF keeps_mkdir s(2)] keepsD[OF keeps_moves(2) s(3)] by simp
  then have "read_revocation_log_strict E (vis d3) = read_revocation_log_strict E (vis d)" by (rule log_cong)
  then show ?thesis using s(4) by (auto simp: write_revocation_log_atomic_def bind_Ok lift_Ok)
qed

lemma revoke_needs_log:
  assumes "at_rest (vis d)" "cur d (ActiveFact i) \<noteq> None" "SAFE_FACT_ID i" "revoke E rid now i reason fl d = (Ok ids, fl', d')"
  shows "\<not> isl (read_revocation_log_strict E (vis d))"
proof -
  let ?d = "sync RootDir d"
  have n: "cur ?d PendingAdd = None" "cur ?d PendingAddCommit = None" "cur ?d PendingAddAbort = None" "cur ?d PendingRevocation = None"
    using assms(1) by (simp_all add: at_rest_def)
  have r: "recover_pending_transactions E f ?d = (Ok None, f, ?d)" for f
    by (simp add: recover_pending_transactions_def io_bind_def rollback_nothing[OF n(1-3)] no_revocation[OF n(4)])
  obtain f1 where "revoke_unlocked E rid now i reason f1 ?d = (Ok ids, fl', d')"
    using assms(4) unfolding revoke_def with_mutation_lock_def bind_Ok by (auto dest!: barrier_Ok simp: r)
  then obtain p f2 d2 f3 d3 j where w: "atomic_write_text PendingRevocation p f1 ?d = (Ok (), f2, d2)"
    and res: "resume_pending_revocation E f2 d2 = (Ok (Some j), f3, d3)"
    using assms(2,3) by (auto simp: revoke_unlocked_def bind_Ok read_Ok raise_Ok exists_file_def split: option.splits)
  have "cur d2 RevocationLog = cur d RevocationLog" using keepsD[OF keeps_set w[unfolded set_file_simps]] by simp
  then have "read_revocation_log_strict E (vis d2) = read_revocation_log_strict E (vis d)" by (rule log_cong)
  then show ?thesis using resume_needs_log[OF res] by simp
qed

lemma safe_no_NEL: "SAFE_FACT_ID i \<Longrightarrow> NEL \<notin> set i"
  using safe_id_one_line[of i] by (auto simp: list_all_iff is_linebreak_def)



end
