(* ===== verification/CoordRows.thy ===== *)
theory CoordRows
  imports Policy Sha256 Complex_Main
begin

text \<open>
  The tables of the coordination store (\<open>danus/coordination/store.py\<close>), a SQLite database, as records of
  lists of rows, the constraints its schema puts on them, and the transactions that change them. A
  transaction is a function on the database that may raise; raising rolls back. The receipts of
  candidates, reviews and resolutions are derived here too.
\<close>

section \<open>Errors\<close>

text \<open>One constructor for each \<open>raise CoordinationError\<close>, grouped by what it guards.\<close>

datatype id_error =
    BadIdentifier | BadCandidateFactId | BadSourceId | BadFactIdentity | BadContextDigest | BadReviewGeneration
  | UnsupportedResolution | BadAcknowledgement | BadGuidanceId | BadDigest | ContinueBindsGuidance | GuidanceIncomplete

datatype task_error =
    TaskEmpty | TaskTooLong | TaskOutsideRoster | TaskBadGeneration | TaskIdentityMismatch | TaskFreezePredates
  | LegacyBindingInvalid | BadBindingVersion | SlotTaskHashMismatch | SlotWithoutTask | SlotTaskConflict
  | PartialPrompt | DispatchedWithoutPrompt | BadPinnedPrompt | PromptConflict
  | SchemaVersionInconsistent | TaskImpossibleFuture | FutureTaskOutsideGate | TaskLaneConflict | TaskUnexpectedWorker

datatype staging_error =
    StagingHorizon | NotProtectedWorker | CandidateFreezesTasks | TaskFrozen | TaskReplaceCAS | SlotWithoutAssignment
  | StagingIncomplete "string list" | FreezeCAS | NoFrozenTasks | ConflictingFutureTasks | TaskDisappeared

datatype slot_error =
    NoCanonicalSlot | SlotNotCurrent | NoTerminalSlot | TerminalSlotRoster | LiveSlotGeneration | FutureSlot
  | NotPreparedSlot | ExpiryCAS | DirectiveConflict | NoTaskForWorker | AdmissionLaneConflict | AdmissionFreezeCAS
  | ReviewAdmissionCAS | SlotDisappeared | PromptEmpty | PromptTooLong | NotPinnable | PromptUnbound | NotActivatable
  | NoPinnedPrompt | DeadlineBeforeActivation | NotAmbiguable | OutcomeEmpty | OutcomeTooLong | NoSuchSlot | OutcomeConflict
  | TerminalReceiptConflict | AdvanceCAS | CursorGeneration

datatype review_error =
    RootCannotConfirm | ConfirmKind | ConfirmNeedsReviewSlot | ConfirmConflictsReview | ConfirmedWithoutEntry
  | ActiveNamesEntry | ExplorerCannotConfirm | ReviewPointerInconsistent | ReviewNotCanonical | DifferentReview
  | OtherReviewLive | ReviewPointerCAS | ReasoningReviewNotPending | ReviewPhaseCAS | NoExactActiveReview | UnconfirmedCAS
  | NotRootEvidence | NotCriticConfirmation | RootEvidenceNotCurrent | ConfirmationCAS | OtherConfirmation
  | EvidenceConflict | TooManyEntries | EntryConflict | MultipleObstacles | GenericConfirmation | MultipleConfirmations
  | ExplorerEvidence | DesignationMismatch | NoActiveDesignatedReview

datatype advice_error =
    NoRecommendation | AlreadyResolved | NotOpenRequirement | BrowserAuthority | RecommendationUnbound | ReviewBindingNotReady
  | NonterminalSlots | AdviceOverlay | RecommendationCAS | ResolutionConflict | NotCurrentRequirement | OpenSlots
  | OverlayBlocksResume | RecommendationReview | LegacyPointer | ReviewResolutionCAS | ProjectCAS

datatype candidate_error =
    NoCandidateSlot | CandidateSlotGeneration | ReceiptMismatch | OverlayExists | CandidateConflict | CandidateDisappeared
  | BadReceipt | UnsupportedCandidateOutcome policy_error | NotTerminalizable | NeedsOwnerResolution | TerminalConflict
  | ReuseConflict | UnsupportedOwnerResolution | NotAcknowledged | ActiveFactNoPromotion | NoSuchCandidate | SourceSlotOpen
  | OwnerResolutionConflict | KnownTerminal | BadCandidateState | CandidateGeneration | CandidateIdConflict

datatype store_error =
    LegacyStore | ConfigError policy_error | StateMissing | ConfigChanged | UnsupportedSchema int | CannotExpand
  | OverlayWithoutIdentity

text \<open>\<open>Integrity\<close> is \<open>sqlite3.IntegrityError\<close>, raised when a write would break a constraint of the schema;
  a \<open>CoordinationConfigError\<close> of the directive policy passes through as \<open>PolicyRaised\<close>; \<open>TypeErr\<close> is the \<open>TypeError\<close> of an unhashable
  value.\<close>

datatype coord_exc =
    IdErr id_error | TaskErr task_error | StagingErr staging_error | SlotErr slot_error | ReviewErr review_error
  | AdviceErr advice_error | CandErr candidate_error | StoreErr store_error | PolicyRaised policy_error | Integrity | TypeErr

section \<open>Rows\<close>

datatype slot_state = Prepared | Active | Ambiguous | Terminal
datatype review_state = VPending | VActive | VConfirmed | VNotConfirmed | VResolved
datatype cand_state = CObserved | CPromising | CRejected | CSelected | CActive | COutcomeUnknown | CTerminal

record project_row =
  p_version :: int
  p_mode :: string
  p_digest :: string
  p_root :: string
  p_critic :: "string option"
  p_generation :: int
  p_phase :: string
  p_started :: rat
  p_deadline :: rat
  p_recommendation :: "string option"
  p_review :: "string option"
  p_updated :: rat

record slot_row =
  s_id :: string
  s_worker :: string
  s_lane :: string
  s_generation :: int
  s_phase :: string
  s_state :: slot_state
  s_directive :: string
  s_task :: "string option"
  s_task_sha :: "string option"
  s_task_bytes :: "int option"
  s_prompt_task_sha :: "string option"
  s_legacy :: int
  s_prompt :: "string option"
  s_prompt_sha :: "string option"
  s_created :: rat
  s_activated :: "rat option"
  s_terminal :: "rat option"
  s_outcome :: "string option"
  s_review :: "string option"
  s_designated :: "string option"

record task_row =
  t_worker :: string
  t_generation :: int
  t_lane :: string
  t_task :: string
  t_sha :: string
  t_bytes :: int
  t_staged :: rat
  t_frozen :: "rat option"

record worker_row =
  k_worker :: string
  k_lane :: string
  k_state :: string
  k_generation :: int
  k_phase :: string
  k_updated :: rat

record evidence_row =
  e_id :: string
  e_generation :: int
  e_slot :: string
  e_worker :: string
  e_lane :: string
  e_kind :: string
  e_confirms :: "string option"
  e_created :: rat

record cursor_row =
  m_worker :: string
  m_stream :: string
  m_cursor :: string
  m_generation :: int
  m_updated :: rat

record recommendation_row =
  r_id :: string
  r_generation :: int
  r_state :: string
  r_review :: "string option"
  r_root_entry :: string
  r_critic_entry :: string
  r_authorized :: int
  r_request :: "string option"
  r_created :: rat

record review_row =
  v_id :: string
  v_generation :: int
  v_root_entry :: string
  v_root_slot :: string
  v_critic_worker :: string
  v_critic_slot :: "string option"
  v_confirmation :: "string option"
  v_state :: review_state
  v_created :: rat
  v_activated :: "rat option"
  v_terminal :: "rat option"

record resolution_row =
  x_id :: string
  x_recommendation :: string
  x_generation :: int
  x_resolution :: string
  x_ack :: string
  x_guidance :: "string option"
  x_guidance_sha :: "string option"
  x_request :: "string option"
  x_receipt :: "string option"
  x_created :: rat

record candidate_row =
  c_id :: string
  c_generation :: int
  c_slot :: "string option"
  c_fact :: "string option"
  c_identity :: "string option"
  c_source :: "string option"
  c_context :: "string option"
  c_worker :: string
  c_lane :: string
  c_state :: cand_state
  c_outcome :: "string option"
  c_created :: rat
  c_updated :: rat
  c_terminal :: "rat option"
  c_owner_resolution :: "string option"
  c_owner_ack :: "int option"
  c_fact_active :: "int option"
  c_owner_at :: "rat option"

record coord_db =
  db_project :: "project_row option"
  db_slots :: "slot_row list"
  db_tasks :: "task_row list"
  db_workers :: "worker_row list"
  db_evidence :: "evidence_row list"
  db_cursors :: "cursor_row list"
  db_recommendations :: "recommendation_row list"
  db_reviews :: "review_row list"
  db_resolutions :: "resolution_row list"
  db_candidates :: "candidate_row list"

text \<open>What a \<open>CoordinationStore\<close> object holds beside its connection: the configuration, the roster, the
  digest that binds both, and \<open>hashlib.sha256(...).hexdigest\<close>.\<close>

record coord_store =
  st_config :: coord_config
  st_roster :: lane_roster
  st_digest :: string
  st_hash :: "string \<Rightarrow> string"

end
