(* ===== verification/Transactions.thy ===== *)
theory Transactions
  imports Prelude
begin

text \<open>
  Transactions over a database held as a value, shared by the components that keep their state in SQLite:
  a transaction raises or returns a value and the new database. Then tables as lists of rows, and what a
  transaction keeps.
\<close>

section \<open>Transactions\<close>

type_synonym ('d, 'e, 'a) trans = "'d \<Rightarrow> 'e + ('a \<times> 'd)"

named_theorems tx_ok \<open>when a transaction returns\<close>

definition tx_return :: "'a \<Rightarrow> ('d, 'e, 'a) trans" where "tx_return x db = Inr (x, db)"
definition tx_raise :: "'e \<Rightarrow> ('d, 'e, 'a) trans" where "tx_raise e db = Inl e"

definition tx_bind :: "('d, 'e, 'a) trans \<Rightarrow> ('a \<Rightarrow> ('d, 'e, 'b) trans) \<Rightarrow> ('d, 'e, 'b) trans" where
  "tx_bind m f db = (case m db of Inl e \<Rightarrow> Inl e | Inr r \<Rightarrow> f (fst r) (snd r))"

definition tx_then :: "('d, 'e, unit) trans \<Rightarrow> ('d, 'e, 'b) trans \<Rightarrow> ('d, 'e, 'b) trans" where
  "tx_then m n = tx_bind m (\<lambda>_. n)"

definition tx_read :: "('d \<Rightarrow> 'a) \<Rightarrow> ('d, 'e, 'a) trans" where "tx_read g db = Inr (g db, db)"

definition tx_lift :: "('d \<Rightarrow> 'e + 'a) \<Rightarrow> ('d, 'e, 'a) trans" where
  "tx_lift g db = (case g db of Inl e \<Rightarrow> Inl e | Inr x \<Rightarrow> Inr (x, db))"

definition tx_check :: "('d \<Rightarrow> 'e option) \<Rightarrow> ('d, 'e, unit) trans" where
  "tx_check g db = (case g db of None \<Rightarrow> Inr ((), db) | Some e \<Rightarrow> Inl e)"

definition tx_write :: "('d \<Rightarrow> 'd) \<Rightarrow> ('d, 'e, unit) trans" where "tx_write g db = Inr ((), g db)"

definition tx_when :: "bool \<Rightarrow> ('d, 'e, unit) trans \<Rightarrow> ('d, 'e, unit) trans" where
  "tx_when b m = (if b then m else tx_return ())"

text \<open>\<open>BEGIN IMMEDIATE\<close> up to \<open>COMMIT\<close>, or \<open>ROLLBACK\<close> when anything is raised.\<close>

definition transact :: "('d, 'e, 'a) trans \<Rightarrow> 'd \<Rightarrow> ('e + 'a) \<times> 'd" where
  "transact m db = (case m db of Inl e \<Rightarrow> (Inl e, db) | Inr r \<Rightarrow> (Inr (fst r), snd r))"

lemma tx_returns [tx_ok]:
  "tx_return x db = Inr (y, d) \<longleftrightarrow> y = x \<and> d = db"
  "tx_raise e db = Inr (y, d) \<longleftrightarrow> False"
  "tx_read g db = Inr (y, d) \<longleftrightarrow> y = g db \<and> d = db"
  "tx_write w db = Inr (u, d) \<longleftrightarrow> d = w db"
  "tx_lift h db = Inr (y, d) \<longleftrightarrow> h db = Inr y \<and> d = db"
  "tx_check c db = Inr (u, d) \<longleftrightarrow> c db = None \<and> d = db"
  by (auto simp: tx_return_def tx_raise_def tx_read_def tx_write_def tx_lift_def tx_check_def split: sum.splits option.splits)

lemma tx_bind_ok [tx_ok]:
  "tx_bind m f db = Inr (y, d) \<longleftrightarrow> (\<exists>x d'. m db = Inr (x, d') \<and> f x d' = Inr (y, d))"
  by (auto simp: tx_bind_def split: sum.splits)

lemma tx_then_ok [tx_ok]:
  "tx_then m n db = Inr (y, d) \<longleftrightarrow> (\<exists>d'. m db = Inr ((), d') \<and> n d' = Inr (y, d))"
  by (simp add: tx_then_def tx_bind_ok)

lemma tx_when_ok [tx_ok]:
  "tx_when b m db = Inr (u, d) \<longleftrightarrow> (if b then m db = Inr (u, d) else d = db)"
  by (simp add: tx_when_def tx_returns)

lemma transact_ok: "transact m db = (Inr x, d) \<longleftrightarrow> m db = Inr (x, d)"
  by (auto simp: transact_def split: sum.splits)

lemma transact_error: "transact m db = (Inl e, d) \<Longrightarrow> d = db"
  by (auto simp: transact_def split: sum.splits)

section \<open>Rows\<close>

definition update_rows :: "('r \<Rightarrow> bool) \<Rightarrow> ('r \<Rightarrow> 'r) \<Rightarrow> 'r list \<Rightarrow> 'r list" where
  "update_rows P f rows = map (\<lambda>r. if P r then f r else r) rows"

text \<open>A compare-and-swap: the update must touch exactly one row.\<close>

definition one_row :: "('r \<Rightarrow> bool) \<Rightarrow> 'r list \<Rightarrow> bool" where
  "one_row P rows \<longleftrightarrow> length (filter P rows) = 1"

section \<open>What a transaction keeps\<close>

definition keeps :: "('d \<Rightarrow> bool) \<Rightarrow> ('d, 'e, 'a) trans \<Rightarrow> bool" where
  "keeps I m \<longleftrightarrow> (\<forall>db x db'. I db \<longrightarrow> m db = Inr (x, db') \<longrightarrow> I db')"

named_theorems keep \<open>transactions that keep the invariant\<close>

lemma keeps_applyD: "keeps I m \<Longrightarrow> m db = Inr (x, db') \<Longrightarrow> I db \<Longrightarrow> I db'"
  unfolding keeps_def by blast

lemma keeps_basic [keep]:
  "keeps I (tx_return x)" "keeps I (tx_raise e)" "keeps I (tx_read g)" "keeps I (tx_lift h)" "keeps I (tx_check c)"
  by (auto simp: keeps_def tx_ok)

lemma keeps_tx_bind: "keeps I m \<Longrightarrow> (\<And>x. keeps I (f x)) \<Longrightarrow> keeps I (tx_bind m f)"
  unfolding keeps_def tx_bind_ok by blast

lemma keeps_then: "keeps I m \<Longrightarrow> keeps I n \<Longrightarrow> keeps I (tx_then m n)"
  unfolding tx_then_def by (rule keeps_tx_bind)

lemma keeps_when: "(b \<Longrightarrow> keeps I m) \<Longrightarrow> keeps I (tx_when b m)"
  by (auto simp: keeps_def tx_ok split: if_splits)

lemma find_some: "find P xs = Some x \<Longrightarrow> x \<in> set xs \<and> P x"
  by (auto simp: find_Some_iff)

lemma find_none: "find P xs = None \<Longrightarrow> x \<in> set xs \<Longrightarrow> \<not> P x"
  by (auto simp: find_None_iff)

lemma update_rows_map: "update_rows P f rows = map (\<lambda>r. if P r then f r else r) rows"
  by (simp add: update_rows_def)

lemma update_rows_field: "(\<And>r. h (f r) = h r) \<Longrightarrow> map h (update_rows P f rows) = map h rows"
  by (simp add: update_rows_def)

lemma distinct_map_eq: "distinct (map h xs) \<Longrightarrow> x \<in> set xs \<Longrightarrow> y \<in> set xs \<Longrightarrow> h x = h y \<Longrightarrow> x = y"
  by (simp add: distinct_map inj_on_def)

lemma find_unique: "distinct (map h xs) \<Longrightarrow> x \<in> set xs \<Longrightarrow> find (\<lambda>y. h y = h x) xs = Some x"
proof (induction xs)
  case (Cons y ys)
  then show ?case by (cases "h y = h x") (auto simp: image_iff)
qed simp

lemma find_map_eq: "(\<And>x. x \<in> set xs \<Longrightarrow> P (g x) = P x) \<Longrightarrow> find P (map g xs) = map_option g (find P xs)"
  by (induction xs) auto

lemma one_rowE:
  assumes "one_row P rows" obtains r where "r \<in> set rows" "P r" "\<And>q. q \<in> set rows \<Longrightarrow> P q \<Longrightarrow> q = r"
proof -
  from assms obtain r where "filter P rows = [r]" unfolding one_row_def by (auto simp: length_Suc_conv)
  then have "set (filter P rows) = {r}" by simp
  then show ?thesis using that by auto
qed

end
