(* ===== verification/CoordTx.thy ===== *)
theory CoordTx
  imports CoordRows Transactions
begin

text \<open>
  Transactions over the coordination database, the constraints of its schema, and the derived
  identities of receipts, reviews and resolutions (\<open>danus/coordination/store.py\<close>).
\<close>

section \<open>Transactions and tables\<close>

type_synonym 'a tx = "(coord_db, coord_exc, 'a) trans"
type_synonym 'a op = "coord_db \<Rightarrow> (coord_exc + 'a) \<times> coord_db"

definition cas_project :: "(project_row \<Rightarrow> bool) \<Rightarrow> (project_row \<Rightarrow> project_row) \<Rightarrow> coord_exc \<Rightarrow> unit tx" where
  "cas_project P f e db =
     (case db_project db of
        Some p \<Rightarrow> if P p then Inr ((), db\<lparr>db_project := Some (f p)\<rparr>) else Inl e
      | None \<Rightarrow> Inl e)"

definition cas_slots :: "(slot_row \<Rightarrow> bool) \<Rightarrow> (slot_row \<Rightarrow> slot_row) \<Rightarrow> coord_exc \<Rightarrow> unit tx" where
  "cas_slots P f e db =
     (if one_row P (db_slots db) then Inr ((), db\<lparr>db_slots := update_rows P f (db_slots db)\<rparr>) else Inl e)"

definition cas_tasks :: "(task_row \<Rightarrow> bool) \<Rightarrow> (task_row \<Rightarrow> task_row) \<Rightarrow> coord_exc \<Rightarrow> unit tx" where
  "cas_tasks P f e db =
     (if one_row P (db_tasks db) then Inr ((), db\<lparr>db_tasks := update_rows P f (db_tasks db)\<rparr>) else Inl e)"

text \<open>An update of reviews keeps the unique columns unique and within what they reference, or raises.\<close>

definition unique_values :: "'a option list \<Rightarrow> bool" where
  "unique_values xs \<longleftrightarrow> distinct (filter (\<lambda>x. x \<noteq> None) xs)"

definition reviews_valid :: "coord_db \<Rightarrow> review_row list \<Rightarrow> bool" where
  "reviews_valid db vs \<longleftrightarrow>
     distinct (map v_id vs) \<and> distinct (map v_root_entry vs) \<and> distinct (map v_root_slot vs) \<and>
     unique_values (map v_critic_slot vs) \<and> unique_values (map v_confirmation vs) \<and>
     length (filter (\<lambda>v. v_state v \<in> {VPending, VActive, VConfirmed}) vs) \<le> 1 \<and>
     list_all (\<lambda>v. 1 \<le> v_generation v \<and>
       v_root_entry v \<in> set (map e_id (db_evidence db)) \<and> v_root_slot v \<in> set (map s_id (db_slots db)) \<and>
       (case v_critic_slot v of None \<Rightarrow> True | Some i \<Rightarrow> i \<in> set (map s_id (db_slots db))) \<and>
       (case v_confirmation v of None \<Rightarrow> True | Some i \<Rightarrow> i \<in> set (map e_id (db_evidence db)))) vs"

definition write_reviews :: "review_row list \<Rightarrow> unit tx" where
  "write_reviews vs db = (if reviews_valid db vs then Inr ((), db\<lparr>db_reviews := vs\<rparr>) else Inl Integrity)"

definition cas_reviews :: "(review_row \<Rightarrow> bool) \<Rightarrow> (review_row \<Rightarrow> review_row) \<Rightarrow> coord_exc \<Rightarrow> unit tx" where
  "cas_reviews P f e db =
     (if one_row P (db_reviews db) then write_reviews (update_rows P f (db_reviews db)) db else Inl e)"

definition is_open :: "slot_row \<Rightarrow> bool" where
  "is_open s \<longleftrightarrow> s_state s \<in> {Prepared, Active, Ambiguous}"

definition database_schema_version :: "coord_store \<Rightarrow> int" where
  "database_schema_version S = (if max_paid_workers (st_config S) > 2 then 8 else 7)"

definition lane_sql :: "coord_store \<Rightarrow> string list" where
  "lane_sql S = (if database_schema_version S = 8 then [''root'', ''critic'', ''explorer1'', ''explorer2'']
     else [''root'', ''critic''])"

text \<open>The constraints of \<open>round_slots\<close>: the primary key, one slot for a worker in a phase of a generation,
  one open slot in a lane.\<close>

definition slot_insertable :: "coord_store \<Rightarrow> slot_row \<Rightarrow> slot_row list \<Rightarrow> bool" where
  "slot_insertable S r rows \<longleftrightarrow>
     s_lane r \<in> set (lane_sql S) \<and> 1 \<le> s_generation r \<and> s_legacy r \<in> {0, 1} \<and>
     list_all (\<lambda>q. s_id q \<noteq> s_id r \<and>
       (s_worker q, s_generation q, s_phase q) \<noteq> (s_worker r, s_generation r, s_phase r) \<and>
       \<not> (is_open q \<and> is_open r \<and> s_lane q = s_lane r)) rows"

definition insert_slot :: "coord_store \<Rightarrow> slot_row \<Rightarrow> unit tx" where
  "insert_slot S r db =
     (if slot_insertable S r (db_slots db) then Inr ((), db\<lparr>db_slots := db_slots db @ [r]\<rparr>) else Inl Integrity)"

definition insert_task :: "coord_store \<Rightarrow> task_row \<Rightarrow> unit tx" where
  "insert_task S r db =
     (if t_lane r \<in> set (lane_sql S) \<and> 1 \<le> t_generation r \<and> 0 < t_bytes r \<and> t_bytes r \<le> 131072 \<and>
         (t_worker r, t_generation r) \<notin> set (map (\<lambda>q. (t_worker q, t_generation q)) (db_tasks db))
      then Inr ((), db\<lparr>db_tasks := db_tasks db @ [r]\<rparr>) else Inl Integrity)"

definition insert_evidence_row :: "evidence_row \<Rightarrow> unit tx" where
  "insert_evidence_row r db =
     (if e_lane r \<in> {''root'', ''critic''} \<and> e_kind r \<in> {''obstacle'', ''dead_end'', ''critic_confirmation''} \<and>
         e_id r \<notin> set (map e_id (db_evidence db))
      then Inr ((), db\<lparr>db_evidence := db_evidence db @ [r]\<rparr>) else Inl Integrity)"

definition insert_review :: "review_row \<Rightarrow> unit tx" where
  "insert_review r db = write_reviews (db_reviews db @ [r]) db"

definition insert_recommendation :: "recommendation_row \<Rightarrow> unit tx" where
  "insert_recommendation r db =
     (if r_state r = ''owner_action_required'' \<and> r_authorized r = 0 \<and> r_request r = None \<and>
         r_id r \<notin> set (map r_id (db_recommendations db)) \<and>
         (r_root_entry r, r_critic_entry r) \<notin> set (map (\<lambda>q. (r_root_entry q, r_critic_entry q)) (db_recommendations db))
      then Inr ((), db\<lparr>db_recommendations := db_recommendations db @ [r]\<rparr>) else Inl Integrity)"

definition insert_resolution :: "resolution_row \<Rightarrow> unit tx" where
  "insert_resolution r db =
     (if x_id r \<notin> set (map x_id (db_resolutions db)) \<and>
         x_recommendation r \<notin> set (map x_recommendation (db_resolutions db)) \<and>
         x_recommendation r \<in> set (map r_id (db_recommendations db)) \<and> 1 \<le> x_generation r \<and>
         x_resolution r \<in> {''adopted_master_guidance'', ''continue_without_advisor''}
      then Inr ((), db\<lparr>db_resolutions := db_resolutions db @ [r]\<rparr>) else Inl Integrity)"

abbreviation overlay :: "cand_state \<Rightarrow> bool" where
  "overlay st \<equiv> st \<in> {CActive, COutcomeUnknown}"

definition insert_candidate :: "candidate_row \<Rightarrow> unit tx" where
  "insert_candidate r db =
     (if c_id r \<notin> set (map c_id (db_candidates db)) \<and>
         \<not> (overlay (c_state r) \<and> list_ex (\<lambda>q. overlay (c_state q)) (db_candidates db))
      then Inr ((), db\<lparr>db_candidates := db_candidates db @ [r]\<rparr>) else Inl Integrity)"

section \<open>Identifiers and receipts\<close>

definition is_identifier :: "string \<Rightarrow> bool" where
  "is_identifier s \<longleftrightarrow>
     s \<noteq> [] \<and> is_ascii_alnum (hd s) \<and> int (length s) \<le> 128 \<and>
     list_all (\<lambda>c. is_ascii_alnum c \<or> c \<in> set ''_.:-'') (tl s)"

definition validate_identifier :: "string \<Rightarrow> coord_exc option" where
  "validate_identifier s = fail_if (\<not> is_identifier s) (IdErr BadIdentifier)"

abbreviation opt_json :: "string option \<Rightarrow> json" where
  "opt_json x \<equiv> (case x of None \<Rightarrow> JNull | Some s \<Rightarrow> JStr s)"

definition opt_is :: "('a \<Rightarrow> bool) \<Rightarrow> 'a option \<Rightarrow> bool" where
  "opt_is P x \<longleftrightarrow> (case x of None \<Rightarrow> True | Some y \<Rightarrow> P y)"

definition receipt_digest :: "(string \<Rightarrow> string) \<Rightarrow> jobj \<Rightarrow> string" where
  "receipt_digest H material = H (dumps_sorted compact_ascii_fmt (JObj material))"

definition candidate_receipt_id ::
    "(string \<Rightarrow> string) \<Rightarrow> string \<Rightarrow> string \<Rightarrow> string \<Rightarrow> string option \<Rightarrow> string \<Rightarrow> coord_exc + string" where
  "candidate_receipt_id H slot_id fid identity source context =
     (case first_error [
        validate_identifier slot_id,
        fail_if (\<not> is_hex16 fid) (IdErr BadCandidateFactId),
        fail_if (\<not> opt_is is_hex16 source) (IdErr BadSourceId),
        fail_if (\<not> is_hex64 identity) (IdErr BadFactIdentity),
        fail_if (\<not> is_hex64 context) (IdErr BadContextDigest)] of
       Some e \<Rightarrow> Inl e
     | None \<Rightarrow> Inr (receipt_digest H [
         (''schema'', JStr ''danus_reasoning_candidate_receipt_v2''), (''slot_id'', JStr slot_id),
         (''candidate_fact_id'', JStr fid), (''candidate_fact_identity'', JStr identity),
         (''source_id'', opt_json source), (''context_digest'', JStr context)]))"

definition obstacle_review_id :: "(string \<Rightarrow> string) \<Rightarrow> int \<Rightarrow> string \<Rightarrow> string \<Rightarrow> string \<Rightarrow> coord_exc + string" where
  "obstacle_review_id H generation root_entry root_slot critic_worker =
     (case first_error [
        fail_if (generation < 1) (IdErr BadReviewGeneration),
        validate_identifier root_entry, validate_identifier root_slot, validate_identifier critic_worker] of
       Some e \<Rightarrow> Inl e
     | None \<Rightarrow> Inr (''review_'' @ receipt_digest H [
         (''schema'', JStr ''danus_obstacle_review_v1''), (''generation'', JInt generation),
         (''root_entry_id'', JStr root_entry), (''root_slot_id'', JStr root_slot), (''critic_worker'', JStr critic_worker)]))"

definition RECOMMENDATION_RESOLUTIONS :: "string list" where
  "RECOMMENDATION_RESOLUTIONS = [''adopted_master_guidance'', ''continue_without_advisor'']"

text \<open>The bindings an owner's resolution may carry: guidance entry and digest, browser request and
  receipt.\<close>

record bindings =
  b_guidance :: "string option"
  b_guidance_sha :: "string option"
  b_request :: "string option"
  b_receipt :: "string option"

definition no_bindings :: bindings where
  "no_bindings = \<lparr>b_guidance = None, b_guidance_sha = None, b_request = None, b_receipt = None\<rparr>"

definition recommendation_resolution_id ::
    "(string \<Rightarrow> string) \<Rightarrow> string \<Rightarrow> string \<Rightarrow> string \<Rightarrow> bindings \<Rightarrow> coord_exc + string" where
  "recommendation_resolution_id H rid resolution ack b =
     (case first_error [
        validate_identifier rid,
        fail_if (resolution \<notin> set RECOMMENDATION_RESOLUTIONS) (IdErr UnsupportedResolution),
        fail_if (ack \<noteq> rid) (IdErr BadAcknowledgement),
        fail_if (\<not> opt_is is_hex16 (b_guidance b)) (IdErr BadGuidanceId),
        fail_if (\<not> opt_is is_hex64 (b_guidance_sha b)) (IdErr BadDigest),
        fail_if (\<not> opt_is is_hex64 (b_receipt b)) (IdErr BadDigest),
        (case b_request b of None \<Rightarrow> None | Some r \<Rightarrow> validate_identifier r),
        (if resolution = ''continue_without_advisor'' then fail_if (b \<noteq> no_bindings) (IdErr ContinueBindsGuidance)
         else fail_if (b_guidance b = None \<or> b_guidance_sha b = None \<or> (b_request b = None) \<noteq> (b_receipt b = None))
           (IdErr GuidanceIncomplete))] of
       Some e \<Rightarrow> Inl e
     | None \<Rightarrow> Inr (''resolution_'' @ receipt_digest H [
         (''schema'', JStr ''danus_recommendation_resolution_v1''), (''recommendation_id'', JStr rid),
         (''resolution'', JStr resolution), (''owner_acknowledgement'', JStr ack),
         (''master_guidance_entry_id'', opt_json (b_guidance b)), (''master_guidance_record_sha256'', opt_json (b_guidance_sha b)),
         (''browser_request_id'', opt_json (b_request b)), (''browser_receipt_sha256'', opt_json (b_receipt b))]))"

end
