(* ===== verification/CoordTasks.thy ===== *)
theory CoordTasks
  imports CoordTx
begin

text \<open>
  Durable task assignments of the coordination store (\<open>danus/coordination/store.py\<close>): the identity of a
  task text, the checks of task rows and of the task and prompt a paid slot is bound to, the audit a
  store runs when it is opened, staging, freezing and carrying tasks forward.
\<close>

section \<open>The project row and the roster\<close>

definition state_row :: "coord_db \<Rightarrow> coord_exc + project_row" where
  "state_row db = (case db_project db of None \<Rightarrow> Inl (StoreErr StateMissing) | Some p \<Rightarrow> Inr p)"

abbreviation roster_lanes :: "coord_store \<Rightarrow> string dict" where
  "roster_lanes S \<equiv> lanes (st_roster S)"

definition lane_of :: "coord_store \<Rightarrow> string \<Rightarrow> string" where
  "lane_of S w = (case map_of (roster_lanes S) w of None \<Rightarrow> ''observer'' | Some l \<Rightarrow> l)"

definition worker_lane :: "coord_store \<Rightarrow> string \<Rightarrow> coord_exc + string" where
  "worker_lane S w = (case validate_identifier w of Some e \<Rightarrow> Inl e | None \<Rightarrow> Inr (lane_of S w))"

definition active_candidate :: "coord_db \<Rightarrow> candidate_row option" where
  "active_candidate db = find (\<lambda>c. overlay (c_state c)) (db_candidates db)"

section \<open>Bindings\<close>

definition MAX_TASK_BYTES :: int where "MAX_TASK_BYTES = 131072"
definition MAX_PINNED_PROMPT_BYTES :: int where "MAX_PINNED_PROMPT_BYTES = 131072"

definition task_identity :: "(string \<Rightarrow> string) \<Rightarrow> string \<Rightarrow> coord_exc + (string \<times> int)" where
  "task_identity H task =
     (if strip task = [] then Inl (TaskErr TaskEmpty)
      else if int (utf8_len task) > MAX_TASK_BYTES then Inl (TaskErr TaskTooLong)
      else Inr (H (utf8_encode task), int (utf8_len task)))"

definition validate_generation_task_row :: "coord_store \<Rightarrow> task_row \<Rightarrow> coord_exc + (string \<times> int)" where
  "validate_generation_task_row S r =
     (if map_of (roster_lanes S) (t_worker r) \<noteq> Some (t_lane r) then Inl (TaskErr TaskOutsideRoster)
      else if t_generation r < 1 then Inl (TaskErr TaskBadGeneration)
      else (case task_identity (st_hash S) (t_task r) of
          Inl e \<Rightarrow> Inl e
        | Inr (digest, nbytes) \<Rightarrow>
            if t_sha r \<noteq> digest \<or> t_bytes r \<noteq> nbytes then Inl (TaskErr TaskIdentityMismatch)
            else if (case t_frozen r of None \<Rightarrow> False | Some f \<Rightarrow> f < t_staged r) then Inl (TaskErr TaskFreezePredates)
            else Inr (digest, nbytes)))"

definition task_of :: "coord_db \<Rightarrow> string \<Rightarrow> int \<Rightarrow> task_row option" where
  "task_of db w g = find (\<lambda>t. t_worker t = w \<and> t_generation t = g) (db_tasks db)"

definition py_opt_text :: "string option \<Rightarrow> string" where
  "py_opt_text x = (case x of None \<Rightarrow> ''None'' | Some s \<Rightarrow> s)"

definition prompt_binding_markers :: "slot_row \<Rightarrow> string list" where
  "prompt_binding_markers s =
     [''coordination_slot_id='' @ s_id s, ''generation='' @ show_int (s_generation s), ''task_sha256='' @ py_opt_text (s_task_sha s)]"

definition binds_prompt :: "slot_row \<Rightarrow> string \<Rightarrow> bool" where
  "binds_prompt s prompt \<longleftrightarrow> list_all (\<lambda>m. m \<in> set (splitlines prompt)) (prompt_binding_markers s)"

text \<open>The prompt a slot carries, once its task is known to match \<open>digest\<close>.\<close>

definition check_prompt :: "(string \<Rightarrow> string) \<Rightarrow> slot_row \<Rightarrow> string \<Rightarrow> coord_exc option" where
  "check_prompt H s digest =
     (case s_prompt s of
        None \<Rightarrow>
          if s_prompt_sha s \<noteq> None \<or> s_prompt_task_sha s \<noteq> None then Some (TaskErr PartialPrompt)
          else if s_state s \<in> {Active, Ambiguous} then Some (TaskErr DispatchedWithoutPrompt)
          else None
      | Some p \<Rightarrow>
          if p = [] then Some (TaskErr BadPinnedPrompt)
          else if int (utf8_len p) > MAX_PINNED_PROMPT_BYTES \<or>
              (case s_prompt_sha s of None \<Rightarrow> True | Some d \<Rightarrow> \<not> is_hex64 d \<or> H (utf8_encode p) \<noteq> d) \<or>
              s_prompt_task_sha s \<noteq> Some digest \<or> \<not> binds_prompt s p
            then Some (TaskErr PromptConflict)
          else None)"

definition validate_slot_task_binding :: "coord_store \<Rightarrow> coord_db \<Rightarrow> slot_row \<Rightarrow> coord_exc option" where
  "validate_slot_task_binding S db s =
     (if s_legacy s = 1 then
        fail_if (s_state s \<noteq> Terminal \<or> s_task s \<noteq> None \<or> s_task_sha s \<noteq> None \<or> s_task_bytes s \<noteq> None \<or> s_prompt_task_sha s \<noteq> None)
          (TaskErr LegacyBindingInvalid)
      else if s_legacy s \<noteq> 0 then Some (TaskErr BadBindingVersion)
      else (case s_task s of
          None \<Rightarrow> Some (TaskErr TaskEmpty)
        | Some task \<Rightarrow>
            (case task_identity (st_hash S) task of
               Inl e \<Rightarrow> Some e
             | Inr (digest, nbytes) \<Rightarrow>
                 if s_task_sha s \<noteq> Some digest \<or> s_task_bytes s \<noteq> Some nbytes then Some (TaskErr SlotTaskHashMismatch)
                 else (case task_of db (s_worker s) (s_generation s) of
                     None \<Rightarrow> Some (TaskErr SlotWithoutTask)
                   | Some a \<Rightarrow>
                       (case validate_generation_task_row S a of
                          Inl e \<Rightarrow> Some e
                        | Inr _ \<Rightarrow>
                            if t_lane a \<noteq> s_lane s \<or> t_task a \<noteq> task \<or> t_sha a \<noteq> digest \<or> t_bytes a \<noteq> nbytes \<or> t_frozen a = None
                            then Some (TaskErr SlotTaskConflict)
                            else check_prompt (st_hash S) s digest)))))"

definition check_schema_version :: "coord_store \<Rightarrow> project_row \<Rightarrow> coord_exc option" where
  "check_schema_version S p =
     fail_if (p_version p \<notin> (if max_paid_workers (st_config S) > 2 then {8} else {7, 8})) (TaskErr SchemaVersionInconsistent)"

definition audit_task_bindings :: "coord_store \<Rightarrow> coord_db \<Rightarrow> coord_exc option" where
  "audit_task_bindings S db =
     (case state_row db of
        Inl e \<Rightarrow> Some e
      | Inr p \<Rightarrow>
          first_error (
            check_schema_version S p #
            map (\<lambda>a. first_error [
                (case validate_generation_task_row S a of Inl e \<Rightarrow> Some e | Inr _ \<Rightarrow> None),
                fail_if (t_generation a > p_generation p + 1) (TaskErr TaskImpossibleFuture),
                fail_if (t_generation a = p_generation p + 1 \<and> p_phase p \<noteq> OWNER_ACTION_REQUIRED_PHASE) (TaskErr FutureTaskOutsideGate)])
              (db_tasks db) @
            map (validate_slot_task_binding S db) (db_slots db)))"

section \<open>Staging\<close>

record staged_task =
  g_worker :: string
  g_lane :: string
  g_generation :: int
  g_sha :: string
  g_bytes :: int
  g_frozen :: bool

record staging =
  sg_generation :: int
  sg_required :: "string list"
  sg_assignments :: "staged_task list"
  sg_missing :: "string list"
  sg_ready :: bool

definition staged_of :: "string \<Rightarrow> string \<Rightarrow> int \<Rightarrow> task_row \<Rightarrow> staged_task" where
  "staged_of w l g r = \<lparr>g_worker = w, g_lane = l, g_generation = g, g_sha = t_sha r, g_bytes = t_bytes r, g_frozen = (t_frozen r \<noteq> None)\<rparr>"

fun staged_tasks ::
    "coord_store \<Rightarrow> coord_db \<Rightarrow> int \<Rightarrow> (string \<times> string) list \<Rightarrow> coord_exc + (staged_task list \<times> string list)" where
  "staged_tasks S db g [] = Inr ([], [])"
| "staged_tasks S db g ((w, l) # rest) =
     (case task_of db w g of
        None \<Rightarrow>
          (case staged_tasks S db g rest of Inl e \<Rightarrow> Inl e | Inr (xs, ms) \<Rightarrow> Inr (xs, w # ms))
      | Some r \<Rightarrow>
          (case validate_generation_task_row S r of
             Inl e \<Rightarrow> Inl e
           | Inr _ \<Rightarrow>
               if t_lane r \<noteq> l then Inl (TaskErr TaskLaneConflict)
               else (case staged_tasks S db g rest of Inl e \<Rightarrow> Inl e | Inr (xs, ms) \<Rightarrow> Inr (staged_of w l g r # xs, ms))))"

definition task_staging_projection :: "coord_store \<Rightarrow> int \<Rightarrow> coord_db \<Rightarrow> coord_exc + staging" where
  "task_staging_projection S g db =
     (case staged_tasks S db g (roster_lanes S) of
        Inl e \<Rightarrow> Inl e
      | Inr (xs, ms) \<Rightarrow>
          if list_ex (\<lambda>t. t_generation t = g \<and> \<not> has_key (roster_lanes S) (t_worker t)) (db_tasks db)
          then Inl (TaskErr TaskUnexpectedWorker)
          else Inr \<lparr>sg_generation = g, sg_required = keys (roster_lanes S), sg_assignments = xs, sg_missing = ms, sg_ready = (ms = [])\<rparr>)"

definition staged_task_assignments :: "coord_store \<Rightarrow> int option \<Rightarrow> coord_db \<Rightarrow> coord_exc + staging" where
  "staged_task_assignments S generation db =
     (case state_row db of
        Inl e \<Rightarrow> Inl e
      | Inr p \<Rightarrow>
          (let target = (case generation of
               Some g \<Rightarrow> g
             | None \<Rightarrow> if p_phase p = OWNER_ACTION_REQUIRED_PHASE then p_generation p + 1 else p_generation p)
           in if target < 1 \<or> target > p_generation p + 1 then Inl (StagingErr StagingHorizon)
              else task_staging_projection S target db))"

record task_receipt =
  tr_worker :: string
  tr_lane :: string
  tr_generation :: int
  tr_sha :: string
  tr_bytes :: int
  tr_frozen :: bool
  tr_replayed :: bool
  tr_replaced :: bool

text \<open>The assignment already staged: replayed when it is byte for byte the same, replaced when nothing
  has been bound to it.\<close>

definition restage_task :: "task_row \<Rightarrow> task_row \<Rightarrow> bool \<Rightarrow> task_receipt tx" where
  "restage_task existing new slot_exists =
     (let rc = \<lparr>tr_worker = t_worker new, tr_lane = t_lane new, tr_generation = t_generation new, tr_sha = t_sha new,
            tr_bytes = t_bytes new, tr_frozen = (t_frozen existing \<noteq> None), tr_replayed = True, tr_replaced = False\<rparr>
      in if t_lane existing = t_lane new \<and> t_task existing = t_task new \<and> t_sha existing = t_sha new \<and> t_bytes existing = t_bytes new
         then tx_return rc
         else if t_frozen existing \<noteq> None \<or> slot_exists then tx_raise (StagingErr TaskFrozen)
         else tx_then
           (cas_tasks (\<lambda>t. t_worker t = t_worker new \<and> t_generation t = t_generation new \<and> t_frozen t = None)
              (\<lambda>t. t\<lparr>t_lane := t_lane new, t_task := t_task new, t_sha := t_sha new, t_bytes := t_bytes new, t_staged := t_staged new\<rparr>)
              (StagingErr TaskReplaceCAS))
           (tx_return (rc\<lparr>tr_frozen := False, tr_replayed := False, tr_replaced := True\<rparr>)))"

definition stage_task_tx :: "coord_store \<Rightarrow> string \<Rightarrow> string \<Rightarrow> rat \<Rightarrow> string \<Rightarrow> string \<Rightarrow> int \<Rightarrow> task_receipt tx" where
  "stage_task_tx S worker task now lane digest nbytes =
     tx_bind (tx_lift state_row) (\<lambda>p.
     tx_bind (tx_read active_candidate) (\<lambda>cand.
       if cand \<noteq> None then tx_raise (StagingErr CandidateFreezesTasks)
       else
         (let target = (if p_phase p = OWNER_ACTION_REQUIRED_PHASE then p_generation p + 1 else p_generation p);
              new = \<lparr>t_worker = worker, t_generation = target, t_lane = lane, t_task = task, t_sha = digest, t_bytes = nbytes,
                t_staged = now, t_frozen = None\<rparr>
          in tx_bind (tx_read (\<lambda>db. list_ex (\<lambda>s. s_worker s = worker \<and> s_generation s = target) (db_slots db))) (\<lambda>slot_exists.
             tx_bind (tx_read (\<lambda>db. task_of db worker target)) (\<lambda>existing.
               case existing of
                 Some r \<Rightarrow> tx_bind (tx_lift (\<lambda>_. validate_generation_task_row S r)) (\<lambda>_. restage_task r new slot_exists)
               | None \<Rightarrow>
                   if slot_exists then tx_raise (StagingErr SlotWithoutAssignment)
                   else tx_then (insert_task S new)
                     (tx_return \<lparr>tr_worker = worker, tr_lane = lane, tr_generation = target, tr_sha = digest, tr_bytes = nbytes,
                        tr_frozen = False, tr_replayed = False, tr_replaced = False\<rparr>))))))"

definition stage_task_assignment :: "coord_store \<Rightarrow> string \<Rightarrow> string \<Rightarrow> rat \<Rightarrow> task_receipt op" where
  "stage_task_assignment S worker task now db =
     (case worker_lane S worker of
        Inl e \<Rightarrow> (Inl e, db)
      | Inr lane \<Rightarrow>
          if \<not> has_key (roster_lanes S) worker then (Inl (StagingErr NotProtectedWorker), db)
          else (case task_identity (st_hash S) task of
              Inl e \<Rightarrow> (Inl e, db)
            | Inr (digest, nbytes) \<Rightarrow> transact (stage_task_tx S worker task now lane digest nbytes) db))"

section \<open>Freezing and carrying forward\<close>

definition freeze_required_generation_tasks :: "coord_store \<Rightarrow> int \<Rightarrow> rat \<Rightarrow> staging tx" where
  "freeze_required_generation_tasks S g stamp =
     tx_bind (tx_lift (task_staging_projection S g)) (\<lambda>pr.
       if \<not> sg_ready pr then tx_raise (StagingErr (StagingIncomplete (sg_missing pr)))
       else
         (let unfrozen = (\<lambda>t. t_generation t = g \<and> t_frozen t = None)
          in tx_bind (tx_read (\<lambda>db. length (filter unfrozen (db_tasks db)))) (\<lambda>changed.
             tx_then (tx_write (\<lambda>db. db\<lparr>db_tasks := update_rows unfrozen (\<lambda>t. t\<lparr>t_frozen := Some stamp\<rparr>) (db_tasks db)\<rparr>))
             (if changed \<noteq> length (filter (\<lambda>a. \<not> g_frozen a) (sg_assignments pr)) then tx_raise (StagingErr FreezeCAS)
              else tx_lift (task_staging_projection S g)))))"

definition carried_task :: "string \<Rightarrow> string \<Rightarrow> int \<Rightarrow> rat \<Rightarrow> task_row \<Rightarrow> task_row" where
  "carried_task w l g stamp r =
     \<lparr>t_worker = w, t_generation = g + 1, t_lane = l, t_task = t_task r, t_sha = t_sha r, t_bytes = t_bytes r, t_staged = stamp, t_frozen = None\<rparr>"

fun carry_tasks :: "coord_store \<Rightarrow> int \<Rightarrow> rat \<Rightarrow> (string \<times> string) list \<Rightarrow> unit tx" where
  "carry_tasks S g stamp [] = tx_return ()"
| "carry_tasks S g stamp ((w, l) # rest) =
     tx_bind (tx_read (\<lambda>db. task_of db w g)) (\<lambda>row.
       case row of
         None \<Rightarrow> tx_raise (StagingErr TaskDisappeared)
       | Some r \<Rightarrow> tx_then (insert_task S (carried_task w l g stamp r)) (carry_tasks S g stamp rest))"

definition copy_forward_generation_tasks :: "coord_store \<Rightarrow> int \<Rightarrow> rat \<Rightarrow> unit tx" where
  "copy_forward_generation_tasks S g stamp =
     tx_bind (tx_lift (task_staging_projection S g)) (\<lambda>source.
       if \<not> sg_ready source \<or> list_ex (\<lambda>a. \<not> g_frozen a) (sg_assignments source) then tx_raise (StagingErr NoFrozenTasks)
       else tx_bind (tx_read (\<lambda>db. list_ex (\<lambda>t. t_generation t = g + 1) (db_tasks db))) (\<lambda>future.
         if future then tx_raise (StagingErr ConflictingFutureTasks)
         else carry_tasks S g stamp (roster_lanes S)))"

end
