(* ===== verification/CoordSlots.thy ===== *)
theory CoordSlots
  imports CoordTasks
begin

text \<open>
  Paid round slots of the coordination store (\<open>danus/coordination/store.py\<close>): obstacle reviews, the
  advance of a generation, admission, pinning a prompt, activation, the ambiguous state, completion and
  the status of the project. Random identifiers and clock readings are arguments.
\<close>

section \<open>Reviews\<close>

abbreviation live_review :: "review_state \<Rightarrow> bool" where
  "live_review st \<equiv> st \<in> {VPending, VActive, VConfirmed}"

definition review_of :: "coord_db \<Rightarrow> string \<Rightarrow> review_row option" where
  "review_of db i = find (\<lambda>v. v_id v = i) (db_reviews db)"

definition slot_of :: "coord_db \<Rightarrow> string \<Rightarrow> slot_row option" where
  "slot_of db i = find (\<lambda>s. s_id s = i) (db_slots db)"

definition evidence_of :: "coord_db \<Rightarrow> string \<Rightarrow> evidence_row option" where
  "evidence_of db i = find (\<lambda>e. e_id e = i) (db_evidence db)"

definition active_review :: "coord_db \<Rightarrow> coord_exc + review_row option" where
  "active_review db =
     (case state_row db of
        Inl e \<Rightarrow> Inl e
      | Inr p \<Rightarrow>
          (case p_review p of
             None \<Rightarrow> Inr None
           | Some i \<Rightarrow>
               (case review_of db i of
                  None \<Rightarrow> Inl (ReviewErr ReviewPointerInconsistent)
                | Some v \<Rightarrow> if live_review (v_state v) then Inr (Some v) else Inl (ReviewErr ReviewPointerInconsistent))))"

abbreviation root_worker :: "coord_store \<Rightarrow> string" where
  "root_worker S \<equiv> lane_roster.root (st_roster S)"

definition obstacle_kind :: "string \<Rightarrow> bool" where
  "obstacle_kind k \<longleftrightarrow> k \<in> {''obstacle'', ''dead_end''}"

definition root_evidence_canonical :: "coord_store \<Rightarrow> string \<Rightarrow> string \<Rightarrow> int \<Rightarrow> coord_db \<Rightarrow> bool" where
  "root_evidence_canonical S entry slot g db \<longleftrightarrow>
     (case (slot_of db slot, evidence_of db entry) of
        (Some s, Some e) \<Rightarrow>
          s_lane s = ''root'' \<and> s_worker s = root_worker S \<and> s_generation s = g \<and>
          e_slot e = slot \<and> e_generation e = g \<and> e_lane e = ''root'' \<and> e_worker e = root_worker S \<and>
          e_worker e = s_worker s \<and> obstacle_kind (e_kind e)
      | _ \<Rightarrow> False)"

definition new_review :: "string \<Rightarrow> int \<Rightarrow> string \<Rightarrow> string \<Rightarrow> string \<Rightarrow> rat \<Rightarrow> review_row" where
  "new_review i g entry slot critic_worker stamp =
     \<lparr>v_id = i, v_generation = g, v_root_entry = entry, v_root_slot = slot, v_critic_worker = critic_worker, v_critic_slot = None,
      v_confirmation = None, v_state = VPending, v_created = stamp, v_activated = None, v_terminal = None\<rparr>"

definition ensure_review_for_root :: "coord_store \<Rightarrow> string \<Rightarrow> string \<Rightarrow> int \<Rightarrow> rat \<Rightarrow> string option tx" where
  "ensure_review_for_root S entry slot g stamp =
     (case critic (st_roster S) of
        None \<Rightarrow> tx_return None
      | Some cw \<Rightarrow>
          tx_then (tx_check (\<lambda>_. first_error [validate_identifier entry, validate_identifier slot]))
          (tx_bind (tx_lift (\<lambda>_. obstacle_review_id (st_hash S) g entry slot cw)) (\<lambda>i.
           tx_bind (tx_read (root_evidence_canonical S entry slot g)) (\<lambda>canonical.
             if \<not> canonical then tx_raise (ReviewErr ReviewNotCanonical)
             else tx_bind (tx_read (\<lambda>db. find (\<lambda>v. v_root_slot v = slot) (db_reviews db))) (\<lambda>existing.
               case existing of
                 Some v \<Rightarrow>
                   if (v_id v, v_generation v, v_root_entry v, v_root_slot v, v_critic_worker v) \<noteq> (i, g, entry, slot, cw)
                   then tx_raise (ReviewErr DifferentReview) else tx_return (Some (v_id v))
               | None \<Rightarrow>
                   tx_bind (tx_read (\<lambda>db. list_ex (\<lambda>v. live_review (v_state v)) (db_reviews db))) (\<lambda>other.
                     if other then tx_raise (ReviewErr OtherReviewLive)
                     else tx_then (insert_review (new_review i g entry slot cw stamp))
                       (tx_then
                         (cas_project (\<lambda>p. p_generation p = g \<and> p_review p = None \<and> p_recommendation p = None)
                           (\<lambda>p. p\<lparr>p_review := Some i, p_updated := stamp\<rparr>) (ReviewErr ReviewPointerCAS))
                         (tx_return (Some i)))))))))"

section \<open>Workers and the advance of a generation\<close>

definition upsert_worker :: "worker_row \<Rightarrow> worker_row list \<Rightarrow> worker_row list" where
  "upsert_worker r rows =
     (if k_worker r \<in> set (map k_worker rows) then update_rows (\<lambda>q. k_worker q = k_worker r) (\<lambda>_. r) rows else rows @ [r])"

definition write_worker_state :: "string \<Rightarrow> string \<Rightarrow> string \<Rightarrow> int \<Rightarrow> string \<Rightarrow> rat \<Rightarrow> unit tx" where
  "write_worker_state worker lane st g phase now =
     tx_write (\<lambda>db. db\<lparr>db_workers := upsert_worker
       \<lparr>k_worker = worker, k_lane = lane, k_state = st, k_generation = g, k_phase = phase, k_updated = now\<rparr> (db_workers db)\<rparr>)"

definition completed_lanes :: "int \<Rightarrow> string \<Rightarrow> coord_db \<Rightarrow> string list" where
  "completed_lanes g phase db =
     map s_lane (filter (\<lambda>s. s_generation s = g \<and> s_phase s = phase \<and> s_state s = Terminal) (db_slots db))"

definition enter_critic_review :: "coord_store \<Rightarrow> project_row \<Rightarrow> review_row \<Rightarrow> rat \<Rightarrow> bool tx" where
  "enter_critic_review S p v now =
     (if v_state v \<noteq> VPending \<or> v_generation v \<noteq> p_generation p then tx_raise (ReviewErr ReasoningReviewNotPending)
      else tx_then
        (cas_project
          (\<lambda>q. p_generation q = p_generation p \<and> p_phase q = REASONING_PHASE \<and> p_review q = Some (v_id v) \<and> p_recommendation q = None)
          (\<lambda>q. q\<lparr>p_phase := CRITIC_REVIEW_PHASE, p_started := now,
             p_deadline := now + of_int (phase_timeout_seconds (st_config S)), p_updated := now\<rparr>) (ReviewErr ReviewPhaseCAS))
        (tx_return True))"

definition close_unconfirmed_review :: "review_row option \<Rightarrow> rat \<Rightarrow> unit tx" where
  "close_unconfirmed_review review now =
     (case review of
        None \<Rightarrow> tx_raise (ReviewErr NoExactActiveReview)
      | Some v \<Rightarrow>
          if v_state v \<noteq> VActive then tx_raise (ReviewErr NoExactActiveReview)
          else cas_reviews (\<lambda>u. v_id u = v_id v \<and> v_state u = VActive \<and> v_confirmation u = None)
            (\<lambda>u. u\<lparr>v_state := VNotConfirmed, v_terminal := Some now\<rparr>) (ReviewErr UnconfirmedCAS))"

definition next_generation :: "coord_store \<Rightarrow> project_row \<Rightarrow> rat \<Rightarrow> bool tx" where
  "next_generation S p now =
     tx_then (copy_forward_generation_tasks S (p_generation p) now)
     (tx_then
       (cas_project (\<lambda>q. p_generation q = p_generation p \<and> p_phase q = p_phase p \<and> p_recommendation q = None)
         (\<lambda>q. q\<lparr>p_generation := p_generation p + 1, p_phase := REASONING_PHASE, p_started := now, p_review := None,
            p_deadline := now + of_int (phase_timeout_seconds (st_config S)), p_updated := now\<rparr>) (SlotErr AdvanceCAS))
       (tx_return True))"

definition advance_generation_if_ready :: "coord_store \<Rightarrow> rat \<Rightarrow> bool tx" where
  "advance_generation_if_ready S now =
     tx_bind (tx_lift state_row) (\<lambda>p.
     tx_bind (tx_read active_candidate) (\<lambda>cand.
       if p_phase p = OWNER_ACTION_REQUIRED_PHASE \<or> cand \<noteq> None then tx_return False
       else tx_bind (tx_read (completed_lanes (p_generation p) (p_phase p))) (\<lambda>completed.
         if \<not> set (if p_phase p = CRITIC_REVIEW_PHASE then [''critic''] else required_lanes (st_roster S)) \<subseteq> set completed
         then tx_return False
         else tx_bind (tx_lift active_review) (\<lambda>review.
           if p_phase p = REASONING_PHASE \<and> review \<noteq> None then enter_critic_review S p (the review) now
           else tx_then (tx_when (p_phase p = CRITIC_REVIEW_PHASE) (close_unconfirmed_review review now)) (next_generation S p now)))))"

definition PREPARED_DEADLINE_OUTCOME :: string where
  "PREPARED_DEADLINE_OUTCOME = ''phase_deadline_known_not_dispatched''"

definition terminalize_expired_prepared :: "coord_store \<Rightarrow> slot_row \<Rightarrow> rat \<Rightarrow> unit tx" where
  "terminalize_expired_prepared S s now =
     (if s_state s \<noteq> Prepared then tx_raise (SlotErr NotPreparedSlot)
      else tx_then (tx_check (\<lambda>db. validate_slot_task_binding S db s))
       (tx_then (cas_slots (\<lambda>q. s_id q = s_id s \<and> s_state q = Prepared)
          (\<lambda>q. q\<lparr>s_state := Terminal, s_terminal := Some now, s_outcome := Some PREPARED_DEADLINE_OUTCOME\<rparr>) (SlotErr ExpiryCAS))
       (tx_then (write_worker_state (s_worker s) (s_lane s) ''phase_expired_not_dispatched'' (s_generation s) (s_phase s) now)
       (tx_bind (advance_generation_if_ready S now) (\<lambda>_. tx_return ())))))"

section \<open>Admission\<close>

record slot_admission =
  d_slot :: string
  d_worker :: string
  d_lane :: string
  d_generation :: int
  d_phase :: string
  d_directive :: string
  d_task :: "string option"
  d_task_sha :: "string option"
  d_task_bytes :: "int option"
  d_prompt :: "string option"
  d_prompt_sha :: "string option"
  d_state :: slot_state
  d_resumed :: bool
  d_deadline :: rat
  d_timeout :: int
  d_review :: "string option"
  d_designated :: "string option"

definition policy_lift :: "policy_error + 'a \<Rightarrow> coord_exc + 'a" where
  "policy_lift x = map_sum PolicyRaised id x"

definition slot_admission_tx :: "coord_store \<Rightarrow> slot_row \<Rightarrow> bool \<Rightarrow> slot_admission tx" where
  "slot_admission_tx S s resumed =
     tx_then (tx_check (\<lambda>db. validate_slot_task_binding S db s))
     (tx_bind (tx_lift (\<lambda>_. policy_lift (coordination_directive (s_lane s) (s_generation s) (s_phase s) (s_review s) (s_designated s)))) (\<lambda>d.
       if s_directive s \<noteq> d then tx_raise (SlotErr DirectiveConflict)
       else tx_bind (tx_lift state_row) (\<lambda>p. tx_return
         \<lparr>d_slot = s_id s, d_worker = s_worker s, d_lane = s_lane s, d_generation = s_generation s, d_phase = s_phase s,
          d_directive = s_directive s, d_task = s_task s, d_task_sha = s_task_sha s, d_task_bytes = s_task_bytes s,
          d_prompt = s_prompt s, d_prompt_sha = s_prompt_sha s, d_state = s_state s, d_resumed = resumed,
          d_deadline = p_deadline p, d_timeout = phase_timeout_seconds (st_config S), d_review = s_review s,
          d_designated = s_designated s\<rparr>)))"

definition admit_existing :: "coord_store \<Rightarrow> string \<Rightarrow> string \<Rightarrow> bool \<Rightarrow> slot_row \<Rightarrow> rat \<Rightarrow> slot_admission option tx" where
  "admit_existing S worker lane expired s now =
     (if expired \<and> s_state s = Prepared then tx_then (terminalize_expired_prepared S s now) (tx_return None)
      else tx_then (write_worker_state worker lane ''admitted'' (s_generation s) (s_phase s) now)
        (tx_bind (slot_admission_tx S s True) (\<lambda>a. tx_return (Some a))))"

definition lane_eligible :: "coord_store \<Rightarrow> string \<Rightarrow> string \<Rightarrow> project_row \<Rightarrow> review_row option \<Rightarrow> bool" where
  "lane_eligible S worker lane p review \<longleftrightarrow>
     (if p_phase p = CRITIC_REVIEW_PHASE then
        lane = ''critic'' \<and>
        (case review of
           None \<Rightarrow> False
         | Some v \<Rightarrow> v_state v \<in> {VPending, VActive} \<and> v_critic_worker v = worker \<and> v_generation v = p_generation p)
      else has_key (roster_lanes S) worker)"

definition new_slot ::
    "string \<Rightarrow> string \<Rightarrow> string \<Rightarrow> project_row \<Rightarrow> string \<Rightarrow> string \<Rightarrow> string \<Rightarrow> int \<Rightarrow> review_row option \<Rightarrow> rat \<Rightarrow> slot_row" where
  "new_slot i worker lane p directive task digest nbytes review now =
     \<lparr>s_id = i, s_worker = worker, s_lane = lane, s_generation = p_generation p, s_phase = p_phase p, s_state = Prepared,
      s_directive = directive, s_task = Some task, s_task_sha = Some digest, s_task_bytes = Some nbytes, s_prompt_task_sha = None,
      s_legacy = 0, s_prompt = None, s_prompt_sha = None, s_created = now, s_activated = None, s_terminal = None, s_outcome = None,
      s_review = map_option v_id review, s_designated = map_option v_root_entry review\<rparr>"

definition freeze_task :: "task_row \<Rightarrow> rat \<Rightarrow> unit tx" where
  "freeze_task a now =
     tx_when (t_frozen a = None)
       (cas_tasks (\<lambda>t. t_worker t = t_worker a \<and> t_generation t = t_generation a \<and> t_frozen t = None) (\<lambda>t. t\<lparr>t_frozen := Some now\<rparr>)
         (SlotErr AdmissionFreezeCAS))"

definition claim_review :: "review_row option \<Rightarrow> string \<Rightarrow> rat \<Rightarrow> unit tx" where
  "claim_review review slot now =
     (case review of
        None \<Rightarrow> tx_return ()
      | Some v \<Rightarrow> cas_reviews (\<lambda>u. v_id u = v_id v \<and> v_state u = VPending \<and> v_critic_slot u = None)
          (\<lambda>u. u\<lparr>v_state := VActive, v_critic_slot := Some slot, v_activated := Some now\<rparr>) (SlotErr ReviewAdmissionCAS))"

definition reserve_slot ::
    "coord_store \<Rightarrow> string \<Rightarrow> string \<Rightarrow> string \<Rightarrow> project_row \<Rightarrow> review_row option \<Rightarrow> rat \<Rightarrow> slot_admission option tx" where
  "reserve_slot S uid worker lane p review now =
     (let i = ''slot_'' @ uid; slot_review = (if p_phase p = CRITIC_REVIEW_PHASE then review else None)
      in tx_bind (tx_read (\<lambda>db. task_of db worker (p_generation p))) (\<lambda>task.
       case task of
         None \<Rightarrow> tx_raise (SlotErr NoTaskForWorker)
       | Some a \<Rightarrow>
         tx_bind (tx_lift (\<lambda>_. validate_generation_task_row S a)) (\<lambda>(digest, nbytes).
           if t_lane a \<noteq> lane then tx_raise (SlotErr AdmissionLaneConflict)
           else tx_then (freeze_task a now)
            (tx_bind (tx_lift (\<lambda>_. policy_lift (coordination_directive lane (p_generation p) (p_phase p)
                (map_option v_id slot_review) (map_option v_root_entry slot_review)))) (\<lambda>directive.
             tx_then (insert_slot S (new_slot i worker lane p directive (t_task a) digest nbytes slot_review now))
            (tx_then (claim_review slot_review i now)
            (tx_then (write_worker_state worker lane ''admitted'' (p_generation p) (p_phase p) now)
            (tx_bind (tx_read (\<lambda>db. slot_of db i)) (\<lambda>row.
               case row of
                 None \<Rightarrow> tx_raise (SlotErr SlotDisappeared)
               | Some s \<Rightarrow> tx_bind (slot_admission_tx S s False) (\<lambda>d. tx_return (Some d)))))))))))"

definition admit_fresh :: "coord_store \<Rightarrow> string \<Rightarrow> string \<Rightarrow> string \<Rightarrow> project_row \<Rightarrow> rat \<Rightarrow> slot_admission option tx" where
  "admit_fresh S uid worker lane p now =
     (let expired = p_deadline p \<le> now;
          wait = (\<lambda>st. tx_then (write_worker_state worker lane st (p_generation p) (p_phase p) now) (tx_return None))
      in tx_bind (tx_read active_candidate) (\<lambda>cand.
         tx_bind (tx_lift active_review) (\<lambda>review.
           if \<not> lane_eligible S worker lane p review \<or> p_phase p = OWNER_ACTION_REQUIRED_PHASE \<or> cand \<noteq> None \<or> expired
           then wait (if expired then ''phase_expired'' else ''waiting_admission'')
           else tx_bind (tx_read (\<lambda>db.
                 list_ex (\<lambda>s. s_worker s = worker \<and> s_generation s = p_generation p \<and> s_phase s = p_phase p \<and> s_state s = Terminal) (db_slots db) \<or>
                 int (length (filter is_open (db_slots db))) \<ge> max_paid_workers (st_config S))) (\<lambda>full.
             if full then wait ''waiting_admission''
             else reserve_slot S uid worker lane p review now))))"

definition admit_tx :: "coord_store \<Rightarrow> string \<Rightarrow> string \<Rightarrow> string \<Rightarrow> rat \<Rightarrow> slot_admission option tx" where
  "admit_tx S uid worker lane now =
     tx_bind (tx_lift state_row) (\<lambda>p.
     tx_bind (tx_read (\<lambda>db. find (\<lambda>s. s_worker s = worker \<and> is_open s) (db_slots db))) (\<lambda>existing.
       case existing of
         Some s \<Rightarrow> admit_existing S worker lane (p_deadline p \<le> now) s now
       | None \<Rightarrow> admit_fresh S uid worker lane p now))"

definition admit :: "coord_store \<Rightarrow> string \<Rightarrow> string \<Rightarrow> rat \<Rightarrow> slot_admission option op" where
  "admit S uid worker now db =
     (case worker_lane S worker of
        Inl e \<Rightarrow> (Inl e, db)
      | Inr lane \<Rightarrow> transact (admit_tx S uid worker lane now) db)"

section \<open>Prompt, activation and the ambiguous state\<close>

definition pin_tx :: "coord_store \<Rightarrow> string \<Rightarrow> string \<Rightarrow> slot_admission tx" where
  "pin_tx S slot_id prompt =
     tx_bind (tx_read (\<lambda>db. slot_of db slot_id)) (\<lambda>row.
       case row of
         None \<Rightarrow> tx_raise (SlotErr NotPinnable)
       | Some s \<Rightarrow>
         if \<not> is_open s then tx_raise (SlotErr NotPinnable)
         else tx_then (tx_check (\<lambda>db. validate_slot_task_binding S db s))
          (if \<not> binds_prompt s prompt then tx_raise (SlotErr PromptUnbound)
           else tx_then
             (tx_when (s_prompt s = None) (tx_write (\<lambda>db. db\<lparr>db_slots := update_rows (\<lambda>q. s_id q = slot_id \<and> s_prompt q = None)
                (\<lambda>q. q\<lparr>s_prompt := Some prompt, s_prompt_sha := Some (st_hash S (utf8_encode prompt)), s_prompt_task_sha := s_task_sha s\<rparr>) (db_slots db)\<rparr>)))
             (tx_bind (tx_read (\<lambda>db. slot_of db slot_id)) (\<lambda>joined.
                case joined of
                  None \<Rightarrow> tx_raise (SlotErr SlotDisappeared)
                | Some q \<Rightarrow> slot_admission_tx S q (s_prompt s \<noteq> None)))))"

definition pin_prompt :: "coord_store \<Rightarrow> string \<Rightarrow> string \<Rightarrow> slot_admission op" where
  "pin_prompt S slot_id prompt db =
     (case first_error [validate_identifier slot_id, fail_if (prompt = []) (SlotErr PromptEmpty),
          fail_if (int (utf8_len prompt) > MAX_PINNED_PROMPT_BYTES) (SlotErr PromptTooLong)] of
        Some e \<Rightarrow> (Inl e, db)
      | None \<Rightarrow> transact (pin_tx S slot_id prompt) db)"

text \<open>Expiry is committed before the error is raised, so the value of the transaction says which.\<close>

definition activate_tx :: "coord_store \<Rightarrow> string \<Rightarrow> rat \<Rightarrow> (coord_exc + slot_admission) tx" where
  "activate_tx S slot_id now =
     tx_bind (tx_read (\<lambda>db. slot_of db slot_id)) (\<lambda>row.
       case row of
         None \<Rightarrow> tx_raise (SlotErr NotActivatable)
       | Some s \<Rightarrow>
         if \<not> is_open s then tx_raise (SlotErr NotActivatable)
         else tx_then (tx_check (\<lambda>db. validate_slot_task_binding S db s))
          (if s_prompt s = None \<or> s_prompt_sha s = None then tx_raise (SlotErr NoPinnedPrompt)
           else tx_bind (tx_lift state_row) (\<lambda>p.
             if s_state s = Prepared \<and> p_deadline p \<le> now
             then tx_then (terminalize_expired_prepared S s now) (tx_return (Inl (SlotErr DeadlineBeforeActivation)))
             else tx_then
               (tx_when (s_state s = Prepared) (tx_write (\<lambda>db. db\<lparr>db_slots := update_rows (\<lambda>q. s_id q = slot_id \<and> s_state q = Prepared)
                  (\<lambda>q. q\<lparr>s_state := Active, s_activated := Some now\<rparr>) (db_slots db)\<rparr>)))
               (tx_bind (tx_read (\<lambda>db. slot_of db slot_id)) (\<lambda>joined.
                  case joined of
                    None \<Rightarrow> tx_raise (SlotErr SlotDisappeared)
                  | Some q \<Rightarrow> tx_bind (slot_admission_tx S q (s_state s \<noteq> Prepared)) (\<lambda>a. tx_return (Inr a)))))))"

definition activate :: "coord_store \<Rightarrow> string \<Rightarrow> rat \<Rightarrow> slot_admission op" where
  "activate S slot_id now db =
     (case validate_identifier slot_id of
        Some e \<Rightarrow> (Inl e, db)
      | None \<Rightarrow>
          (case transact (activate_tx S slot_id now) db of
             (Inl e, db') \<Rightarrow> (Inl e, db')
           | (Inr r, db') \<Rightarrow> (r, db')))"

definition mark_ambiguous_tx :: "coord_store \<Rightarrow> string \<Rightarrow> rat \<Rightarrow> unit tx" where
  "mark_ambiguous_tx S slot_id now =
     tx_bind (tx_read (\<lambda>db. slot_of db slot_id)) (\<lambda>row.
       case row of
         None \<Rightarrow> tx_raise (SlotErr NotAmbiguable)
       | Some s \<Rightarrow>
         if \<not> is_open s then tx_raise (SlotErr NotAmbiguable)
         else tx_then (tx_check (\<lambda>db. validate_slot_task_binding S db s))
          (tx_then (cas_slots (\<lambda>q. s_id q = slot_id \<and> is_open q) (\<lambda>q. q\<lparr>s_state := Ambiguous\<rparr>) (SlotErr NotAmbiguable))
            (write_worker_state (s_worker s) (s_lane s) ''ambiguous'' (s_generation s) (s_phase s) now)))"

definition mark_ambiguous :: "coord_store \<Rightarrow> string \<Rightarrow> rat \<Rightarrow> unit op" where
  "mark_ambiguous S slot_id now db =
     (case validate_identifier slot_id of
        Some e \<Rightarrow> (Inl e, db)
      | None \<Rightarrow> transact (mark_ambiguous_tx S slot_id now) db)"

end
