(* ===== verification/CoordStatus.thy ===== *)
theory CoordStatus
  imports CoordSlots
begin

text \<open>
  What the coordination store (\<open>danus/coordination/store.py\<close>) reports and how a paid round ends: the open
  recommendation, the status of the project, the completion of a slot, the slots that may carry
  evidence, and the preflight of a publication.
\<close>

section \<open>The open recommendation\<close>

definition recommendation_of :: "coord_db \<Rightarrow> string \<Rightarrow> recommendation_row option" where
  "recommendation_of db i = find (\<lambda>r. r_id r = i) (db_recommendations db)"

definition resolution_of :: "coord_db \<Rightarrow> string \<Rightarrow> resolution_row option" where
  "resolution_of db i = find (\<lambda>x. x_recommendation x = i) (db_resolutions db)"

definition confirmed_binding :: "coord_db \<Rightarrow> recommendation_row \<Rightarrow> string \<Rightarrow> bool" where
  "confirmed_binding db r i \<longleftrightarrow>
     (case review_of db i of
        None \<Rightarrow> False
      | Some v \<Rightarrow> v_state v = VConfirmed \<and> v_generation v = r_generation r \<and> v_root_entry v = r_root_entry r \<and>
          v_confirmation v = Some (r_critic_entry r))"

definition nonterminal_slots :: "coord_db \<Rightarrow> int \<Rightarrow> bool" where
  "nonterminal_slots db g \<longleftrightarrow> list_ex (\<lambda>s. s_generation s = g \<and> s_state s \<noteq> Terminal) (db_slots db)"

definition open_recommendation :: "string \<Rightarrow> coord_db \<Rightarrow> coord_exc + recommendation_row" where
  "open_recommendation i db =
     (case recommendation_of db i of
        None \<Rightarrow> Inl (AdviceErr NoRecommendation)
      | Some r \<Rightarrow>
          if resolution_of db i \<noteq> None then Inl (AdviceErr AlreadyResolved)
          else (case state_row db of
              Inl e \<Rightarrow> Inl e
            | Inr p \<Rightarrow>
                (case first_error [
                   fail_if (p_generation p \<noteq> r_generation r \<or> p_phase p \<noteq> OWNER_ACTION_REQUIRED_PHASE \<or>
                     p_recommendation p \<noteq> Some i \<or> r_state r \<noteq> OWNER_ACTION_REQUIRED_PHASE) (AdviceErr NotOpenRequirement),
                   fail_if (r_authorized r \<noteq> 0 \<or> r_request r \<noteq> None) (AdviceErr BrowserAuthority),
                   fail_if (r_review r = None \<or> p_review p \<noteq> r_review r) (AdviceErr RecommendationUnbound),
                   fail_if (\<not> (case r_review r of None \<Rightarrow> False | Some v \<Rightarrow> confirmed_binding db r v)) (AdviceErr ReviewBindingNotReady),
                   fail_if (nonterminal_slots db (r_generation r)) (AdviceErr NonterminalSlots),
                   fail_if (active_candidate db \<noteq> None) (AdviceErr AdviceOverlay)] of
                   Some e \<Rightarrow> Inl e
                 | None \<Rightarrow> Inr r)))"

definition validate_open_recommendation :: "string \<Rightarrow> recommendation_row op" where
  "validate_open_recommendation i db =
     (case validate_identifier i of
        Some e \<Rightarrow> (Inl e, db)
      | None \<Rightarrow> transact (tx_lift (open_recommendation i)) db)"

definition recommendation_resolution :: "string \<Rightarrow> coord_db \<Rightarrow> coord_exc + resolution_row option" where
  "recommendation_resolution i db =
     (case validate_identifier i of Some e \<Rightarrow> Inl e | None \<Rightarrow> Inr (resolution_of db i))"

section \<open>The status of the project\<close>

record project_report =
  ps_mode :: string
  ps_generation :: int
  ps_phase :: string
  ps_root :: string
  ps_critic :: "string option"
  ps_explorers :: "string list"
  ps_paid_active :: nat
  ps_reserved :: nat
  ps_waiting :: nat
  ps_deadline :: rat
  ps_exceeded :: bool
  ps_reachable :: bool
  ps_present :: bool
  ps_ready :: bool
  ps_fail_stop :: "string option"
  ps_review :: "review_row option"
  ps_recommendation :: "recommendation_row option"
  ps_resolution :: "resolution_row option"
  ps_candidate :: "candidate_row option"
  ps_staging :: staging
  ps_worker :: "(string \<times> string \<times> string) option"

definition later_resolution :: "resolution_row \<Rightarrow> resolution_row \<Rightarrow> resolution_row" where
  "later_resolution x y =
     (if x_created x < x_created y \<or> (x_created x = x_created y \<and> x_id x < x_id y) then y else x)"

definition latest_resolution :: "coord_db \<Rightarrow> resolution_row option" where
  "latest_resolution db =
     (case db_resolutions db of [] \<Rightarrow> None | x # xs \<Rightarrow> Some (foldl later_resolution x xs))"

definition fail_stop_reason :: "string \<Rightarrow> bool \<Rightarrow> bool \<Rightarrow> nat \<Rightarrow> string option" where
  "fail_stop_reason phase staged exceeded paid =
     (if phase = OWNER_ACTION_REQUIRED_PHASE \<and> \<not> staged then Some ''durable_task_assignment_required''
      else if phase = OWNER_ACTION_REQUIRED_PHASE then Some ''owner_recommendation_resolution_required''
      else if exceeded then Some (if paid \<noteq> 0 then ''phase_deadline_exceeded_paid_recovery_required''
        else ''phase_deadline_exceeded_no_new_paid_admission'')
      else if \<not> staged then Some ''durable_task_assignment_required''
      else None)"

definition worker_report :: "coord_store \<Rightarrow> coord_db \<Rightarrow> string \<Rightarrow> coord_exc + (string \<times> string \<times> string)" where
  "worker_report S db w =
     (case worker_lane S w of
        Inl e \<Rightarrow> Inl e
      | Inr lane \<Rightarrow> Inr (w, lane,
          (case find (\<lambda>k. k_worker k = w) (db_workers db) of None \<Rightarrow> ''eligible'' | Some k \<Rightarrow> k_state k)))"

definition project_status :: "coord_store \<Rightarrow> string option \<Rightarrow> rat \<Rightarrow> coord_db \<Rightarrow> coord_exc + project_report" where
  "project_status S worker now db =
     (case state_row db of
        Inl e \<Rightarrow> Inl e
      | Inr p \<Rightarrow>
          (case active_review db of
             Inl e \<Rightarrow> Inl e
           | Inr review \<Rightarrow>
               (let paid = length (filter (\<lambda>s. s_state s \<in> {Active, Ambiguous}) (db_slots db));
                    exceeded = p_deadline p \<le> now;
                    recommendation = (case p_recommendation p of None \<Rightarrow> None | Some i \<Rightarrow> recommendation_of db i);
                    ready = (recommendation \<noteq> None \<and> \<not> isl (open_recommendation (the (p_recommendation p)) db))
                in case task_staging_projection S (if p_phase p = OWNER_ACTION_REQUIRED_PHASE then p_generation p + 1 else p_generation p) db of
                     Inl e \<Rightarrow> Inl e
                   | Inr staging \<Rightarrow>
                       (let report = \<lparr>ps_mode = p_mode p, ps_generation = p_generation p, ps_phase = p_phase p, ps_root = p_root p,
                              ps_critic = p_critic p, ps_explorers = explorers (st_roster S), ps_paid_active = paid,
                              ps_reserved = length (filter (\<lambda>s. s_state s = Prepared) (db_slots db)),
                              ps_waiting = length (filter (\<lambda>k. k_state k = ''waiting_admission'') (db_workers db)),
                              ps_deadline = p_deadline p, ps_exceeded = exceeded, ps_reachable = (critic (st_roster S) \<noteq> None),
                              ps_present = (recommendation \<noteq> None), ps_ready = ready,
                              ps_fail_stop = fail_stop_reason (p_phase p) (sg_ready staging) exceeded paid,
                              ps_review = review, ps_recommendation = recommendation, ps_resolution = latest_resolution db,
                              ps_candidate = active_candidate db, ps_staging = staging, ps_worker = None\<rparr>
                        in case worker of
                             None \<Rightarrow> Inr report
                           | Some w \<Rightarrow>
                               (case worker_report S db w of Inl e \<Rightarrow> Inl e | Inr k \<Rightarrow> Inr (report\<lparr>ps_worker := Some k\<rparr>))))))"

section \<open>Completion\<close>

definition MAX_OUTCOME_BYTES :: int where "MAX_OUTCOME_BYTES = 512"

definition complete_tx :: "coord_store \<Rightarrow> string \<Rightarrow> string \<Rightarrow> rat \<Rightarrow> unit tx" where
  "complete_tx S slot_id outcome now =
     tx_bind (tx_read (\<lambda>db. slot_of db slot_id)) (\<lambda>row.
       case row of
         None \<Rightarrow> tx_raise (SlotErr NoSuchSlot)
       | Some s \<Rightarrow>
         tx_then (tx_check (\<lambda>db. validate_slot_task_binding S db s))
          (if s_state s = Terminal then
             (if s_outcome s \<noteq> Some outcome then tx_raise (SlotErr OutcomeConflict) else tx_return ())
           else tx_then (tx_write (\<lambda>db. db\<lparr>db_slots := update_rows (\<lambda>q. s_id q = slot_id)
                  (\<lambda>q. q\<lparr>s_state := Terminal, s_terminal := Some now, s_outcome := Some outcome\<rparr>) (db_slots db)\<rparr>))
            (tx_then (case (s_phase s = CRITIC_REVIEW_PHASE, s_review s) of
                 (True, Some r) \<Rightarrow>
                   cas_reviews (\<lambda>v. v_id v = r \<and> v_critic_slot v = Some slot_id \<and> v_state v \<in> {VActive, VConfirmed})
                     (\<lambda>v. v\<lparr>v_terminal := Some (case v_terminal v of None \<Rightarrow> now | Some x \<Rightarrow> x)\<rparr>) (SlotErr TerminalReceiptConflict)
               | _ \<Rightarrow> tx_return ())
            (tx_then (write_worker_state (s_worker s) (s_lane s) ''terminal'' (s_generation s) (s_phase s) now)
            (tx_bind (advance_generation_if_ready S now) (\<lambda>_. tx_return ()))))))"

definition complete :: "coord_store \<Rightarrow> string \<Rightarrow> string \<Rightarrow> rat \<Rightarrow> rat \<Rightarrow> project_report op" where
  "complete S slot_id outcome now later db =
     (case first_error [validate_identifier slot_id, fail_if (outcome = []) (SlotErr OutcomeEmpty),
          fail_if (int (utf8_len outcome) > MAX_OUTCOME_BYTES) (SlotErr OutcomeTooLong)] of
        Some e \<Rightarrow> (Inl e, db)
      | None \<Rightarrow>
          (case transact (complete_tx S slot_id outcome now) db of
             (Inl e, db') \<Rightarrow> (Inl e, db')
           | (Inr _, db') \<Rightarrow> (project_status S None later db', db')))"

section \<open>Slots that carry evidence\<close>

definition check_ids :: "string list \<Rightarrow> coord_exc option" where
  "check_ids is = first_error (map validate_identifier is)"

definition canonical_paid_slot :: "coord_store \<Rightarrow> string \<Rightarrow> string option \<Rightarrow> coord_db \<Rightarrow> coord_exc + slot_row" where
  "canonical_paid_slot S worker slot_id db =
     (case check_ids (worker # (case slot_id of None \<Rightarrow> [] | Some i \<Rightarrow> [i])) of
        Some e \<Rightarrow> Inl e
      | None \<Rightarrow>
          (case find (\<lambda>s. s_worker s = worker \<and> s_state s \<in> {Active, Ambiguous} \<and> (slot_id = None \<or> slot_id = Some (s_id s))) (db_slots db) of
             None \<Rightarrow> Inl (SlotErr NoCanonicalSlot)
           | Some s \<Rightarrow>
               (case state_row db of
                  Inl e \<Rightarrow> Inl e
                | Inr p \<Rightarrow>
                    if s_generation s \<noteq> p_generation p \<or> s_lane s \<noteq> lane_of S worker then Inl (SlotErr SlotNotCurrent)
                    else (case validate_slot_task_binding S db s of Some e \<Rightarrow> Inl e | None \<Rightarrow> Inr s))))"

definition terminal_reconciliation_slot :: "coord_store \<Rightarrow> string \<Rightarrow> string \<Rightarrow> coord_db \<Rightarrow> coord_exc + slot_row" where
  "terminal_reconciliation_slot S worker slot_id db =
     (case check_ids [worker, slot_id] of
        Some e \<Rightarrow> Inl e
      | None \<Rightarrow>
          (case find (\<lambda>s. s_worker s = worker \<and> s_id s = slot_id \<and> s_state s \<in> {Active, Ambiguous, Terminal}) (db_slots db) of
             None \<Rightarrow> Inl (SlotErr NoTerminalSlot)
           | Some s \<Rightarrow>
               if s_lane s \<noteq> lane_of S worker then Inl (SlotErr TerminalSlotRoster)
               else (case state_row db of
                   Inl e \<Rightarrow> Inl e
                 | Inr p \<Rightarrow>
                     if s_state s \<noteq> Terminal \<and> s_generation s \<noteq> p_generation p then Inl (SlotErr LiveSlotGeneration)
                     else if s_state s = Terminal \<and> s_generation s > p_generation p then Inl (SlotErr FutureSlot)
                     else Inr s)))"

definition paid_slot_provenance :: "coord_store \<Rightarrow> string \<Rightarrow> coord_db \<Rightarrow> (string \<times> int \<times> string) option" where
  "paid_slot_provenance S worker db =
     (case canonical_paid_slot S worker None db of Inl e \<Rightarrow> None | Inr s \<Rightarrow> Some (s_id s, s_generation s, s_lane s))"

record publication =
  pu_slot :: string
  pu_generation :: int
  pu_lane :: string
  pu_phase :: string
  pu_review :: "string option"
  pu_designated :: "string option"
  pu_bounded :: bool
  pu_replay :: bool
  pu_registered :: "string option"

definition publication_of :: "slot_row \<Rightarrow> bool \<Rightarrow> string option \<Rightarrow> publication" where
  "publication_of s bounded registered =
     \<lparr>pu_slot = s_id s, pu_generation = s_generation s, pu_lane = s_lane s, pu_phase = s_phase s, pu_review = s_review s,
      pu_designated = s_designated s, pu_bounded = bounded, pu_replay = (registered \<noteq> None), pu_registered = registered\<rparr>"

definition designated_slot :: "slot_row \<Rightarrow> string \<Rightarrow> bool" where
  "designated_slot s entry \<longleftrightarrow> s_phase s = CRITIC_REVIEW_PHASE \<and> s_review s \<noteq> None \<and> s_designated s = Some entry"

definition designated_review :: "coord_db \<Rightarrow> slot_row \<Rightarrow> string \<Rightarrow> review_row option" where
  "designated_review db s entry =
     (case s_review s of
        None \<Rightarrow> None
      | Some i \<Rightarrow>
          (case review_of db i of
             None \<Rightarrow> None
           | Some v \<Rightarrow> if v_state v \<in> {VActive, VConfirmed} \<and> v_critic_slot v = Some (s_id s) \<and> v_root_entry v = entry then Some v else None))"

definition validate_memory_publication ::
    "coord_store \<Rightarrow> string \<Rightarrow> string \<Rightarrow> string \<Rightarrow> string option \<Rightarrow> coord_db \<Rightarrow> coord_exc + publication" where
  "validate_memory_publication S worker slot_id kind confirms db =
     (case check_ids (case confirms of None \<Rightarrow> [] | Some i \<Rightarrow> [i]) of
        Some e \<Rightarrow> Inl e
      | None \<Rightarrow>
          (case canonical_paid_slot S worker (Some slot_id) db of
             Inl e \<Rightarrow> Inl e
           | Inr s \<Rightarrow>
               if s_lane s = ''root'' then
                 (if confirms \<noteq> None then Inl (ReviewErr RootCannotConfirm)
                  else Inr (publication_of s (obstacle_kind kind)
                    (if obstacle_kind kind then map_option v_root_entry (find (\<lambda>v. v_root_slot v = s_id s) (db_reviews db)) else None)))
               else (case confirms of
                   None \<Rightarrow> Inr (publication_of s False None)
                 | Some entry \<Rightarrow>
                     if s_lane s \<noteq> ''critic'' then Inl (ReviewErr ExplorerCannotConfirm)
                     else if \<not> obstacle_kind kind then Inl (ReviewErr ConfirmKind)
                     else if \<not> designated_slot s entry then Inl (ReviewErr ConfirmNeedsReviewSlot)
                     else (case designated_review db s entry of
                         None \<Rightarrow> Inl (ReviewErr ConfirmConflictsReview)
                       | Some v \<Rightarrow>
                           if v_state v = VConfirmed then
                             (if v_confirmation v = None then Inl (ReviewErr ConfirmedWithoutEntry)
                              else Inr (publication_of s True (v_confirmation v)))
                           else if v_confirmation v \<noteq> None then Inl (ReviewErr ActiveNamesEntry)
                           else Inr (publication_of s True None)))))"

end
