(* ===== verification/CoordEvidence.thy ===== *)
theory CoordEvidence
  imports CoordStatus
begin

text \<open>
  Evidence in the coordination store (\<open>danus/coordination/store.py\<close>): recording a root obstacle, the
  critic's confirmation and the recommendation it creates, the owner's resolution of a recommendation,
  the reconciliation of memory entries at the end of a round, and the memory cursors.
\<close>

section \<open>Evidence rows\<close>

text \<open>Inserted once; a replay must agree in every column but the time.\<close>

definition insert_evidence :: "evidence_row \<Rightarrow> unit tx" where
  "insert_evidence r =
     tx_bind (tx_read (\<lambda>db. evidence_of db (e_id r))) (\<lambda>existing.
       case existing of
         None \<Rightarrow> insert_evidence_row r
       | Some e \<Rightarrow> if e\<lparr>e_created := e_created r\<rparr> \<noteq> r then tx_raise (ReviewErr EvidenceConflict) else tx_return ())"

definition evidence_entry :: "string \<Rightarrow> coord_db \<Rightarrow> coord_exc + evidence_row option" where
  "evidence_entry i db = (case validate_identifier i of Some e \<Rightarrow> Inl e | None \<Rightarrow> Inr (evidence_of db i))"

record evidence_receipt =
  q_entry :: string
  q_generation :: int
  q_slot :: string
  q_worker :: string
  q_lane :: string
  q_kind :: string
  q_confirms :: "string option"
  q_review :: "string option"
  q_recommendation :: "string option"

definition record_root_tx :: "coord_store \<Rightarrow> string \<Rightarrow> string \<Rightarrow> string \<Rightarrow> string \<Rightarrow> rat \<Rightarrow> evidence_receipt tx" where
  "record_root_tx S worker kind entry slot_id now =
     tx_bind (tx_lift (canonical_paid_slot S worker (Some slot_id))) (\<lambda>s.
     tx_then (insert_evidence \<lparr>e_id = entry, e_generation = s_generation s, e_slot = s_id s, e_worker = worker, e_lane = ''root'',
        e_kind = kind, e_confirms = None, e_created = now\<rparr>)
     (tx_bind (ensure_review_for_root S entry (s_id s) (s_generation s) now) (\<lambda>review.
        tx_return \<lparr>q_entry = entry, q_generation = s_generation s, q_slot = s_id s, q_worker = worker, q_lane = ''root'', q_kind = kind,
          q_confirms = None, q_review = review, q_recommendation = None\<rparr>)))"

definition record_root_evidence :: "coord_store \<Rightarrow> string \<Rightarrow> string \<Rightarrow> string \<Rightarrow> string \<Rightarrow> rat \<Rightarrow> evidence_receipt op" where
  "record_root_evidence S worker kind entry slot_id now db =
     (case worker_lane S worker of
        Inl e \<Rightarrow> (Inl e, db)
      | Inr lane \<Rightarrow>
          if lane \<noteq> ''root'' \<or> \<not> obstacle_kind kind then (Inl (ReviewErr NotRootEvidence), db)
          else (case validate_identifier entry of
              Some e \<Rightarrow> (Inl e, db)
            | None \<Rightarrow> transact (record_root_tx S worker kind entry slot_id now) db))"

section \<open>Confirmation and recommendation\<close>

definition root_evidence_current :: "coord_db \<Rightarrow> string \<Rightarrow> int \<Rightarrow> bool" where
  "root_evidence_current db entry g \<longleftrightarrow>
     list_ex (\<lambda>e. e_id e = entry \<and> e_generation e = g \<and> e_lane e = ''root'' \<and> obstacle_kind (e_kind e)) (db_evidence db)"

definition critic_evidence_current :: "coord_db \<Rightarrow> string \<Rightarrow> string \<Rightarrow> int \<Rightarrow> bool" where
  "critic_evidence_current db entry confirms g \<longleftrightarrow>
     list_ex (\<lambda>e. e_id e = entry \<and> e_generation e = g \<and> e_lane e = ''critic'' \<and> e_kind e = ''critic_confirmation'' \<and>
       e_confirms e = Some confirms) (db_evidence db)"

definition recommendable :: "string \<Rightarrow> string \<Rightarrow> string \<Rightarrow> int \<Rightarrow> coord_db \<Rightarrow> bool" where
  "recommendable review root_entry critic_entry g db \<longleftrightarrow>
     (case review_of db review of
        None \<Rightarrow> False
      | Some v \<Rightarrow> v_generation v = g \<and> v_root_entry v = root_entry \<and> v_confirmation v = Some critic_entry \<and> v_state v = VConfirmed) \<and>
     root_evidence_current db root_entry g \<and> critic_evidence_current db critic_entry root_entry g"

definition ensure_recommendation ::
    "string \<Rightarrow> string \<Rightarrow> string \<Rightarrow> string \<Rightarrow> int \<Rightarrow> rat \<Rightarrow> string option tx" where
  "ensure_recommendation uid review root_entry critic_entry g now =
     tx_bind (tx_read (recommendable review root_entry critic_entry g)) (\<lambda>ok.
       if \<not> ok then tx_return None
       else tx_bind (tx_lift state_row) (\<lambda>p.
         if p_generation p \<noteq> g \<or> p_review p \<noteq> Some review \<or> p_phase p \<notin> {CRITIC_REVIEW_PHASE, OWNER_ACTION_REQUIRED_PHASE}
         then tx_return None
         else (case p_recommendation p of
             Some i \<Rightarrow>
               tx_bind (tx_read (\<lambda>db. recommendation_of db i)) (\<lambda>existing. tx_return
                 (case existing of
                    None \<Rightarrow> None
                  | Some r \<Rightarrow> if r_review r = Some review \<and> r_root_entry r = root_entry \<and> r_critic_entry r = critic_entry then Some i else None))
           | None \<Rightarrow>
               (let i = ''recommendation_'' @ uid
                in tx_then (insert_recommendation \<lparr>r_id = i, r_generation = g, r_state = OWNER_ACTION_REQUIRED_PHASE, r_review = Some review,
                     r_root_entry = root_entry, r_critic_entry = critic_entry, r_authorized = 0, r_request = None, r_created = now\<rparr>)
                   (tx_then (cas_project (\<lambda>q. p_generation q = g \<and> p_phase q = CRITIC_REVIEW_PHASE \<and> p_review q = Some review \<and> p_recommendation q = None)
                       (\<lambda>q. q\<lparr>p_phase := OWNER_ACTION_REQUIRED_PHASE, p_recommendation := Some i, p_updated := now\<rparr>) (AdviceErr RecommendationCAS))
                     (tx_return (Some i)))))))"

text \<open>The review named by a critic's confirmation: confirmed now, or already by the same entry.\<close>

definition confirm_review :: "review_row \<Rightarrow> string \<Rightarrow> unit tx" where
  "confirm_review v entry =
     (if v_state v = VActive then
        cas_reviews (\<lambda>u. v_id u = v_id v \<and> v_state u = VActive \<and> v_confirmation u = None)
          (\<lambda>u. u\<lparr>v_state := VConfirmed, v_confirmation := Some entry\<rparr>) (ReviewErr ConfirmationCAS)
      else if v_confirmation v \<noteq> Some entry then tx_raise (ReviewErr OtherConfirmation)
      else tx_return ())"

definition confirmation_row :: "slot_row \<Rightarrow> string \<Rightarrow> string \<Rightarrow> string \<Rightarrow> rat \<Rightarrow> evidence_row" where
  "confirmation_row s worker entry root_entry now =
     \<lparr>e_id = entry, e_generation = s_generation s, e_slot = s_id s, e_worker = worker, e_lane = ''critic'',
      e_kind = ''critic_confirmation'', e_confirms = Some root_entry, e_created = now\<rparr>"

definition confirm_root_tx :: "coord_store \<Rightarrow> string \<Rightarrow> string \<Rightarrow> string \<Rightarrow> string \<Rightarrow> string \<Rightarrow> rat \<Rightarrow> evidence_receipt tx" where
  "confirm_root_tx S uid worker root_entry entry slot_id now =
     tx_bind (tx_lift (canonical_paid_slot S worker (Some slot_id))) (\<lambda>s.
       if \<not> designated_slot s root_entry then tx_raise (ReviewErr ConfirmNeedsReviewSlot)
       else tx_bind (tx_read (\<lambda>db. designated_review db s root_entry)) (\<lambda>review.
         case review of
           None \<Rightarrow> tx_raise (ReviewErr ConfirmConflictsReview)
         | Some v \<Rightarrow>
           tx_then (tx_check (\<lambda>db. fail_if (\<not> root_evidence_current db root_entry (s_generation s)) (ReviewErr RootEvidenceNotCurrent)))
          (tx_then (insert_evidence (confirmation_row s worker entry root_entry now))
          (tx_then (confirm_review v entry)
          (tx_bind (ensure_recommendation uid (v_id v) root_entry entry (s_generation s) now) (\<lambda>recommendation.
             tx_return \<lparr>q_entry = entry, q_generation = s_generation s, q_slot = s_id s, q_worker = worker, q_lane = ''critic'',
               q_kind = ''critic_confirmation'', q_confirms = Some root_entry, q_review = None, q_recommendation = recommendation\<rparr>))))))"

definition confirm_root_evidence ::
    "coord_store \<Rightarrow> string \<Rightarrow> string \<Rightarrow> string \<Rightarrow> string \<Rightarrow> string \<Rightarrow> rat \<Rightarrow> evidence_receipt op" where
  "confirm_root_evidence S uid worker root_entry entry slot_id now db =
     (case worker_lane S worker of
        Inl e \<Rightarrow> (Inl e, db)
      | Inr lane \<Rightarrow>
          if lane \<noteq> ''critic'' then (Inl (ReviewErr NotCriticConfirmation), db)
          else (case check_ids [root_entry, entry] of
              Some e \<Rightarrow> (Inl e, db)
            | None \<Rightarrow> transact (confirm_root_tx S uid worker root_entry entry slot_id now) db))"

section \<open>The owner's resolution\<close>

definition same_resolution :: "resolution_row \<Rightarrow> string \<Rightarrow> string \<Rightarrow> string \<Rightarrow> string \<Rightarrow> bindings \<Rightarrow> bool" where
  "same_resolution x i rid resolution ack b \<longleftrightarrow>
     (x_id x, x_recommendation x, x_resolution x, x_ack x) = (i, rid, resolution, ack) \<and>
     (x_guidance x, x_guidance_sha x, x_request x, x_receipt x) = (b_guidance b, b_guidance_sha b, b_request b, b_receipt b)"

definition check_resolvable :: "recommendation_row \<Rightarrow> project_row \<Rightarrow> coord_db \<Rightarrow> coord_exc option" where
  "check_resolvable r p db =
     first_error [
       fail_if (p_generation p \<noteq> r_generation r \<or> p_phase p \<noteq> OWNER_ACTION_REQUIRED_PHASE \<or> p_recommendation p \<noteq> Some (r_id r))
         (AdviceErr NotCurrentRequirement),
       fail_if (nonterminal_slots db (r_generation r)) (AdviceErr OpenSlots),
       fail_if (active_candidate db \<noteq> None) (AdviceErr OverlayBlocksResume),
       (case r_review r of
          Some i \<Rightarrow> fail_if (\<not> confirmed_binding db r i \<or> p_review p \<noteq> Some i) (AdviceErr RecommendationReview)
        | None \<Rightarrow> fail_if (p_review p \<noteq> None) (AdviceErr LegacyPointer))]"

definition resolve_tx ::
    "coord_store \<Rightarrow> string \<Rightarrow> string \<Rightarrow> string \<Rightarrow> string \<Rightarrow> bindings \<Rightarrow> rat \<Rightarrow> resolution_row tx" where
  "resolve_tx S i rid resolution ack b now =
     tx_bind (tx_read (\<lambda>db. resolution_of db rid)) (\<lambda>prior.
       case prior of
         Some x \<Rightarrow> if \<not> same_resolution x i rid resolution ack b then tx_raise (AdviceErr ResolutionConflict) else tx_return x
       | None \<Rightarrow>
         tx_bind (tx_read (\<lambda>db. recommendation_of db rid)) (\<lambda>rec.
           case rec of
             None \<Rightarrow> tx_raise (AdviceErr NoRecommendation)
           | Some r \<Rightarrow>
             tx_bind (tx_lift state_row) (\<lambda>p.
             tx_then (tx_check (check_resolvable r p))
             (tx_bind (freeze_required_generation_tasks S (r_generation r + 1) now) (\<lambda>_.
                let x = \<lparr>x_id = i, x_recommendation = rid, x_generation = r_generation r, x_resolution = resolution, x_ack = ack,
                      x_guidance = b_guidance b, x_guidance_sha = b_guidance_sha b, x_request = b_request b, x_receipt = b_receipt b, x_created = now\<rparr>
                in tx_then (insert_resolution x)
                  (tx_then (case r_review r of
                       None \<Rightarrow> tx_return ()
                     | Some v \<Rightarrow> cas_reviews (\<lambda>u. v_id u = v \<and> v_state u = VConfirmed \<and> v_confirmation u = Some (r_critic_entry r))
                         (\<lambda>u. u\<lparr>v_state := VResolved\<rparr>) (AdviceErr ReviewResolutionCAS))
                  (tx_then (cas_project (\<lambda>q. p_generation q = r_generation r \<and> p_phase q = OWNER_ACTION_REQUIRED_PHASE \<and>
                        p_recommendation q = Some rid \<and> p_review q = r_review r)
                      (\<lambda>q. q\<lparr>p_generation := r_generation r + 1, p_phase := REASONING_PHASE, p_started := now,
                         p_deadline := now + of_int (phase_timeout_seconds (st_config S)), p_recommendation := None, p_review := None,
                         p_updated := now\<rparr>) (AdviceErr ProjectCAS))
                    (tx_return x))))))))"

definition resolve_recommendation ::
    "coord_store \<Rightarrow> string \<Rightarrow> string \<Rightarrow> string \<Rightarrow> bindings \<Rightarrow> rat \<Rightarrow> resolution_row op" where
  "resolve_recommendation S rid resolution ack b now db =
     (case recommendation_resolution_id (st_hash S) rid resolution ack b of
        Inl e \<Rightarrow> (Inl e, db)
      | Inr i \<Rightarrow> transact (resolve_tx S i rid resolution ack b now) db)"

section \<open>Reconciliation of memory entries\<close>

definition provenance_matches :: "slot_row \<Rightarrow> json \<Rightarrow> bool" where
  "provenance_matches s v \<longleftrightarrow>
     (case v of
        JObj d \<Rightarrow> exact_keys d [''slot_id'', ''generation'', ''lane''] \<and> jget_or_null d ''slot_id'' = JStr (s_id s) \<and>
          jget_or_null d ''generation'' = JInt (s_generation s) \<and> jget_or_null d ''lane'' = JStr (s_lane s)
      | _ \<Rightarrow> False)"

text \<open>The evidence an entry stands for: its id, its kind and what it confirms. A list or an object as
  kind is not hashable.\<close>

type_synonym evidence_identity = "string \<times> string \<times> string option"

definition entry_evidence :: "slot_row \<Rightarrow> jobj \<Rightarrow> string \<Rightarrow> evidence_identity option" where
  "entry_evidence s entry kind =
     (case (jget_or_null entry ''id'', jget_or_null entry ''links'') of
        (JStr i, JObj links) \<Rightarrow>
          if jget_or_null entry ''author'' \<noteq> JStr (s_worker s) \<or> \<not> provenance_matches s (jget_or_null links ''coordination'') \<or> \<not> is_identifier i
          then None
          else if s_lane s = ''root'' then Some (i, kind, None)
          else if s_lane s \<noteq> ''critic'' then None
          else (case jget_or_null links ''confirms_entry_id'' of
              JStr c \<Rightarrow> if is_identifier c then Some (i, ''critic_confirmation'', Some c) else None
            | _ \<Rightarrow> None)
      | _ \<Rightarrow> None)"

definition matching_memory_evidence :: "slot_row \<Rightarrow> json \<Rightarrow> coord_exc + evidence_identity option" where
  "matching_memory_evidence s entry =
     (case entry of
        JObj d \<Rightarrow>
          (case jget_or_null d ''kind'' of
             JStr k \<Rightarrow> Inr (if obstacle_kind k then entry_evidence s d k else None)
           | JArr _ \<Rightarrow> Inl TypeErr
           | JObj _ \<Rightarrow> Inl TypeErr
           | _ \<Rightarrow> Inr None)
      | _ \<Rightarrow> Inr None)"

fun collect_identities :: "slot_row \<Rightarrow> json list \<Rightarrow> evidence_identity list \<Rightarrow> coord_exc + evidence_identity list" where
  "collect_identities s [] acc = Inr acc"
| "collect_identities s (x # xs) acc =
     (case matching_memory_evidence s x of
        Inl e \<Rightarrow> Inl e
      | Inr None \<Rightarrow> collect_identities s xs acc
      | Inr (Some i) \<Rightarrow>
          (case find (\<lambda>j. fst j = fst i) acc of
             None \<Rightarrow> collect_identities s xs (acc @ [i])
           | Some j \<Rightarrow> if j \<noteq> i then Inl (ReviewErr EntryConflict) else collect_identities s xs acc))"

definition check_identities :: "slot_row \<Rightarrow> evidence_identity list \<Rightarrow> coord_exc option" where
  "check_identities s is =
     first_error [
       fail_if (s_lane s = ''root'' \<and> length is > 1) (ReviewErr MultipleObstacles),
       fail_if (s_lane s = ''critic'' \<and> is \<noteq> [] \<and> s_phase s \<noteq> CRITIC_REVIEW_PHASE) (ReviewErr GenericConfirmation),
       fail_if (s_lane s = ''critic'' \<and> length is > 1) (ReviewErr MultipleConfirmations),
       fail_if (s_lane s \<notin> {''root'', ''critic''} \<and> is \<noteq> []) (ReviewErr ExplorerEvidence)]"

text \<open>One identity: its evidence row, then the review it opens or confirms. The value is the review and
  the recommendation.\<close>

definition accept_identity ::
    "coord_store \<Rightarrow> string \<Rightarrow> string \<Rightarrow> slot_row \<Rightarrow> evidence_identity \<Rightarrow> rat \<Rightarrow> (string option \<times> string option) tx" where
  "accept_identity S uid worker s idn now =
     (case idn of (entry, kind, confirms) \<Rightarrow>
       if s_lane s = ''critic'' \<and> (s_review s = None \<or> s_designated s \<noteq> confirms) then tx_raise (ReviewErr DesignationMismatch)
       else tx_then (insert_evidence \<lparr>e_id = entry, e_generation = s_generation s, e_slot = s_id s, e_worker = worker, e_lane = s_lane s,
            e_kind = kind, e_confirms = confirms, e_created = now\<rparr>)
        (if s_lane s = ''root'' then
           tx_bind (ensure_review_for_root S entry (s_id s) (s_generation s) now) (\<lambda>review. tx_return (review, None))
         else if s_lane s = ''critic'' then
           tx_bind (tx_read (\<lambda>db. case confirms of None \<Rightarrow> None | Some c \<Rightarrow> designated_review db s c)) (\<lambda>review.
             case review of
               None \<Rightarrow> tx_raise (ReviewErr NoActiveDesignatedReview)
             | Some v \<Rightarrow> tx_then (confirm_review v entry)
                 (tx_bind (ensure_recommendation uid (v_id v) (py_opt_text confirms) entry (s_generation s) now) (\<lambda>r.
                    tx_return (Some (v_id v), r))))
         else tx_raise (ReviewErr ExplorerEvidence)))"

fun accept_identities ::
    "coord_store \<Rightarrow> string \<Rightarrow> string \<Rightarrow> slot_row \<Rightarrow> evidence_identity list \<Rightarrow> rat \<Rightarrow> string option \<times> string option \<Rightarrow> (string option \<times> string option) tx" where
  "accept_identities S uid worker s [] now acc = tx_return acc"
| "accept_identities S uid worker s (i # is) now acc =
     tx_bind (accept_identity S uid worker s i now) (\<lambda>(review, recommendation).
       accept_identities S uid worker s is now (if s_lane s = ''root'' then (review, snd acc) else (review, recommendation)))"

definition MAX_RECONCILE_ENTRIES :: int where "MAX_RECONCILE_ENTRIES = 10000"

record reconciliation =
  rc_slot :: string
  rc_generation :: int
  rc_lane :: string
  rc_accepted :: "string list"
  rc_review :: "string option"
  rc_recommendation :: "string option"

definition reconcile_tx :: "coord_store \<Rightarrow> string \<Rightarrow> string \<Rightarrow> string \<Rightarrow> json list \<Rightarrow> rat \<Rightarrow> reconciliation tx" where
  "reconcile_tx S uid slot_id worker entries now =
     tx_bind (tx_lift (terminal_reconciliation_slot S worker slot_id)) (\<lambda>s.
     tx_bind (tx_lift (\<lambda>_. collect_identities s entries [])) (\<lambda>is.
     tx_then (tx_check (\<lambda>_. check_identities s is))
     (tx_bind (accept_identities S uid worker s is now (None, None)) (\<lambda>(review, recommendation).
        tx_return \<lparr>rc_slot = s_id s, rc_generation = s_generation s, rc_lane = s_lane s, rc_accepted = map fst is, rc_review = review,
          rc_recommendation = recommendation\<rparr>))))"

definition reconcile_terminal_memory_entries ::
    "coord_store \<Rightarrow> string \<Rightarrow> string \<Rightarrow> string \<Rightarrow> json list \<Rightarrow> rat \<Rightarrow> reconciliation op" where
  "reconcile_terminal_memory_entries S uid slot_id worker entries now db =
     (if int (length entries) > MAX_RECONCILE_ENTRIES then (Inl (ReviewErr TooManyEntries), db)
      else transact (reconcile_tx S uid slot_id worker entries now) db)"

section \<open>Memory cursors\<close>

definition upsert_cursor :: "cursor_row \<Rightarrow> cursor_row list \<Rightarrow> cursor_row list" where
  "upsert_cursor r rows =
     (if (m_worker r, m_stream r) \<in> set (map (\<lambda>q. (m_worker q, m_stream q)) rows)
      then update_rows (\<lambda>q. m_worker q = m_worker r \<and> m_stream q = m_stream r)
        (\<lambda>q. q\<lparr>m_cursor := m_cursor r, m_generation := m_generation r, m_updated := m_updated r\<rparr>) rows
      else rows @ [r])"

definition set_memory_cursor :: "string \<Rightarrow> string \<Rightarrow> string \<Rightarrow> int option \<Rightarrow> rat \<Rightarrow> cursor_row op" where
  "set_memory_cursor worker stream cursor generation now db =
     (case check_ids [worker, stream, cursor] of
        Some e \<Rightarrow> (Inl e, db)
      | None \<Rightarrow> transact (tx_bind (tx_lift state_row) (\<lambda>p.
          if generation \<notin> {None, Some (p_generation p)} then tx_raise (SlotErr CursorGeneration)
          else (let r = \<lparr>m_worker = worker, m_stream = stream, m_cursor = cursor, m_generation = p_generation p, m_updated = now\<rparr>
                in tx_then (tx_write (\<lambda>db. db\<lparr>db_cursors := upsert_cursor r (db_cursors db)\<rparr>)) (tx_return r)))) db)"

end
