(* ===== verification/CoordCand.thy ===== *)
theory CoordCand
  imports CoordEvidence
begin

text \<open>
  Candidate receipts of the coordination store (\<open>danus/coordination/store.py\<close>): the overlay that freezes
  the project while a candidate is verified, its terminal outcomes, the reuse of an exact fact, the
  owner's release of an unknown outcome, the observation stub, and opening the store. The operations
  together form a step relation.
\<close>

section \<open>Candidates\<close>

definition candidate_of :: "coord_db \<Rightarrow> string \<Rightarrow> candidate_row option" where
  "candidate_of db i = find (\<lambda>c. c_id c = i) (db_candidates db)"

definition canonical_candidate_slot :: "coord_store \<Rightarrow> string \<Rightarrow> string \<Rightarrow> bool \<Rightarrow> coord_db \<Rightarrow> coord_exc + slot_row" where
  "canonical_candidate_slot S worker slot_id current db =
     (case check_ids [worker, slot_id] of
        Some e \<Rightarrow> Inl e
      | None \<Rightarrow>
          (case find (\<lambda>s. s_worker s = worker \<and> s_id s = slot_id \<and> s_state s \<in> {Active, Ambiguous, Terminal}) (db_slots db) of
             None \<Rightarrow> Inl (CandErr NoCandidateSlot)
           | Some s \<Rightarrow>
               (case state_row db of
                  Inl e \<Rightarrow> Inl e
                | Inr p \<Rightarrow>
                    if s_lane s \<noteq> lane_of S worker \<or> (current \<and> s_generation s \<noteq> p_generation p)
                    then Inl (CandErr CandidateSlotGeneration) else Inr s)))"

record candidate_key =
  ck_slot :: string
  ck_fact :: string
  ck_identity :: string
  ck_source :: "string option"
  ck_context :: string

definition candidate_row_of :: "string \<Rightarrow> slot_row \<Rightarrow> string \<Rightarrow> candidate_key \<Rightarrow> cand_state \<Rightarrow> string option \<Rightarrow> rat \<Rightarrow> rat option \<Rightarrow> candidate_row" where
  "candidate_row_of i s worker k st outcome now terminal =
     \<lparr>c_id = i, c_generation = s_generation s, c_slot = Some (ck_slot k), c_fact = Some (ck_fact k), c_identity = Some (ck_identity k),
      c_source = ck_source k, c_context = Some (ck_context k), c_worker = worker, c_lane = s_lane s, c_state = st, c_outcome = outcome,
      c_created = now, c_updated = now, c_terminal = terminal, c_owner_resolution = None, c_owner_ack = None, c_fact_active = None,
      c_owner_at = None\<rparr>"

definition same_candidate :: "candidate_row \<Rightarrow> slot_row \<Rightarrow> string \<Rightarrow> candidate_key \<Rightarrow> bool" where
  "same_candidate c s worker k \<longleftrightarrow>
     c_generation c = s_generation s \<and> c_slot c = Some (ck_slot k) \<and> c_fact c = Some (ck_fact k) \<and> c_identity c = Some (ck_identity k) \<and>
     c_source c = ck_source k \<and> c_context c = Some (ck_context k) \<and> c_worker c = worker \<and> c_lane c = s_lane s"

definition fetch_candidate :: "string \<Rightarrow> candidate_row tx" where
  "fetch_candidate i =
     tx_lift (\<lambda>db. case candidate_of db i of None \<Rightarrow> Inl (CandErr CandidateDisappeared) | Some c \<Rightarrow> Inr c)"

definition register_tx :: "coord_store \<Rightarrow> string \<Rightarrow> string \<Rightarrow> candidate_key \<Rightarrow> rat \<Rightarrow> candidate_row tx" where
  "register_tx S worker i k now =
     tx_bind (tx_read (\<lambda>db. candidate_of db i)) (\<lambda>existing.
     tx_bind (tx_lift (case existing of
         None \<Rightarrow> canonical_paid_slot S worker (Some (ck_slot k))
       | Some c \<Rightarrow> canonical_candidate_slot S worker (ck_slot k) (c_state c \<noteq> CTerminal))) (\<lambda>s.
     tx_then (case existing of
         None \<Rightarrow>
           tx_bind (tx_read active_candidate) (\<lambda>ov.
             if ov \<noteq> None then tx_raise (CandErr OverlayExists)
             else insert_candidate (candidate_row_of i s worker k CActive None now None))
       | Some c \<Rightarrow>
           if \<not> same_candidate c s worker k \<or> c_state c \<notin> {CActive, COutcomeUnknown, CTerminal} then tx_raise (CandErr CandidateConflict)
           else tx_return ())
     (fetch_candidate i)))"

definition register_candidate :: "coord_store \<Rightarrow> string \<Rightarrow> string \<Rightarrow> candidate_key \<Rightarrow> rat \<Rightarrow> candidate_row op" where
  "register_candidate S worker i k now db =
     (case candidate_receipt_id (st_hash S) (ck_slot k) (ck_fact k) (ck_identity k) (ck_source k) (ck_context k) of
        Inl e \<Rightarrow> (Inl e, db)
      | Inr receipt \<Rightarrow>
          if i \<noteq> receipt then (Inl (CandErr ReceiptMismatch), db) else transact (register_tx S worker i k now) db)"

definition set_candidate :: "string \<Rightarrow> (cand_state \<Rightarrow> bool) \<Rightarrow> (candidate_row \<Rightarrow> candidate_row) \<Rightarrow> unit tx" where
  "set_candidate i P f =
     tx_write (\<lambda>db. db\<lparr>db_candidates := update_rows (\<lambda>c. c_id c = i \<and> P (c_state c)) f (db_candidates db)\<rparr>)"

definition terminalize_tx :: "coord_store \<Rightarrow> string \<Rightarrow> string \<Rightarrow> string \<Rightarrow> string \<Rightarrow> bool \<Rightarrow> rat \<Rightarrow> candidate_row tx" where
  "terminalize_tx S worker i slot_id outcome releases now =
     tx_bind (tx_read (\<lambda>db. candidate_of db i)) (\<lambda>row.
     tx_bind (tx_lift (canonical_candidate_slot S worker slot_id (case row of None \<Rightarrow> True | Some c \<Rightarrow> c_state c \<noteq> CTerminal))) (\<lambda>_.
       case row of
         None \<Rightarrow> tx_raise (CandErr NotTerminalizable)
       | Some c \<Rightarrow>
         if c_worker c \<noteq> worker \<or> c_slot c \<noteq> Some slot_id \<or> c_state c \<notin> {CActive, COutcomeUnknown, CTerminal}
         then tx_raise (CandErr NotTerminalizable)
         else tx_then
           (if c_state c = COutcomeUnknown then
              (if outcome \<noteq> ''outcome_unknown'' \<or> c_outcome c \<noteq> Some outcome then tx_raise (CandErr NeedsOwnerResolution) else tx_return ())
            else if c_state c = CTerminal then
              (if c_outcome c \<noteq> Some outcome then tx_raise (CandErr TerminalConflict) else tx_return ())
            else
              (let unknown = (outcome = ''outcome_unknown'') in set_candidate i (\<lambda>st. st = CActive)
                 (\<lambda>q. q\<lparr>c_state := (if unknown then COutcomeUnknown else CTerminal), c_outcome := Some outcome, c_updated := now,
                    c_terminal := (if unknown then None else Some now)\<rparr>)))
           (tx_then (tx_when releases (tx_bind (advance_generation_if_ready S now) (\<lambda>_. tx_return ())))
             (fetch_candidate i))))"

definition terminalize_candidate :: "coord_store \<Rightarrow> string \<Rightarrow> string \<Rightarrow> string \<Rightarrow> string \<Rightarrow> rat \<Rightarrow> candidate_row op" where
  "terminalize_candidate S worker i slot_id outcome now db =
     (if \<not> is_hex64 i then (Inl (CandErr BadReceipt), db)
      else (case candidate_outcome_releases outcome of
          Inl e \<Rightarrow> (Inl (CandErr (UnsupportedCandidateOutcome e)), db)
        | Inr releases \<Rightarrow> transact (terminalize_tx S worker i slot_id outcome releases now) db))"

definition reuse_context :: "(string \<Rightarrow> string) \<Rightarrow> string \<Rightarrow> string \<Rightarrow> string \<Rightarrow> string option \<Rightarrow> string" where
  "reuse_context H slot_id fid identity source =
     H (utf8_encode (dumps compact_fmt (JArr [JStr ''active_exact_fact_reuse_v1'', JStr slot_id, JStr fid, JStr identity, opt_json source])))"

definition reuse_tx :: "coord_store \<Rightarrow> string \<Rightarrow> string \<Rightarrow> candidate_key \<Rightarrow> rat \<Rightarrow> candidate_row tx" where
  "reuse_tx S worker i k now =
     tx_bind (tx_read (\<lambda>db. candidate_of db i)) (\<lambda>existing.
     tx_bind (tx_lift (case existing of
         None \<Rightarrow> canonical_paid_slot S worker (Some (ck_slot k))
       | Some c \<Rightarrow> canonical_candidate_slot S worker (ck_slot k) False)) (\<lambda>s.
     tx_then (case existing of
         None \<Rightarrow> insert_candidate (candidate_row_of i s worker k CTerminal (Some ''correct'') now (Some now))
       | Some c \<Rightarrow>
           if \<not> same_candidate c s worker k \<or> c_state c \<noteq> CTerminal \<or> c_outcome c \<noteq> Some ''correct'' then tx_raise (CandErr ReuseConflict)
           else tx_return ())
     (fetch_candidate i)))"

definition record_exact_fact_reuse ::
    "coord_store \<Rightarrow> string \<Rightarrow> string \<Rightarrow> string \<Rightarrow> string \<Rightarrow> string option \<Rightarrow> rat \<Rightarrow> candidate_row op" where
  "record_exact_fact_reuse S worker slot_id fid identity source now db =
     (case validate_identifier slot_id of
        Some e \<Rightarrow> (Inl e, db)
      | None \<Rightarrow>
          (let context = reuse_context (st_hash S) slot_id fid identity source
           in case candidate_receipt_id (st_hash S) slot_id fid identity source context of
                Inl e \<Rightarrow> (Inl e, db)
              | Inr i \<Rightarrow> transact (reuse_tx S worker i
                  \<lparr>ck_slot = slot_id, ck_fact = fid, ck_identity = identity, ck_source = source, ck_context = context\<rparr> now) db))"

definition release_unknown_tx :: "coord_store \<Rightarrow> string \<Rightarrow> string \<Rightarrow> bool \<Rightarrow> rat \<Rightarrow> candidate_row tx" where
  "release_unknown_tx S i resolution fact_active now =
     tx_bind (tx_read (\<lambda>db. candidate_of db i)) (\<lambda>row.
       case row of
         None \<Rightarrow> tx_raise (CandErr NoSuchCandidate)
       | Some c \<Rightarrow>
         tx_then
           (if overlay (c_state c) then
              tx_bind (tx_read (\<lambda>db. case c_slot c of None \<Rightarrow> None | Some j \<Rightarrow> slot_of db j)) (\<lambda>s.
                if \<not> (case s of None \<Rightarrow> False | Some q \<Rightarrow> s_state q = Terminal) then tx_raise (CandErr SourceSlotOpen)
                else set_candidate i overlay
                  (\<lambda>q. q\<lparr>c_state := CTerminal, c_outcome := Some ''outcome_unknown'', c_updated := now, c_terminal := Some now,
                     c_owner_resolution := Some resolution, c_owner_ack := Some 1, c_fact_active := Some (if fact_active then 1 else 0),
                     c_owner_at := Some now\<rparr>))
            else if c_state c = CTerminal \<and> c_owner_resolution c \<noteq> None then
              (if c_owner_resolution c \<noteq> Some resolution \<or> c_owner_ack c \<in> {None, Some 0} \<or>
                  (c_fact_active c \<notin> {None, Some 0}) \<noteq> fact_active then tx_raise (CandErr OwnerResolutionConflict)
               else tx_return ())
            else tx_raise (CandErr KnownTerminal))
           (tx_bind (advance_generation_if_ready S now) (\<lambda>_. fetch_candidate i)))"

definition resolve_candidate_outcome_unknown ::
    "coord_store \<Rightarrow> string \<Rightarrow> string \<Rightarrow> bool \<Rightarrow> bool \<Rightarrow> rat \<Rightarrow> candidate_row op" where
  "resolve_candidate_outcome_unknown S i resolution acknowledged fact_active now db =
     (case first_error [
        fail_if (\<not> is_hex64 i) (CandErr BadReceipt),
        fail_if (resolution \<notin> {''known_no_promotion'', ''abandon_unknown''}) (CandErr UnsupportedOwnerResolution),
        fail_if (\<not> acknowledged) (CandErr NotAcknowledged),
        fail_if (resolution = ''known_no_promotion'' \<and> fact_active) (CandErr ActiveFactNoPromotion)] of
        Some e \<Rightarrow> (Inl e, db)
      | None \<Rightarrow> transact (release_unknown_tx S i resolution fact_active now) db)"

text \<open>The observation stub: \<open>INSERT ... ON CONFLICT DO UPDATE\<close>.\<close>

definition observe_tx :: "string \<Rightarrow> string \<Rightarrow> string \<Rightarrow> cand_state \<Rightarrow> int option \<Rightarrow> rat \<Rightarrow> candidate_row tx" where
  "observe_tx worker lane i st generation now =
     tx_bind (tx_lift state_row) (\<lambda>p.
       if generation \<notin> {None, Some (p_generation p)} then tx_raise (CandErr CandidateGeneration)
       else tx_bind (tx_read (\<lambda>db. candidate_of db i)) (\<lambda>existing.
         tx_then (case existing of
             None \<Rightarrow> insert_candidate
               \<lparr>c_id = i, c_generation = p_generation p, c_slot = None, c_fact = None, c_identity = None, c_source = None, c_context = None,
                c_worker = worker, c_lane = lane, c_state = st, c_outcome = None, c_created = now, c_updated = now, c_terminal = None,
                c_owner_resolution = None, c_owner_ack = None, c_fact_active = None, c_owner_at = None\<rparr>
           | Some c \<Rightarrow>
               if c_generation c = p_generation p \<and> c_worker c = worker \<and> c_lane c = lane
               then set_candidate i (\<lambda>_. True) (\<lambda>q. q\<lparr>c_state := st, c_updated := now\<rparr>)
               else tx_raise (CandErr CandidateIdConflict))
           (fetch_candidate i)))"

definition record_candidate :: "coord_store \<Rightarrow> string \<Rightarrow> string \<Rightarrow> cand_state \<Rightarrow> int option \<Rightarrow> rat \<Rightarrow> candidate_row op" where
  "record_candidate S worker i st generation now db =
     (case check_ids [worker, i] of
        Some e \<Rightarrow> (Inl e, db)
      | None \<Rightarrow>
          if st \<notin> {CObserved, CPromising, CRejected, CSelected} then (Inl (CandErr BadCandidateState), db)
          else transact (observe_tx worker (lane_of S worker) i st generation now) db)"

definition candidate_entry :: "string \<Rightarrow> coord_db \<Rightarrow> coord_exc + candidate_row option" where
  "candidate_entry i db = (if \<not> is_hex64 i then Inl (CandErr BadReceipt) else Inr (candidate_of db i))"

definition slot_candidates :: "string \<Rightarrow> coord_db \<Rightarrow> coord_exc + candidate_row list" where
  "slot_candidates slot_id db =
     (case validate_identifier slot_id of
        Some e \<Rightarrow> Inl e
      | None \<Rightarrow> Inr (sort_key (\<lambda>c. (c_created c, c_id c)) (filter (\<lambda>c. c_slot c = Some slot_id) (db_candidates db))))"

definition list_candidates :: "int option \<Rightarrow> coord_db \<Rightarrow> coord_exc + candidate_row list" where
  "list_candidates generation db =
     (case state_row db of
        Inl e \<Rightarrow> Inl e
      | Inr p \<Rightarrow>
          (let g = (case generation of None \<Rightarrow> p_generation p | Some x \<Rightarrow> x)
           in Inr (sort_key c_id (filter (\<lambda>c. c_generation c = g) (db_candidates db)))))"

section \<open>Opening the store\<close>

definition coordination_store :: "(string \<Rightarrow> string) \<Rightarrow> jobj \<Rightarrow> coord_exc + coord_store" where
  "coordination_store H metadata =
     (case coordination_config metadata of
        Inl e \<Rightarrow> Inl (StoreErr (ConfigError e))
      | Inr c \<Rightarrow>
          if \<not> reasoning_first c then Inl (StoreErr LegacyStore)
          else (case select_lane_roster metadata c of
              Inl e \<Rightarrow> Inl (StoreErr (ConfigError e))
            | Inr r \<Rightarrow> Inr \<lparr>st_config = c, st_roster = r, st_digest = roster_digest H metadata c r, st_hash = H\<rparr>))"

definition empty_db :: coord_db where
  "empty_db = \<lparr>db_project = None, db_slots = [], db_tasks = [], db_workers = [], db_evidence = [], db_cursors = [],
     db_recommendations = [], db_reviews = [], db_resolutions = [], db_candidates = []\<rparr>"

definition first_project :: "coord_store \<Rightarrow> rat \<Rightarrow> project_row" where
  "first_project S now =
     \<lparr>p_version = database_schema_version S, p_mode = mode (st_config S), p_digest = st_digest S, p_root = root_worker S,
      p_critic = critic (st_roster S), p_generation = 1, p_phase = REASONING_PHASE, p_started = now,
      p_deadline = now + of_int (phase_timeout_seconds (st_config S)), p_recommendation = None, p_review = None, p_updated = now\<rparr>"

definition check_overlay_identity :: "coord_db \<Rightarrow> coord_exc option" where
  "check_overlay_identity db =
     fail_if (list_ex (\<lambda>c. overlay (c_state c) \<and> (case c_identity c of None \<Rightarrow> True | Some d \<Rightarrow> \<not> is_hex64 d)) (db_candidates db))
       (StoreErr OverlayWithoutIdentity)"

definition check_config :: "coord_store \<Rightarrow> project_row \<Rightarrow> coord_exc option" where
  "check_config S p =
     fail_if (p_mode p \<noteq> mode (st_config S) \<or> p_digest p \<noteq> st_digest S \<or> p_root p \<noteq> root_worker S \<or> p_critic p \<noteq> critic (st_roster S))
       (StoreErr ConfigChanged)"

definition check_supported :: "project_row \<Rightarrow> coord_exc option" where
  "check_supported p = fail_if (p_version p \<notin> {7, 8}) (StoreErr (UnsupportedSchema (p_version p)))"

definition check_expandable :: "coord_store \<Rightarrow> project_row \<Rightarrow> coord_exc option" where
  "check_expandable S p = fail_if (p_version p = 7 \<and> max_paid_workers (st_config S) > 2) (StoreErr CannotExpand)"

text \<open>A new database gets its project row; an existing one of schema 7 or 8 must belong to the same
  configuration. Then every task and every slot is audited. The migrations of schemas 4, 5 and 6 are
  outside the model: such a database is an unsupported schema here.\<close>

definition initialize_tx :: "coord_store \<Rightarrow> rat \<Rightarrow> unit tx" where
  "initialize_tx S now =
     tx_bind (tx_read db_project) (\<lambda>row.
       tx_then (case row of
           None \<Rightarrow> tx_write (\<lambda>db. db\<lparr>db_project := Some (first_project S now)\<rparr>)
         | Some p \<Rightarrow> tx_check (\<lambda>db. first_error [check_config S p, check_supported p, check_expandable S p, check_overlay_identity db]))
         (tx_check (audit_task_bindings S)))"

definition initialize :: "coord_store \<Rightarrow> rat \<Rightarrow> unit op" where
  "initialize S now = transact (initialize_tx S now)"

end
