(* ===== verification/CoordInv.thy ===== *)
theory CoordInv
  imports CoordCand
begin

text \<open>
  The invariant of the coordination database: what the rows of every reachable database say about each
  other. It has one part for the project row and its phase, one for the paid slots, one for reviews,
  one for recommendations, one for tasks and one for candidates; each is stated over the tables it
  reads, so that a write elsewhere leaves it alone.
\<close>

section \<open>The roster of a store\<close>

definition store_ok :: "coord_store \<Rightarrow> bool" where
  "store_ok S \<longleftrightarrow>
     distinct (keys (roster_lanes S)) \<and> distinct (map snd (roster_lanes S)) \<and>
     set (map snd (roster_lanes S)) \<subseteq> set (lane_sql S) \<and>
     map_of (roster_lanes S) (root_worker S) = Some ''root'' \<and>
     (\<forall>w. map_of (roster_lanes S) w = Some ''critic'' \<longleftrightarrow> critic (st_roster S) = Some w) \<and>
     int (length (roster_lanes S)) \<le> max_paid_workers (st_config S) \<and> max_paid_workers (st_config S) \<le> 4 \<and>
     (\<forall>x. is_hex64 (st_hash S x))"

section \<open>The parts\<close>

definition slot_phase :: "project_row \<Rightarrow> string" where
  "slot_phase p = (if p_phase p = OWNER_ACTION_REQUIRED_PHASE then CRITIC_REVIEW_PHASE else p_phase p)"

definition phase_inv :: "coord_store \<Rightarrow> project_row \<Rightarrow> slot_row list \<Rightarrow> bool" where
  "phase_inv S p ss \<longleftrightarrow>
     1 \<le> p_generation p \<and> p_phase p \<in> {REASONING_PHASE, CRITIC_REVIEW_PHASE, OWNER_ACTION_REQUIRED_PHASE} \<and>
     (p_phase p \<noteq> REASONING_PHASE \<longrightarrow>
       (\<forall>w \<in> set (keys (roster_lanes S)). \<exists>s \<in> set ss. s_worker s = w \<and> s_generation s = p_generation p \<and> s_phase s = REASONING_PHASE))"

definition slot_inv :: "coord_store \<Rightarrow> project_row \<Rightarrow> slot_row \<Rightarrow> bool" where
  "slot_inv S p s \<longleftrightarrow>
     map_of (roster_lanes S) (s_worker s) = Some (s_lane s) \<and> 1 \<le> s_generation s \<and> s_generation s \<le> p_generation p \<and>
     s_phase s \<in> {REASONING_PHASE, CRITIC_REVIEW_PHASE} \<and>
     (s_phase s = CRITIC_REVIEW_PHASE \<longrightarrow> s_lane s = ''critic'' \<and> s_review s \<noteq> None) \<and>
     (s_phase s = REASONING_PHASE \<longrightarrow> s_review s = None) \<and>
     (s_phase s = CRITIC_REVIEW_PHASE \<longrightarrow> s_generation s = p_generation p \<longrightarrow> p_phase p \<noteq> REASONING_PHASE) \<and>
     (is_open s \<longrightarrow> s_generation s = p_generation p \<and> s_phase s = slot_phase p)"

definition slots_inv :: "coord_store \<Rightarrow> project_row \<Rightarrow> slot_row list \<Rightarrow> bool" where
  "slots_inv S p ss \<longleftrightarrow>
     distinct (map s_id ss) \<and> distinct (map (\<lambda>s. (s_worker s, s_generation s, s_phase s)) ss) \<and> (\<forall>s \<in> set ss. slot_inv S p s)"

definition review_stage :: "project_row \<Rightarrow> review_row \<Rightarrow> bool" where
  "review_stage p v \<longleftrightarrow>
     (case v_state v of
        VPending \<Rightarrow> v_critic_slot v = None \<and> v_confirmation v = None \<and> p_phase p \<noteq> OWNER_ACTION_REQUIRED_PHASE
      | VActive \<Rightarrow> v_critic_slot v \<noteq> None \<and> v_confirmation v = None \<and> p_phase p = CRITIC_REVIEW_PHASE
      | VConfirmed \<Rightarrow> v_critic_slot v \<noteq> None \<and> v_confirmation v \<noteq> None \<and> p_phase p = OWNER_ACTION_REQUIRED_PHASE
      | _ \<Rightarrow> True)"

definition review_inv :: "coord_store \<Rightarrow> project_row \<Rightarrow> slot_row list \<Rightarrow> evidence_row list \<Rightarrow> review_row \<Rightarrow> bool" where
  "review_inv S p ss es v \<longleftrightarrow>
     (live_review (v_state v) \<longrightarrow> p_review p = Some (v_id v) \<and> v_generation v = p_generation p \<and> critic (st_roster S) = Some (v_critic_worker v)) \<and>
     review_stage p v \<and>
     (\<forall>i. v_critic_slot v = Some i \<longrightarrow> (\<exists>s \<in> set ss. s_id s = i \<and> s_phase s = CRITIC_REVIEW_PHASE \<and> s_generation s = v_generation v \<and>
        s_review s = Some (v_id v) \<and> s_designated s = Some (v_root_entry v))) \<and>
     (\<exists>e \<in> set es. e_id e = v_root_entry v \<and> e_generation e = v_generation v \<and> e_lane e = ''root'' \<and> obstacle_kind (e_kind e))"

definition reviews_inv :: "coord_store \<Rightarrow> project_row \<Rightarrow> coord_db \<Rightarrow> bool" where
  "reviews_inv S p db \<longleftrightarrow>
     reviews_valid db (db_reviews db) \<and> (\<forall>v \<in> set (db_reviews db). review_inv S p (db_slots db) (db_evidence db) v) \<and>
     (\<forall>i. p_review p = Some i \<longrightarrow> (\<exists>v \<in> set (db_reviews db). v_id v = i \<and> live_review (v_state v))) \<and>
     (p_phase p \<noteq> REASONING_PHASE \<longrightarrow> p_review p \<noteq> None) \<and>
     (\<forall>s \<in> set (db_slots db). \<forall>i. s_review s = Some i \<longrightarrow> (\<exists>v \<in> set (db_reviews db). v_id v = i \<and> v_critic_slot v = Some (s_id s)))"

definition advice_inv :: "project_row \<Rightarrow> review_row list \<Rightarrow> recommendation_row list \<Rightarrow> resolution_row list \<Rightarrow> bool" where
  "advice_inv p vs rs xs \<longleftrightarrow>
     distinct (map r_id rs) \<and> set (map x_recommendation xs) \<subseteq> set (map r_id rs) \<and>
     (\<forall>r \<in> set rs. r_state r = OWNER_ACTION_REQUIRED_PHASE \<and> r_authorized r = 0 \<and> r_request r = None) \<and>
     (p_recommendation p \<noteq> None \<longleftrightarrow> p_phase p = OWNER_ACTION_REQUIRED_PHASE) \<and>
     (\<forall>i. p_recommendation p = Some i \<longrightarrow> i \<notin> set (map x_recommendation xs) \<and>
        (\<exists>r \<in> set rs. r_id r = i \<and> r_generation r = p_generation p \<and> r_review r = p_review p \<and>
          (\<exists>v \<in> set vs. r_review r = Some (v_id v) \<and> r_root_entry r = v_root_entry v \<and> v_confirmation v = Some (r_critic_entry r))))"

definition task_inv :: "coord_store \<Rightarrow> project_row \<Rightarrow> task_row \<Rightarrow> bool" where
  "task_inv S p t \<longleftrightarrow>
     \<not> isl (validate_generation_task_row S t) \<and> t_generation t \<le> p_generation p + 1 \<and>
     (t_generation t = p_generation p + 1 \<longrightarrow> p_phase p = OWNER_ACTION_REQUIRED_PHASE)"

definition tasks_inv :: "coord_store \<Rightarrow> project_row \<Rightarrow> task_row list \<Rightarrow> bool" where
  "tasks_inv S p ts \<longleftrightarrow>
     distinct (map (\<lambda>t. (t_worker t, t_generation t)) ts) \<and> (\<forall>t \<in> set ts. task_inv S p t)"

definition cands_inv :: "project_row \<Rightarrow> candidate_row list \<Rightarrow> bool" where
  "cands_inv p cs \<longleftrightarrow>
     distinct (map c_id cs) \<and> length (filter (\<lambda>c. overlay (c_state c)) cs) \<le> 1 \<and>
     (\<forall>c \<in> set cs. overlay (c_state c) \<longrightarrow> c_generation c = p_generation p \<and> (\<exists>d. c_identity c = Some d \<and> is_hex64 d))"

definition header_inv :: "coord_store \<Rightarrow> project_row \<Rightarrow> bool" where
  "header_inv S p \<longleftrightarrow>
     p_version p = database_schema_version S \<and> p_mode p = mode (st_config S) \<and> p_digest p = st_digest S \<and>
     p_root p = root_worker S \<and> p_critic p = critic (st_roster S)"

definition coord_inv :: "coord_store \<Rightarrow> coord_db \<Rightarrow> bool" where
  "coord_inv S db \<longleftrightarrow> store_ok S \<and>
     (\<exists>p. db_project db = Some p \<and> header_inv S p \<and> phase_inv S p (db_slots db) \<and> slots_inv S p (db_slots db) \<and>
        reviews_inv S p db \<and> advice_inv p (db_reviews db) (db_recommendations db) (db_resolutions db) \<and>
        tasks_inv S p (db_tasks db) \<and> cands_inv p (db_candidates db))"

text \<open>Every slot is bound to its task and prompt; only an ambiguous slot without a prompt breaks this.\<close>

definition bound_inv :: "coord_store \<Rightarrow> coord_db \<Rightarrow> bool" where
  "bound_inv S db \<longleftrightarrow> (\<forall>s \<in> set (db_slots db). validate_slot_task_binding S db s = None)"

end
