(* ===== verification/CoordKeep.thy ===== *)
theory CoordKeep
  imports CoordInv
begin

text \<open>
  Every operation of the coordination store keeps the invariant of its database. Single writes come
  first, then the advance of a generation, then the operations.
\<close>

section \<open>When a write returns\<close>

lemma cas_ok [tx_ok]:
  "cas_project P f e db = Inr (u, d) \<longleftrightarrow> (\<exists>p. db_project db = Some p \<and> P p \<and> d = db\<lparr>db_project := Some (f p)\<rparr>)"
  "cas_slots Q g e db = Inr (u, d) \<longleftrightarrow> one_row Q (db_slots db) \<and> d = db\<lparr>db_slots := update_rows Q g (db_slots db)\<rparr>"
  "cas_tasks T h e db = Inr (u, d) \<longleftrightarrow> one_row T (db_tasks db) \<and> d = db\<lparr>db_tasks := update_rows T h (db_tasks db)\<rparr>"
  "write_reviews vs db = Inr (u, d) \<longleftrightarrow> reviews_valid db vs \<and> d = db\<lparr>db_reviews := vs\<rparr>"
  "cas_reviews R k e db = Inr (u, d) \<longleftrightarrow> one_row R (db_reviews db) \<and> reviews_valid db (update_rows R k (db_reviews db)) \<and>
     d = db\<lparr>db_reviews := update_rows R k (db_reviews db)\<rparr>"
  by (auto simp: cas_project_def cas_slots_def cas_tasks_def write_reviews_def cas_reviews_def split: option.splits)

lemma insert_ok [tx_ok]:
  "insert_slot S s db = Inr (u, d) \<longleftrightarrow> slot_insertable S s (db_slots db) \<and> d = db\<lparr>db_slots := db_slots db @ [s]\<rparr>"
  "insert_evidence_row e db = Inr (u, d) \<longleftrightarrow>
     (e_lane e \<in> {''root'', ''critic''} \<and> e_kind e \<in> {''obstacle'', ''dead_end'', ''critic_confirmation''} \<and> e_id e \<notin> set (map e_id (db_evidence db))) \<and>
     d = db\<lparr>db_evidence := db_evidence db @ [e]\<rparr>"
  "insert_candidate c db = Inr (u, d) \<longleftrightarrow>
     (c_id c \<notin> set (map c_id (db_candidates db)) \<and> \<not> (overlay (c_state c) \<and> list_ex (\<lambda>q. overlay (c_state q)) (db_candidates db))) \<and>
     d = db\<lparr>db_candidates := db_candidates db @ [c]\<rparr>"
  by (auto simp: insert_slot_def insert_evidence_row_def insert_candidate_def)

lemma insert_ok2 [tx_ok]:
  "insert_review v db = Inr (u, d) \<longleftrightarrow> reviews_valid db (db_reviews db @ [v]) \<and> d = db\<lparr>db_reviews := db_reviews db @ [v]\<rparr>"
  "insert_task S t db = Inr (u, d) \<longleftrightarrow>
     (t_lane t \<in> set (lane_sql S) \<and> 1 \<le> t_generation t \<and> 0 < t_bytes t \<and> t_bytes t \<le> 131072 \<and>
         (t_worker t, t_generation t) \<notin> set (map (\<lambda>q. (t_worker q, t_generation q)) (db_tasks db))) \<and>
     d = db\<lparr>db_tasks := db_tasks db @ [t]\<rparr>"
  "insert_recommendation r db = Inr (u, d) \<longleftrightarrow>
     (r_state r = ''owner_action_required'' \<and> r_authorized r = 0 \<and> r_request r = None \<and>
         r_id r \<notin> set (map r_id (db_recommendations db)) \<and>
         (r_root_entry r, r_critic_entry r) \<notin> set (map (\<lambda>q. (r_root_entry q, r_critic_entry q)) (db_recommendations db))) \<and>
     d = db\<lparr>db_recommendations := db_recommendations db @ [r]\<rparr>"
  "insert_resolution x db = Inr (u, d) \<longleftrightarrow>
     (x_id x \<notin> set (map x_id (db_resolutions db)) \<and> x_recommendation x \<notin> set (map x_recommendation (db_resolutions db)) \<and>
         x_recommendation x \<in> set (map r_id (db_recommendations db)) \<and> 1 \<le> x_generation x \<and>
         x_resolution x \<in> {''adopted_master_guidance'', ''continue_without_advisor''}) \<and>
     d = db\<lparr>db_resolutions := db_resolutions db @ [x]\<rparr>"
  by (auto simp: insert_review_def insert_task_def insert_recommendation_def insert_resolution_def cas_ok)

section \<open>Writes that touch one table\<close>

lemma reviews_valid_ids:
  "map e_id (db_evidence d) = map e_id (db_evidence db) \<Longrightarrow> map s_id (db_slots d) = map s_id (db_slots db) \<Longrightarrow>
   reviews_valid d vs = reviews_valid db vs"
  unfolding reviews_valid_def by (simp only:)

lemma reviews_valid_simps [simp]:
  "reviews_valid (db\<lparr>db_workers := w\<rparr>) vs = reviews_valid db vs" "reviews_valid (db\<lparr>db_cursors := c\<rparr>) vs = reviews_valid db vs"
  "reviews_valid (db\<lparr>db_project := p\<rparr>) vs = reviews_valid db vs" "reviews_valid (db\<lparr>db_tasks := t\<rparr>) vs = reviews_valid db vs"
  "reviews_valid (db\<lparr>db_candidates := k\<rparr>) vs = reviews_valid db vs" "reviews_valid (db\<lparr>db_reviews := v\<rparr>) vs = reviews_valid db vs"
  "reviews_valid (db\<lparr>db_recommendations := r\<rparr>) vs = reviews_valid db vs" "reviews_valid (db\<lparr>db_resolutions := x\<rparr>) vs = reviews_valid db vs"
  by (rule reviews_valid_ids; simp)+

lemma inv_workers [simp]: "coord_inv S (db\<lparr>db_workers := w\<rparr>) = coord_inv S db"
  and inv_cursors [simp]: "coord_inv S (db\<lparr>db_cursors := c\<rparr>) = coord_inv S db"
  by (simp_all add: coord_inv_def reviews_inv_def)

lemma keeps_worker [keep]: "keeps (coord_inv S) (write_worker_state w l st g ph now)"
  by (auto simp: keeps_def write_worker_state_def tx_ok)

lemma coord_invE:
  assumes "coord_inv S db"
  obtains p where "db_project db = Some p" "store_ok S" "header_inv S p" "phase_inv S p (db_slots db)" "slots_inv S p (db_slots db)"
    "reviews_inv S p db" "advice_inv p (db_reviews db) (db_recommendations db) (db_resolutions db)"
    "tasks_inv S p (db_tasks db)" "cands_inv p (db_candidates db)"
  using assms unfolding coord_inv_def by blast

lemma slots_map:
  assumes same: "\<And>s. s_id (g s) = s_id s" "\<And>s. s_worker (g s) = s_worker s" "\<And>s. s_lane (g s) = s_lane s"
      "\<And>s. s_generation (g s) = s_generation s" "\<And>s. s_phase (g s) = s_phase s" "\<And>s. s_review (g s) = s_review s"
      "\<And>s. s_designated (g s) = s_designated s" and "op": "\<And>s. is_open (g s) \<Longrightarrow> is_open s"
    and inv: "coord_inv S db"
  shows "coord_inv S (db\<lparr>db_slots := map g (db_slots db)\<rparr>)"
proof -
  from inv obtain p where p: "db_project db = Some p" "store_ok S" "header_inv S p" "phase_inv S p (db_slots db)" "slots_inv S p (db_slots db)"
    "reviews_inv S p db" "advice_inv p (db_reviews db) (db_recommendations db) (db_resolutions db)"
    "tasks_inv S p (db_tasks db)" "cands_inv p (db_candidates db)" by (rule coord_invE)
  let ?d = "db\<lparr>db_slots := map g (db_slots db)\<rparr>"
  have ids: "map (s_id \<circ> g) ss = map s_id ss" "map ((\<lambda>s. (s_worker s, s_generation s, s_phase s)) \<circ> g) ss = map (\<lambda>s. (s_worker s, s_generation s, s_phase s)) ss" for ss
    by (simp_all add: same)
  have si: "slot_inv S p s \<Longrightarrow> slot_inv S p (g s)" for s using "op"[of s] by (simp add: slot_inv_def same)
  have 1: "phase_inv S p (db_slots ?d)" using p(4) by (simp add: phase_inv_def same)
  have 2: "slots_inv S p (db_slots ?d)" using p(5) si by (simp add: slots_inv_def ids)
  have "reviews_valid ?d (db_reviews db) = reviews_valid db (db_reviews db)"
    by (rule reviews_valid_ids) (simp_all add: ids)
  then have 3: "reviews_inv S p ?d" using p(6) by (simp add: reviews_inv_def review_inv_def same)
  show ?thesis using p 1 2 3 by (simp add: coord_inv_def)
qed

text \<open>The same transactions, run forward.\<close>

named_theorems tx_run \<open>one step of a transaction\<close>

lemma tx_steps [tx_run]:
  "tx_bind (tx_read g) f db = f (g db) db"
  "tx_bind (tx_lift l) f db = (case l db of Inl e \<Rightarrow> Inl e | Inr x \<Rightarrow> f x db)"
  "tx_bind (tx_return x) f db = f x db"
  "tx_then (tx_check c) n db = (case c db of None \<Rightarrow> n db | Some e \<Rightarrow> Inl e)"
  "tx_then (tx_write w) n db = n (w db)"
  "tx_then (tx_return ()) n db = n db"
  "tx_then (tx_raise e) n db = Inl e"
  "tx_return x db = Inr (x, db)"
  "tx_raise e db = Inl e"
  "tx_write w db = Inr ((), w db)"
  "tx_check c db = (case c db of None \<Rightarrow> Inr ((), db) | Some e \<Rightarrow> Inl e)"
  "tx_read g db = Inr (g db, db)"
  by (auto simp: tx_bind_def tx_then_def tx_read_def tx_lift_def tx_check_def tx_write_def tx_return_def tx_raise_def split: sum.splits option.splits)

lemma tx_if_step [tx_run]:
  "(if b then k else k') db = (if b then k db else k' db)"
  "tx_then (if b then m else m') n db = (if b then tx_then m n db else tx_then m' n db)"
  "tx_then (tx_when b m) n db = (if b then tx_then m n db else n db)"
  by (simp_all add: tx_when_def tx_steps)

section \<open>The advance of a generation\<close>

lemma phases_distinct [simp]:
  "REASONING_PHASE \<noteq> CRITIC_REVIEW_PHASE" "CRITIC_REVIEW_PHASE \<noteq> REASONING_PHASE"
  "REASONING_PHASE \<noteq> OWNER_ACTION_REQUIRED_PHASE" "OWNER_ACTION_REQUIRED_PHASE \<noteq> REASONING_PHASE"
  "CRITIC_REVIEW_PHASE \<noteq> OWNER_ACTION_REQUIRED_PHASE" "OWNER_ACTION_REQUIRED_PHASE \<noteq> CRITIC_REVIEW_PHASE"
  by (simp_all add: phase_consts)

lemma is_open_terminal: "is_open s \<longleftrightarrow> s_state s \<noteq> Terminal"
  by (cases "s_state s") (auto simp: is_open_def)

lemma lane_worker:
  assumes "store_ok S" "map_of (roster_lanes S) w = Some l" "map_of (roster_lanes S) w' = Some l"
  shows "w = w'"
proof -
  have "(w, l) \<in> set (roster_lanes S)" "(w', l) \<in> set (roster_lanes S)" using assms(2,3) by (auto dest: map_of_SomeD)
  moreover have "distinct (map snd (roster_lanes S))" using assms(1) by (simp add: store_ok_def)
  ultimately show ?thesis by (metis distinct_map_eq prod.inject snd_conv)
qed

definition required_now :: "coord_store \<Rightarrow> project_row \<Rightarrow> string list" where
  "required_now S p = (if p_phase p = CRITIC_REVIEW_PHASE then [''critic''] else required_lanes (st_roster S))"

lemma all_complete_closed:
  assumes "store_ok S" "slots_inv S p (db_slots db)" "p_phase p \<noteq> OWNER_ACTION_REQUIRED_PHASE"
    and c: "set (required_now S p) \<subseteq> set (completed_lanes (p_generation p) (p_phase p) db)" and s: "s \<in> set (db_slots db)"
  shows "s_state s = Terminal"
proof (rule ccontr)
  assume o: "s_state s \<noteq> Terminal"
  have si: "slot_inv S p s" using assms(2) s by (simp add: slots_inv_def)
  then have 1: "map_of (roster_lanes S) (s_worker s) = Some (s_lane s)" "s_generation s = p_generation p" "s_phase s = p_phase p"
    using o assms(3) by (auto simp: slot_inv_def is_open_terminal slot_phase_def)
  have "s_lane s \<in> set (required_now S p)"
    using 1 si by (auto simp: required_now_def required_lanes_def slot_inv_def dest: map_of_SomeD intro: rev_image_eqI)
  then obtain t where t: "t \<in> set (db_slots db)" "s_lane t = s_lane s" "s_generation t = p_generation p" "s_phase t = p_phase p" "s_state t = Terminal"
    using c by (force simp: completed_lanes_def)
  have "map_of (roster_lanes S) (s_worker t) = Some (s_lane s)" using assms(2) t(1,2) by (auto simp: slots_inv_def slot_inv_def)
  then have "s_worker t = s_worker s" using lane_worker[OF assms(1)] 1(1) by blast
  then have "t = s" using assms(2) s t 1 by (auto simp: slots_inv_def intro: distinct_map_eq)
  then show False using t o by simp
qed

lemma required_reasoning:
  assumes "store_ok S" "slots_inv S p (db_slots db)" "set (required_lanes (st_roster S)) \<subseteq> set (completed_lanes g ph db)" "w \<in> set (keys (roster_lanes S))"
  shows "\<exists>s \<in> set (db_slots db). s_worker s = w \<and> s_generation s = g \<and> s_phase s = ph"
proof -
  obtain l where l: "map_of (roster_lanes S) w = Some l" using assms(4) by (metis map_of_eq_None_iff not_None_eq list.set_map)
  then have "l \<in> set (required_lanes (st_roster S))" by (auto simp: required_lanes_def dest: map_of_SomeD intro: rev_image_eqI)
  then obtain t where t: "t \<in> set (db_slots db)" "s_lane t = l" "s_generation t = g" "s_phase t = ph"
    using assms(3) by (force simp: completed_lanes_def)
  then have "map_of (roster_lanes S) (s_worker t) = Some l" using assms(2) by (auto simp: slots_inv_def slot_inv_def)
  then show ?thesis using lane_worker[OF assms(1) _ l] t by blast
qed

lemma live_pointer:
  assumes "reviews_inv S p db" "p_review p = Some i" "v \<in> set (db_reviews db)" "v_id v = i"
  shows "live_review (v_state v)"
proof -
  obtain u where "u \<in> set (db_reviews db)" "v_id u = i" "live_review (v_state u)"
    using assms(1,2) by (auto simp: reviews_inv_def)
  moreover have "distinct (map v_id (db_reviews db))" using assms(1) by (simp add: reviews_inv_def reviews_valid_def)
  ultimately show ?thesis using assms(3,4) by (metis distinct_map_eq)
qed

lemma enter_critic_inv:
  assumes inv: "coord_inv S db" and p: "db_project db = Some p" "p_phase p = REASONING_PHASE" "p_review p \<noteq> None"
    and closed: "\<forall>s \<in> set (db_slots db). s_state s = Terminal"
    and c: "set (required_lanes (st_roster S)) \<subseteq> set (completed_lanes (p_generation p) REASONING_PHASE db)"
  shows "coord_inv S (db\<lparr>db_project := Some (p\<lparr>p_phase := CRITIC_REVIEW_PHASE, p_started := a, p_deadline := b, p_updated := u\<rparr>)\<rparr>)"
    (is "coord_inv S (db\<lparr>db_project := Some ?q\<rparr>)")
proof -
  from inv p(1) have i: "store_ok S" "header_inv S p" "phase_inv S p (db_slots db)" "slots_inv S p (db_slots db)" "reviews_inv S p db"
    "advice_inv p (db_reviews db) (db_recommendations db) (db_resolutions db)" "tasks_inv S p (db_tasks db)" "cands_inv p (db_candidates db)"
    by (auto simp: coord_inv_def)
  have 0: "header_inv S ?q" using i(2) by (simp add: header_inv_def)
  have 1: "phase_inv S ?q (db_slots db)" using i(3) required_reasoning[OF i(1) i(4) c] by (auto simp: phase_inv_def)
  have 2: "slots_inv S ?q (db_slots db)" using i(4) closed p(2) by (auto simp: slots_inv_def slot_inv_def is_open_terminal)
  have "review_inv S ?q (db_slots db) (db_evidence db) v" if "review_inv S p (db_slots db) (db_evidence db) v" for v
    using that p(2) by (auto simp: review_inv_def review_stage_def split: review_state.splits)
  then have 3: "reviews_inv S ?q (db\<lparr>db_project := Some ?q\<rparr>)" using i(5) p(3) by (auto simp: reviews_inv_def)
  have 4: "advice_inv ?q (db_reviews db) (db_recommendations db) (db_resolutions db)" using i(6) p(2) by (auto simp: advice_inv_def)
  have 5: "tasks_inv S ?q (db_tasks db)" using i(7) p(2) by (auto simp: tasks_inv_def task_inv_def)
  have 6: "cands_inv ?q (db_candidates db)" using i(8) by (auto simp: cands_inv_def)
  show ?thesis using i(1) 0 1 2 3 4 5 6 by (simp add: coord_inv_def)
qed

lemma validated_task:
  "validate_generation_task_row S t = Inr x \<Longrightarrow>
   map_of (roster_lanes S) (t_worker t) = Some (t_lane t) \<and> 1 \<le> t_generation t \<and> task_identity (st_hash S) (t_task t) = Inr (t_sha t, t_bytes t) \<and>
   x = (t_sha t, t_bytes t) \<and> (\<forall>f. t_frozen t = Some f \<longrightarrow> t_staged t \<le> f)"
  by (auto simp: validate_generation_task_row_def split: if_splits sum.splits option.splits)

lemma validate_taskI:
  "map_of (roster_lanes S) (t_worker t) = Some (t_lane t) \<Longrightarrow> 1 \<le> t_generation t \<Longrightarrow>
   task_identity (st_hash S) (t_task t) = Inr (t_sha t, t_bytes t) \<Longrightarrow> (\<And>f. t_frozen t = Some f \<Longrightarrow> t_staged t \<le> f) \<Longrightarrow>
   validate_generation_task_row S t = Inr (t_sha t, t_bytes t)"
  by (auto simp: validate_generation_task_row_def not_less split: option.splits)

lemma carried_valid:
  assumes "\<not> isl (validate_generation_task_row S r)" "map_of (roster_lanes S) w = Some l" "1 \<le> g + 1"
  shows "validate_generation_task_row S (carried_task w l g stamp r) = Inr (t_sha r, t_bytes r)"
proof -
  obtain x where "validate_generation_task_row S r = Inr x" using assms(1) by (cases "validate_generation_task_row S r") auto
  note v = validated_task[OF this]
  show ?thesis
    using validate_taskI[of S "carried_task w l g stamp r"] v assms(2,3) by (simp add: carried_task_def)
qed

lemma carry_tasks_effect:
  assumes "carry_tasks S g stamp ls db = Inr ((), d)" "set ls \<subseteq> set (roster_lanes S)" "store_ok S" "0 \<le> g"
    and "distinct (map (\<lambda>t. (t_worker t, t_generation t)) (db_tasks db))"
    and "\<forall>t \<in> set (db_tasks db). \<not> isl (validate_generation_task_row S t) \<and> t_generation t \<le> g + 1"
  shows "\<exists>new. d = db\<lparr>db_tasks := db_tasks db @ new\<rparr> \<and> distinct (map (\<lambda>t. (t_worker t, t_generation t)) (db_tasks db @ new)) \<and>
    (\<forall>t \<in> set new. \<not> isl (validate_generation_task_row S t) \<and> t_generation t = g + 1 \<and> t_frozen t = None)"
  using assms
proof (induction ls arbitrary: db)
  case Nil
  then show ?case by (auto simp: tx_ok intro: exI[of _ "[]"])
next
  case (Cons wl rest)
  obtain w l where wl: "wl = (w, l)" by (cases wl)
  from Cons.prems(1) obtain r where r: "task_of db w g = Some r"
    and ins: "(t_worker (carried_task w l g stamp r), t_generation (carried_task w l g stamp r)) \<notin> set (map (\<lambda>q. (t_worker q, t_generation q)) (db_tasks db))"
    and rest: "carry_tasks S g stamp rest (db\<lparr>db_tasks := db_tasks db @ [carried_task w l g stamp r]\<rparr>) = Inr ((), d)"
    by (auto simp: wl tx_ok split: option.splits)
  have rin: "r \<in> set (db_tasks db)" using r by (auto simp: task_of_def dest: find_some)
  have l: "map_of (roster_lanes S) w = Some l"
    using Cons.prems(2,3) by (auto simp: wl store_ok_def)
  have v: "\<not> isl (validate_generation_task_row S (carried_task w l g stamp r))"
    using carried_valid[OF _ l] Cons.prems(4,6) rin by simp
  have cg: "t_generation (carried_task w l g stamp r) = g + 1" "t_frozen (carried_task w l g stamp r) = None" by (simp_all add: carried_task_def)
  have "\<exists>new. d = (db\<lparr>db_tasks := db_tasks db @ [carried_task w l g stamp r]\<rparr>)\<lparr>db_tasks := db_tasks (db\<lparr>db_tasks := db_tasks db @ [carried_task w l g stamp r]\<rparr>) @ new\<rparr> \<and>
      distinct (map (\<lambda>t. (t_worker t, t_generation t)) (db_tasks (db\<lparr>db_tasks := db_tasks db @ [carried_task w l g stamp r]\<rparr>) @ new)) \<and>
      (\<forall>t \<in> set new. \<not> isl (validate_generation_task_row S t) \<and> t_generation t = g + 1 \<and> t_frozen t = None)"
    by (rule Cons.IH[OF rest]) (use Cons.prems v cg ins in auto)
  then obtain new where "d = db\<lparr>db_tasks := db_tasks db @ carried_task w l g stamp r # new\<rparr>"
      "distinct (map (\<lambda>t. (t_worker t, t_generation t)) (db_tasks db @ carried_task w l g stamp r # new))"
      "\<forall>t \<in> set new. \<not> isl (validate_generation_task_row S t) \<and> t_generation t = g + 1 \<and> t_frozen t = None" by auto
  then show ?case using v cg by (intro exI[of _ "carried_task w l g stamp r # new"]) auto
qed

lemma next_generation_inv:
  assumes inv: "coord_inv S db" and p: "db_project db = Some p"
    and closed: "\<forall>s \<in> set (db_slots db). s_state s = Terminal" and cand: "active_candidate db = None"
    and h: "\<And>v. v_id (h v) = v_id v" "\<And>v. v_generation (h v) = v_generation v" "\<And>v. v_root_entry (h v) = v_root_entry v"
      "\<And>v. v_critic_slot (h v) = v_critic_slot v"
    and vs: "reviews_valid db (map h (db_reviews db))" "\<And>v. v \<in> set (db_reviews db) \<Longrightarrow> \<not> live_review (v_state (h v))"
    and ts: "distinct (map (\<lambda>t. (t_worker t, t_generation t)) ts)"
      "\<forall>t \<in> set ts. \<not> isl (validate_generation_task_row S t) \<and> t_generation t \<le> p_generation p + 1"
    and xs: "set (map x_recommendation xs) \<subseteq> set (map r_id (db_recommendations db))"
  shows "coord_inv S (db\<lparr>db_reviews := map h (db_reviews db), db_tasks := ts, db_resolutions := xs,
     db_project := Some (p\<lparr>p_generation := p_generation p + 1, p_phase := REASONING_PHASE, p_started := a, p_recommendation := None,
       p_review := None, p_deadline := b, p_updated := u\<rparr>)\<rparr>)"
    (is "coord_inv S (db\<lparr>db_reviews := _, db_tasks := _, db_resolutions := _, db_project := Some ?q\<rparr>)")
proof -
  from inv p have i: "store_ok S" "header_inv S p" "phase_inv S p (db_slots db)" "slots_inv S p (db_slots db)" "reviews_inv S p db"
    "advice_inv p (db_reviews db) (db_recommendations db) (db_resolutions db)" "tasks_inv S p (db_tasks db)" "cands_inv p (db_candidates db)"
    by (auto simp: coord_inv_def)
  have 0: "header_inv S ?q" using i(2) by (simp add: header_inv_def)
  have 1: "phase_inv S ?q (db_slots db)" using i(3) by (auto simp: phase_inv_def)
  have 2: "slots_inv S ?q (db_slots db)" using i(4) closed by (auto simp: slots_inv_def slot_inv_def is_open_terminal)
  have "review_inv S ?q (db_slots db) (db_evidence db) (h v)" if "v \<in> set (db_reviews db)" for v
    using vs(2)[OF that] i(5) that by (auto simp: reviews_inv_def review_inv_def review_stage_def h split: review_state.splits)
  then have 3: "reviews_inv S ?q (db\<lparr>db_reviews := map h (db_reviews db), db_tasks := ts, db_resolutions := xs, db_project := Some ?q\<rparr>)"
    using i(5) vs(1) by (auto simp: reviews_inv_def h)
  have 4: "advice_inv ?q (map h (db_reviews db)) (db_recommendations db) xs" using i(6) xs by (auto simp: advice_inv_def)
  have 5: "tasks_inv S ?q ts" using ts by (auto simp: tasks_inv_def task_inv_def)
  have "\<not> overlay (c_state c)" if "c \<in> set (db_candidates db)" for c
    using cand that by (auto simp: active_candidate_def dest: find_none)
  then have 6: "cands_inv ?q (db_candidates db)" using i(8) by (auto simp: cands_inv_def)
  show ?thesis using i(1) 0 1 2 3 4 5 6 by (simp add: coord_inv_def)
qed

lemma copy_forward_effect:
  assumes "copy_forward_generation_tasks S g stamp db = Inr (u, d)" "store_ok S" "0 \<le> g"
    and "distinct (map (\<lambda>t. (t_worker t, t_generation t)) (db_tasks db))"
    and "\<forall>t \<in> set (db_tasks db). \<not> isl (validate_generation_task_row S t) \<and> t_generation t \<le> g + 1"
  shows "\<exists>new. d = db\<lparr>db_tasks := db_tasks db @ new\<rparr> \<and> distinct (map (\<lambda>t. (t_worker t, t_generation t)) (db_tasks db @ new)) \<and>
    (\<forall>t \<in> set new. \<not> isl (validate_generation_task_row S t) \<and> t_generation t = g + 1 \<and> t_frozen t = None)"
proof -
  have "carry_tasks S g stamp (roster_lanes S) db = Inr ((), d)"
    using assms(1) by (auto simp: copy_forward_generation_tasks_def tx_ok split: if_splits)
  from carry_tasks_effect[OF this subset_refl assms(2-5)] show ?thesis .
qed

lemma active_reviewD:
  assumes "active_review db = Inr r" "db_project db = Some p"
  shows "(r = None \<longleftrightarrow> p_review p = None) \<and> (\<forall>v. r = Some v \<longrightarrow> v \<in> set (db_reviews db) \<and> p_review p = Some (v_id v) \<and> live_review (v_state v))"
proof (cases "p_review p")
  case None
  then show ?thesis using assms by (simp add: active_review_def state_row_def)
next
  case (Some i)
  then obtain v where v: "review_of db i = Some v" "r = Some v" "live_review (v_state v)"
    using assms by (auto simp: active_review_def state_row_def split: option.splits if_splits)
  then show ?thesis using Some find_some[of _ "db_reviews db" v] by (auto simp: review_of_def)
qed

lemma advance_run:
  "db_project db = Some p \<Longrightarrow> advance_generation_if_ready S now db =
     (if p_phase p = OWNER_ACTION_REQUIRED_PHASE \<or> active_candidate db \<noteq> None \<or>
         \<not> set (required_now S p) \<subseteq> set (completed_lanes (p_generation p) (p_phase p) db) then Inr (False, db)
      else (case active_review db of Inl e \<Rightarrow> Inl e | Inr r \<Rightarrow>
        (if p_phase p = REASONING_PHASE \<and> r \<noteq> None then enter_critic_review S p (the r) now
         else tx_then (tx_when (p_phase p = CRITIC_REVIEW_PHASE) (close_unconfirmed_review r now)) (next_generation S p now)) db))"
  unfolding advance_generation_if_ready_def required_now_def
  by (simp only: tx_run state_row_def option.case sum.case) (simp only: split: if_splits, blast)

text \<open>When the advance changes anything: every slot is closed, and the project enters the review of its
  critic or the next generation.\<close>

definition advanced :: "coord_store \<Rightarrow> rat \<Rightarrow> coord_db \<Rightarrow> project_row \<Rightarrow> coord_db \<Rightarrow> bool" where
  "advanced S now db p d \<longleftrightarrow>
     (let stop = now + of_int (phase_timeout_seconds (st_config S))
      in (p_phase p = REASONING_PHASE \<and> p_review p \<noteq> None \<and>
          d = db\<lparr>db_project := Some (p\<lparr>p_phase := CRITIC_REVIEW_PHASE, p_started := now, p_deadline := stop, p_updated := now\<rparr>)\<rparr>) \<or>
         (\<exists>h new. (p_phase p = REASONING_PHASE \<longrightarrow> p_review p = None \<and> h = (\<lambda>v. v)) \<and>
          (p_phase p = CRITIC_REVIEW_PHASE \<longrightarrow> h = (\<lambda>v. if p_review p = Some (v_id v) \<and> v_state v = VActive \<and> v_confirmation v = None
             then v\<lparr>v_state := VNotConfirmed, v_terminal := Some now\<rparr> else v)) \<and>
          reviews_valid db (map h (db_reviews db)) \<and>
          distinct (map (\<lambda>t. (t_worker t, t_generation t)) (db_tasks db @ new)) \<and>
          (\<forall>t \<in> set new. \<not> isl (validate_generation_task_row S t) \<and> t_generation t = p_generation p + 1 \<and> t_frozen t = None) \<and>
          (\<forall>v \<in> set (db_reviews db). \<not> live_review (v_state (h v))) \<and>
          d = db\<lparr>db_reviews := map h (db_reviews db), db_tasks := db_tasks db @ new,
            db_project := Some (p\<lparr>p_generation := p_generation p + 1, p_phase := REASONING_PHASE, p_started := now, p_review := None,
              p_deadline := stop, p_updated := now\<rparr>)\<rparr>))"

lemma advance_cases:
  assumes inv: "coord_inv S db" and run: "advance_generation_if_ready S now db = Inr (b, d)" and p: "db_project db = Some p"
  shows "(\<not> b \<and> d = db) \<or>
    (b \<and> p_phase p \<noteq> OWNER_ACTION_REQUIRED_PHASE \<and> active_candidate db = None \<and> p_recommendation p = None \<and>
     set (required_now S p) \<subseteq> set (completed_lanes (p_generation p) (p_phase p) db) \<and>
     (\<forall>s \<in> set (db_slots db). s_state s = Terminal) \<and> advanced S now db p d)"
proof (cases "p_phase p = OWNER_ACTION_REQUIRED_PHASE \<or> active_candidate db \<noteq> None \<or>
    \<not> set (required_now S p) \<subseteq> set (completed_lanes (p_generation p) (p_phase p) db)")
  case True
  then show ?thesis using run by (auto simp: advance_run[OF p])
next
  case False
  from inv p have i: "store_ok S" "phase_inv S p (db_slots db)" "slots_inv S p (db_slots db)" "reviews_inv S p db"
    "advice_inv p (db_reviews db) (db_recommendations db) (db_resolutions db)" "tasks_inv S p (db_tasks db)"
    by (auto simp: coord_inv_def)
  have closed: "\<forall>s \<in> set (db_slots db). s_state s = Terminal" using all_complete_closed[OF i(1,3)] False by blast
  have rec: "p_recommendation p = None" using i(5) False by (auto simp: advice_inv_def)
  obtain r where r: "active_review db = Inr r"
    and body: "(if p_phase p = REASONING_PHASE \<and> r \<noteq> None then enter_critic_review S p (the r) now
       else tx_then (tx_when (p_phase p = CRITIC_REVIEW_PHASE) (close_unconfirmed_review r now)) (next_generation S p now)) db = Inr (b, d)"
    using run False by (auto simp: advance_run[OF p] split: sum.splits)
  note ar = active_reviewD[OF r p]
  have ph: "p_phase p = REASONING_PHASE \<or> p_phase p = CRITIC_REVIEW_PHASE" using i(2) False by (auto simp: phase_inv_def)
  have "b \<and> advanced S now db p d"
  proof (cases "p_phase p = REASONING_PHASE \<and> r \<noteq> None")
    case True
    then show ?thesis using body ar p by (auto simp: enter_critic_review_def advanced_def tx_ok Let_def split: if_splits)
  next
    case notenter: False
    have tv: "distinct (map (\<lambda>t. (t_worker t, t_generation t)) (db_tasks db))"
        "\<forall>t \<in> set (db_tasks db). \<not> isl (validate_generation_task_row S t) \<and> t_generation t \<le> p_generation p + 1"
      using i(6) by (auto simp: tasks_inv_def task_inv_def)
    have g: "0 \<le> p_generation p" using i(2) by (simp add: phase_inv_def)
    let ?h = "\<lambda>v. if p_phase p = CRITIC_REVIEW_PHASE \<and> p_review p = Some (v_id v) \<and> v_state v = VActive \<and> v_confirmation v = None
        then v\<lparr>v_state := VNotConfirmed, v_terminal := Some now\<rparr> else v"
    obtain db1 db2 where d1: "tx_when (p_phase p = CRITIC_REVIEW_PHASE) (close_unconfirmed_review r now) db = Inr ((), db1)"
      and d2: "copy_forward_generation_tasks S (p_generation p) now db1 = Inr ((), db2)"
      and d3: "b" "\<exists>q. db_project db2 = Some q \<and> d = db2\<lparr>db_project := Some (q\<lparr>p_generation := p_generation p + 1, p_phase := REASONING_PHASE,
          p_started := now, p_review := None, p_deadline := now + of_int (phase_timeout_seconds (st_config S)), p_updated := now\<rparr>)\<rparr>"
    proof -
      have "tx_then (tx_when (p_phase p = CRITIC_REVIEW_PHASE) (close_unconfirmed_review r now)) (next_generation S p now) db = Inr (b, d)"
        using body notenter by (simp only: if_not_P if_False)
      then show ?thesis unfolding next_generation_def tx_then_ok cas_ok tx_returns using that by blast
    qed
    have d1': "reviews_valid db (map ?h (db_reviews db)) \<and> db1 = db\<lparr>db_reviews := map ?h (db_reviews db)\<rparr>"
    proof (cases "p_phase p = CRITIC_REVIEW_PHASE")
      case True
      then obtain v where v: "r = Some v" using d1 by (cases r) (auto simp: close_unconfirmed_review_def tx_ok)
      then have id: "p_review p = Some (v_id u) \<longleftrightarrow> v_id u = v_id v" for u using ar by auto
      show ?thesis using d1 True v by (simp add: close_unconfirmed_review_def update_rows_map tx_ok id split: if_splits)
    next
      case False
      then show ?thesis using d1 i(4) by (simp add: tx_ok reviews_inv_def)
    qed
    then have "\<exists>new. db2 = db1\<lparr>db_tasks := db_tasks db @ new\<rparr> \<and> distinct (map (\<lambda>t. (t_worker t, t_generation t)) (db_tasks db @ new)) \<and>
       (\<forall>t \<in> set new. \<not> isl (validate_generation_task_row S t) \<and> t_generation t = p_generation p + 1 \<and> t_frozen t = None)"
      using copy_forward_effect[OF d2 i(1) g] tv by simp
    then obtain new where new: "db2 = db1\<lparr>db_tasks := db_tasks db @ new\<rparr>" "distinct (map (\<lambda>t. (t_worker t, t_generation t)) (db_tasks db @ new))"
       "\<forall>t \<in> set new. \<not> isl (validate_generation_task_row S t) \<and> t_generation t = p_generation p + 1 \<and> t_frozen t = None" by blast
    have dead: "\<not> live_review (v_state (?h v))" if v: "v \<in> set (db_reviews db)" for v
    proof
      assume "live_review (v_state (?h v))"
      then have l: "live_review (v_state v)" and nh: "\<not> (p_phase p = CRITIC_REVIEW_PHASE \<and> p_review p = Some (v_id v) \<and> v_state v = VActive \<and> v_confirmation v = None)"
        by (auto split: if_splits)
      have rv: "review_inv S p (db_slots db) (db_evidence db) v" using i(4) v by (simp add: reviews_inv_def)
      then have pr: "p_review p = Some (v_id v)" using l by (auto simp: review_inv_def)
      then obtain u where u: "r = Some u" using ar by (cases r) auto
      then have crit: "p_phase p = CRITIC_REVIEW_PHASE" using notenter ph by auto
      have "u = v" using ar u pr v i(4) by (auto simp: reviews_inv_def reviews_valid_def intro: distinct_map_eq)
      then have "v_state v = VActive" using d1 u crit by (auto simp: close_unconfirmed_review_def tx_ok split: if_splits)
      then show False using nh rv crit pr by (auto simp: review_inv_def review_stage_def)
    qed
    have none: "p_phase p = REASONING_PHASE \<longrightarrow> p_review p = None" using notenter ar by auto
    have eq: "d = db\<lparr>db_reviews := map ?h (db_reviews db), db_tasks := db_tasks db @ new,
        db_project := Some (p\<lparr>p_generation := p_generation p + 1, p_phase := REASONING_PHASE, p_started := now, p_review := None,
          p_deadline := now + of_int (phase_timeout_seconds (st_config S)), p_updated := now\<rparr>)\<rparr>"
    proof -
      have "db_project db2 = Some p" using new(1) d1' p by simp
      then show ?thesis using d3(2) new(1) d1' by (simp only: option.inject) simp
    qed
    have 1: "p_phase p = REASONING_PHASE \<longrightarrow> p_review p = None \<and> ?h = (\<lambda>v. v)" using none by simp
    have 2: "p_phase p = CRITIC_REVIEW_PHASE \<longrightarrow> ?h = (\<lambda>v. if p_review p = Some (v_id v) \<and> v_state v = VActive \<and> v_confirmation v = None
             then v\<lparr>v_state := VNotConfirmed, v_terminal := Some now\<rparr> else v)" by simp
    have 3: "reviews_valid db (map ?h (db_reviews db))" using d1' by blast
    have 4: "\<forall>v \<in> set (db_reviews db). \<not> live_review (v_state (?h v))" using dead by blast
    show ?thesis unfolding advanced_def Let_def
      by (rule conjI[OF d3(1)], rule disjI2, rule exI[of _ ?h], rule exI[of _ new]) (intro conjI[OF 1] conjI[OF 2] conjI[OF 3] conjI[OF new(2)] conjI[OF new(3)] conjI[OF 4] eq)
  qed
  then show ?thesis using False rec closed by blast
qed

lemma keeps_advance [keep]: "keeps (coord_inv S) (advance_generation_if_ready S now)"
proof (unfold keeps_def, intro allI impI)
  fix db b d
  assume inv: "coord_inv S db" and run: "advance_generation_if_ready S now db = Inr (b, d)"
  obtain p where p: "db_project db = Some p" using inv by (auto simp: coord_inv_def)
  have tv: "\<forall>t \<in> set (db_tasks db). \<not> isl (validate_generation_task_row S t) \<and> t_generation t \<le> p_generation p + 1"
    using inv p by (auto simp: coord_inv_def tasks_inv_def task_inv_def)
  from advance_cases[OF inv run p] show "coord_inv S d"
  proof (elim disjE conjE)
    assume adv: "p_phase p \<noteq> OWNER_ACTION_REQUIRED_PHASE" "active_candidate db = None" "p_recommendation p = None"
      "set (required_now S p) \<subseteq> set (completed_lanes (p_generation p) (p_phase p) db)"
      "\<forall>s \<in> set (db_slots db). s_state s = Terminal" "advanced S now db p d"
    from adv(6) consider (critic) "p_phase p = REASONING_PHASE" "p_review p \<noteq> None"
        "d = db\<lparr>db_project := Some (p\<lparr>p_phase := CRITIC_REVIEW_PHASE, p_started := now,
           p_deadline := now + of_int (phase_timeout_seconds (st_config S)), p_updated := now\<rparr>)\<rparr>"
      | (nxt) h new where "p_phase p = REASONING_PHASE \<longrightarrow> h = (\<lambda>v. v)"
          "p_phase p = CRITIC_REVIEW_PHASE \<longrightarrow> h = (\<lambda>v. if p_review p = Some (v_id v) \<and> v_state v = VActive \<and> v_confirmation v = None
             then v\<lparr>v_state := VNotConfirmed, v_terminal := Some now\<rparr> else v)"
          "reviews_valid db (map h (db_reviews db))" "distinct (map (\<lambda>t. (t_worker t, t_generation t)) (db_tasks db @ new))"
          "\<forall>t \<in> set new. \<not> isl (validate_generation_task_row S t) \<and> t_generation t = p_generation p + 1"
          "\<forall>v \<in> set (db_reviews db). \<not> live_review (v_state (h v))"
          "d = db\<lparr>db_reviews := map h (db_reviews db), db_tasks := db_tasks db @ new,
            db_project := Some (p\<lparr>p_generation := p_generation p + 1, p_phase := REASONING_PHASE, p_started := now, p_review := None,
              p_deadline := now + of_int (phase_timeout_seconds (st_config S)), p_updated := now\<rparr>)\<rparr>"
      unfolding advanced_def Let_def by blast
    then show ?thesis
    proof cases
      case critic
      then show ?thesis using enter_critic_inv[OF inv p critic(1,2) adv(5)] adv(4) by (simp add: required_now_def)
    next
      case nxt
      have ph: "p_phase p = REASONING_PHASE \<or> p_phase p = CRITIC_REVIEW_PHASE"
        using inv p adv(1) by (auto simp: coord_inv_def phase_inv_def)
      then have h: "v_id (h v) = v_id v" "v_generation (h v) = v_generation v" "v_root_entry (h v) = v_root_entry v"
          "v_critic_slot (h v) = v_critic_slot v" for v
        using nxt(1,2) by auto
      have eq: "p\<lparr>p_generation := g, p_phase := f, p_started := a, p_recommendation := None, p_review := None, p_deadline := b, p_updated := u\<rparr> =
          p\<lparr>p_generation := g, p_phase := f, p_started := a, p_review := None, p_deadline := b, p_updated := u\<rparr>" for g f a b u
        using adv(3) by (cases p) simp
      have "coord_inv S (db\<lparr>db_reviews := map h (db_reviews db), db_tasks := db_tasks db @ new, db_resolutions := db_resolutions db,
          db_project := Some (p\<lparr>p_generation := p_generation p + 1, p_phase := REASONING_PHASE, p_started := now, p_recommendation := None,
            p_review := None, p_deadline := now + of_int (phase_timeout_seconds (st_config S)), p_updated := now\<rparr>)\<rparr>)"
        by (rule next_generation_inv[OF inv p adv(5,2) h nxt(3)]) (use nxt(4-6) tv inv in \<open>auto simp: coord_inv_def advice_inv_def\<close>)
      then show ?thesis unfolding eq nxt(7) by simp
    qed
  qed (use inv in simp)
qed

end
