(* ===== verification/CoordKeepSlots.thy ===== *)
theory CoordKeepSlots
  imports CoordKeep
begin

text \<open>
  The operations on paid slots keep the invariant of the coordination database: expiry, admission,
  pinning, activation, the ambiguous state and completion.
\<close>

section \<open>Updates of slots and reviews\<close>

lemma slots_update:
  assumes "\<And>s. s_id (f s) = s_id s" "\<And>s. s_worker (f s) = s_worker s" "\<And>s. s_lane (f s) = s_lane s"
      "\<And>s. s_generation (f s) = s_generation s" "\<And>s. s_phase (f s) = s_phase s" "\<And>s. s_review (f s) = s_review s"
      "\<And>s. s_designated (f s) = s_designated s" "\<And>s. P s \<Longrightarrow> is_open (f s) \<Longrightarrow> is_open s" "coord_inv S db"
  shows "coord_inv S (db\<lparr>db_slots := update_rows P f (db_slots db)\<rparr>)"
  unfolding update_rows_map by (rule slots_map) (use assms in \<open>auto split: if_splits\<close>)

lemma keeps_cas_slots:
  assumes "\<And>s. s_id (f s) = s_id s" "\<And>s. s_worker (f s) = s_worker s" "\<And>s. s_lane (f s) = s_lane s"
      "\<And>s. s_generation (f s) = s_generation s" "\<And>s. s_phase (f s) = s_phase s" "\<And>s. s_review (f s) = s_review s"
      "\<And>s. s_designated (f s) = s_designated s" "\<And>s. P s \<Longrightarrow> is_open (f s) \<Longrightarrow> is_open s"
  shows "keeps (coord_inv S) (cas_slots P f e)" "keeps (coord_inv S) (tx_write (\<lambda>db. db\<lparr>db_slots := update_rows P f (db_slots db)\<rparr>))"
  using slots_update[OF assms] by (auto simp: keeps_def tx_ok)

lemma reviews_map:
  assumes same: "\<And>v. v_id (h v) = v_id v" "\<And>v. v_generation (h v) = v_generation v" "\<And>v. v_root_entry (h v) = v_root_entry v"
      "\<And>v. v_critic_worker (h v) = v_critic_worker v" "\<And>v. v_critic_slot (h v) = v_critic_slot v"
      "\<And>v. v_confirmation (h v) = v_confirmation v" "\<And>v. v_state (h v) = v_state v"
    and valid: "reviews_valid db (map h (db_reviews db))" and inv: "coord_inv S db"
  shows "coord_inv S (db\<lparr>db_reviews := map h (db_reviews db)\<rparr>)"
proof -
  from inv obtain p where p: "db_project db = Some p" "store_ok S" "header_inv S p" "phase_inv S p (db_slots db)" "slots_inv S p (db_slots db)"
    "reviews_inv S p db" "advice_inv p (db_reviews db) (db_recommendations db) (db_resolutions db)"
    "tasks_inv S p (db_tasks db)" "cands_inv p (db_candidates db)" by (rule coord_invE)
  have "review_inv S p ss es (h v) = review_inv S p ss es v" for ss es v by (simp add: review_inv_def review_stage_def same split: review_state.split)
  then have 1: "reviews_inv S p (db\<lparr>db_reviews := map h (db_reviews db)\<rparr>)" using p(6) valid by (simp add: reviews_inv_def same)
  have 2: "advice_inv p (map h (db_reviews db)) (db_recommendations db) (db_resolutions db)" using p(7) by (simp add: advice_inv_def same)
  show ?thesis using p 1 2 by (simp add: coord_inv_def)
qed

lemma keeps_review_stamp: "keeps (coord_inv S) (cas_reviews P (\<lambda>v. v\<lparr>v_terminal := g v\<rparr>) e)"
  by (auto simp: keeps_def tx_ok update_rows_map intro!: reviews_map)

section \<open>Expiry, prompts, activation, completion\<close>

lemma keeps_terminalize [keep]: "keeps (coord_inv S) (terminalize_expired_prepared S s now)"
  unfolding terminalize_expired_prepared_def
  by (auto intro!: keeps_then keeps_tx_bind keep keeps_cas_slots simp: is_open_terminal)

lemma keeps_slot_admission [keep]: "keeps (coord_inv S) (slot_admission_tx S s r)"
  unfolding slot_admission_tx_def by (auto intro!: keeps_then keeps_tx_bind keep)

lemma keeps_admit_existing [keep]: "keeps (coord_inv S) (admit_existing S w l ex s now)"
  unfolding admit_existing_def by (auto intro!: keeps_then keeps_tx_bind keep)

lemma keeps_pin [keep]: "keeps (coord_inv S) (pin_tx S i prompt)"
  unfolding pin_tx_def
  by (auto intro!: keeps_then keeps_tx_bind keep keeps_when keeps_cas_slots simp: is_open_def split: option.splits)

lemma keeps_activate [keep]: "keeps (coord_inv S) (activate_tx S i now)"
  unfolding activate_tx_def
  by (auto intro!: keeps_then keeps_tx_bind keep keeps_when keeps_cas_slots simp: is_open_def split: option.splits)

lemma keeps_mark_ambiguous [keep]: "keeps (coord_inv S) (mark_ambiguous_tx S i now)"
  unfolding mark_ambiguous_tx_def
  by (auto intro!: keeps_then keeps_tx_bind keep keeps_cas_slots simp: is_open_def split: option.splits)

lemma keeps_complete [keep]: "keeps (coord_inv S) (complete_tx S i outcome now)"
  unfolding complete_tx_def
  by (auto intro!: keeps_then keeps_tx_bind keep keeps_cas_slots keeps_review_stamp simp: is_open_terminal split: option.splits bool.splits)

section \<open>Admission\<close>

text \<open>What a reservation writes: the task frozen, a prepared slot, the review claimed, the worker's state.\<close>

definition reserved :: "coord_store \<Rightarrow> string \<Rightarrow> string \<Rightarrow> string \<Rightarrow> project_row \<Rightarrow> review_row option \<Rightarrow> rat \<Rightarrow> coord_db \<Rightarrow> slot_row \<Rightarrow> coord_db \<Rightarrow> bool" where
  "reserved S uid worker lane p review now db s d \<longleftrightarrow>
     (\<exists>a digest nbytes directive ts vs ks.
        task_of db worker (p_generation p) = Some a \<and> validate_generation_task_row S a = Inr (digest, nbytes) \<and> t_lane a = lane \<and>
        coordination_directive lane (p_generation p) (p_phase p) (map_option v_id review) (map_option v_root_entry review) = Inr directive \<and>
        s = new_slot (''slot_'' @ uid) worker lane p directive (t_task a) digest nbytes review now \<and>
        slot_insertable S s (db_slots db) \<and> validate_slot_task_binding S d s = None \<and>
        ts = (if t_frozen a = None then update_rows (\<lambda>t. t_worker t = t_worker a \<and> t_generation t = t_generation a \<and> t_frozen t = None)
            (\<lambda>t. t\<lparr>t_frozen := Some now\<rparr>) (db_tasks db) else db_tasks db) \<and>
        (case review of None \<Rightarrow> vs = db_reviews db
         | Some v \<Rightarrow>
            (let claim = (\<lambda>u. v_id u = v_id v \<and> v_state u = VPending \<and> v_critic_slot u = None)
             in one_row claim (db_reviews db) \<and>
                vs = update_rows claim (\<lambda>u. u\<lparr>v_state := VActive, v_critic_slot := Some (s_id s), v_activated := Some now\<rparr>) (db_reviews db))) \<and>
        reviews_valid d vs \<and>
        d = db\<lparr>db_slots := db_slots db @ [s], db_tasks := ts, db_reviews := vs, db_workers := ks\<rparr>)"

lemma admission_row:
  "slot_admission_tx S s r db = Inr (a, d) \<Longrightarrow> d = db \<and> validate_slot_task_binding S db s = None \<and>
   (\<exists>p. db_project db = Some p \<and> policy_lift (coordination_directive (s_lane s) (s_generation s) (s_phase s) (s_review s) (s_designated s)) = Inr (s_directive s)) \<and>
   d_slot a = s_id s \<and> d_worker a = s_worker s \<and> d_prompt a = s_prompt s \<and> d_state a = s_state s"
  by (auto simp: slot_admission_tx_def tx_ok state_row_def split: if_splits option.splits)

lemma find_append_new: "(\<And>x. x \<in> set xs \<Longrightarrow> \<not> P x) \<Longrightarrow> P y \<Longrightarrow> find P (xs @ [y]) = Some y"
  by (induction xs) auto

lemma policy_lift_Inr: "policy_lift x = Inr y \<longleftrightarrow> x = Inr y"
  by (cases x) (simp_all add: policy_lift_def)

lemma reviews_valid_mono:
  assumes "reviews_valid db vs" "set (map e_id (db_evidence db)) \<subseteq> set (map e_id (db_evidence d))" "set (map s_id (db_slots db)) \<subseteq> set (map s_id (db_slots d))"
  shows "reviews_valid d vs"
proof -
  have step: "(case a of None \<Rightarrow> True | Some i \<Rightarrow> i \<in> B) \<Longrightarrow> (B :: string set) \<subseteq> C \<Longrightarrow> (case a of None \<Rightarrow> True | Some i \<Rightarrow> i \<in> C)" for a B C
    by (cases a) auto
  show ?thesis
    using assms(1) unfolding reviews_valid_def
    by (elim conjE, intro conjI) (assumption | erule list.pred_mono_strong, elim conjE, intro conjI; (assumption | rule step[OF _ assms(2)] step[OF _ assms(3)] subsetD[OF assms(2)] subsetD[OF assms(3)]), assumption?)+
qed

lemma reserve_effect:
  assumes run: "reserve_slot S uid worker lane p review now db = Inr (r, d)"
    and valid: "reviews_valid db (db_reviews db)"
  shows "\<exists>s a. r = Some a \<and> d_slot a = s_id s \<and> d_state a = Prepared \<and>
     reserved S uid worker lane p (if p_phase p = CRITIC_REVIEW_PHASE then review else None) now db s d"
proof -
  let ?rv = "if p_phase p = CRITIC_REVIEW_PHASE then review else None"
  obtain a digest nbytes db1 directive db3 db4 where
      a: "task_of db worker (p_generation p) = Some a" "validate_generation_task_row S a = Inr (digest, nbytes)" "t_lane a = lane"
    and db1: "freeze_task a now db = Inr ((), db1)"
    and dir: "policy_lift (coordination_directive lane (p_generation p) (p_phase p) (map_option v_id ?rv) (map_option v_root_entry ?rv)) = Inr directive"
    and ins: "slot_insertable S (new_slot (''slot_'' @ uid) worker lane p directive (t_task a) digest nbytes ?rv now) (db_slots db1)"
    and claim: "claim_review ?rv (''slot_'' @ uid) now (db1\<lparr>db_slots := db_slots db1 @ [new_slot (''slot_'' @ uid) worker lane p directive (t_task a) digest nbytes ?rv now]\<rparr>) = Inr ((), db3)"
    and ks: "write_worker_state worker lane ''admitted'' (p_generation p) (p_phase p) now db3 = Inr ((), db4)"
    and fin: "(case slot_of db4 (''slot_'' @ uid) of None \<Rightarrow> tx_raise (SlotErr SlotDisappeared)
       | Some s \<Rightarrow> tx_bind (slot_admission_tx S s False) (\<lambda>d. tx_return (Some d))) db4 = Inr (r, d)"
    using run unfolding reserve_slot_def Let_def tx_bind_ok tx_then_ok tx_returns insert_ok
    by (clarsimp split: option.splits if_splits simp: tx_ok)
  let ?s = "new_slot (''slot_'' @ uid) worker lane p directive (t_task a) digest nbytes ?rv now"
  let ?ts = "if t_frozen a = None then update_rows (\<lambda>t. t_worker t = t_worker a \<and> t_generation t = t_generation a \<and> t_frozen t = None)
      (\<lambda>t. t\<lparr>t_frozen := Some now\<rparr>) (db_tasks db) else db_tasks db"
  have sid: "s_id ?s = ''slot_'' @ uid" by (simp add: new_slot_def)
  have db1': "db1 = db\<lparr>db_tasks := ?ts\<rparr>" using db1 by (auto simp: freeze_task_def tx_ok split: if_splits)
  have ins': "slot_insertable S ?s (db_slots db)" using ins by (simp add: db1')
  let ?db2 = "db\<lparr>db_tasks := ?ts, db_slots := db_slots db @ [?s]\<rparr>"
  define vs where "vs = db_reviews db3"
  have db3': "db3 = ?db2\<lparr>db_reviews := vs\<rparr>" and rv: "reviews_valid ?db2 vs"
    and vs: "case ?rv of None \<Rightarrow> vs = db_reviews db
       | Some v \<Rightarrow> (let claim = (\<lambda>u. v_id u = v_id v \<and> v_state u = VPending \<and> v_critic_slot u = None)
          in one_row claim (db_reviews db) \<and>
             vs = update_rows claim (\<lambda>u. u\<lparr>v_state := VActive, v_critic_slot := Some (s_id ?s), v_activated := Some now\<rparr>) (db_reviews db))"
  proof -
    have c: "claim_review ?rv (''slot_'' @ uid) now ?db2 = Inr ((), db3)" using claim by (simp add: db1')
    have "db3 = ?db2\<lparr>db_reviews := vs\<rparr> \<and> reviews_valid ?db2 vs \<and> (case ?rv of None \<Rightarrow> vs = db_reviews db
       | Some v \<Rightarrow> (let claim = (\<lambda>u. v_id u = v_id v \<and> v_state u = VPending \<and> v_critic_slot u = None)
          in one_row claim (db_reviews db) \<and>
             vs = update_rows claim (\<lambda>u. u\<lparr>v_state := VActive, v_critic_slot := Some (s_id ?s), v_activated := Some now\<rparr>) (db_reviews db)))"
    proof (cases ?rv)
      case None
      have "reviews_valid ?db2 (db_reviews db)" by (rule reviews_valid_mono[OF valid]) auto
      then show ?thesis using c None unfolding None claim_review_def vs_def by (simp add: tx_ok)
    next
      case (Some v)
      then show ?thesis using c sid unfolding Some claim_review_def vs_def by (simp add: tx_ok Let_def)
    qed
    then show "db3 = ?db2\<lparr>db_reviews := vs\<rparr>" "reviews_valid ?db2 vs" "case ?rv of None \<Rightarrow> vs = db_reviews db
       | Some v \<Rightarrow> (let claim = (\<lambda>u. v_id u = v_id v \<and> v_state u = VPending \<and> v_critic_slot u = None)
          in one_row claim (db_reviews db) \<and>
             vs = update_rows claim (\<lambda>u. u\<lparr>v_state := VActive, v_critic_slot := Some (s_id ?s), v_activated := Some now\<rparr>) (db_reviews db))" by blast+
  qed
  define ks where "ks = db_workers db4"
  have db4': "db4 = ?db2\<lparr>db_reviews := vs, db_workers := ks\<rparr>"
    using ks db3' by (auto simp: write_worker_state_def tx_ok ks_def)
  have "slot_of db4 (''slot_'' @ uid) = Some ?s"
    unfolding slot_of_def db4' using ins' sid by (auto simp: slot_insertable_def list_all_iff intro: find_append_new)
  then obtain a' where r: "r = Some a'" and adm: "slot_admission_tx S ?s False db4 = Inr (a', d)"
    using fin by (auto simp: tx_ok)
  note row = admission_row[OF adm]
  have "reserved S uid worker lane p ?rv now db ?s d"
    unfolding reserved_def
  proof (intro exI conjI)
    show "d = db\<lparr>db_slots := db_slots db @ [?s], db_tasks := ?ts, db_reviews := vs, db_workers := ks\<rparr>" using row db4' by simp
    show "reviews_valid d vs" using row rv db4' by simp
  qed (use a dir ins' row vs in \<open>simp_all add: policy_lift_Inr\<close>)
  then show ?thesis using r row by (intro exI[of _ ?s] exI[of _ a']) (simp add: new_slot_def)
qed

lemma task_update:
  assumes ts: "tasks_inv S p ts" and f: "\<And>t. t_worker (f t) = t_worker t" "\<And>t. t_generation (f t) = t_generation t"
    and v: "\<And>t. t \<in> set ts \<Longrightarrow> P t \<Longrightarrow> \<not> isl (validate_generation_task_row S (f t))"
  shows "tasks_inv S p (update_rows P f ts)"
proof -
  have "map (\<lambda>t. (t_worker t, t_generation t)) (update_rows P f ts) = map (\<lambda>t. (t_worker t, t_generation t)) ts"
    by (rule update_rows_field) (simp add: f)
  moreover have "\<forall>t \<in> set (update_rows P f ts). task_inv S p t"
    using ts v by (auto simp: tasks_inv_def task_inv_def update_rows_map f)
  ultimately show ?thesis using ts by (simp only: tasks_inv_def)
qed

lemma binding_task:
  assumes "validate_slot_task_binding S d s = None" "s_legacy s = 0"
  shows "\<exists>a. task_of d (s_worker s) (s_generation s) = Some a \<and> \<not> isl (validate_generation_task_row S a) \<and> t_frozen a \<noteq> None \<and>
    t_lane a = s_lane s \<and> s_task s = Some (t_task a) \<and> s_task_sha s = Some (t_sha a) \<and> s_task_bytes s = Some (t_bytes a)"
  using assms by (auto simp: validate_slot_task_binding_def split: option.splits sum.splits if_splits prod.splits)

lemma task_ofD: "task_of db w g = Some a \<Longrightarrow> a \<in> set (db_tasks db) \<and> t_worker a = w \<and> t_generation a = g"
  unfolding task_of_def by (auto dest: find_some)

lemma task_ofI:
  "distinct (map (\<lambda>t. (t_worker t, t_generation t)) (db_tasks db)) \<Longrightarrow> a \<in> set (db_tasks db) \<Longrightarrow> task_of db (t_worker a) (t_generation a) = Some a"
  unfolding task_of_def using find_unique[of "\<lambda>t. (t_worker t, t_generation t)" "db_tasks db" a] by simp

text \<open>A frozen task that a slot of the new database is bound to is valid, so freezing kept the tasks.\<close>

lemma reserved_tasks:
  assumes res: "reserved S uid worker lane p review now db s d" and ts: "tasks_inv S p (db_tasks db)"
  shows "tasks_inv S p (db_tasks d)"
proof -
  obtain a where a: "task_of db worker (p_generation p) = Some a" "s_worker s = worker" "s_generation s = p_generation p" "s_legacy s = 0"
      "validate_slot_task_binding S d s = None"
    and dt: "db_tasks d = (if t_frozen a = None then update_rows (\<lambda>t. t_worker t = t_worker a \<and> t_generation t = t_generation a \<and> t_frozen t = None)
            (\<lambda>t. t\<lparr>t_frozen := Some now\<rparr>) (db_tasks db) else db_tasks db)"
    using res unfolding reserved_def by (auto simp: new_slot_def)
  show ?thesis
  proof (cases "t_frozen a = None")
    case True
    let ?P = "\<lambda>t. t_worker t = t_worker a \<and> t_generation t = t_generation a \<and> t_frozen t = None" and ?f = "\<lambda>t. t\<lparr>t_frozen := Some now\<rparr>"
    have dist: "distinct (map (\<lambda>t. (t_worker t, t_generation t)) (db_tasks db))" using ts by (simp add: tasks_inv_def)
    obtain b where b: "task_of d worker (p_generation p) = Some b" "\<not> isl (validate_generation_task_row S b)" "t_frozen b \<noteq> None"
      using binding_task[OF a(5,4)] a(2,3) by auto
    have valid: "\<not> isl (validate_generation_task_row S (?f t))" if t: "t \<in> set (db_tasks db)" "?P t" for t
    proof -
      have "t = a" using t task_ofD[OF a(1)] dist by (auto intro: distinct_map_eq)
      moreover obtain c where c: "c \<in> set (db_tasks db)" "b = (if ?P c then ?f c else c)"
        using task_ofD[OF b(1)] dt True by (auto simp: update_rows_map)
      moreover have "t_worker c = worker" "t_generation c = p_generation p" using task_ofD[OF b(1)] c(2) by (auto split: if_splits)
      then have "c = a" using c(1) task_ofD[OF a(1)] dist by (auto intro: distinct_map_eq)
      ultimately show ?thesis using b(2) True by auto
    qed
    show ?thesis unfolding dt if_P[OF True] by (rule task_update[OF ts]; use valid in simp)
  next
    case False
    show ?thesis unfolding dt if_not_P[OF False] by (rule ts)
  qed
qed

lemma reserved_inv:
  assumes inv: "coord_inv S db" and p: "db_project db = Some p" "p_phase p \<noteq> OWNER_ACTION_REQUIRED_PHASE"
    and r: "active_review db = Inr r" and crit: "p_phase p = CRITIC_REVIEW_PHASE \<Longrightarrow> lane = ''critic'' \<and> r \<noteq> None"
    and res: "reserved S uid worker lane p (if p_phase p = CRITIC_REVIEW_PHASE then r else None) now db s d"
  shows "coord_inv S d"
proof -
  let ?rv = "if p_phase p = CRITIC_REVIEW_PHASE then r else None"
  from inv p(1) have i: "store_ok S" "header_inv S p" "phase_inv S p (db_slots db)" "slots_inv S p (db_slots db)" "reviews_inv S p db"
    "advice_inv p (db_reviews db) (db_recommendations db) (db_resolutions db)" "tasks_inv S p (db_tasks db)" "cands_inv p (db_candidates db)"
    by (auto simp: coord_inv_def)
  obtain a digest nbytes directive ts vs ks where
      a: "task_of db worker (p_generation p) = Some a" "validate_generation_task_row S a = Inr (digest, nbytes)" "t_lane a = lane"
    and s: "s = new_slot (''slot_'' @ uid) worker lane p directive (t_task a) digest nbytes ?rv now"
    and ins: "slot_insertable S s (db_slots db)"
    and vs: "case ?rv of None \<Rightarrow> vs = db_reviews db
         | Some v \<Rightarrow> (let claim = (\<lambda>u. v_id u = v_id v \<and> v_state u = VPending \<and> v_critic_slot u = None)
             in one_row claim (db_reviews db) \<and>
                vs = update_rows claim (\<lambda>u. u\<lparr>v_state := VActive, v_critic_slot := Some (s_id s), v_activated := Some now\<rparr>) (db_reviews db))"
    and rv: "reviews_valid d vs" and d: "d = db\<lparr>db_slots := db_slots db @ [s], db_tasks := ts, db_reviews := vs, db_workers := ks\<rparr>"
    using res unfolding reserved_def by blast
  have ph: "p_phase p = REASONING_PHASE \<or> p_phase p = CRITIC_REVIEW_PHASE" using i(3) p(2) by (auto simp: phase_inv_def)
  have sf: "s_worker s = worker" "s_lane s = lane" "s_generation s = p_generation p" "s_phase s = p_phase p" "s_state s = Prepared"
      "s_review s = map_option v_id ?rv" "s_designated s = map_option v_root_entry ?rv" by (simp_all add: s new_slot_def)
  have lane: "map_of (roster_lanes S) worker = Some lane" using validated_task[OF a(2)] task_ofD[OF a(1)] a(3) by simp
  have news: "slot_inv S p s"
    using i(3) ph lane crit p(2) by (auto simp: slot_inv_def sf phase_inv_def slot_phase_def is_open_terminal)
  have 1: "phase_inv S p (db_slots d)" using i(3) by (auto simp: phase_inv_def d)
  have 2: "slots_inv S p (db_slots d)"
    using i(4) ins news by (auto simp: slots_inv_def d slot_insertable_def list_all_iff)
  have 4: "tasks_inv S p (db_tasks d)" by (rule reserved_tasks[OF res i(7)])
  have "reviews_inv S p d \<and> advice_inv p (db_reviews d) (db_recommendations d) (db_resolutions d)"
  proof (cases ?rv)
    case None
    have "review_inv S p (db_slots db @ [s]) (db_evidence db) v" if "review_inv S p (db_slots db) (db_evidence db) v" for v
      using that by (auto simp: review_inv_def)
    then show ?thesis using i(5,6) vs rv None sf by (auto simp: reviews_inv_def d)
  next
    case (Some v)
    let ?claim = "\<lambda>u. v_id u = v_id v \<and> v_state u = VPending \<and> v_critic_slot u = None"
    let ?f = "\<lambda>u. u\<lparr>v_state := VActive, v_critic_slot := Some (s_id s), v_activated := Some now\<rparr>"
    have ph': "p_phase p = CRITIC_REVIEW_PHASE" and rS: "r = Some v" using Some by (auto split: if_splits)
    have vs': "vs = update_rows ?claim ?f (db_reviews db)" and one: "one_row ?claim (db_reviews db)" using vs Some by (auto simp: Let_def)
    note ar = active_reviewD[OF r p(1)]
    have v: "v \<in> set (db_reviews db)" "p_review p = Some (v_id v)" "live_review (v_state v)" using ar rS by auto
    have dist: "distinct (map v_id (db_reviews db))" using i(5) by (simp add: reviews_inv_def reviews_valid_def)
    obtain u where u: "u \<in> set (db_reviews db)" "?claim u" using one by (rule one_rowE)
    then have "u = v" using v(1) dist by (auto intro: distinct_map_eq)
    with u have cv: "?claim v" by simp
    have only: "?claim w \<longleftrightarrow> w = v" if "w \<in> set (db_reviews db)" for w
      using that v(1) dist cv by (auto intro: distinct_map_eq)
    have vi: "review_inv S p (db_slots db) (db_evidence db) w" if "w \<in> set (db_reviews db)" for w using i(5) that by (simp add: reviews_inv_def)
    have 3: "review_inv S p (db_slots d) (db_evidence d) (if ?claim w then ?f w else w)" if w: "w \<in> set (db_reviews db)" for w
    proof (cases "w = v")
      case True
      then show ?thesis using vi[OF w] cv ph' sf Some v by (auto simp: review_inv_def review_stage_def d)
    next
      case False
      then show ?thesis using vi[OF w] only[OF w] by (auto simp: review_inv_def d)
    qed
    have dv: "db_reviews d = map (\<lambda>w. if ?claim w then ?f w else w) (db_reviews db)" by (simp add: d vs' update_rows_map)
    have nv: "?f v \<in> set (db_reviews d)" using v(1) cv by (auto simp: d vs' update_rows_map image_iff intro!: bexI[of _ v])
    have bk: "\<exists>w \<in> set (db_reviews d). v_id w = j \<and> v_critic_slot w = Some (s_id q)"
      if q: "q \<in> set (db_slots d)" "s_review q = Some j" for q j
    proof (cases "q = s")
      case True
      then show ?thesis using q(2) sf Some by (intro bexI[OF _ nv]) auto
    next
      case False
      then have "q \<in> set (db_slots db)" using q by (simp add: d)
      then obtain w where w: "w \<in> set (db_reviews db)" "v_id w = j" "v_critic_slot w = Some (s_id q)"
        using i(5) q(2) unfolding reviews_inv_def by blast
      then have "\<not> ?claim w" by simp
      then show ?thesis using w by (auto simp: d vs' update_rows_map intro!: bexI[of _ w])
    qed
    have pt: "\<exists>w \<in> set (db_reviews d). v_id w = j \<and> live_review (v_state w)" if "p_review p = Some j" for j
      using that v by (intro bexI[OF _ nv]) auto
    have r: "reviews_inv S p d"
      unfolding reviews_inv_def
    proof (intro conjI)
      show "reviews_valid d (db_reviews d)" using rv by (simp add: d)
      show "\<forall>v \<in> set (db_reviews d). review_inv S p (db_slots d) (db_evidence d) v"
      proof
        fix x assume "x \<in> set (db_reviews d)"
        then obtain w where "w \<in> set (db_reviews db)" "x = (if ?claim w then ?f w else w)" unfolding dv set_map by blast
        then show "review_inv S p (db_slots d) (db_evidence d) x" using 3 by blast
      qed
    qed (use pt bk v in auto)
    have "advice_inv p (db_reviews d) (db_recommendations d) (db_resolutions d)"
      using i(6) ph' by (auto simp: advice_inv_def d)
    with r show ?thesis by blast
  qed
  then show ?thesis using i 1 2 4 p by (auto simp: coord_inv_def d)
qed

lemma keeps_admit_fresh:
  assumes inv: "coord_inv S db" and p: "db_project db = Some p" and run: "admit_fresh S uid worker lane p now db = Inr (r, d)"
  shows "coord_inv S d"
proof (cases "r = None \<and> (\<exists>ks. d = db\<lparr>db_workers := ks\<rparr>)")
  case True
  then show ?thesis using inv by auto
next
  case False
  obtain v where v: "active_review db = Inr v" and e: "lane_eligible S worker lane p v" "p_phase p \<noteq> OWNER_ACTION_REQUIRED_PHASE"
      and run': "reserve_slot S uid worker lane p v now db = Inr (r, d)"
    using run False by (auto simp: admit_fresh_def Let_def tx_run tx_ok write_worker_state_def split: if_splits sum.splits)
  have valid: "reviews_valid db (db_reviews db)" using inv by (auto simp: coord_inv_def reviews_inv_def)
  obtain s where res: "reserved S uid worker lane p (if p_phase p = CRITIC_REVIEW_PHASE then v else None) now db s d"
    using reserve_effect[OF run' valid] by blast
  show ?thesis
    by (rule reserved_inv[OF inv p e(2) v _ res]) (use e(1) in \<open>auto simp: lane_eligible_def split: option.splits\<close>)
qed

lemma keeps_admit [keep]: "keeps (coord_inv S) (admit_tx S uid worker lane now)"
proof (unfold keeps_def, intro allI impI)
  fix db r d
  assume inv: "coord_inv S db" and run: "admit_tx S uid worker lane now db = Inr (r, d)"
  obtain p where p: "db_project db = Some p" using inv by (auto simp: coord_inv_def)
  show "coord_inv S d"
  proof (cases "find (\<lambda>s. s_worker s = worker \<and> is_open s) (db_slots db)")
    case None
    then show ?thesis using run inv p keeps_admit_fresh by (auto simp: admit_tx_def tx_run state_row_def)
  next
    case (Some s)
    then show ?thesis using run inv p keeps_applyD[OF keeps_admit_existing] by (auto simp: admit_tx_def tx_run state_row_def)
  qed
qed

end
