(* ===== verification/CoordKeepAll.thy ===== *)
theory CoordKeepAll
  imports CoordKeepSlots
begin

text \<open>
  The remaining operations keep the invariant of the coordination database: tasks, evidence, reviews,
  recommendations, their resolution, and candidates; and opening the store establishes it.
\<close>

section \<open>Candidates\<close>

lemma cands_change:
  assumes "coord_inv S db" "\<And>p. db_project db = Some p \<Longrightarrow> cands_inv p (db_candidates db) \<Longrightarrow> cands_inv p cs"
  shows "coord_inv S (db\<lparr>db_candidates := cs\<rparr>)"
  using assms by (auto simp: coord_inv_def reviews_inv_def)

lemma cands_map:
  assumes c: "cands_inv p cs" and g: "\<And>c. c_id (g c) = c_id c" "\<And>c. c_generation (g c) = c_generation c" "\<And>c. c_identity (g c) = c_identity c"
    and st: "\<And>c. overlay (c_state (g c)) \<Longrightarrow> overlay (c_state c)"
  shows "cands_inv p (map g cs)"
proof -
  have "length (filter Q cs) \<le> length (filter R cs)" if "\<And>c. Q c \<Longrightarrow> R c" for Q R :: "candidate_row \<Rightarrow> bool"
    using that by (induction cs) auto
  from this[of "\<lambda>c. overlay (c_state (g c))" "\<lambda>c. overlay (c_state c)", OF st]
  have "length (filter (\<lambda>c. overlay (c_state c)) (map g cs)) \<le> 1"
    using c unfolding filter_map length_map o_def cands_inv_def by linarith
  moreover have "distinct (map c_id (map g cs))" using c g(1) by (simp add: cands_inv_def o_def)
  moreover have "c_generation (g q) = p_generation p \<and> (\<exists>d. c_identity (g q) = Some d \<and> is_hex64 d)"
    if "q \<in> set cs" "overlay (c_state (g q))" for q
    using c st[OF that(2)] that(1) g(2,3) unfolding cands_inv_def by metis
  ultimately show ?thesis unfolding cands_inv_def set_map by (simp only: ball_simps) blast
qed

lemma keeps_set_candidate:
  assumes "\<And>c. c_id (f c) = c_id c" "\<And>c. c_generation (f c) = c_generation c" "\<And>c. c_identity (f c) = c_identity c"
    and "\<And>c. P (c_state c) \<Longrightarrow> overlay (c_state (f c)) \<Longrightarrow> overlay (c_state c)"
  shows "keeps (coord_inv S) (set_candidate i P f)"
  unfolding keeps_def set_candidate_def tx_ok update_rows_map
  by (auto intro!: cands_change cands_map simp: assms split: if_splits dest: assms(4))

lemma keeps_fetch [keep]: "keeps (coord_inv S) (fetch_candidate i)"
  unfolding fetch_candidate_def by (rule keep)

lemma cands_append:
  assumes "cands_inv p cs" "c_id c \<notin> set (map c_id cs)" "\<not> (overlay (c_state c) \<and> list_ex (\<lambda>q. overlay (c_state q)) cs)"
    and "overlay (c_state c) \<Longrightarrow> c_generation c = p_generation p \<and> (\<exists>d. c_identity c = Some d \<and> is_hex64 d)"
  shows "cands_inv p (cs @ [c])"
proof -
  have "length (filter (\<lambda>c. overlay (c_state c)) (cs @ [c])) \<le> 1"
  proof (cases "overlay (c_state c)")
    case True
    then have "filter (\<lambda>q. overlay (c_state q)) cs = []" using assms(3) by (simp add: filter_empty_conv list_ex_iff)
    then show ?thesis by simp
  qed (use assms(1) in \<open>simp add: cands_inv_def\<close>)
  moreover have "distinct (map c_id (cs @ [c]))" using assms(1,2) by (simp add: cands_inv_def)
  moreover have "\<forall>q \<in> set (cs @ [c]). overlay (c_state q) \<longrightarrow> c_generation q = p_generation p \<and> (\<exists>d. c_identity q = Some d \<and> is_hex64 d)"
    using assms(1,4) unfolding cands_inv_def set_append by auto
  ultimately show ?thesis unfolding cands_inv_def by blast
qed

lemma keeps_insert_candidate:
  assumes inv: "coord_inv S db" and run: "insert_candidate c db = Inr (u, d)"
    and ov: "\<And>p. db_project db = Some p \<Longrightarrow> overlay (c_state c) \<Longrightarrow> c_generation c = p_generation p \<and> (\<exists>i. c_identity c = Some i \<and> is_hex64 i)"
  shows "coord_inv S d"
proof -
  have "d = db\<lparr>db_candidates := db_candidates db @ [c]\<rparr>" "c_id c \<notin> set (map c_id (db_candidates db))"
      "\<not> (overlay (c_state c) \<and> list_ex (\<lambda>q. overlay (c_state q)) (db_candidates db))"
    using run unfolding insert_ok by blast+
  then show ?thesis using inv ov by (auto intro!: cands_change intro: cands_append)
qed

lemma canonical_paidD:
  "canonical_paid_slot S w i db = Inr s \<Longrightarrow>
   s \<in> set (db_slots db) \<and> s_worker s = w \<and> s_state s \<in> {Active, Ambiguous} \<and> (i \<noteq> None \<longrightarrow> i = Some (s_id s)) \<and>
   (\<exists>p. db_project db = Some p \<and> s_generation s = p_generation p) \<and> s_lane s = lane_of S w \<and> validate_slot_task_binding S db s = None \<and>
   check_ids (w # (case i of None \<Rightarrow> [] | Some j \<Rightarrow> [j])) = None"
  unfolding canonical_paid_slot_def state_row_def by (auto split: option.splits if_splits dest!: find_some)

lemma keeps_register [keep]:
  assumes "is_hex64 (ck_identity k)"
  shows "keeps (coord_inv S) (register_tx S worker i k now)"
proof (unfold keeps_def, intro allI impI)
  fix db r d
  assume inv: "coord_inv S db" and run: "register_tx S worker i k now db = Inr (r, d)"
  obtain s d' where s: "candidate_of db i = None \<Longrightarrow> canonical_paid_slot S worker (Some (ck_slot k)) db = Inr s"
    and body: "(case candidate_of db i of
         None \<Rightarrow> tx_bind (tx_read active_candidate) (\<lambda>ov. if ov \<noteq> None then tx_raise (CandErr OverlayExists)
             else insert_candidate (candidate_row_of i s worker k CActive None now None))
       | Some c \<Rightarrow> if \<not> same_candidate c s worker k \<or> c_state c \<notin> {CActive, COutcomeUnknown, CTerminal} then tx_raise (CandErr CandidateConflict)
           else tx_return ()) db = Inr ((), d')"
    and fin: "fetch_candidate i d' = Inr (r, d)"
    using run unfolding register_tx_def tx_bind_ok tx_then_ok tx_returns by (auto split: option.splits)
  have "coord_inv S d'"
  proof (cases "candidate_of db i")
    case None
    then have "insert_candidate (candidate_row_of i s worker k CActive None now None) db = Inr ((), d')"
      using body by (auto simp: tx_ok split: if_splits)
    then show ?thesis
      by (rule keeps_insert_candidate[OF inv]) (use canonical_paidD[OF s[OF None]] assms in \<open>auto simp: candidate_row_of_def\<close>)
  next
    case (Some c)
    then show ?thesis using body inv by (auto simp: tx_ok split: if_splits)
  qed
  then show "coord_inv S d" using keeps_applyD[OF keeps_fetch fin] by blast
qed

lemma keeps_terminalize_candidate [keep]: "keeps (coord_inv S) (terminalize_tx S worker i slot outcome releases now)"
  unfolding terminalize_tx_def Let_def
  by (auto intro!: keeps_tx_bind keeps_then keeps_when keep keeps_set_candidate split: option.splits)

lemma keeps_reuse [keep]: "keeps (coord_inv S) (reuse_tx S worker i k now)"
proof -
  have "keeps (coord_inv S) (insert_candidate (candidate_row_of i s worker k CTerminal o' now t))" for s o' t
    unfolding keeps_def by (auto intro: keeps_insert_candidate simp: candidate_row_of_def)
  then show ?thesis unfolding reuse_tx_def by (auto intro!: keeps_tx_bind keeps_then keep split: option.splits)
qed

lemma keeps_release [keep]: "keeps (coord_inv S) (release_unknown_tx S i resolution fa now)"
  unfolding release_unknown_tx_def
  by (auto intro!: keeps_tx_bind keeps_then keep keeps_set_candidate split: option.splits)

lemma keeps_observe [keep]:
  assumes "\<not> overlay st"
  shows "keeps (coord_inv S) (observe_tx worker lane i st g now)"
proof -
  have "keeps (coord_inv S) (insert_candidate c)" if "c_state c = st" for c
    unfolding keeps_def using assms that by (auto intro: keeps_insert_candidate)
  then show ?thesis unfolding observe_tx_def using assms
    by (auto intro!: keeps_tx_bind keeps_then keep keeps_set_candidate split: option.splits)
qed

section \<open>Tasks\<close>

lemma tasks_change:
  assumes "coord_inv S db" "\<And>p. db_project db = Some p \<Longrightarrow> tasks_inv S p (db_tasks db) \<Longrightarrow> tasks_inv S p ts"
  shows "coord_inv S (db\<lparr>db_tasks := ts\<rparr>)"
  using assms by (auto simp: coord_inv_def reviews_inv_def)

lemma keeps_restage:
  assumes inv: "coord_inv S db" and run: "restage_task old new slot_exists db = Inr (r, d)"
    and new: "map_of (roster_lanes S) (t_worker new) = Some (t_lane new)" "task_identity (st_hash S) (t_task new) = Inr (t_sha new, t_bytes new)"
  shows "coord_inv S d"
proof (cases "d = db")
  case False
  let ?P = "\<lambda>t. t_worker t = t_worker new \<and> t_generation t = t_generation new \<and> t_frozen t = None"
  let ?f = "\<lambda>t. t\<lparr>t_lane := t_lane new, t_task := t_task new, t_sha := t_sha new, t_bytes := t_bytes new, t_staged := t_staged new\<rparr>"
  have d: "d = db\<lparr>db_tasks := update_rows ?P ?f (db_tasks db)\<rparr>"
    using run False by (auto simp: restage_task_def Let_def tx_ok split: if_splits)
  have "\<not> isl (validate_generation_task_row S (?f t))" if "\<not> isl (validate_generation_task_row S t)" and "?P t" for t
  proof -
    obtain x where "validate_generation_task_row S t = Inr x"
      using \<open>\<not> isl (validate_generation_task_row S t)\<close> by (metis isl_def sum.exhaust)
    then have "1 \<le> t_generation t" using validated_task by blast
    then show ?thesis using validate_taskI[of S "?f t"] new that(2) by simp
  qed
  then show ?thesis unfolding d
    by (intro tasks_change[OF inv] task_update) (auto simp: tasks_inv_def task_inv_def)
qed (use inv in simp)

lemma keeps_stage:
  assumes lane: "map_of (roster_lanes S) worker = Some lane" and ident: "task_identity (st_hash S) task = Inr (digest, nbytes)"
  shows "keeps (coord_inv S) (stage_task_tx S worker task now lane digest nbytes)"
proof (unfold keeps_def, intro allI impI)
  fix db r d
  assume inv: "coord_inv S db" and run: "stage_task_tx S worker task now lane digest nbytes db = Inr (r, d)"
  obtain p where p: "db_project db = Some p" "phase_inv S p (db_slots db)" using inv by (auto simp: coord_inv_def)
  let ?g = "if p_phase p = OWNER_ACTION_REQUIRED_PHASE then p_generation p + 1 else p_generation p"
  let ?new = "\<lparr>t_worker = worker, t_generation = ?g, t_lane = lane, t_task = task, t_sha = digest, t_bytes = nbytes, t_staged = now, t_frozen = None\<rparr>"
  have g: "1 \<le> ?g" using p(2) by (simp add: phase_inv_def)
  show "coord_inv S d"
  proof (cases "task_of db worker ?g")
    case None
    then have "insert_task S ?new db = Inr ((), d)"
      using run p(1) by (auto simp: stage_task_tx_def Let_def tx_run state_row_def tx_ok split: if_splits)
    then have d: "d = db\<lparr>db_tasks := db_tasks db @ [?new]\<rparr>"
        "(worker, ?g) \<notin> set (map (\<lambda>q. (t_worker q, t_generation q)) (db_tasks db))"
      unfolding insert_ok2 by simp_all
    have "validate_generation_task_row S ?new = Inr (digest, nbytes)"
      using validate_taskI[of S ?new] lane ident g by simp
    then have "task_inv S p ?new" by (simp add: task_inv_def)
    then show ?thesis unfolding d(1) using p(1) d(2) by (intro tasks_change[OF inv]) (auto simp: tasks_inv_def)
  next
    case (Some old)
    then obtain se where "restage_task old ?new se db = Inr (r, d)"
      using run p(1) by (auto simp: stage_task_tx_def Let_def tx_run state_row_def split: if_splits sum.splits)
    then show ?thesis by (rule keeps_restage[OF inv]) (use lane ident in simp_all)
  qed
qed

text \<open>A staging projection vouches for every task of its generation.\<close>

lemma staged_tasks_valid:
  "staged_tasks S db g ls = Inr (xs, ms) \<Longrightarrow> w \<in> set (keys ls) \<Longrightarrow> task_of db w g = Some t \<Longrightarrow> \<not> isl (validate_generation_task_row S t)"
proof (induction ls arbitrary: xs ms)
  case (Cons wl rest)
  then show ?case by (cases wl) (auto split: option.splits sum.splits if_splits prod.splits)
qed simp

lemma projection_valid:
  assumes pr: "task_staging_projection S g db = Inr x" and dist: "distinct (map (\<lambda>t. (t_worker t, t_generation t)) (db_tasks db))"
    and t: "t \<in> set (db_tasks db)" "t_generation t = g"
  shows "\<not> isl (validate_generation_task_row S t)"
proof -
  obtain xs ms where st: "staged_tasks S db g (roster_lanes S) = Inr (xs, ms)"
      and all: "\<not> list_ex (\<lambda>t. t_generation t = g \<and> \<not> has_key (roster_lanes S) (t_worker t)) (db_tasks db)"
    using pr by (auto simp: task_staging_projection_def split: sum.splits if_splits)
  have "has_key (roster_lanes S) (t_worker t)" using all t by (auto simp: list_ex_iff)
  then show ?thesis using staged_tasks_valid[OF st _ task_ofI[OF dist t(1), unfolded t(2)]] by (auto simp: image_iff)
qed

lemma freeze_effect:
  assumes run: "freeze_required_generation_tasks S g stamp db = Inr (x, d)" and dist: "distinct (map (\<lambda>t. (t_worker t, t_generation t)) (db_tasks db))"
    and valid: "\<forall>t \<in> set (db_tasks db). \<not> isl (validate_generation_task_row S t)"
  shows "\<exists>ts. d = db\<lparr>db_tasks := ts\<rparr> \<and> map (\<lambda>t. (t_worker t, t_generation t)) ts = map (\<lambda>t. (t_worker t, t_generation t)) (db_tasks db) \<and>
    (\<forall>t \<in> set ts. \<not> isl (validate_generation_task_row S t)) \<and> (\<exists>y. task_staging_projection S g db = Inr y \<and> sg_ready y)"
proof -
  let ?P = "\<lambda>t. t_generation t = g \<and> t_frozen t = None" and ?f = "\<lambda>t. t\<lparr>t_frozen := Some stamp\<rparr>"
  let ?ts = "update_rows ?P ?f (db_tasks db)"
  obtain y where y: "task_staging_projection S g db = Inr y" "sg_ready y"
    and d: "d = db\<lparr>db_tasks := ?ts\<rparr>" "task_staging_projection S g d = Inr x"
    using run by (auto simp: freeze_required_generation_tasks_def Let_def tx_ok split: if_splits)
  have keys: "map (\<lambda>t. (t_worker t, t_generation t)) ?ts = map (\<lambda>t. (t_worker t, t_generation t)) (db_tasks db)"
    by (rule update_rows_field) simp
  have "\<not> isl (validate_generation_task_row S t)" if t: "t \<in> set ?ts" for t
  proof (cases "t_generation t = g")
    case True
    show ?thesis by (rule projection_valid[OF d(2) _ _ True]) (use t dist keys d(1) in simp_all)
  next
    case False
    then have "t \<in> set (db_tasks db)" using t by (auto simp: update_rows_map split: if_splits)
    then show ?thesis using valid by blast
  qed
  then show ?thesis using d(1) keys y by blast
qed

section \<open>Evidence and reviews\<close>

lemma evidence_append:
  assumes inv: "coord_inv S db"
  shows "coord_inv S (db\<lparr>db_evidence := db_evidence db @ [e]\<rparr>)"
proof -
  from inv obtain p where p: "db_project db = Some p" "store_ok S" "header_inv S p" "phase_inv S p (db_slots db)" "slots_inv S p (db_slots db)"
    "reviews_inv S p db" "advice_inv p (db_reviews db) (db_recommendations db) (db_resolutions db)"
    "tasks_inv S p (db_tasks db)" "cands_inv p (db_candidates db)" by (rule coord_invE)
  have 1: "review_inv S p ss (es @ [e]) v" if "review_inv S p ss es v" for ss es v
    using that unfolding review_inv_def by auto
  have valid: "reviews_valid db (db_reviews db)" using p(6) by (simp add: reviews_inv_def)
  have 2: "reviews_valid (db\<lparr>db_evidence := db_evidence db @ [e]\<rparr>) (db_reviews db)"
    by (rule reviews_valid_mono[OF valid]) auto
  have "reviews_inv S p (db\<lparr>db_evidence := db_evidence db @ [e]\<rparr>)" using p(6) 1 2 by (simp add: reviews_inv_def)
  then show ?thesis using p by (simp add: coord_inv_def)
qed

lemma keeps_evidence [keep]: "keeps (coord_inv S) (insert_evidence r)"
  unfolding keeps_def insert_evidence_def by (auto simp: tx_ok evidence_append split: option.splits if_splits)

lemma evidence_inserted:
  "insert_evidence r db = Inr (u, d) \<Longrightarrow> \<exists>e \<in> set (db_evidence d). e\<lparr>e_created := e_created r\<rparr> = r"
  "insert_evidence r db = Inr (u, d) \<Longrightarrow> d = db\<lparr>db_evidence := db_evidence d\<rparr> \<and> set (db_evidence db) \<subseteq> set (db_evidence d)"
  by (auto simp: insert_evidence_def tx_ok evidence_of_def dest!: find_some split: option.splits if_splits)

lemma ensure_review_effect:
  assumes "ensure_review_for_root S entry slot g stamp db = Inr (r, d)" "d \<noteq> db"
  shows "\<exists>cw i p. critic (st_roster S) = Some cw \<and> root_evidence_canonical S entry slot g db \<and>
    \<not> list_ex (\<lambda>v. live_review (v_state v)) (db_reviews db) \<and> reviews_valid db (db_reviews db @ [new_review i g entry slot cw stamp]) \<and>
    db_project db = Some p \<and> p_generation p = g \<and> p_review p = None \<and> p_recommendation p = None \<and>
    d = db\<lparr>db_reviews := db_reviews db @ [new_review i g entry slot cw stamp], db_project := Some (p\<lparr>p_review := Some i, p_updated := stamp\<rparr>)\<rparr> \<and>
    r = Some i \<and> obstacle_review_id (st_hash S) g entry slot cw = Inr i"
proof (cases "critic (st_roster S)")
  case None
  then show ?thesis using assms by (simp add: ensure_review_for_root_def tx_run)
next
  case (Some cw)
  let ?ex = "find (\<lambda>v. v_root_slot v = slot) (db_reviews db)"
  obtain i where i: "obstacle_review_id (st_hash S) g entry slot cw = Inr i" and canon: "root_evidence_canonical S entry slot g db"
    and body: "(case ?ex of
        Some v \<Rightarrow> if (v_id v, v_generation v, v_root_entry v, v_root_slot v, v_critic_worker v) \<noteq> (i, g, entry, slot, cw)
          then tx_raise (ReviewErr DifferentReview) else tx_return (Some (v_id v))
      | None \<Rightarrow> tx_bind (tx_read (\<lambda>db. list_ex (\<lambda>v. live_review (v_state v)) (db_reviews db))) (\<lambda>other.
          if other then tx_raise (ReviewErr OtherReviewLive)
          else tx_then (insert_review (new_review i g entry slot cw stamp))
            (tx_then (cas_project (\<lambda>p. p_generation p = g \<and> p_review p = None \<and> p_recommendation p = None)
                (\<lambda>p. p\<lparr>p_review := Some i, p_updated := stamp\<rparr>) (ReviewErr ReviewPointerCAS)) (tx_return (Some i))))) db = Inr (r, d)"
  proof -
    have "\<exists>i. obstacle_review_id (st_hash S) g entry slot cw = Inr i"
      using assms(1) unfolding ensure_review_for_root_def Some option.case tx_then_ok tx_bind_ok tx_returns by blast
    then obtain i where i: "obstacle_review_id (st_hash S) g entry slot cw = Inr i" by blast
    have fe: "first_error [validate_identifier entry, validate_identifier slot] = None"
      using assms(1) unfolding ensure_review_for_root_def Some option.case tx_then_ok tx_returns by blast
    have c: "root_evidence_canonical S entry slot g db"
    proof (rule ccontr)
      assume "\<not> root_evidence_canonical S entry slot g db"
      then show False using assms(1) i by (simp add: ensure_review_for_root_def Some tx_run split: option.splits)
    qed
    show ?thesis
      by (rule that[OF i c]) (use assms(1) i c fe in \<open>simp only: ensure_review_for_root_def Some tx_run option.case sum.case not_True_eq_False if_False\<close>)
  qed
  show ?thesis
  proof (cases ?ex)
    case None
    have nl: "\<not> list_ex (\<lambda>v. live_review (v_state v)) (db_reviews db)"
    proof
      assume "list_ex (\<lambda>v. live_review (v_state v)) (db_reviews db)"
      then show False using body unfolding None by (simp only: option.case tx_run if_True sum.distinct)
    qed
    have "\<exists>p. reviews_valid db (db_reviews db @ [new_review i g entry slot cw stamp]) \<and> db_project db = Some p \<and> p_generation p = g \<and> p_review p = None \<and> p_recommendation p = None \<and>
        d = db\<lparr>db_reviews := db_reviews db @ [new_review i g entry slot cw stamp], db_project := Some (p\<lparr>p_review := Some i, p_updated := stamp\<rparr>)\<rparr> \<and> r = Some i"
      using body nl unfolding None option.case tx_steps(1) if_not_P[OF nl] tx_then_ok insert_ok2 cas_ok tx_returns by auto
    then show ?thesis using Some i canon nl by blast
  next
    case (Some v)
    then show ?thesis using body assms(2) by (auto simp: tx_ok split: if_splits)
  qed
qed

lemma keeps_ensure_review [keep]: "keeps (coord_inv S) (ensure_review_for_root S entry slot g stamp)"
proof (unfold keeps_def, intro allI impI)
  fix db r d
  assume inv: "coord_inv S db" and run: "ensure_review_for_root S entry slot g stamp db = Inr (r, d)"
  show "coord_inv S d"
  proof (cases "d = db")
    case False
    obtain cw i p0 where cw: "critic (st_roster S) = Some cw" and canon: "root_evidence_canonical S entry slot g db"
      and none: "\<not> list_ex (\<lambda>v. live_review (v_state v)) (db_reviews db)"
      and valid: "reviews_valid db (db_reviews db @ [new_review i g entry slot cw stamp])"
      and p0: "db_project db = Some p0" "p_generation p0 = g" "p_review p0 = None" "p_recommendation p0 = None"
      and d: "d = db\<lparr>db_reviews := db_reviews db @ [new_review i g entry slot cw stamp], db_project := Some (p0\<lparr>p_review := Some i, p_updated := stamp\<rparr>)\<rparr>"
      using ensure_review_effect[OF run False] by blast
    let ?v = "new_review i g entry slot cw stamp" and ?q = "p0\<lparr>p_review := Some i, p_updated := stamp\<rparr>"
    from inv p0(1) have k: "store_ok S" "header_inv S p0" "phase_inv S p0 (db_slots db)" "slots_inv S p0 (db_slots db)" "reviews_inv S p0 db"
      "advice_inv p0 (db_reviews db) (db_recommendations db) (db_resolutions db)" "tasks_inv S p0 (db_tasks db)" "cands_inv p0 (db_candidates db)"
      by (auto simp: coord_inv_def)
    have ph: "p_phase p0 = REASONING_PHASE" using k(5) p0(3) by (auto simp: reviews_inv_def)
    have dead: "\<not> live_review (v_state v)" if "v \<in> set (db_reviews db)" for v using none that by (auto simp: list_ex_iff)
    have old: "review_inv S ?q (db_slots db) (db_evidence db) v" if "v \<in> set (db_reviews db)" for v
      using k(5) that dead[OF that] by (auto simp: reviews_inv_def review_inv_def review_stage_def split: review_state.splits)
    obtain e where e: "e \<in> set (db_evidence db)" "e_id e = entry" "e_generation e = g" "e_lane e = ''root''" "obstacle_kind (e_kind e)"
      using canon by (auto simp: root_evidence_canonical_def evidence_of_def dest!: find_some split: option.splits)
    have new: "review_inv S ?q (db_slots db) (db_evidence db) ?v"
      using cw p0(2) ph e by (auto simp: review_inv_def review_stage_def new_review_def)
    have 1: "header_inv S ?q" "phase_inv S ?q (db_slots db)" "tasks_inv S ?q (db_tasks db)" "cands_inv ?q (db_candidates db)"
      using k by (simp_all add: header_inv_def phase_inv_def tasks_inv_def task_inv_def cands_inv_def)
    have 2: "slots_inv S ?q (db_slots db)" using k(4) by (simp add: slots_inv_def slot_inv_def slot_phase_def)
    have "\<forall>s \<in> set (db_slots db). \<forall>j. s_review s = Some j \<longrightarrow> (\<exists>w \<in> set (db_reviews db). v_id w = j \<and> v_critic_slot w = Some (s_id s))"
      using k(5) unfolding reviews_inv_def by blast
    then have 3: "reviews_inv S ?q d"
      using old new valid by (auto simp: reviews_inv_def d new_review_def)
    have 4: "advice_inv ?q (db_reviews d) (db_recommendations db) (db_resolutions db)" using k(6) p0(4) by (auto simp: advice_inv_def)
    show ?thesis using k(1) 1 2 3 4 by (simp add: coord_inv_def d)
  qed (use inv in simp)
qed

lemma keeps_record_root [keep]: "keeps (coord_inv S) (record_root_tx S worker kind entry slot now)"
  unfolding record_root_tx_def by (auto intro!: keeps_tx_bind keeps_then keep)

end
