(* ===== verification/CoordKeepAdvice.thy ===== *)
theory CoordKeepAdvice
  imports CoordKeepAll
begin

text \<open>
  The confirmation of an obstacle and the owner's resolution of the recommendation it leaves keep the
  invariant of the coordination database; opening the store establishes it.
\<close>

section \<open>Confirmation\<close>

lemma designated_reviewD:
  "designated_review db s entry = Some v \<Longrightarrow> v \<in> set (db_reviews db) \<and> s_review s = Some (v_id v) \<and> v_state v \<in> {VActive, VConfirmed} \<and>
   v_critic_slot v = Some (s_id s) \<and> v_root_entry v = entry"
  unfolding designated_review_def review_of_def by (auto dest!: find_some split: option.splits if_splits)

lemma review_ofI: "distinct (map v_id (db_reviews db)) \<Longrightarrow> v \<in> set (db_reviews db) \<Longrightarrow> review_of db (v_id v) = Some v"
  unfolding review_of_def by (rule find_unique)

lemma recommendation_ofI: "distinct (map r_id (db_recommendations db)) \<Longrightarrow> r \<in> set (db_recommendations db) \<Longrightarrow> recommendation_of db (r_id r) = Some r"
  unfolding recommendation_of_def by (rule find_unique)

text \<open>What a confirmation does: it finds the review confirmed by the same entry, with its
  recommendation, or confirms it and opens the owner's gate.\<close>

definition confirmed_now :: "string \<Rightarrow> review_row \<Rightarrow> string \<Rightarrow> rat \<Rightarrow> coord_db \<Rightarrow> project_row \<Rightarrow> coord_db \<Rightarrow> bool" where
  "confirmed_now uid v entry now db p d \<longleftrightarrow>
     (let i = ''recommendation_'' @ uid; h = (\<lambda>u. if v_id u = v_id v \<and> v_state u = VActive \<and> v_confirmation u = None
            then u\<lparr>v_state := VConfirmed, v_confirmation := Some entry\<rparr> else u)
      in v_state v = VActive \<and> reviews_valid db (map h (db_reviews db)) \<and> i \<notin> set (map r_id (db_recommendations db)) \<and>
         d = db\<lparr>db_reviews := map h (db_reviews db),
           db_recommendations := db_recommendations db @ [\<lparr>r_id = i, r_generation = p_generation p, r_state = OWNER_ACTION_REQUIRED_PHASE,
             r_review = Some (v_id v), r_root_entry = v_root_entry v, r_critic_entry = entry, r_authorized = 0, r_request = None, r_created = now\<rparr>],
           db_project := Some (p\<lparr>p_phase := OWNER_ACTION_REQUIRED_PHASE, p_recommendation := Some i, p_updated := now\<rparr>)\<rparr>)"

lemma confirmable:
  assumes inv: "coord_inv S db" and p: "db_project db = Some p" and v: "v \<in> set (db_reviews db)" "v_state v \<in> {VActive, VConfirmed}"
  shows "p_review p = Some (v_id v)" "v_generation v = p_generation p" "root_evidence_current db (v_root_entry v) (v_generation v)"
    "distinct (map v_id (db_reviews db))" "distinct (map r_id (db_recommendations db))" "review_of db (v_id v) = Some v"
    "v_state v = VConfirmed \<Longrightarrow> p_phase p = OWNER_ACTION_REQUIRED_PHASE"
    "v_state v = VActive \<Longrightarrow> p_phase p = CRITIC_REVIEW_PHASE \<and> v_confirmation v = None \<and> p_recommendation p = None"
proof -
  from inv p have k: "reviews_inv S p db" "advice_inv p (db_reviews db) (db_recommendations db) (db_resolutions db)"
    by (simp_all add: coord_inv_def)
  have vi: "review_inv S p (db_slots db) (db_evidence db) v" using k(1) v(1) by (simp add: reviews_inv_def)
  show d: "distinct (map v_id (db_reviews db))" using k(1) by (simp add: reviews_inv_def reviews_valid_def)
  show "distinct (map r_id (db_recommendations db))" using k(2) by (simp add: advice_inv_def)
  show "p_review p = Some (v_id v)" "v_generation v = p_generation p" using vi v(2) by (auto simp: review_inv_def)
  show "root_evidence_current db (v_root_entry v) (v_generation v)"
    using vi unfolding review_inv_def root_evidence_current_def list_ex_iff by blast
  show "review_of db (v_id v) = Some v" by (rule review_ofI[OF d v(1)])
  show "v_state v = VConfirmed \<Longrightarrow> p_phase p = OWNER_ACTION_REQUIRED_PHASE" using vi by (simp add: review_inv_def review_stage_def)
  assume "v_state v = VActive"
  then have "p_phase p = CRITIC_REVIEW_PHASE" "v_confirmation v = None" using vi by (simp_all add: review_inv_def review_stage_def)
  then show "p_phase p = CRITIC_REVIEW_PHASE \<and> v_confirmation v = None \<and> p_recommendation p = None"
    using k(2) by (simp add: advice_inv_def)
qed

lemma confirmed_advice:
  assumes inv: "coord_inv S db" and p: "db_project db = Some p" and v: "v \<in> set (db_reviews db)" "v_state v = VConfirmed"
  shows "\<exists>i q. p_recommendation p = Some i \<and> recommendation_of db i = Some q \<and> r_review q = Some (v_id v) \<and> r_root_entry q = v_root_entry v \<and>
    v_confirmation v = Some (r_critic_entry q)"
proof -
  have v': "v_state v \<in> {VActive, VConfirmed}" using v(2) by simp
  note c = confirmable[OF inv p v(1) v']
  have adv: "advice_inv p (db_reviews db) (db_recommendations db) (db_resolutions db)" using inv p by (simp add: coord_inv_def)
  then have "p_recommendation p \<noteq> None" using c(7)[OF v(2)] by (simp add: advice_inv_def)
  then obtain i where i: "p_recommendation p = Some i" by blast
  then obtain q w where q: "q \<in> set (db_recommendations db)" "r_id q = i" "r_review q = p_review p"
      and w: "w \<in> set (db_reviews db)" "r_review q = Some (v_id w)" "r_root_entry q = v_root_entry w" "v_confirmation w = Some (r_critic_entry q)"
    using adv unfolding advice_inv_def by blast
  have "v_id w = v_id v" using q(3) w(2) c(1) by simp
  then have "w = v" using distinct_map_eq[OF c(4) w(1) v(1)] by blast
  moreover have "recommendation_of db i = Some q" using recommendation_ofI[OF c(5) q(1)] q(2) by simp
  ultimately show ?thesis using i w by blast
qed

lemma confirm_again:
  assumes inv: "coord_inv S db" and p: "db_project db = Some p" and v: "v \<in> set (db_reviews db)" "v_state v = VConfirmed"
    and ev: "critic_evidence_current db entry (v_root_entry v) (v_generation v)"
    and run: "confirm_review v entry db = Inr (u, db1)" "ensure_recommendation uid (v_id v) (v_root_entry v) entry (v_generation v) now db1 = Inr (r, d)"
  shows "d = db \<and> v_confirmation v = Some entry \<and> r = p_recommendation p \<and> r \<noteq> None"
proof -
  have v': "v_state v \<in> {VActive, VConfirmed}" using v(2) by simp
  note c = confirmable[OF inv p v(1) v']
  have e: "v_confirmation v = Some entry" "db1 = db" using run(1) v(2) by (auto simp: confirm_review_def tx_ok split: if_splits)
  obtain i q where i: "p_recommendation p = Some i" "recommendation_of db i = Some q" "r_review q = Some (v_id v)"
      "r_root_entry q = v_root_entry v" "v_confirmation v = Some (r_critic_entry q)"
    using confirmed_advice[OF inv p v] by blast
  have ok: "recommendable (v_id v) (v_root_entry v) entry (v_generation v) db"
    using c(3,6) e(1) v(2) ev by (simp add: recommendable_def)
  have "r = Some i \<and> d = db"
    using run(2) e i p c(1,2) c(7)[OF v(2)] ok by (simp add: ensure_recommendation_def tx_run state_row_def)
  then show ?thesis using e(1) i(1) by simp
qed

lemma confirm_first:
  assumes inv: "coord_inv S db" and p: "db_project db = Some p" and v: "v \<in> set (db_reviews db)" "v_state v = VActive"
    and ev: "critic_evidence_current db entry (v_root_entry v) (v_generation v)"
    and run: "confirm_review v entry db = Inr (u, db1)" "ensure_recommendation uid (v_id v) (v_root_entry v) entry (v_generation v) now db1 = Inr (r, d)"
  shows "confirmed_now uid v entry now db p d \<and> r = Some (''recommendation_'' @ uid)"
proof -
  have v': "v_state v \<in> {VActive, VConfirmed}" using v(2) by simp
  note c = confirmable[OF inv p v(1) v'] and st = conjunct1[OF c(8)[OF v(2)]] and st' = conjunct2[OF c(8)[OF v(2)]]
  let ?h = "\<lambda>u. if v_id u = v_id v \<and> v_state u = VActive \<and> v_confirmation u = None then u\<lparr>v_state := VConfirmed, v_confirmation := Some entry\<rparr> else u"
  have d1: "reviews_valid db (map ?h (db_reviews db))" "db1 = db\<lparr>db_reviews := map ?h (db_reviews db)\<rparr>"
    using run(1) v(2) by (simp_all add: confirm_review_def tx_ok update_rows_map)
  have hv: "?h v = v\<lparr>v_state := VConfirmed, v_confirmation := Some entry\<rparr>" using v(2) st' by simp
  have "find (\<lambda>w. v_id w = v_id v) (map ?h (db_reviews db)) = map_option ?h (find (\<lambda>w. v_id w = v_id v) (db_reviews db))"
    by (rule find_map_eq) simp
  then have "review_of db1 (v_id v) = Some (?h v)" using c(6) by (simp add: review_of_def d1(2))
  then have ok: "recommendable (v_id v) (v_root_entry v) entry (v_generation v) db1"
    unfolding hv using c(3) ev by (simp add: recommendable_def d1(2) root_evidence_current_def critic_evidence_current_def)
  let ?r = "\<lparr>r_id = ''recommendation_'' @ uid, r_generation = p_generation p, r_state = OWNER_ACTION_REQUIRED_PHASE,
             r_review = Some (v_id v), r_root_entry = v_root_entry v, r_critic_entry = entry, r_authorized = 0, r_request = None, r_created = now\<rparr>"
  have p1: "db_project db1 = Some p" using p d1(2) by simp
  have "(let i = ''recommendation_'' @ uid in tx_then (insert_recommendation ?r)
         (tx_then (cas_project (\<lambda>q. p_generation q = p_generation p \<and> p_phase q = CRITIC_REVIEW_PHASE \<and> p_review q = Some (v_id v) \<and> p_recommendation q = None)
             (\<lambda>q. q\<lparr>p_phase := OWNER_ACTION_REQUIRED_PHASE, p_recommendation := Some i, p_updated := now\<rparr>) (AdviceErr RecommendationCAS))
           (tx_return (Some i)))) db1 = Inr (r, d)"
    using run(2) p1 c(1,2) st st' ok by (simp add: ensure_recommendation_def tx_run state_row_def)
  then have "r = Some (''recommendation_'' @ uid) \<and> ''recommendation_'' @ uid \<notin> set (map r_id (db_recommendations db)) \<and>
      d = db1\<lparr>db_recommendations := db_recommendations db @ [?r],
        db_project := Some (p\<lparr>p_phase := OWNER_ACTION_REQUIRED_PHASE, p_recommendation := Some (''recommendation_'' @ uid), p_updated := now\<rparr>)\<rparr>"
    unfolding Let_def tx_then_ok insert_ok2 cas_ok tx_returns using p1 d1(2) by clarsimp
  then show ?thesis using v(2) d1 by (simp add: confirmed_now_def Let_def)
qed

lemma confirmed_now_inv:
  assumes inv: "coord_inv S db" and p: "db_project db = Some p" and v: "v \<in> set (db_reviews db)"
    and ev: "critic_evidence_current db entry (v_root_entry v) (v_generation v)" and c: "confirmed_now uid v entry now db p d"
  shows "coord_inv S d"
proof -
  let ?i = "''recommendation_'' @ uid"
  let ?h = "\<lambda>u. if v_id u = v_id v \<and> v_state u = VActive \<and> v_confirmation u = None then u\<lparr>v_state := VConfirmed, v_confirmation := Some entry\<rparr> else u"
  let ?q = "p\<lparr>p_phase := OWNER_ACTION_REQUIRED_PHASE, p_recommendation := Some ?i, p_updated := now\<rparr>"
  let ?r = "\<lparr>r_id = ?i, r_generation = p_generation p, r_state = OWNER_ACTION_REQUIRED_PHASE, r_review = Some (v_id v),
     r_root_entry = v_root_entry v, r_critic_entry = entry, r_authorized = 0, r_request = None, r_created = now\<rparr>"
  from c have act: "v_state v = VActive" and valid: "reviews_valid db (map ?h (db_reviews db))" and fresh: "?i \<notin> set (map r_id (db_recommendations db))"
    and d: "d = db\<lparr>db_reviews := map ?h (db_reviews db), db_recommendations := db_recommendations db @ [?r], db_project := Some ?q\<rparr>"
    by (simp_all add: confirmed_now_def Let_def)
  have v': "v_state v \<in> {VActive, VConfirmed}" using act by simp
  note k = confirmable[OF inv p v v'] and st = conjunct1[OF k(8)[OF act]] and st' = conjunct2[OF k(8)[OF act]]
  from inv p have i: "store_ok S" "header_inv S p" "phase_inv S p (db_slots db)" "slots_inv S p (db_slots db)" "reviews_inv S p db"
    "advice_inv p (db_reviews db) (db_recommendations db) (db_resolutions db)" "tasks_inv S p (db_tasks db)" "cands_inv p (db_candidates db)"
    by (simp_all add: coord_inv_def)
  have hv: "?h v = v\<lparr>v_state := VConfirmed, v_confirmation := Some entry\<rparr>" using act st' by simp
  have nv: "?h v \<in> set (db_reviews d)" using v by (simp add: d)
  have 0: "header_inv S ?q" using i(2) by (simp add: header_inv_def)
  have 1: "phase_inv S ?q (db_slots d)" using i(3) st by (simp add: phase_inv_def d)
  have 2: "slots_inv S ?q (db_slots d)" using i(4) st by (auto simp: slots_inv_def slot_inv_def slot_phase_def d)
  have vi: "review_inv S p (db_slots db) (db_evidence db) w" if "w \<in> set (db_reviews db)" for w using i(5) that by (simp add: reviews_inv_def)
  have dead: "\<not> live_review (v_state w)" if "w \<in> set (db_reviews db)" "w \<noteq> v" for w
  proof
    assume l: "live_review (v_state w)"
    then have "p_review p = Some (v_id w)" using vi[OF that(1)] unfolding review_inv_def by blast
    then show False using k(1,4) that v by (auto dest: distinct_map_eq)
  qed
  have 3: "review_inv S ?q (db_slots db) (db_evidence db) (?h w)" if w: "w \<in> set (db_reviews db)" for w
  proof (cases "w = v")
    case True
    then show ?thesis unfolding True hv using vi[OF v] act by (auto simp: review_inv_def review_stage_def)
  next
    case False
    then have "?h w = w" using k(4) v w by (auto dest: distinct_map_eq)
    then show ?thesis using vi[OF w] dead[OF w False] by (auto simp: review_inv_def review_stage_def split: review_state.splits)
  qed
  have same: "v_id (?h w) = v_id w" "v_critic_slot (?h w) = v_critic_slot w" for w by simp_all
  have back_link: "\<exists>w \<in> set (db_reviews d). v_id w = j \<and> v_critic_slot w = Some (s_id s)" if s: "s \<in> set (db_slots db)" "s_review s = Some j" for s j
  proof -
    obtain w where w: "w \<in> set (db_reviews db)" "v_id w = j" "v_critic_slot w = Some (s_id s)" using i(5) s unfolding reviews_inv_def by blast
    then have "?h w \<in> set (db_reviews d)" by (simp add: d)
    then show ?thesis using w(2,3) same by (intro bexI[of _ "?h w"]) auto
  qed
  have 4: "reviews_inv S ?q d"
    unfolding reviews_inv_def
  proof (intro conjI)
    show "reviews_valid d (db_reviews d)" using valid by (simp add: d)
    have fields: "db_reviews d = map ?h (db_reviews db)" "db_slots d = db_slots db" "db_evidence d = db_evidence db" by (simp_all add: d)
    show "\<forall>x \<in> set (db_reviews d). review_inv S ?q (db_slots d) (db_evidence d) x"
      unfolding fields using 3 unfolding set_map ball_simps by blast
    show "\<forall>j. p_review ?q = Some j \<longrightarrow> (\<exists>w \<in> set (db_reviews d). v_id w = j \<and> live_review (v_state w))"
      using k(1) hv by (auto intro!: bexI[OF _ nv])
    show "p_phase ?q \<noteq> REASONING_PHASE \<longrightarrow> p_review ?q \<noteq> None" using k(1) by simp
    show "\<forall>s \<in> set (db_slots d). \<forall>j. s_review s = Some j \<longrightarrow> (\<exists>w \<in> set (db_reviews d). v_id w = j \<and> v_critic_slot w = Some (s_id s))"
      using back_link by (simp add: d)
  qed
  have 5: "advice_inv ?q (db_reviews d) (db_recommendations d) (db_resolutions d)"
    unfolding advice_inv_def
  proof (intro conjI allI impI)
    show "distinct (map r_id (db_recommendations d))" using k(5) fresh by (simp add: d)
    show sub: "set (map x_recommendation (db_resolutions d)) \<subseteq> set (map r_id (db_recommendations d))"
      using i(6) by (auto simp: advice_inv_def d)
    show "\<forall>r \<in> set (db_recommendations d). r_state r = OWNER_ACTION_REQUIRED_PHASE \<and> r_authorized r = 0 \<and> r_request r = None"
      using i(6) by (simp add: advice_inv_def d)
    show "(p_recommendation ?q \<noteq> None) = (p_phase ?q = OWNER_ACTION_REQUIRED_PHASE)" by simp
    fix j assume j: "p_recommendation ?q = Some j"
    then show "j \<notin> set (map x_recommendation (db_resolutions d))" using fresh i(6) by (auto simp: advice_inv_def d)
    show "\<exists>r \<in> set (db_recommendations d). r_id r = j \<and> r_generation r = p_generation ?q \<and> r_review r = p_review ?q \<and>
        (\<exists>w \<in> set (db_reviews d). r_review r = Some (v_id w) \<and> r_root_entry r = v_root_entry w \<and> v_confirmation w = Some (r_critic_entry r))"
    proof (rule bexI)
      show "?r \<in> set (db_recommendations d)" by (simp add: d)
      show "r_id ?r = j \<and> r_generation ?r = p_generation ?q \<and> r_review ?r = p_review ?q \<and>
        (\<exists>w \<in> set (db_reviews d). r_review ?r = Some (v_id w) \<and> r_root_entry ?r = v_root_entry w \<and> v_confirmation w = Some (r_critic_entry ?r))"
        using j k(1) hv by (auto intro!: bexI[OF _ nv])
    qed
  qed
  have 6: "tasks_inv S ?q (db_tasks d)" using i(7) st by (auto simp: tasks_inv_def task_inv_def d)
  have 7: "cands_inv ?q (db_candidates d)" using i(8) by (simp add: cands_inv_def d)
  have "db_project d = Some ?q" by (simp add: d)
  then show ?thesis using i(1) 0 1 2 4 5 6 7 unfolding coord_inv_def by blast
qed

lemma keeps_confirmation:
  assumes inv: "coord_inv S db" and v: "v \<in> set (db_reviews db)" "v_state v \<in> {VActive, VConfirmed}"
    and ev: "critic_evidence_current db entry (v_root_entry v) (v_generation v)"
    and run: "confirm_review v entry db = Inr (u, db1)" "ensure_recommendation uid (v_id v) (v_root_entry v) entry (v_generation v) now db1 = Inr (r, d)"
  shows "coord_inv S d"
proof -
  obtain p where p: "db_project db = Some p" using inv by (auto simp: coord_inv_def)
  show ?thesis
  proof (cases "v_state v = VActive")
    case True
    show ?thesis
      by (rule confirmed_now_inv[OF inv p v(1) ev conjunct1[OF confirm_first[OF inv p v(1) True ev run]]])
  next
    case False
    then have "v_state v = VConfirmed" using v(2) by simp
    then show ?thesis using confirm_again[OF inv p v(1) _ ev run] inv by blast
  qed
qed

lemma critic_slot_generation:
  assumes inv: "coord_inv S db" and v: "v \<in> set (db_reviews db)" "v_critic_slot v = Some (s_id s)" and s: "s \<in> set (db_slots db)"
  shows "v_generation v = s_generation s"
proof -
  obtain p where "slots_inv S p (db_slots db)" "reviews_inv S p db" using inv unfolding coord_inv_def by blast
  then have d: "distinct (map s_id (db_slots db))" and "review_inv S p (db_slots db) (db_evidence db) v"
    using v(1) by (simp_all add: slots_inv_def reviews_inv_def)
  then obtain q where "q \<in> set (db_slots db)" "s_id q = s_id s" "s_generation q = v_generation v"
    using v(2) unfolding review_inv_def by blast
  then show ?thesis using distinct_map_eq[OF d _ s] by metis
qed

lemma critic_entry_evidence:
  assumes inv: "coord_inv S db" and s: "s \<in> set (db_slots db)" and v: "designated_review db s root_entry = Some v"
    and e: "e_id e = entry" "e_generation e = s_generation s" "e_lane e = ''critic''" "e_kind e = ''critic_confirmation''" "e_confirms e = Some root_entry"
    and run: "insert_evidence e db = Inr (u, d1)"
  shows "coord_inv S d1" "v \<in> set (db_reviews d1)" "v_state v \<in> {VActive, VConfirmed}"
    "critic_evidence_current d1 entry (v_root_entry v) (v_generation v)" "v_root_entry v = root_entry" "v_generation v = s_generation s"
proof -
  note dv = designated_reviewD[OF v]
  show "coord_inv S d1" using keeps_applyD[OF keeps_evidence run inv] .
  have same: "db_reviews d1 = db_reviews db" using evidence_inserted(2)[OF run] by (metis coord_db.select_convs(8) coord_db.surjective coord_db.update_convs(5))
  show g: "v_generation v = s_generation s" using critic_slot_generation[OF inv _ _ s] dv by blast
  obtain x where x: "x \<in> set (db_evidence d1)" "x\<lparr>e_created := e_created e\<rparr> = e" using evidence_inserted(1)[OF run] by blast
  then have "e_id x = e_id e" "e_generation x = e_generation e" "e_lane x = e_lane e" "e_kind x = e_kind e" "e_confirms x = e_confirms e"
    by (metis evidence_row.select_convs evidence_row.surjective evidence_row.update_convs(8))+
  then show "critic_evidence_current d1 entry (v_root_entry v) (v_generation v)"
    unfolding critic_evidence_current_def list_ex_iff using x(1) e g dv by auto
  show "v \<in> set (db_reviews d1)" "v_state v \<in> {VActive, VConfirmed}" "v_root_entry v = root_entry" using dv same by auto
qed

lemma keeps_critic_entry:
  assumes inv: "coord_inv S db" and s: "s \<in> set (db_slots db)" and v: "designated_review db s root_entry = Some v"
    and e: "e_id e = entry" "e_generation e = s_generation s" "e_lane e = ''critic''" "e_kind e = ''critic_confirmation''" "e_confirms e = Some root_entry"
    and run: "insert_evidence e db = Inr (u, d1)" "confirm_review v entry d1 = Inr (w, d2)"
      "ensure_recommendation uid (v_id v) root_entry entry (s_generation s) now d2 = Inr (r, d)"
  shows "coord_inv S d"
proof -
  note ce = critic_entry_evidence[OF inv s v e run(1)]
  show ?thesis by (rule keeps_confirmation[OF ce(1-4) run(2)]) (use ce(5,6) run(3) in simp)
qed

lemma keeps_confirm_root [keep]: "keeps (coord_inv S) (confirm_root_tx S uid worker root_entry entry slot_id now)"
proof (unfold keeps_def, intro allI impI)
  fix db r d
  assume inv: "coord_inv S db" and run: "confirm_root_tx S uid worker root_entry entry slot_id now db = Inr (r, d)"
  obtain s v d1 d2 rec where s: "canonical_paid_slot S worker (Some slot_id) db = Inr s"
    and v: "designated_review db s root_entry = Some v"
    and steps: "insert_evidence (confirmation_row s worker entry root_entry now) db = Inr ((), d1)" "confirm_review v entry d1 = Inr ((), d2)"
      "ensure_recommendation uid (v_id v) root_entry entry (s_generation s) now d2 = Inr (rec, d)"
    using run unfolding confirm_root_tx_def tx_bind_ok tx_then_ok tx_returns by (auto simp: tx_ok split: option.splits if_splits)
  show "coord_inv S d"
    by (rule keeps_critic_entry[OF inv _ v _ _ _ _ _ steps]) (use canonical_paidD[OF s] in \<open>auto simp: confirmation_row_def\<close>)
qed

text \<open>A collected identity of a critic is a confirmation.\<close>

definition confirmations :: "slot_row \<Rightarrow> evidence_identity list \<Rightarrow> bool" where
  "confirmations s is \<longleftrightarrow> (s_lane s = ''critic'' \<longrightarrow> list_all (\<lambda>i. fst (snd i) = ''critic_confirmation'') is)"

lemma entry_confirmation: "entry_evidence s d k = Some i \<Longrightarrow> confirmations s [i]"
  by (auto simp: entry_evidence_def confirmations_def split: json.splits if_splits)

lemma matching_confirmation: "matching_memory_evidence s x = Inr (Some i) \<Longrightarrow> confirmations s [i]"
  by (auto simp: matching_memory_evidence_def entry_confirmation split: json.splits if_splits)

lemma collect_confirmations: "collect_identities s xs acc = Inr is \<Longrightarrow> confirmations s acc \<Longrightarrow> confirmations s is"
proof (induction s xs acc rule: collect_identities.induct)
  case (2 s x xs acc)
  show ?case
  proof (cases "matching_memory_evidence s x")
    case (Inr m)
    show ?thesis
    proof (cases m)
      case (Some i)
      then have "confirmations s (acc @ [i])" using matching_confirmation[of s x i] Inr "2.prems"(2) by (simp add: confirmations_def)
      then show ?thesis using 2 Inr Some by (auto split: option.splits if_splits)
    qed (use 2 Inr in auto)
  qed (use 2 in auto)
qed simp

lemma accept_identity_slots:
  assumes "accept_identity S uid worker s i now db = Inr (r, d)"
  shows "db_slots d = db_slots db"
proof -
  have ev: "insert_evidence e x = Inr (u, y) \<Longrightarrow> db_slots y = db_slots x" for e x u y
    using evidence_inserted(2)[of e x u y] by (metis coord_db.select_convs(2) coord_db.surjective coord_db.update_convs(5))
  have rv: "ensure_review_for_root S a b g n x = Inr (u, y) \<Longrightarrow> db_slots y = db_slots x" for a b g n x u y
    using ensure_review_effect[of S a b g n x u y] by (cases "y = x") auto
  have cf: "confirm_review v b x = Inr (u, y) \<Longrightarrow> db_slots y = db_slots x" for v b x u y
    by (auto simp: confirm_review_def tx_ok split: if_splits)
  have rc: "ensure_recommendation a b c k g n x = Inr (u, y) \<Longrightarrow> db_slots y = db_slots x" for a b c k g n x u y
    by (auto simp: ensure_recommendation_def tx_ok Let_def split: if_splits option.splits)
  show ?thesis
    using assms unfolding accept_identity_def by (auto simp: tx_ok dest!: ev rv cf rc split: prod.splits if_splits option.splits)
qed

text \<open>What accepting a critic's identity runs.\<close>

lemma accept_critic:
  assumes lane: "s_lane s = ''critic''" and c: "confirmations s [i]" and run: "accept_identity S uid worker s i now db = Inr (r, d)"
  shows "\<exists>e entry root_entry v d1 d2 rec. e_id e = entry \<and> e_generation e = s_generation s \<and> e_lane e = ''critic'' \<and>
    e_kind e = ''critic_confirmation'' \<and> e_confirms e = Some root_entry \<and> designated_review db s root_entry = Some v \<and>
    insert_evidence e db = Inr ((), d1) \<and> confirm_review v entry d1 = Inr ((), d2) \<and>
    ensure_recommendation uid (v_id v) root_entry entry (s_generation s) now d2 = Inr (rec, d)"
proof -
  obtain entry kind confirms where i: "i = (entry, kind, confirms)" by (cases i)
  let ?e = "\<lparr>e_id = entry, e_generation = s_generation s, e_slot = s_id s, e_worker = worker, e_lane = s_lane s,
            e_kind = kind, e_confirms = confirms, e_created = now\<rparr>"
  obtain d1 d2 v x rec where 1: "insert_evidence ?e db = Inr ((), d1)" and x: "confirms = Some x" and v: "designated_review d1 s x = Some v"
    and 2: "confirm_review v entry d1 = Inr ((), d2)" "ensure_recommendation uid (v_id v) x entry (s_generation s) now d2 = Inr (rec, d)"
    using run lane unfolding accept_identity_def i prod.case
    by (auto simp: tx_ok py_opt_text_def split: option.splits if_splits)
  have same: "db_reviews d1 = db_reviews db"
    using evidence_inserted(2)[OF 1] by (metis coord_db.select_convs(8) coord_db.surjective coord_db.update_convs(5))
  have v': "designated_review db s x = Some v" using v unfolding designated_review_def review_of_def same .
  have k: "kind = ''critic_confirmation''" using c lane by (simp add: confirmations_def i)
  show ?thesis
    by (rule exI[of _ ?e], rule exI[of _ entry], rule exI[of _ x], rule exI[of _ v], rule exI[of _ d1], rule exI[of _ d2], rule exI[of _ rec])
      (use 1 2 x v' k lane in simp)
qed

lemma keeps_accept_identity:
  assumes inv: "coord_inv S db" and s: "s \<in> set (db_slots db)" and c: "confirmations s [i]"
    and run: "accept_identity S uid worker s i now db = Inr (r, d)"
  shows "coord_inv S d"
proof (cases "s_lane s = ''critic''")
  case True
  then show ?thesis using accept_critic[OF True c run] keeps_critic_entry[OF inv s] by blast
next
  case False
  obtain entry kind confirms where i: "i = (entry, kind, confirms)" by (cases i)
  obtain d1 rv e where "insert_evidence e db = Inr ((), d1)" "ensure_review_for_root S entry (s_id s) (s_generation s) now d1 = Inr (rv, d)"
    using run False unfolding accept_identity_def i prod.case by (auto simp: tx_ok split: option.splits if_splits)
  then show ?thesis using keeps_applyD[OF keeps_evidence _ inv] keeps_applyD[OF keeps_ensure_review] by blast
qed

lemma keeps_accept_identities:
  "coord_inv S db \<Longrightarrow> s \<in> set (db_slots db) \<Longrightarrow> confirmations s is \<Longrightarrow> accept_identities S uid worker s is now acc db = Inr (r, d) \<Longrightarrow>
   coord_inv S d"
proof (induction "is" arbitrary: db acc)
  case (Cons i "is")
  obtain x1 x2 d1 where 1: "accept_identity S uid worker s i now db = Inr ((x1, x2), d1)"
    and 2: "accept_identities S uid worker s is now (if s_lane s = ''root'' then (x1, snd acc) else (x1, x2)) d1 = Inr (r, d)"
    using Cons.prems(4) by (auto simp: tx_bind_ok split: prod.splits)
  have c: "confirmations s [i]" "confirmations s is" using Cons.prems(3) by (auto simp: confirmations_def)
  have "coord_inv S d1" by (rule keeps_accept_identity[OF Cons.prems(1,2) c(1) 1])
  moreover have "s \<in> set (db_slots d1)" using accept_identity_slots[OF 1] Cons.prems(2) by simp
  ultimately show ?case by (rule Cons.IH[OF _ _ c(2) 2])
qed (simp add: tx_ok)

lemma terminal_slotD:
  "terminal_reconciliation_slot S worker slot_id db = Inr s \<Longrightarrow> s \<in> set (db_slots db) \<and> s_id s = slot_id \<and> s_worker s = worker \<and> s_state s \<noteq> Prepared"
  by (auto simp: terminal_reconciliation_slot_def state_row_def split: option.splits if_splits dest!: find_some)

lemma keeps_reconcile [keep]: "keeps (coord_inv S) (reconcile_tx S uid slot_id worker entries now)"
proof (unfold keeps_def, intro allI impI)
  fix db r d
  assume inv: "coord_inv S db" and run: "reconcile_tx S uid slot_id worker entries now db = Inr (r, d)"
  obtain s "is" x where s: "terminal_reconciliation_slot S worker slot_id db = Inr s" and c: "collect_identities s entries [] = Inr is"
    and a: "accept_identities S uid worker s is now (None, None) db = Inr (x, d)"
    using run unfolding reconcile_tx_def tx_bind_ok tx_then_ok tx_returns by (auto simp: tx_ok split: prod.splits)
  have "confirmations s is" by (rule collect_confirmations[OF c]) (simp add: confirmations_def)
  then show "coord_inv S d" using keeps_accept_identities[OF inv _ _ a] terminal_slotD[OF s] by blast
qed

section \<open>Resolution\<close>

text \<open>The gate: generation, phase, live review and open recommendation.\<close>

type_synonym gate = "int \<times> string \<times> string option \<times> string option"

definition gate_of :: "coord_db \<Rightarrow> gate option" where
  "gate_of db = map_option (\<lambda>p. (p_generation p, p_phase p, p_review p, p_recommendation p)) (db_project db)"

definition resolved_now :: "coord_store \<Rightarrow> recommendation_row \<Rightarrow> resolution_row \<Rightarrow> rat \<Rightarrow> coord_db \<Rightarrow> project_row \<Rightarrow> coord_db \<Rightarrow> bool" where
  "resolved_now S r x now db p d \<longleftrightarrow>
     (\<exists>ts v. r_review r = Some v \<and> p_review p = Some v \<and> recommendation_of db (r_id r) = Some r \<and> p_generation p = r_generation r \<and>
        p_phase p = OWNER_ACTION_REQUIRED_PHASE \<and> p_recommendation p = Some (r_id r) \<and> resolution_of db (r_id r) = None \<and>
        (\<forall>s \<in> set (db_slots db). s_generation s = r_generation r \<longrightarrow> s_state s = Terminal) \<and> active_candidate db = None \<and>
        confirmed_binding db r v \<and> x_recommendation x = r_id r \<and>
        map (\<lambda>t. (t_worker t, t_generation t)) ts = map (\<lambda>t. (t_worker t, t_generation t)) (db_tasks db) \<and>
        (\<forall>t \<in> set ts. \<not> isl (validate_generation_task_row S t)) \<and>
        (\<exists>y. task_staging_projection S (r_generation r + 1) db = Inr y \<and> sg_ready y) \<and>
        (let h = (\<lambda>u. if v_id u = v \<and> v_state u = VConfirmed \<and> v_confirmation u = Some (r_critic_entry r) then u\<lparr>v_state := VResolved\<rparr> else u)
         in reviews_valid db (map h (db_reviews db)) \<and>
            d = db\<lparr>db_reviews := map h (db_reviews db), db_tasks := ts, db_resolutions := db_resolutions db @ [x],
              db_project := Some (p\<lparr>p_generation := p_generation p + 1, p_phase := REASONING_PHASE, p_started := now, p_recommendation := None,
                p_review := None, p_deadline := now + of_int (phase_timeout_seconds (st_config S)), p_updated := now\<rparr>)\<rparr>))"

lemma resolved_nowD:
  assumes "resolved_now S r x now db p d"
  shows "x_recommendation x = r_id r" "p_recommendation p = Some (r_id r)" "p_generation p = r_generation r"
    "\<forall>s \<in> set (db_slots db). s_generation s = r_generation r \<longrightarrow> s_state s = Terminal" "active_candidate db = None"
    "p_phase p = OWNER_ACTION_REQUIRED_PHASE" "resolution_of db (r_id r) = None" "resolution_of d (r_id r) = Some x" "db_slots d = db_slots db" "db_candidates d = db_candidates db"
    "gate_of d = Some (p_generation p + 1, REASONING_PHASE, None, None)"
    "\<exists>y. task_staging_projection S (r_generation r + 1) db = Inr y \<and> sg_ready y"
proof -
  show "x_recommendation x = r_id r" "p_recommendation p = Some (r_id r)" "p_generation p = r_generation r"
    "\<forall>s \<in> set (db_slots db). s_generation s = r_generation r \<longrightarrow> s_state s = Terminal" "active_candidate db = None"
    "p_phase p = OWNER_ACTION_REQUIRED_PHASE" "resolution_of db (r_id r) = None"
    "\<exists>y. task_staging_projection S (r_generation r + 1) db = Inr y \<and> sg_ready y"
    using assms unfolding resolved_now_def by blast+
  obtain ts v h where d: "d = db\<lparr>db_reviews := h, db_tasks := ts, db_resolutions := db_resolutions db @ [x],
      db_project := Some (p\<lparr>p_generation := p_generation p + 1, p_phase := REASONING_PHASE, p_started := now, p_recommendation := None,
        p_review := None, p_deadline := v, p_updated := now\<rparr>)\<rparr>"
    and x: "x_recommendation x = r_id r" and none: "resolution_of db (r_id r) = None"
    using assms unfolding resolved_now_def Let_def by blast
  show "db_slots d = db_slots db" "db_candidates d = db_candidates db" "gate_of d = Some (p_generation p + 1, REASONING_PHASE, None, None)"
    by (simp_all add: d gate_of_def)
  have "find (\<lambda>x. x_recommendation x = r_id r) (db_resolutions db @ [x]) = Some x"
    by (rule find_append_new) (use none x in \<open>auto simp: resolution_of_def dest: find_none\<close>)
  then show "resolution_of d (r_id r) = Some x" by (simp add: resolution_of_def d)
qed

text \<open>A resolution replays an earlier one or closes the gate and opens the next generation.\<close>

lemma resolve_cases:
  assumes inv: "coord_inv S db" and p: "db_project db = Some p" and run: "resolve_tx S i rid resolution ack b now db = Inr (x, d)"
  shows "(resolution_of db rid = Some x \<and> same_resolution x i rid resolution ack b \<and> d = db) \<or>
    (\<exists>r. r_id r = rid \<and> resolved_now S r x now db p d \<and> same_resolution x i rid resolution ack b)"
proof (cases "resolution_of db rid")
  case (Some y)
  then show ?thesis using run by (auto simp: resolve_tx_def tx_run split: if_splits)
next
  case None
  from inv p have k: "reviews_inv S p db" "advice_inv p (db_reviews db) (db_recommendations db) (db_resolutions db)" "tasks_inv S p (db_tasks db)"
    by (simp_all add: coord_inv_def)
  let ?x = "\<lambda>r. \<lparr>x_id = i, x_recommendation = rid, x_generation = r_generation r, x_resolution = resolution, x_ack = ack,
    x_guidance = b_guidance b, x_guidance_sha = b_guidance_sha b, x_request = b_request b, x_receipt = b_receipt b, x_created = now\<rparr>"
  obtain r y d1 d2 d3 q where r: "recommendation_of db rid = Some r" and ok: "check_resolvable r p db = None"
    and fz: "freeze_required_generation_tasks S (r_generation r + 1) now db = Inr (y, d1)"
    and ix: "insert_resolution (?x r) d1 = Inr ((), d2)"
    and rv: "(case r_review r of None \<Rightarrow> tx_return () | Some v \<Rightarrow> cas_reviews (\<lambda>u. v_id u = v \<and> v_state u = VConfirmed \<and> v_confirmation u = Some (r_critic_entry r))
                         (\<lambda>u. u\<lparr>v_state := VResolved\<rparr>) (AdviceErr ReviewResolutionCAS)) d2 = Inr ((), d3)"
    and q: "db_project d3 = Some q" and x: "x = ?x r"
    and d: "d = d3\<lparr>db_project := Some (q\<lparr>p_generation := r_generation r + 1, p_phase := REASONING_PHASE, p_started := now,
                         p_deadline := now + of_int (phase_timeout_seconds (st_config S)), p_recommendation := None, p_review := None,
                         p_updated := now\<rparr>)\<rparr>"
    using run None p unfolding resolve_tx_def tx_bind_ok tx_returns
    by (clarsimp split: option.splits simp: tx_bind_ok tx_then_ok tx_returns cas_ok Let_def state_row_def)
  have rid: "r_id r = rid" "r \<in> set (db_recommendations db)" using r unfolding recommendation_of_def by (auto dest: find_some)
  have tv: "distinct (map (\<lambda>t. (t_worker t, t_generation t)) (db_tasks db))" "\<forall>t \<in> set (db_tasks db). \<not> isl (validate_generation_task_row S t)"
    using k(3) by (auto simp: tasks_inv_def task_inv_def)
  obtain ts where ts: "d1 = db\<lparr>db_tasks := ts\<rparr>" "map (\<lambda>t. (t_worker t, t_generation t)) ts = map (\<lambda>t. (t_worker t, t_generation t)) (db_tasks db)"
      "\<forall>t \<in> set ts. \<not> isl (validate_generation_task_row S t)" "\<exists>y. task_staging_projection S (r_generation r + 1) db = Inr y \<and> sg_ready y"
    using freeze_effect[OF fz tv] by blast
  have c: "p_generation p = r_generation r" "p_phase p = OWNER_ACTION_REQUIRED_PHASE" "p_recommendation p = Some (r_id r)"
      "\<not> nonterminal_slots db (r_generation r)" "active_candidate db = None"
    and cr: "(case r_review r of Some i \<Rightarrow> fail_if (\<not> confirmed_binding db r i \<or> p_review p \<noteq> Some i) (AdviceErr RecommendationReview)
        | None \<Rightarrow> fail_if (p_review p \<noteq> None) (AdviceErr LegacyPointer)) = None"
    using ok by (auto simp: check_resolvable_def fail_if_def split: if_splits)
  have "p_review p \<noteq> None" using k(1) c(2) by (auto simp: reviews_inv_def)
  then obtain v where v: "r_review r = Some v" "p_review p = Some v" "confirmed_binding db r v"
    using cr by (auto simp: fail_if_def split: option.splits if_splits)
  let ?h = "\<lambda>u. if v_id u = v \<and> v_state u = VConfirmed \<and> v_confirmation u = Some (r_critic_entry r) then u\<lparr>v_state := VResolved\<rparr> else u"
  have d2: "d2 = db\<lparr>db_tasks := ts, db_resolutions := db_resolutions db @ [?x r]\<rparr>" using ix ts(1) unfolding insert_ok2 by simp
  have d3: "reviews_valid db (map ?h (db_reviews db))" "d3 = db\<lparr>db_tasks := ts, db_resolutions := db_resolutions db @ [?x r], db_reviews := map ?h (db_reviews db)\<rparr>"
    using rv v(1) d2 by (simp_all add: cas_ok update_rows_map)
  have qp: "q = p" using q d3(2) p by simp
  have "resolved_now S r x now db p d"
    unfolding resolved_now_def Let_def
    by (intro exI[of _ ts] exI[of _ v] conjI)
      (use v r rid c None ts(2,3,4) d3 d x qp in \<open>simp_all add: nonterminal_slots_def list_ex_iff\<close>)
  moreover have "same_resolution x i rid resolution ack b" by (simp add: same_resolution_def x)
  ultimately show ?thesis using rid(1) by blast
qed

lemma resolved_now_inv:
  assumes inv: "coord_inv S db" and p: "db_project db = Some p" and res: "resolved_now S r x now db p d"
  shows "coord_inv S d"
proof -
  obtain ts v where c: "p_review p = Some v" "recommendation_of db (r_id r) = Some r" "p_generation p = r_generation r"
      "\<forall>s \<in> set (db_slots db). s_generation s = r_generation r \<longrightarrow> s_state s = Terminal" "active_candidate db = None"
      "confirmed_binding db r v" "x_recommendation x = r_id r"
    and ts: "map (\<lambda>t. (t_worker t, t_generation t)) ts = map (\<lambda>t. (t_worker t, t_generation t)) (db_tasks db)"
      "\<forall>t \<in> set ts. \<not> isl (validate_generation_task_row S t)"
    and h: "reviews_valid db (map (\<lambda>u. if v_id u = v \<and> v_state u = VConfirmed \<and> v_confirmation u = Some (r_critic_entry r) then u\<lparr>v_state := VResolved\<rparr> else u) (db_reviews db))"
    and d: "d = db\<lparr>db_reviews := map (\<lambda>u. if v_id u = v \<and> v_state u = VConfirmed \<and> v_confirmation u = Some (r_critic_entry r) then u\<lparr>v_state := VResolved\<rparr> else u) (db_reviews db),
      db_tasks := ts, db_resolutions := db_resolutions db @ [x],
      db_project := Some (p\<lparr>p_generation := p_generation p + 1, p_phase := REASONING_PHASE, p_started := now, p_recommendation := None,
        p_review := None, p_deadline := now + of_int (phase_timeout_seconds (st_config S)), p_updated := now\<rparr>)\<rparr>"
    using res unfolding resolved_now_def Let_def by blast
  from inv p have k: "slots_inv S p (db_slots db)" "reviews_inv S p db" "advice_inv p (db_reviews db) (db_recommendations db) (db_resolutions db)"
      "tasks_inv S p (db_tasks db)" by (simp_all add: coord_inv_def)
  have closed: "\<forall>s \<in> set (db_slots db). s_state s = Terminal"
  proof
    fix s assume s: "s \<in> set (db_slots db)"
    show "s_state s = Terminal"
    proof (rule ccontr)
      assume "s_state s \<noteq> Terminal"
      then have "s_generation s = p_generation p" using k(1) s by (auto simp: slots_inv_def slot_inv_def is_open_terminal)
      then show False using c(3,4) s \<open>s_state s \<noteq> Terminal\<close> by simp
    qed
  qed
  have dist: "distinct (map v_id (db_reviews db))" using k(2) by (simp add: reviews_inv_def reviews_valid_def)
  obtain w where w: "w \<in> set (db_reviews db)" "v_id w = v" "v_state w = VConfirmed" "v_confirmation w = Some (r_critic_entry r)"
    using c(6) by (auto simp: confirmed_binding_def review_of_def dest!: find_some split: option.splits)
  have dead: "\<not> live_review (v_state (if v_id u = v \<and> v_state u = VConfirmed \<and> v_confirmation u = Some (r_critic_entry r) then u\<lparr>v_state := VResolved\<rparr> else u))"
    if u: "u \<in> set (db_reviews db)" for u
  proof (cases "u = w")
    case False
    have "review_inv S p (db_slots db) (db_evidence db) u" using k(2) u by (simp add: reviews_inv_def)
    then have "live_review (v_state u) \<Longrightarrow> v_id u = v" using c(1) unfolding review_inv_def by auto
    then have "\<not> live_review (v_state u)" using distinct_map_eq[OF dist u w(1)] w(2) False by auto
    then show ?thesis by auto
  qed (use w in simp)
  have t: "distinct (map (\<lambda>t. (t_worker t, t_generation t)) ts)" using k(4) ts(1) by (simp add: tasks_inv_def)
  have t': "\<forall>t \<in> set ts. \<not> isl (validate_generation_task_row S t) \<and> t_generation t \<le> p_generation p + 1"
  proof
    fix t assume t: "t \<in> set ts"
    then have "(t_worker t, t_generation t) \<in> set (map (\<lambda>t. (t_worker t, t_generation t)) (db_tasks db))" unfolding ts(1)[symmetric] by simp
    then obtain o' where "o' \<in> set (db_tasks db)" "t_generation o' = t_generation t" by auto
    then have "t_generation t \<le> p_generation p + 1" using k(4) by (fastforce simp: tasks_inv_def task_inv_def)
    then show "\<not> isl (validate_generation_task_row S t) \<and> t_generation t \<le> p_generation p + 1" using ts(2) t by blast
  qed
  have "r_id r \<in> set (map r_id (db_recommendations db))" using c(2) unfolding recommendation_of_def by (auto dest: find_some)
  then have xs: "set (map x_recommendation (db_resolutions db @ [x])) \<subseteq> set (map r_id (db_recommendations db))"
    using k(3) c(7) by (auto simp: advice_inv_def)
  show ?thesis unfolding d
    by (rule next_generation_inv[OF inv p closed c(5) _ _ _ _ h dead t t' xs]) simp_all
qed

lemma keeps_resolve [keep]: "keeps (coord_inv S) (resolve_tx S i rid resolution ack b now)"
proof (unfold keeps_def, intro allI impI)
  fix db x d
  assume inv: "coord_inv S db" and run: "resolve_tx S i rid resolution ack b now db = Inr (x, d)"
  obtain p where p: "db_project db = Some p" using inv by (auto simp: coord_inv_def)
  from resolve_cases[OF inv p run] show "coord_inv S d"
    using inv resolved_now_inv[OF inv p] by blast
qed

section \<open>Opening the store\<close>

lemma first_inv: "store_ok S \<Longrightarrow> coord_inv S (empty_db\<lparr>db_project := Some (first_project S now)\<rparr>)"
  by (simp add: coord_inv_def empty_db_def first_project_def header_inv_def phase_inv_def slots_inv_def reviews_inv_def reviews_valid_def
      unique_values_def advice_inv_def tasks_inv_def cands_inv_def)

lemma initialize_effect:
  "initialize_tx S now db = Inr (u, d) \<Longrightarrow> d = (case db_project db of None \<Rightarrow> db\<lparr>db_project := Some (first_project S now)\<rparr> | Some p \<Rightarrow> db)"
  by (auto simp: initialize_tx_def tx_ok split: option.splits)

lemma keeps_initialize [keep]: "keeps (coord_inv S) (initialize_tx S now)"
  unfolding keeps_def by (auto dest!: initialize_effect simp: coord_inv_def)

text \<open>The store an initialized object holds: the policy's roster.\<close>

lemma lane_name_list:
  "lane_names 1 = [''root'']" "lane_names 2 = [''root'', ''critic'']" "lane_names 3 = [''root'', ''critic'', ''explorer1'']"
  "lane_names 4 = [''root'', ''critic'', ''explorer1'', ''explorer2'']"
  by code_simp+

lemma store_lanes:
  assumes "coordination_store H md = Inr S"
  shows "\<exists>xs. let n = length xs in distinct xs \<and> n \<in> {1, 2, 3, 4} \<and> int n \<le> max_paid_workers (st_config S) \<and> max_paid_workers (st_config S) \<le> 4 \<and>
    (max_paid_workers (st_config S) > 2 \<or> n \<le> 2) \<and> roster_lanes S = zip xs (lane_names n) \<and> root_worker S = hd xs \<and>
    critic (st_roster S) = (if n > 1 then Some (xs ! 1) else None) \<and> st_hash S = H"
proof -
  obtain c r where c: "coordination_config md = Inr c" "reasoning_first c" and r: "select_lane_roster md c = Inr r"
    and S: "st_config S = c" "st_roster S = r" "st_hash S = H"
    using assms by (auto simp: coordination_store_def split: sum.splits if_splits)
  note b = config_bounds[OF c]
  obtain ws rs ps where w: "roster_workers (jget_or_null md ''workers'') = Some ws" "jget_or_null md ''roles'' = JStr rs" "role_pairs rs = Inr ps"
    using r by (auto simp: select_lane_roster_def split: option.splits json.splits sum.splits)
  let ?o = "order_workers (dict_of ps) ws" and ?m = "min (nat (max_paid_workers c)) (length ws)"
  have l: "lanes r = zip (take ?m ?o) (lane_names ?m)" "lane_roster.root r = hd ?o" "1 \<le> ?m"
    using select_lane_roster_lanes[OF r _ w refl] b by auto
  have o: "distinct ?o" "length ?o = length ws" using roster_workers_distinct[OF w(1)] by (auto simp: order_workers_set)
  have r': "r = assign_lanes ?o (max_paid_workers c)"
    using r w by (simp add: select_lane_roster_def Let_def split: if_splits)
  have small: "max_paid_workers c > 2 \<Longrightarrow> max_paid_workers c \<le> int (length ws)"
    using r w o(2) by (simp add: select_lane_roster_def Let_def split: if_splits)
  have crit: "critic r = (if ?m > 1 then Some (?o ! 1) else None)" unfolding r' assign_lanes_def Let_def using o(2) b by auto
  have "?m \<in> {1, 2, 3, 4}" using l(3) b by auto
  moreover have "hd (take ?m ?o) = hd ?o" by (rule hd_take) (use l(3) in linarith)
  moreover have "?m > 1 \<Longrightarrow> take ?m ?o ! 1 = ?o ! 1" by simp
  moreover have "length (take ?m ?o) = ?m" using o(2) by simp
  moreover have "distinct (take ?m ?o)" using o(1) by (rule distinct_take)
  ultimately show ?thesis using b l crit S by (intro exI[of _ "take ?m ?o"]) (auto simp: Let_def)
qed

lemma store_sound:
  assumes "coordination_store H md = Inr S" "hexdigest H"
  shows "store_ok S"
proof -
  obtain xs where d: "distinct xs" and n: "length xs = 1 \<or> length xs = 2 \<or> length xs = 3 \<or> length xs = 4"
    and m: "int (length xs) \<le> max_paid_workers (st_config S)" "max_paid_workers (st_config S) \<le> 4"
      "max_paid_workers (st_config S) > 2 \<or> length xs \<le> 2"
    and l: "roster_lanes S = zip xs (lane_names (length xs))" and r: "root_worker S = hd xs"
    and c: "critic (st_roster S) = (if length xs > 1 then Some (xs ! 1) else None)" and H: "st_hash S = H"
    using store_lanes[OF assms(1)] unfolding Let_def by auto
  have hx: "\<forall>x. is_hex64 (st_hash S x)" using H hexdigest.digest_hex[OF assms(2)] by simp
  from n show ?thesis
  proof (elim disjE)
    assume k: "length xs = 1"
    have l: "roster_lanes S = zip xs [''root'']" using l unfolding k lane_name_list .
    from k obtain a where "xs = [a]" by (auto simp: length_Suc_conv)
    then show ?thesis using l r c m hx by (auto simp: store_ok_def lane_sql_def)
  next
    assume k: "length xs = 2"
    have l: "roster_lanes S = zip xs [''root'', ''critic'']" using l unfolding k lane_name_list .
    from k obtain a b where "xs = [a, b]" by (auto simp: numeral_2_eq_2 length_Suc_conv)
    then show ?thesis using l r c d m hx by (auto simp: store_ok_def lane_sql_def k)
  next
    assume k: "length xs = 3"
    have l: "roster_lanes S = zip xs [''root'', ''critic'', ''explorer1'']" using l unfolding k lane_name_list .
    from k obtain a b e where "xs = [a, b, e]" by (auto simp: numeral_3_eq_3 length_Suc_conv)
    then show ?thesis using l r c d m hx by (auto simp: store_ok_def lane_sql_def database_schema_version_def k)
  next
    assume k: "length xs = 4"
    have l: "roster_lanes S = zip xs [''root'', ''critic'', ''explorer1'', ''explorer2'']" using l unfolding k lane_name_list .
    from k obtain a b e f where "xs = [a, b, e, f]" by (auto simp: eval_nat_numeral length_Suc_conv)
    then show ?thesis using l r c d m hx by (auto simp: store_ok_def lane_sql_def database_schema_version_def k)
  qed
qed

end
