(* ===== verification/CoordOps.thy ===== *)
theory CoordOps
  imports CoordCand
begin

text \<open>
  The public operations of the coordination store (\<open>danus/coordination/store.py\<close>) as one datatype, and what
  running one does to the database. Random identifiers and clock readings are arguments.
\<close>

section \<open>Operations\<close>

datatype coord_op =
    OInitialize rat
  | OStage string string rat
  | OAdmit string string rat
  | OPin string string
  | OActivate string rat
  | OAmbiguous string rat
  | OComplete string string rat rat
  | ORecordRoot string string string string rat
  | OConfirmRoot string string string string string rat
  | OReconcile string string string "json list" rat
  | OValidateAdvice string
  | OResolve string string string bindings rat
  | OCursor string string string "int option" rat
  | ORegister string string candidate_key rat
  | OTerminalize string string string string rat
  | OReuse string string string string "string option" rat
  | ORelease string string bool bool rat
  | OObserve string string cand_state "int option" rat

definition raised :: "(coord_exc + 'a) \<times> coord_db \<Rightarrow> coord_exc option \<times> coord_db" where
  "raised r = (case fst r of Inl e \<Rightarrow> Some e | Inr _ \<Rightarrow> None, snd r)"

fun run_op :: "coord_store \<Rightarrow> coord_op \<Rightarrow> coord_db \<Rightarrow> coord_exc option \<times> coord_db" where
  "run_op S (OInitialize now) db = raised (initialize S now db)"
| "run_op S (OStage worker task now) db = raised (stage_task_assignment S worker task now db)"
| "run_op S (OAdmit uid worker now) db = raised (admit S uid worker now db)"
| "run_op S (OPin slot prompt) db = raised (pin_prompt S slot prompt db)"
| "run_op S (OActivate slot now) db = raised (activate S slot now db)"
| "run_op S (OAmbiguous slot now) db = raised (mark_ambiguous S slot now db)"
| "run_op S (OComplete slot outcome now later) db = raised (complete S slot outcome now later db)"
| "run_op S (ORecordRoot worker kind entry slot now) db = raised (record_root_evidence S worker kind entry slot now db)"
| "run_op S (OConfirmRoot uid worker root_entry entry slot now) db = raised (confirm_root_evidence S uid worker root_entry entry slot now db)"
| "run_op S (OReconcile uid slot worker entries now) db = raised (reconcile_terminal_memory_entries S uid slot worker entries now db)"
| "run_op S (OValidateAdvice i) db = raised (validate_open_recommendation i db)"
| "run_op S (OResolve rid resolution ack b now) db = raised (resolve_recommendation S rid resolution ack b now db)"
| "run_op S (OCursor worker stream cursor generation now) db = raised (set_memory_cursor worker stream cursor generation now db)"
| "run_op S (ORegister worker i k now) db = raised (register_candidate S worker i k now db)"
| "run_op S (OTerminalize worker i slot outcome now) db = raised (terminalize_candidate S worker i slot outcome now db)"
| "run_op S (OReuse worker slot fid identity source now) db = raised (record_exact_fact_reuse S worker slot fid identity source now db)"
| "run_op S (ORelease i resolution acknowledged fact_active now) db = raised (resolve_candidate_outcome_unknown S i resolution acknowledged fact_active now db)"
| "run_op S (OObserve worker i st generation now) db = raised (record_candidate S worker i st generation now db)"

end
