(* ===== verification/CoordStep.thy ===== *)
theory CoordStep
  imports CoordKeepAdvice CoordOps
begin

text \<open>
  The operations of the coordination store (\<open>danus/coordination/store.py\<close>) as one step relation: a step
  runs one operation, with any arguments, clock reading and random identifiers, on the database the
  previous one left. The invariant of the database is an instance of the contract for transition systems,
  and holds of every database a store can reach.
\<close>

section \<open>Steps\<close>

inductive coord_step :: "coord_store \<Rightarrow> coord_db \<Rightarrow> coord_db \<Rightarrow> bool" for S where
  coord_step: "run_op S oper db = (e, db') \<Longrightarrow> coord_step S db db'"

inductive_cases coord_stepE: "coord_step S db db'"

text \<open>A store opened on a new file.\<close>

definition coord_init :: "coord_store \<Rightarrow> coord_db \<Rightarrow> bool" where
  "coord_init S db \<longleftrightarrow> store_ok S \<and> (\<exists>now. initialize S now empty_db = (Inr (), db))"

section \<open>The invariant\<close>

lemma transact_keeps: "keeps I m \<Longrightarrow> I db \<Longrightarrow> I (snd (transact m db))"
  by (auto simp: transact_def keeps_def split: sum.splits)

lemma keeps_cursor:
  "coord_inv S db \<Longrightarrow> coord_inv S (snd (set_memory_cursor worker stream cursor generation now db))"
  unfolding set_memory_cursor_def
  by (auto split: option.splits intro!: transact_keeps[of "coord_inv S"] keeps_tx_bind keep simp: Let_def)
    (auto simp: keeps_def tx_ok)

lemma step_inv:
  assumes "coord_inv S db"
  shows "coord_inv S (snd (run_op S oper db))"
proof (cases oper)
  case (OStage worker task now)
  have lane: "map_of (roster_lanes S) worker = Some l" if "worker_lane S worker = Inr l" "has_key (roster_lanes S) worker" for l
    using that by (auto simp: worker_lane_def lane_of_def map_of_eq_None_iff split: option.splits)
  show ?thesis using assms lane unfolding OStage
    by (auto simp: raised_def stage_task_assignment_def intro!: transact_keeps[of "coord_inv S"] keeps_stage split: sum.splits)
next
  case (OActivate slot now)
  have "coord_inv S (snd (transact (activate_tx S slot now) db))" by (rule transact_keeps[OF keeps_activate assms])
  then show ?thesis using assms by (auto simp: OActivate raised_def activate_def split: option.splits prod.splits sum.splits)
next
  case (OComplete slot outcome now later)
  have "coord_inv S (snd (transact (complete_tx S slot outcome now) db))" by (rule transact_keeps[OF keeps_complete assms])
  then show ?thesis using assms by (auto simp: OComplete raised_def complete_def split: option.splits prod.splits sum.splits)
next
  case (ORegister worker i k now)
  have "is_hex64 (ck_identity k)" if "candidate_receipt_id (st_hash S) (ck_slot k) (ck_fact k) (ck_identity k) (ck_source k) (ck_context k) = Inr r" for r
    using that by (auto simp: candidate_receipt_id_def fail_if_def split: if_splits option.splits)
  then show ?thesis using assms unfolding ORegister
    by (auto simp: raised_def register_candidate_def intro!: transact_keeps[of "coord_inv S"] keep split: sum.splits)
next
  case (OObserve worker i st generation now)
  show ?thesis using assms unfolding OObserve
    by (auto simp: raised_def record_candidate_def intro!: transact_keeps[of "coord_inv S"] keeps_observe split: option.splits)
qed (use assms in \<open>auto simp: raised_def initialize_def admit_def pin_prompt_def mark_ambiguous_def record_root_evidence_def
    confirm_root_evidence_def reconcile_terminal_memory_entries_def validate_open_recommendation_def resolve_recommendation_def
    terminalize_candidate_def record_exact_fact_reuse_def resolve_candidate_outcome_unknown_def keeps_cursor Let_def
    intro!: transact_keeps[of "coord_inv S"] keep split: sum.splits option.splits\<close>)

lemma coord_initD: "coord_init S db \<Longrightarrow> \<exists>now. db = empty_db\<lparr>db_project := Some (first_project S now)\<rparr> \<and> store_ok S"
  by (auto simp: coord_init_def initialize_def transact_ok empty_db_def dest!: initialize_effect)

lemma init_inv: "coord_init S db \<Longrightarrow> coord_inv S db"
  using first_inv coord_initD by blast

interpretation coord_system: inductive_invariant "coord_init S" "coord_step S" "coord_inv S" for S
  by unfold_locales (auto intro: init_inv elim!: coord_stepE dest: step_inv[where S = S] simp: prod_eq_iff)

end
