(* ===== verification/CoordMoves.thy ===== *)
theory CoordMoves
  imports CoordStep
begin

text \<open>
  How the operations of the coordination store (\<open>danus/coordination/store.py\<close>) move the project: its
  generation, its phase, the live review and the open recommendation. Most transactions leave these four
  alone; the advance of a generation, an obstacle, a confirmation and the owner's resolution move them
  along one edge of a small machine.
\<close>

section \<open>The gate\<close>

lemma gate_of_simps [simp]:
  "gate_of (db\<lparr>db_slots := a\<rparr>) = gate_of db" "gate_of (db\<lparr>db_tasks := b\<rparr>) = gate_of db" "gate_of (db\<lparr>db_workers := c\<rparr>) = gate_of db"
  "gate_of (db\<lparr>db_evidence := e\<rparr>) = gate_of db" "gate_of (db\<lparr>db_cursors := f\<rparr>) = gate_of db" "gate_of (db\<lparr>db_recommendations := g\<rparr>) = gate_of db"
  "gate_of (db\<lparr>db_reviews := h\<rparr>) = gate_of db" "gate_of (db\<lparr>db_resolutions := i\<rparr>) = gate_of db" "gate_of (db\<lparr>db_candidates := j\<rparr>) = gate_of db"
  "gate_of (db\<lparr>db_project := Some p\<rparr>) = Some (p_generation p, p_phase p, p_review p, p_recommendation p)"
  by (simp_all add: gate_of_def)

text \<open>Transactions that leave the gate alone, and what a transaction may do to it: a relation between the
  gate before and the database after.\<close>

definition unmoved :: "'a tx \<Rightarrow> bool" where
  "unmoved m \<longleftrightarrow> (\<forall>db x d. m db = Inr (x, d) \<longrightarrow> gate_of d = gate_of db)"

definition moves :: "coord_store \<Rightarrow> 'a tx \<Rightarrow> (gate option \<Rightarrow> coord_db \<Rightarrow> bool) \<Rightarrow> bool" where
  "moves S m E \<longleftrightarrow> (\<forall>db x d. coord_inv S db \<longrightarrow> m db = Inr (x, d) \<longrightarrow> E (gate_of db) d)"

definition reads_only :: "'a tx \<Rightarrow> bool" where
  "reads_only m \<longleftrightarrow> (\<forall>db x d. m db = Inr (x, d) \<longrightarrow> d = db)"

text \<open>An edge relation that allows to stay.\<close>

definition may_stay :: "(gate option \<Rightarrow> coord_db \<Rightarrow> bool) \<Rightarrow> bool" where
  "may_stay E \<longleftrightarrow> (\<forall>d. E (gate_of d) d)"

named_theorems gate_rule \<open>what transactions do to the gate\<close>

lemma movesD: "moves S m E \<Longrightarrow> m db = Inr (x, d) \<Longrightarrow> coord_inv S db \<Longrightarrow> E (gate_of db) d"
  unfolding moves_def by blast

lemma unmovedD: "unmoved m \<Longrightarrow> m db = Inr (x, d) \<Longrightarrow> gate_of d = gate_of db"
  unfolding unmoved_def by blast

lemma unmoved_bind: "unmoved m \<Longrightarrow> (\<And>x. unmoved (f x)) \<Longrightarrow> unmoved (tx_bind m f)"
  unfolding unmoved_def tx_bind_ok by metis

lemma unmoved_then: "unmoved m \<Longrightarrow> unmoved n \<Longrightarrow> unmoved (tx_then m n)"
  unfolding tx_then_def by (rule unmoved_bind)

lemma unmoved_when: "unmoved m \<Longrightarrow> unmoved (tx_when b m)"
  unfolding unmoved_def by (auto simp: tx_ok)

lemma moves_bind: "keeps (coord_inv S) m \<Longrightarrow> unmoved m \<Longrightarrow> (\<And>x. moves S (f x) E) \<Longrightarrow> moves S (tx_bind m f) E"
  unfolding keeps_def unmoved_def moves_def tx_bind_ok by metis

lemma moves_then: "keeps (coord_inv S) m \<Longrightarrow> unmoved m \<Longrightarrow> moves S n E \<Longrightarrow> moves S (tx_then m n) E"
  unfolding tx_then_def by (rule moves_bind)

lemma moves_reads: "moves S m E \<Longrightarrow> (\<And>x. reads_only (f x)) \<Longrightarrow> moves S (tx_bind m f) E"
  unfolding moves_def reads_only_def tx_bind_ok by metis

lemma moves_then_reads: "moves S m E \<Longrightarrow> reads_only n \<Longrightarrow> moves S (tx_then m n) E"
  unfolding tx_then_def by (rule moves_reads)

lemma unmoved_moves: "may_stay E \<Longrightarrow> unmoved m \<Longrightarrow> moves S m E"
  unfolding may_stay_def unmoved_def moves_def by metis

lemma moves_when: "may_stay E \<Longrightarrow> moves S m E \<Longrightarrow> moves S (tx_when b m) E"
  unfolding may_stay_def moves_def by (auto simp: tx_ok)

lemma moves_mono: "moves S m E \<Longrightarrow> (\<And>g d. E g d \<Longrightarrow> E' g d) \<Longrightarrow> moves S m E'"
  unfolding moves_def by blast

section \<open>Transactions that leave the gate alone\<close>

lemma unmoved_basic [gate_rule]:
  "unmoved (tx_return x)" "unmoved (tx_raise e)" "unmoved (tx_read g)" "unmoved (tx_lift h)" "unmoved (tx_check c)"
  "unmoved (cas_slots P f e)" "unmoved (cas_tasks P2 f2 e)" "unmoved (cas_reviews P3 f3 e)" "unmoved (insert_slot S s)" "unmoved (insert_task S t)"
  "unmoved (insert_evidence_row r)" "unmoved (insert_candidate k)" "unmoved (insert_resolution x2)"
  "unmoved (set_candidate i P4 f4)" "unmoved (write_worker_state w l st g2 ph now)"
  "unmoved (tx_write (\<lambda>db. db\<lparr>db_slots := fs db\<rparr>))" "unmoved (tx_write (\<lambda>db. db\<lparr>db_tasks := ft db\<rparr>))" "unmoved (tx_write (\<lambda>db. db\<lparr>db_cursors := fc db\<rparr>))"
  by (auto simp: unmoved_def tx_ok set_candidate_def write_worker_state_def)

lemma reads_only_basic [gate_rule]:
  "reads_only (tx_return x)" "reads_only (tx_raise e)" "reads_only (tx_read g)" "reads_only (tx_lift h)" "reads_only (tx_check c)"
  "reads_only (fetch_candidate i)"
  by (auto simp: reads_only_def tx_ok fetch_candidate_def)

lemmas unmoved_rules = unmoved_bind unmoved_then unmoved_when

lemma unmoved_slots [gate_rule]:
  "unmoved (insert_evidence r)" "unmoved (slot_admission_tx S s b)" "unmoved (pin_tx S i prompt)" "unmoved (mark_ambiguous_tx S i now)"
  "unmoved (fetch_candidate i)" "unmoved (observe_tx worker lane i st g now)"
  unfolding insert_evidence_def slot_admission_tx_def pin_tx_def mark_ambiguous_tx_def fetch_candidate_def observe_tx_def
  by (auto intro!: unmoved_rules gate_rule split: option.splits)

lemma unmoved_more [gate_rule]:
  "unmoved (register_tx S worker i k now)" "unmoved (reuse_tx S worker i k now)" "unmoved (stage_task_tx S worker task now lane digest nbytes)"
  "unmoved (confirm_review v entry)"
  unfolding register_tx_def reuse_tx_def stage_task_tx_def restage_task_def confirm_review_def Let_def
  by (auto intro!: unmoved_rules gate_rule split: option.splits)

lemma unmoved_reserve [gate_rule]: "unmoved (reserve_slot S uid worker lane p review now)"
  unfolding reserve_slot_def freeze_task_def claim_review_def Let_def
  by (auto intro!: unmoved_rules gate_rule split: option.splits prod.splits)

lemma unmoved_fresh [gate_rule]: "unmoved (admit_fresh S uid worker lane p now)"
  unfolding admit_fresh_def Let_def by (auto intro!: unmoved_rules gate_rule)

section \<open>The edges\<close>

text \<open>The automatic edge: every paid slot is closed, no candidate is open, every protected worker has had
  its reasoning slot, and the project enters the critic's review or the next generation.\<close>

definition round_closed :: "coord_store \<Rightarrow> int \<Rightarrow> coord_db \<Rightarrow> bool" where
  "round_closed S n d \<longleftrightarrow>
     (\<forall>s \<in> set (db_slots d). s_state s = Terminal) \<and> active_candidate d = None \<and>
     (\<forall>w \<in> set (keys (roster_lanes S)). \<exists>s \<in> set (db_slots d). s_worker s = w \<and> s_generation s = n \<and> s_phase s = REASONING_PHASE \<and> s_state s = Terminal)"

definition auto_edge :: "coord_store \<Rightarrow> gate option \<Rightarrow> coord_db \<Rightarrow> bool" where
  "auto_edge S g d \<longleftrightarrow> gate_of d = g \<or>
     (\<exists>n ph rv. g = Some (n, ph, rv, None) \<and> round_closed S n d \<and>
        (ph = REASONING_PHASE \<and> rv \<noteq> None \<and> gate_of d = Some (n, CRITIC_REVIEW_PHASE, rv, None) \<or>
         (ph = REASONING_PHASE \<and> rv = None \<or> ph = CRITIC_REVIEW_PHASE) \<and> gate_of d = Some (n + 1, REASONING_PHASE, None, None)))"

lemma advanced_frame:
  assumes "advanced S now db p d"
  shows "db_slots d = db_slots db \<and> db_candidates d = db_candidates db \<and> db_evidence d = db_evidence db \<and>
    db_recommendations d = db_recommendations db \<and> db_resolutions d = db_resolutions db"
  using assms unfolding advanced_def Let_def
proof (elim disjE conjE exE)
  assume "d = db\<lparr>db_project := Some (p\<lparr>p_phase := CRITIC_REVIEW_PHASE, p_started := now,
    p_deadline := now + of_int (phase_timeout_seconds (st_config S)), p_updated := now\<rparr>)\<rparr>"
  then show ?thesis by simp
next
  fix h new
  assume "d = db\<lparr>db_reviews := map h (db_reviews db), db_tasks := db_tasks db @ new,
    db_project := Some (p\<lparr>p_generation := p_generation p + 1, p_phase := REASONING_PHASE, p_started := now, p_review := None,
      p_deadline := now + of_int (phase_timeout_seconds (st_config S)), p_updated := now\<rparr>)\<rparr>"
  then show ?thesis by simp
qed

lemma advance_moves: "moves S (advance_generation_if_ready S now) (auto_edge S)"
proof (unfold moves_def, intro allI impI)
  fix db b d
  assume inv: "coord_inv S db" and run: "advance_generation_if_ready S now db = Inr (b, d)"
  obtain p where p: "db_project db = Some p" using inv by (auto simp: coord_inv_def)
  from inv p have k: "store_ok S" "phase_inv S p (db_slots db)" "slots_inv S p (db_slots db)" by (simp_all add: coord_inv_def)
  from advance_cases[OF inv run p] show "auto_edge S (gate_of db) d"
  proof (elim disjE conjE)
    assume a: "p_phase p \<noteq> OWNER_ACTION_REQUIRED_PHASE" "active_candidate db = None" "p_recommendation p = None"
      "set (required_now S p) \<subseteq> set (completed_lanes (p_generation p) (p_phase p) db)" "\<forall>s \<in> set (db_slots db). s_state s = Terminal"
      "advanced S now db p d"
    have ph: "p_phase p = REASONING_PHASE \<or> p_phase p = CRITIC_REVIEW_PHASE" using k(2) a(1) by (auto simp: phase_inv_def)
    have "\<exists>s \<in> set (db_slots db). s_worker s = w \<and> s_generation s = p_generation p \<and> s_phase s = REASONING_PHASE"
      if w: "w \<in> set (keys (roster_lanes S))" for w
    proof (cases "p_phase p = REASONING_PHASE")
      case True
      then show ?thesis using required_reasoning[OF k(1,3) _ w] a(4) by (simp add: required_now_def)
    next
      case False
      then show ?thesis using k(2) w by (auto simp: phase_inv_def)
    qed
    then have all: "\<forall>w \<in> set (keys (roster_lanes S)). \<exists>s \<in> set (db_slots db). s_worker s = w \<and> s_generation s = p_generation p \<and>
        s_phase s = REASONING_PHASE \<and> s_state s = Terminal" using a(5) by blast
    have same: "db_slots d = db_slots db" "db_candidates d = db_candidates db"  using advanced_frame[OF a(6)] by simp_all
    have closed: "round_closed S (p_generation p) d"
      using all a(2,5) unfolding round_closed_def same active_candidate_def by blast
    have g: "gate_of db = Some (p_generation p, p_phase p, p_review p, None)" using p a(3) by (simp add: gate_of_def)
    from a(6) show ?thesis
      unfolding advanced_def Let_def
    proof (elim disjE conjE exE)
      assume "p_phase p = REASONING_PHASE" "p_review p \<noteq> None"
        "d = db\<lparr>db_project := Some (p\<lparr>p_phase := CRITIC_REVIEW_PHASE, p_started := now, p_deadline := now + of_int (phase_timeout_seconds (st_config S)), p_updated := now\<rparr>)\<rparr>"
      then show ?thesis unfolding auto_edge_def g using closed a(3) by simp
    next
      fix h new
      assume h: "p_phase p = REASONING_PHASE \<longrightarrow> p_review p = None \<and> h = (\<lambda>v. v)"
        and d: "d = db\<lparr>db_reviews := map h (db_reviews db), db_tasks := db_tasks db @ new,
            db_project := Some (p\<lparr>p_generation := p_generation p + 1, p_phase := REASONING_PHASE, p_started := now, p_review := None,
              p_deadline := now + of_int (phase_timeout_seconds (st_config S)), p_updated := now\<rparr>)\<rparr>"
      have "gate_of d = Some (p_generation p + 1, REASONING_PHASE, None, None)" using a(3) by (simp add: d)
      moreover have "p_phase p = REASONING_PHASE \<and> p_review p = None \<or> p_phase p = CRITIC_REVIEW_PHASE" using ph h by blast
      ultimately show ?thesis unfolding auto_edge_def g using closed by blast
    qed
  qed (simp add: auto_edge_def)
qed

text \<open>An obstacle opens a review, a confirmation opens the owner's gate, and the owner closes it.\<close>

definition review_edge :: "gate option \<Rightarrow> coord_db \<Rightarrow> bool" where
  "review_edge g d \<longleftrightarrow> gate_of d = g \<or>
     (\<exists>n i. g = Some (n, REASONING_PHASE, None, None) \<and> gate_of d = Some (n, REASONING_PHASE, Some i, None))"

definition confirm_edge :: "gate option \<Rightarrow> coord_db \<Rightarrow> bool" where
  "confirm_edge g d \<longleftrightarrow> gate_of d = g \<or>
     (\<exists>n v i. g = Some (n, CRITIC_REVIEW_PHASE, Some v, None) \<and> gate_of d = Some (n, OWNER_ACTION_REQUIRED_PHASE, Some v, Some i))"

definition resolve_edge :: "coord_store \<Rightarrow> string \<Rightarrow> gate option \<Rightarrow> coord_db \<Rightarrow> bool" where
  "resolve_edge S rid g d \<longleftrightarrow> gate_of d = g \<or>
     (\<exists>n rv. g = Some (n, OWNER_ACTION_REQUIRED_PHASE, rv, Some rid) \<and> gate_of d = Some (n + 1, REASONING_PHASE, None, None) \<and>
        round_closed S n d \<and> resolution_of d rid \<noteq> None)"

lemma edges_stay [gate_rule]:
  "may_stay (auto_edge S)" "may_stay review_edge" "may_stay confirm_edge" "may_stay (resolve_edge S rid)"
  "may_stay (\<lambda>g d. gate_of d = g)" "may_stay (\<lambda>g d. review_edge g d \<or> confirm_edge g d)"
  by (auto simp: may_stay_def auto_edge_def review_edge_def confirm_edge_def resolve_edge_def)

lemma review_moves: "moves S (ensure_review_for_root S entry slot g stamp) review_edge"
proof (unfold moves_def, intro allI impI)
  fix db r d
  assume inv: "coord_inv S db" and run: "ensure_review_for_root S entry slot g stamp db = Inr (r, d)"
  show "review_edge (gate_of db) d"
  proof (cases "d = db")
    case False
    obtain i p where p: "db_project db = Some p" "p_review p = None" "p_recommendation p = None"
        and d: "db_project d = Some (p\<lparr>p_review := Some i, p_updated := stamp\<rparr>)"
      using ensure_review_effect[OF run False] by auto
    have "p_phase p = REASONING_PHASE" using inv p by (auto simp: coord_inv_def reviews_inv_def)
    then show ?thesis using p d by (simp add: review_edge_def gate_of_def)
  qed (simp add: review_edge_def)
qed

lemma record_root_moves: "moves S (record_root_tx S worker kind entry slot now) review_edge"
  unfolding record_root_tx_def by (rule moves_reads[OF review_moves] moves_bind moves_then keep gate_rule)+

lemma confirmation_moves:
  assumes inv: "coord_inv S db" and v: "v \<in> set (db_reviews db)" "v_state v \<in> {VActive, VConfirmed}"
    and ev: "critic_evidence_current db entry (v_root_entry v) (v_generation v)"
    and run: "confirm_review v entry db = Inr (u, db1)" "ensure_recommendation uid (v_id v) (v_root_entry v) entry (v_generation v) now db1 = Inr (r, d)"
  shows "confirm_edge (gate_of db) d \<and> r \<noteq> None \<and> r = (case gate_of d of None \<Rightarrow> None | Some (n, ph, rv, rc) \<Rightarrow> rc)"
proof -
  obtain p where p: "db_project db = Some p" using inv by (auto simp: coord_inv_def)
  note c = confirmable[OF inv p v]
  show ?thesis
  proof (cases "v_state v = VActive")
    case True
    have f: "confirmed_now uid v entry now db p d" "r = Some (''recommendation_'' @ uid)" using confirm_first[OF inv p v(1) True ev run] by blast+
    have "gate_of d = Some (p_generation p, OWNER_ACTION_REQUIRED_PHASE, p_review p, r)"
      using f by (simp add: confirmed_now_def Let_def)
    moreover have "gate_of db = Some (p_generation p, CRITIC_REVIEW_PHASE, p_review p, None)" using p c(8)[OF True] by (simp add: gate_of_def)
    ultimately show ?thesis using c(1) f(2) unfolding confirm_edge_def by auto
  next
    case False
    then have "v_state v = VConfirmed" using v(2) by simp
    then show ?thesis using confirm_again[OF inv p v(1) _ ev run] p by (auto simp: confirm_edge_def gate_of_def)
  qed
qed

text \<open>What a critic's entry does after its evidence row: the value is the open recommendation.\<close>

lemma critic_entry_moves:
  assumes inv: "coord_inv S db" and s: "s \<in> set (db_slots db)" and v: "designated_review db s root_entry = Some v"
    and e: "e_id e = entry" "e_generation e = s_generation s" "e_lane e = ''critic''" "e_kind e = ''critic_confirmation''" "e_confirms e = Some root_entry"
    and run: "insert_evidence e db = Inr (u, d1)" "confirm_review v entry d1 = Inr (w, d2)"
      "ensure_recommendation uid (v_id v) root_entry entry (s_generation s) now d2 = Inr (r, d)"
  shows "confirm_edge (gate_of db) d \<and> r \<noteq> None \<and> r = (case gate_of d of None \<Rightarrow> None | Some (n, ph, rv, rc) \<Rightarrow> rc)"
proof -
  note ce = critic_entry_evidence[OF inv s v e run(1)]
  have g: "gate_of d1 = gate_of db" by (rule unmovedD[OF unmoved_slots(1) run(1)])
  show ?thesis using confirmation_moves[OF ce(1) ce(2) ce(3) ce(4) run(2)] run(3) ce(5,6) g by simp
qed

lemma confirm_root_moves: "moves S (confirm_root_tx S uid worker root_entry entry slot_id now) confirm_edge"
proof (unfold moves_def, intro allI impI)
  fix db r d
  assume inv: "coord_inv S db" and run: "confirm_root_tx S uid worker root_entry entry slot_id now db = Inr (r, d)"
  obtain s v d1 d2 rec where s: "canonical_paid_slot S worker (Some slot_id) db = Inr s"
    and v: "designated_review db s root_entry = Some v"
    and steps: "insert_evidence (confirmation_row s worker entry root_entry now) db = Inr ((), d1)" "confirm_review v entry d1 = Inr ((), d2)"
      "ensure_recommendation uid (v_id v) root_entry entry (s_generation s) now d2 = Inr (rec, d)"
    using run unfolding confirm_root_tx_def tx_bind_ok tx_then_ok tx_returns by (auto simp: tx_ok split: option.splits if_splits)
  show "confirm_edge (gate_of db) d"
    by (rule conjunct1[OF critic_entry_moves[OF inv _ v _ _ _ _ _ steps]]) (use canonical_paidD[OF s] in \<open>auto simp: confirmation_row_def\<close>)
qed

lemma accept_identity_moves:
  assumes inv: "coord_inv S db" and s: "s \<in> set (db_slots db)" and c: "confirmations s [i]"
    and run: "accept_identity S uid worker s i now db = Inr (r, d)"
  shows "if s_lane s = ''critic'' then confirm_edge (gate_of db) d else review_edge (gate_of db) d"
proof (cases "s_lane s = ''critic''")
  case True
  then obtain e entry root_entry v d1 d2 rec where
      e: "e_id e = entry" "e_generation e = s_generation s" "e_lane e = ''critic''" "e_kind e = ''critic_confirmation''" "e_confirms e = Some root_entry"
    and v: "designated_review db s root_entry = Some v"
    and steps: "insert_evidence e db = Inr ((), d1)" "confirm_review v entry d1 = Inr ((), d2)"
      "ensure_recommendation uid (v_id v) root_entry entry (s_generation s) now d2 = Inr (rec, d)"
    using accept_critic[OF True c run] by blast
  show ?thesis using critic_entry_moves[OF inv s v e steps] True by simp
next
  case False
  obtain entry kind confirms where i: "i = (entry, kind, confirms)" by (cases i)
  obtain d1 rv where 1: "insert_evidence \<lparr>e_id = entry, e_generation = s_generation s, e_slot = s_id s, e_worker = worker, e_lane = s_lane s,
            e_kind = kind, e_confirms = confirms, e_created = now\<rparr> db = Inr ((), d1)"
      and 2: "ensure_review_for_root S entry (s_id s) (s_generation s) now d1 = Inr (rv, d)"
    using run False unfolding accept_identity_def i prod.case by (auto simp: tx_ok split: option.splits if_splits)
  show ?thesis
    using movesD[OF review_moves 2 keeps_applyD[OF keeps_evidence 1 inv]] unmovedD[OF unmoved_slots(1) 1] False by simp
qed

text \<open>A critic's batch has at most one identity, so a reconciliation takes at most one edge.\<close>

lemma accept_identities_moves:
  "coord_inv S db \<Longrightarrow> s \<in> set (db_slots db) \<Longrightarrow> confirmations s is \<Longrightarrow> length is \<le> 1 \<Longrightarrow> accept_identities S uid worker s is now acc db = Inr (r, d) \<Longrightarrow>
   if s_lane s = ''critic'' then confirm_edge (gate_of db) d else review_edge (gate_of db) d"
proof (cases "is")
  case Nil
  assume "accept_identities S uid worker s is now acc db = Inr (r, d)"
  then have "d = db" by (simp add: Nil tx_ok)
  then show ?thesis by (simp add: confirm_edge_def review_edge_def)
next
  case (Cons i js)
  assume h: "coord_inv S db" "s \<in> set (db_slots db)" "confirmations s is" "length is \<le> 1" "accept_identities S uid worker s is now acc db = Inr (r, d)"
  have k: "is = [i]" using h(4) Cons by simp
  then obtain x where x: "accept_identity S uid worker s i now db = Inr (x, d)" using h(5) by (auto simp: tx_ok split: prod.splits)
  show ?thesis by (rule accept_identity_moves[OF h(1,2) _ x]) (use h(3) k in simp)
qed

lemma reconcile_moves: "moves S (reconcile_tx S uid slot_id worker entries now) (\<lambda>g d. review_edge g d \<or> confirm_edge g d)"
proof (unfold moves_def, intro allI impI)
  fix db r d
  assume inv: "coord_inv S db" and run: "reconcile_tx S uid slot_id worker entries now db = Inr (r, d)"
  obtain s "is" x where s: "terminal_reconciliation_slot S worker slot_id db = Inr s" and c: "collect_identities s entries [] = Inr is"
    and k: "check_identities s is = None" and a: "accept_identities S uid worker s is now (None, None) db = Inr (x, d)"
    using run unfolding reconcile_tx_def tx_bind_ok tx_then_ok tx_returns by (auto simp: tx_ok split: prod.splits)
  have cf: "confirmations s is" by (rule collect_confirmations[OF c]) (simp add: confirmations_def)
  have "length is \<le> 1" using k by (auto simp: check_identities_def fail_if_def Suc_le_eq not_less split: if_splits)
  then show "review_edge (gate_of db) d \<or> confirm_edge (gate_of db) d"
    using accept_identities_moves[OF inv _ cf _ a] terminal_slotD[OF s] by (auto split: if_splits)
qed

lemma resolve_moves: "moves S (resolve_tx S i rid resolution ack b now) (resolve_edge S rid)"
proof (unfold moves_def, intro allI impI)
  fix db x d
  assume inv: "coord_inv S db" and run: "resolve_tx S i rid resolution ack b now db = Inr (x, d)"
  obtain p where p: "db_project db = Some p" using inv by (auto simp: coord_inv_def)
  from inv p have k: "phase_inv S p (db_slots db)" "slots_inv S p (db_slots db)" by (simp_all add: coord_inv_def)
  from resolve_cases[OF inv p run] show "resolve_edge S rid (gate_of db) d"
  proof (elim disjE conjE exE)
    fix r
    assume r: "r_id r = rid" "resolved_now S r x now db p d"
    note n = resolved_nowD[OF r(2)]
    have closed: "\<forall>s \<in> set (db_slots d). s_state s = Terminal"
      using n(3,4,9) k(2) unfolding slots_inv_def slot_inv_def is_open_terminal by metis
    have "round_closed S (p_generation p) d"
      unfolding round_closed_def
    proof (intro conjI ballI)
      show "active_candidate d = None" using n(5,10) by (simp add: active_candidate_def)
      fix w assume "w \<in> set (keys (roster_lanes S))"
      then obtain s where "s \<in> set (db_slots db)" "s_worker s = w" "s_generation s = p_generation p" "s_phase s = REASONING_PHASE"
        using k(1) n(6) unfolding phase_inv_def by (metis phases_distinct(4))
      then show "\<exists>s \<in> set (db_slots d). s_worker s = w \<and> s_generation s = p_generation p \<and> s_phase s = REASONING_PHASE \<and> s_state s = Terminal"
        using closed n(9) by metis
    qed (use closed in blast)
    then show ?thesis using n r(1) p unfolding resolve_edge_def gate_of_def by auto
  qed (simp add: resolve_edge_def)
qed

section \<open>Operations that may advance the generation\<close>

lemma advance_then: "moves S (tx_bind (advance_generation_if_ready S now) (\<lambda>_. tx_return ())) (auto_edge S)"
  by (rule moves_reads[OF advance_moves]) (rule gate_rule)

lemma moves_cases:
  "(b \<Longrightarrow> moves S m E) \<Longrightarrow> (\<not> b \<Longrightarrow> moves S n E) \<Longrightarrow> moves S (if b then m else n) E"
  "(y = None \<Longrightarrow> moves S m E) \<Longrightarrow> (\<And>z. y = Some z \<Longrightarrow> moves S (f z) E) \<Longrightarrow> moves S (case y of None \<Rightarrow> m | Some z \<Rightarrow> f z) E"
  by (auto split: option.splits)

lemma unmoved_cases:
  "(b \<Longrightarrow> unmoved m) \<Longrightarrow> (\<not> b \<Longrightarrow> unmoved n) \<Longrightarrow> unmoved (if b then m else n)"
  "(y = None \<Longrightarrow> unmoved m) \<Longrightarrow> (\<And>z. y = Some z \<Longrightarrow> unmoved (f z)) \<Longrightarrow> unmoved (case y of None \<Rightarrow> m | Some z \<Rightarrow> f z)"
  "(b \<Longrightarrow> keeps I m') \<Longrightarrow> (\<not> b \<Longrightarrow> keeps I n') \<Longrightarrow> keeps I (if b then m' else n')"
  "(y = None \<Longrightarrow> keeps I m') \<Longrightarrow> (\<And>z. y = Some z \<Longrightarrow> keeps I (f' z)) \<Longrightarrow> keeps I (case y of None \<Rightarrow> m' | Some z \<Rightarrow> f' z)"
  by (auto split: option.splits)

lemma expire_moves: "moves S (terminalize_expired_prepared S s now) (auto_edge S)"
  unfolding terminalize_expired_prepared_def
  by (rule advance_then moves_cases moves_bind moves_then keep keeps_cas_slots gate_rule | rule unmoved_moves | (simp add: is_open_terminal; fail))+

lemma admit_existing_moves: "moves S (admit_existing S worker lane ex s now) (auto_edge S)"
  unfolding admit_existing_def
  by (rule moves_then_reads[OF expire_moves] moves_cases moves_bind moves_then keep gate_rule | rule unmoved_moves)+

lemma admit_moves: "moves S (admit_tx S uid worker lane now) (auto_edge S)"
proof (unfold moves_def, intro allI impI)
  fix db r d
  assume inv: "coord_inv S db" and run: "admit_tx S uid worker lane now db = Inr (r, d)"
  obtain p where p: "db_project db = Some p" using inv by (auto simp: coord_inv_def)
  show "auto_edge S (gate_of db) d"
  proof (cases "find (\<lambda>s. s_worker s = worker \<and> is_open s) (db_slots db)")
    case None
    then have "admit_fresh S uid worker lane p now db = Inr (r, d)" using run p by (auto simp: admit_tx_def tx_run state_row_def)
    then show ?thesis using unmovedD[OF unmoved_fresh] by (simp add: auto_edge_def)
  next
    case (Some s)
    then have "admit_existing S worker lane (p_deadline p \<le> now) s now db = Inr (r, d)"
      using run p by (auto simp: admit_tx_def tx_run state_row_def)
    then show ?thesis using movesD[OF admit_existing_moves _ inv] by blast
  qed
qed

lemma activate_moves: "moves S (activate_tx S i now) (auto_edge S)"
  unfolding activate_tx_def
  by (rule moves_then_reads[OF expire_moves] moves_cases moves_bind moves_then moves_when keep keeps_when keeps_cas_slots unmoved_when gate_rule
     | rule unmoved_moves | (simp add: is_open_def; fail))+

lemma complete_moves: "moves S (complete_tx S i outcome now) (auto_edge S)"
proof -
  have k: "keeps (coord_inv S) (case (b, r) of (True, Some j) \<Rightarrow> cas_reviews (P j) (\<lambda>v. v\<lparr>v_terminal := g v\<rparr>) e | _ \<Rightarrow> tx_return ())"
    "unmoved (case (b, r) of (True, Some j) \<Rightarrow> cas_reviews (P j) (\<lambda>v. v\<lparr>v_terminal := g v\<rparr>) e | _ \<Rightarrow> tx_return ())" for b r P g e
    by (auto intro!: keeps_review_stamp keep gate_rule split: option.splits bool.splits)
  show ?thesis
    unfolding complete_tx_def
    by (rule advance_then k moves_cases moves_bind moves_then keep keeps_cas_slots gate_rule
       | rule unmoved_moves | (simp add: is_open_terminal; fail))+
qed

lemma advance_fetch: "moves S (tx_bind (advance_generation_if_ready S now) (\<lambda>_. fetch_candidate i)) (auto_edge S)"
  by (rule moves_reads[OF advance_moves]) (rule gate_rule)

lemma terminalize_moves: "moves S (terminalize_tx S worker i slot outcome releases now) (auto_edge S)"
proof -
  have f: "moves S (tx_then (tx_when releases (tx_bind (advance_generation_if_ready S now) (\<lambda>_. tx_return ()))) (fetch_candidate i)) (auto_edge S)"
    by (rule moves_then_reads[OF moves_when[OF _ advance_then]]) (rule gate_rule)+
  show ?thesis
    unfolding terminalize_tx_def Let_def
    by (rule f moves_cases moves_bind moves_then keep keeps_set_candidate gate_rule unmoved_cases
       | rule unmoved_moves | (simp; fail))+
qed

lemma release_moves: "moves S (release_unknown_tx S i resolution fa now) (auto_edge S)"
  unfolding release_unknown_tx_def
  by (rule advance_fetch moves_cases moves_bind moves_then keep keeps_set_candidate gate_rule unmoved_cases unmoved_bind keeps_tx_bind
     | rule unmoved_moves | (simp; fail))+

section \<open>Every operation takes at most one edge\<close>

fun op_edge :: "coord_store \<Rightarrow> coord_op \<Rightarrow> gate option \<Rightarrow> coord_db \<Rightarrow> bool" where
  "op_edge S (OResolve rid resolution ack b now) g d \<longleftrightarrow> gate_of d = g \<or> resolve_edge S rid g d \<and> ack = rid"
| "op_edge S (ORecordRoot worker kind entry slot now) g d \<longleftrightarrow> review_edge g d"
| "op_edge S (OConfirmRoot uid worker root_entry entry slot now) g d \<longleftrightarrow> confirm_edge g d"
| "op_edge S (OReconcile uid slot worker entries now) g d \<longleftrightarrow> review_edge g d \<or> confirm_edge g d"
| "op_edge S _ g d \<longleftrightarrow> auto_edge S g d"

lemma transact_moves: "moves S m E \<Longrightarrow> may_stay E \<Longrightarrow> coord_inv S db \<Longrightarrow> E (gate_of db) (snd (transact m db))"
  by (auto simp: transact_def moves_def may_stay_def split: sum.splits)

lemma auto_stay [simp]: "auto_edge S (gate_of db) db" "review_edge (gate_of db) db" "confirm_edge (gate_of db) db" "resolve_edge S rid (gate_of db) db"
  by (simp_all add: auto_edge_def review_edge_def confirm_edge_def resolve_edge_def)

lemma auto_unmoved: "unmoved m \<Longrightarrow> auto_edge S (gate_of db) (snd (transact m db))"
  by (auto simp: transact_def auto_edge_def dest: unmovedD split: sum.splits)

lemma initialize_unmoved: "coord_inv S db \<Longrightarrow> auto_edge S (gate_of db) (snd (transact (initialize_tx S now) db))"
  by (auto simp: transact_def coord_inv_def dest!: initialize_effect split: sum.splits)

lemma cursor_unmoved: "auto_edge S (gate_of db) (snd (set_memory_cursor worker stream cursor generation now db))"
  unfolding set_memory_cursor_def
  by (auto simp: Let_def split: option.splits intro!: auto_unmoved unmoved_rules gate_rule)

lemma resolve_ack: "recommendation_resolution_id H rid resolution ack b = Inr i \<Longrightarrow> ack = rid"
  by (auto simp: recommendation_resolution_id_def fail_if_def split: if_splits option.splits)

lemma step_edge:
  assumes inv: "coord_inv S db"
  shows "op_edge S oper (gate_of db) (snd (run_op S oper db))"
proof (cases oper)
  case (OResolve rid resolution ack b now)
  then show ?thesis using transact_moves[OF resolve_moves edges_stay(4) inv] resolve_ack
    by (auto simp: raised_def resolve_recommendation_def split: sum.splits)
next
  case (OActivate slot now)
  have "auto_edge S (gate_of db) (snd (transact (activate_tx S slot now) db))" by (rule transact_moves[OF activate_moves edges_stay(1) inv])
  then show ?thesis by (auto simp: OActivate raised_def activate_def split: option.splits prod.splits sum.splits)
next
  case (OComplete slot outcome now later)
  have "auto_edge S (gate_of db) (snd (transact (complete_tx S slot outcome now) db))" by (rule transact_moves[OF complete_moves edges_stay(1) inv])
  then show ?thesis by (auto simp: OComplete raised_def complete_def split: option.splits prod.splits sum.splits)
qed (auto simp: raised_def initialize_def admit_def stage_task_assignment_def pin_prompt_def mark_ambiguous_def record_root_evidence_def
    confirm_root_evidence_def reconcile_terminal_memory_entries_def validate_open_recommendation_def register_candidate_def
    terminalize_candidate_def record_exact_fact_reuse_def resolve_candidate_outcome_unknown_def record_candidate_def Let_def
    intro!: initialize_unmoved[OF inv] cursor_unmoved auto_unmoved gate_rule
      transact_moves[OF admit_moves edges_stay(1) inv] transact_moves[OF record_root_moves edges_stay(2) inv]
      transact_moves[OF confirm_root_moves edges_stay(3) inv] transact_moves[OF reconcile_moves edges_stay(6) inv]
      transact_moves[OF terminalize_moves edges_stay(1) inv] transact_moves[OF release_moves edges_stay(1) inv]
    split: sum.splits option.splits prod.splits)

end
