(* ===== verification/CoordDemo.thy ===== *)
theory CoordDemo
  imports CoordOps CoordInv
begin

text \<open>
  A small project with a root and a critic, run by operations of the coordination store; the witnesses of
  the properties of the store use it.
\<close>

section \<open>A project to run\<close>

definition demo_store :: coord_store where
  "demo_store = \<lparr>st_config = \<lparr>mode = REASONING_FIRST_MODE, max_paid_workers = 2, phase_timeout_seconds = 2700\<rparr>,
     st_roster = \<lparr>lane_roster.root = ''r'', critic = Some ''c'', explorers = [], lanes = [(''r'', ''root''), (''c'', ''critic'')]\<rparr>,
     st_digest = ''d'', st_hash = (\<lambda>_. replicate 64 CHR ''0'')\<rparr>"

definition demo_start :: coord_db where
  "demo_start = empty_db\<lparr>db_project := Some (first_project demo_store 0)\<rparr>"

fun run_ops :: "coord_store \<Rightarrow> coord_op list \<Rightarrow> coord_db \<Rightarrow> coord_db" where
  "run_ops S [] db = db"
| "run_ops S (oper # opers) db = run_ops S opers (snd (run_op S oper db))"

definition demo_admit :: "coord_op list" where
  "demo_admit = [OStage ''r'' ''t'' 1, OStage ''c'' ''t'' 1, OAdmit ''1'' ''r'' 2, OAdmit ''2'' ''c'' 2]"

definition demo_last :: "coord_op list" where
  "demo_last = demo_admit @ [OComplete ''slot_1'' ''ok'' 5 5]"

lemma demo_ok: "store_ok demo_store"
  unfolding store_ok_def demo_store_def by (auto simp: lane_sql_def database_schema_version_def) code_simp

text \<open>The generation ends when the second of its two slots completes.\<close>

lemma demo_admitted:
  "(\<lambda>d. (map s_worker (filter is_open (db_slots d)), map (\<lambda>t. t_frozen t = None) (db_tasks d),
     map (\<lambda>s. (s_id s, s_state s, s_prompt s, validate_slot_task_binding demo_store d s)) (db_slots d)))
     (run_ops demo_store demo_admit demo_start)
   = ([''r'', ''c''], [False, False], [(''slot_1'', Prepared, None, None), (''slot_2'', Prepared, None, None)])"
  unfolding demo_store_def demo_start_def demo_admit_def by code_simp

lemma demo_carried:
  "map (\<lambda>d. map_option (\<lambda>p. (p_generation p, p_phase p, p_review p, p_recommendation p)) (db_project d))
     [run_ops demo_store demo_last demo_start,
      snd (run_op demo_store (OComplete ''slot_2'' ''ok'' 5 5) (run_ops demo_store demo_last demo_start))]
   = [Some (1, REASONING_PHASE, None, None), Some (2, REASONING_PHASE, None, None)]"
  by code_simp

end
