(* ===== verification/CoordRounds.thy ===== *)
theory CoordRounds
  imports CoordMoves CoordDemo
begin

text \<open>
  The coordination store (\<open>danus/coordination/store.py\<close>) refines a machine of rounds: a generation is
  reasoned, its obstacle reviewed, and an owner's gate closes it; and what holds of every database a
  store can reach: the budget of paid slots, and when a generation may end.
\<close>

section \<open>Runs\<close>

lemma demo_start_init: "coord_init demo_store demo_start"
proof -
  have "initialize demo_store 0 empty_db = (Inr (), demo_start)"
    unfolding initialize_def transact_ok by (simp add: initialize_tx_def tx_run demo_start_def empty_db_def) code_simp
  then show ?thesis using demo_ok unfolding coord_init_def by blast
qed

lemma reach_ops: "reach (coord_init S) (coord_step S) db \<Longrightarrow> reach (coord_init S) (coord_step S) (run_ops S opers db)"
proof (induction opers arbitrary: db)
  case (Cons oper opers)
  have "coord_step S db (snd (run_op S oper db))" by (rule coord_step[OF prod.collapse[symmetric]])
  then show ?case using Cons reach_step by fastforce
qed simp

lemma steps_ops: "(coord_step S)\<^sup>*\<^sup>* db (run_ops S opers db)"
proof (induction opers arbitrary: db)
  case (Cons oper opers)
  have "coord_step S db (snd (run_op S oper db))" by (rule coord_step[OF prod.collapse[symmetric]])
  then show ?case using Cons by (simp add: converse_rtranclp_into_rtranclp)
qed simp

lemma demo_reach: "reach (coord_init demo_store) (coord_step demo_store) (run_ops demo_store opers demo_start)"
  by (rule reach_ops, rule reach_init, rule demo_start_init)

section \<open>Rounds\<close>

datatype round = Reasoning int bool | Reviewing int | Owners int string

definition round_of :: "coord_db \<Rightarrow> round option" where
  "round_of db = (case gate_of db of
     None \<Rightarrow> None
   | Some (n, ph, rv, rc) \<Rightarrow>
       if ph = REASONING_PHASE then Some (Reasoning n (rv \<noteq> None))
       else if ph = CRITIC_REVIEW_PHASE then Some (Reviewing n)
       else (case rc of None \<Rightarrow> None | Some i \<Rightarrow> Some (Owners n i)))"

text \<open>The label of a step is the recommendation its owner acknowledges, if any.\<close>

inductive round_step :: "string option \<Rightarrow> round \<Rightarrow> round \<Rightarrow> bool" where
  obstacle: "round_step l (Reasoning n False) (Reasoning n True)"
| review: "round_step l (Reasoning n True) (Reviewing n)"
| carry: "round_step l (Reasoning n False) (Reasoning (n + 1) False)"
| refute: "round_step l (Reviewing n) (Reasoning (n + 1) False)"
| confirm: "round_step l (Reviewing n) (Owners n i)"
| resolve: "round_step (Some i) (Owners n i) (Reasoning (n + 1) False)"

definition acknowledged :: "coord_op \<Rightarrow> string option" where
  "acknowledged oper = (case oper of OResolve rid _ ack _ _ \<Rightarrow> if ack = rid then Some rid else None | _ \<Rightarrow> None)"

definition generation_of :: "coord_db \<Rightarrow> int option" where
  "generation_of db = map_option p_generation (db_project db)"

lemma round_of_gate:
  "gate_of db = Some (n, REASONING_PHASE, rv, rc) \<Longrightarrow> round_of db = Some (Reasoning n (rv \<noteq> None))"
  "gate_of db = Some (n, CRITIC_REVIEW_PHASE, rv, rc) \<Longrightarrow> round_of db = Some (Reviewing n)"
  "gate_of db = Some (n, OWNER_ACTION_REQUIRED_PHASE, rv, Some i) \<Longrightarrow> round_of db = Some (Owners n i)"
  by (simp_all add: round_of_def)

lemma demo_rounds:
  "map (\<lambda>d. (generation_of d, round_of d)) [run_ops demo_store demo_last demo_start,
     snd (run_op demo_store (OComplete ''slot_2'' ''ok'' 5 5) (run_ops demo_store demo_last demo_start))]
   = [(Some 1, Some (Reasoning 1 False)), (Some 2, Some (Reasoning 2 False))]"
  proof -
  have gate: "map gate_of [run_ops demo_store demo_last demo_start,
      snd (run_op demo_store (OComplete ''slot_2'' ''ok'' 5 5) (run_ops demo_store demo_last demo_start))]
    = [Some (1, REASONING_PHASE, None, None), Some (2, REASONING_PHASE, None, None)]"
    unfolding gate_of_def by (rule demo_carried)
  have "generation_of d = map_option fst (gate_of d)" for d
    by (simp add: generation_of_def gate_of_def option.map_comp o_def)
  then show ?thesis using gate by (simp add: round_of_gate)
qed

lemma round_total: "coord_inv S db \<Longrightarrow> \<exists>r. round_of db = Some r"
  unfolding coord_inv_def phase_inv_def advice_inv_def round_of_def gate_of_def by (auto split: option.splits)

lemma edge_round:
  assumes "op_edge S oper (gate_of db) d" "round_of db = Some r" "round_of d = Some r'"
  shows "r' = r \<or> round_step (acknowledged oper) r r'"
proof -
  have same: "gate_of d = gate_of db \<Longrightarrow> r' = r" using assms(2,3) by (simp add: round_of_def)
  have auto: "auto_edge S (gate_of db) d \<Longrightarrow> r' = r \<or> round_step l r r'" for l
    unfolding auto_edge_def
  proof (elim disjE exE conjE)
    fix n ph rv
    assume "gate_of db = Some (n, ph, rv, None)" "ph = REASONING_PHASE" "rv \<noteq> None" "gate_of d = Some (n, CRITIC_REVIEW_PHASE, rv, None)"
    then show ?thesis using assms(2,3) by (auto simp: round_of_gate intro: round_step.intros)
  next
    fix n ph rv
    assume "gate_of db = Some (n, ph, rv, None)" "gate_of d = Some (n + 1, REASONING_PHASE, None, None)" "ph = REASONING_PHASE" "rv = None"
    then show ?thesis using assms(2,3) by (auto simp: round_of_gate intro: round_step.intros)
  next
    fix n ph rv
    assume "gate_of db = Some (n, ph, rv, None)" "gate_of d = Some (n + 1, REASONING_PHASE, None, None)" "ph = CRITIC_REVIEW_PHASE"
    then show ?thesis using assms(2,3) by (auto simp: round_of_gate intro: round_step.intros)
  qed (use same in blast)
  have rv: "review_edge (gate_of db) d \<Longrightarrow> r' = r \<or> round_step l r r'" for l
    unfolding review_edge_def using assms(2,3) same by (auto simp: round_of_gate intro: round_step.intros)
  have cf: "confirm_edge (gate_of db) d \<Longrightarrow> r' = r \<or> round_step l r r'" for l
    unfolding confirm_edge_def using assms(2,3) same by (auto simp: round_of_gate intro: round_step.intros)
  have rs: "resolve_edge S rid (gate_of db) d \<Longrightarrow> r' = r \<or> round_step (Some rid) r r'" for rid
    unfolding resolve_edge_def using assms(2,3) same by (auto simp: round_of_gate intro: round_step.intros)
  show ?thesis using assms(1) auto rv cf rs same by (cases oper) (auto simp: acknowledged_def)
qed

text \<open>
  Property C6. The store refines the machine of rounds: it starts reasoning generation one without an
  obstacle, and every operation on a database it can reach leaves the round alone or takes exactly one
  step of the machine. In particular a review follows only on an obstacle, the owner's gate only on a
  review, and it is left only by an operation that acknowledges the open recommendation by its id.
\<close>

theorem rounds_refined:
  "(coord_init S db \<longrightarrow> round_of db = Some (Reasoning 1 False)) \<and>
   (reach (coord_init S) (coord_step S) db \<longrightarrow>
     (\<exists>r r'. round_of db = Some r \<and> round_of (snd (run_op S oper db)) = Some r' \<and> (r' = r \<or> round_step (acknowledged oper) r r')))"
proof (intro conjI impI)
  assume "coord_init S db"
  then obtain now where "db = empty_db\<lparr>db_project := Some (first_project S now)\<rparr>" using coord_initD by blast
  then show "round_of db = Some (Reasoning 1 False)" by (simp add: round_of_def first_project_def)
next
  assume "reach (coord_init S) (coord_step S) db"
  then have inv: "coord_inv S db" by (rule coord_system.inv_reach)
  obtain r where r: "round_of db = Some r" using round_total[OF inv] by blast
  obtain r' where r': "round_of (snd (run_op S oper db)) = Some r'" using round_total[OF step_inv[OF inv]] by blast
  show "\<exists>r r'. round_of db = Some r \<and> round_of (snd (run_op S oper db)) = Some r' \<and> (r' = r \<or> round_step (acknowledged oper) r r')"
    using r r' edge_round[OF step_edge[OF inv] r r'] by blast
qed

theorem rounds_refined_witness:
  "reach (coord_init demo_store) (coord_step demo_store) (run_ops demo_store demo_last demo_start) \<and>
   round_of demo_start = Some (Reasoning 1 False) \<and>
   round_of (run_ops demo_store demo_last demo_start) = Some (Reasoning 1 False) \<and>
   round_of (snd (run_op demo_store (OComplete ''slot_2'' ''ok'' 5 5) (run_ops demo_store demo_last demo_start))) = Some (Reasoning (1 + 1) False) \<and>
   round_step (acknowledged (OComplete ''slot_2'' ''ok'' 5 5)) (Reasoning 1 False) (Reasoning (1 + 1) False)"
proof -
  have r: "reach (coord_init demo_store) (coord_step demo_store) (run_ops demo_store demo_last demo_start)" by (rule demo_reach)
  show ?thesis
    using rounds_refined[of demo_store demo_start] demo_start_init r demo_rounds
      rounds_refined[of demo_store "run_ops demo_store demo_last demo_start" "OComplete ''slot_2'' ''ok'' 5 5"] by simp
qed

section \<open>The end of a generation\<close>

lemma generation_change:
  assumes "coord_inv S db" "run_op S oper db = (e, d)"
    and "generation_of db = Some n" "generation_of d \<noteq> Some n"
  shows "generation_of d = Some (n + 1) \<and> list_all (\<lambda>s. s_state s = Terminal) (db_slots d) \<and> active_candidate d = None \<and>
    list_all (\<lambda>w. list_ex (\<lambda>s. s_worker s = w \<and> s_generation s = n \<and> s_phase s = REASONING_PHASE) (db_slots d)) (keys (roster_lanes S))"
proof -
  have gen: "generation_of x = map_option fst (gate_of x)" for x
    by (simp add: generation_of_def gate_of_def option.map_comp o_def)
  have edge: "op_edge S oper (gate_of db) d" using step_edge[OF assms(1), of oper] assms(2) by simp
  have auto: "?thesis" if "auto_edge S (gate_of db) d"
    using that assms(3,4) unfolding auto_edge_def gen round_closed_def list_all_iff list_ex_iff by fastforce
  have rs: "?thesis" if "resolve_edge S rid (gate_of db) d" for rid
    using that assms(3,4) unfolding resolve_edge_def gen round_closed_def list_all_iff list_ex_iff by fastforce
  have no: "False" if "review_edge (gate_of db) d \<or> confirm_edge (gate_of db) d"
    using that assms(3,4) unfolding review_edge_def confirm_edge_def gen by auto
  show ?thesis using edge auto rs no assms(3,4) by (cases oper) (auto simp: gen)
qed

text \<open>
  Property C7. A generation never ends early: when an operation on a reachable database changes the
  generation, the new one is the next, every paid slot is terminal, no candidate is being verified, and
  every worker of the protected roster has had its reasoning slot in the generation that ended.
\<close>

theorem generation_ends_closed:
  assumes "reach (coord_init S) (coord_step S) db" "run_op S oper db = (e, d)"
    and "generation_of db = Some n" "generation_of d \<noteq> Some n"
  shows "generation_of d = Some (n + 1) \<and> list_all (\<lambda>s. s_state s = Terminal) (db_slots d) \<and> active_candidate d = None \<and>
    list_all (\<lambda>w. list_ex (\<lambda>s. s_worker s = w \<and> s_generation s = n \<and> s_phase s = REASONING_PHASE) (db_slots d)) (keys (roster_lanes S))"
  by (rule generation_change[OF coord_system.inv_reach[OF assms(1)] assms(2-4)])

theorem generation_ends_closed_witness:
  "let d = snd (run_op demo_store (OComplete ''slot_2'' ''ok'' 5 5) (run_ops demo_store demo_last demo_start)) in
   generation_of d = Some (1 + 1) \<and> list_all (\<lambda>s. s_state s = Terminal) (db_slots d) \<and> active_candidate d = None \<and>
   list_all (\<lambda>w. list_ex (\<lambda>s. s_worker s = w \<and> s_generation s = 1 \<and> s_phase s = REASONING_PHASE) (db_slots d)) (keys (roster_lanes demo_store))"
proof -
  let ?db = "run_ops demo_store demo_last demo_start" and ?op = "OComplete ''slot_2'' ''ok'' 5 5"
  show ?thesis
    using generation_ends_closed[of demo_store ?db ?op "fst (run_op demo_store ?op ?db)" "snd (run_op demo_store ?op ?db)" 1, OF demo_reach]
      demo_rounds by (simp add: Let_def)
qed

section \<open>The paid budget\<close>

lemma open_slots:
  assumes "coord_inv S db"
  shows "let os = filter is_open (db_slots db) in
    int (length os) \<le> max_paid_workers (st_config S) \<and> distinct (map s_worker os) \<and> distinct (map s_lane os) \<and>
    list_all (\<lambda>s. map_of (roster_lanes S) (s_worker s) = Some (s_lane s) \<and>
      (\<exists>p. db_project db = Some p \<and> s_generation s = p_generation p \<and> s_phase s = slot_phase p)) os"
proof -
  obtain p where p: "db_project db = Some p" "store_ok S" "slots_inv S p (db_slots db)" using assms unfolding coord_inv_def by blast
  let ?os = "filter is_open (db_slots db)"
  have si: "slot_inv S p s" if "s \<in> set ?os" for s using p(3) that by (simp add: slots_inv_def)
  have o: "map_of (roster_lanes S) (s_worker s) = Some (s_lane s) \<and> s_generation s = p_generation p \<and> s_phase s = slot_phase p" if "s \<in> set ?os" for s
    using si[OF that] that by (simp add: slot_inv_def)
  have d: "distinct ?os" using p(3) by (auto simp: slots_inv_def distinct_map)
  have same: "s = s'" if "s \<in> set ?os" "s' \<in> set ?os" "s_worker s = s_worker s'" for s s'
    using p(3) o[OF that(1)] o[OF that(2)] that by (auto simp: slots_inv_def intro: distinct_map_eq)
  have w: "distinct (map s_worker ?os)" using d same by (auto simp: distinct_map inj_on_def)
  have l: "distinct (map s_lane ?os)"
    unfolding distinct_map inj_on_def using d same o lane_worker[OF p(2)] by metis
  have "set (map s_worker ?os) \<subseteq> set (keys (roster_lanes S))"
    using map_of_SomeD o by force
  then have "length ?os \<le> length (roster_lanes S)"
    using w card_mono[of "set (keys (roster_lanes S))" "set (map s_worker ?os)"] distinct_card[OF w] card_length[of "keys (roster_lanes S)"] by simp
  then have "int (length ?os) \<le> max_paid_workers (st_config S)" using p(2) unfolding store_ok_def by linarith
  then show ?thesis using w l o p(1) by (auto simp: Let_def list_all_iff)
qed

lemma open_budget: "coord_inv S db \<Longrightarrow> int (length (filter is_open (db_slots db))) \<le> max_paid_workers (st_config S)"
  using open_slots unfolding Let_def by blast

text \<open>
  Property C8. The paid budget holds: in every database a store can reach, the open slots are at most as
  many as the project pays for, they belong to pairwise different workers and lanes of the roster, and
  all of them to the generation and the phase under way.
\<close>

theorem paid_budget:
  assumes "reach (coord_init S) (coord_step S) db"
  shows "let os = filter is_open (db_slots db) in
    int (length os) \<le> max_paid_workers (st_config S) \<and> distinct (map s_worker os) \<and> distinct (map s_lane os) \<and>
    list_all (\<lambda>s. map_of (roster_lanes S) (s_worker s) = Some (s_lane s) \<and>
      (\<exists>p. db_project db = Some p \<and> s_generation s = p_generation p \<and> s_phase s = slot_phase p)) os"
  by (rule open_slots[OF coord_system.inv_reach[OF assms]])

theorem paid_budget_witness:
  "let os = filter is_open (db_slots (run_ops demo_store demo_admit demo_start)) in
   map s_worker os = [''r'', ''c''] \<and> int (length os) \<le> max_paid_workers (st_config demo_store) \<and> distinct (map s_lane os)"
  using paid_budget[OF demo_reach, of demo_admit] demo_admitted by (simp add: Let_def)

end
