(* ===== verification/CoordHistory.thy ===== *)
theory CoordHistory
  imports CoordRounds
begin

text \<open>
  What the coordination store (\<open>danus/coordination/store.py\<close>) never takes back: closed slots and pinned
  prompts, frozen tasks, evidence, recommendations, resolutions, and the identity of reviews. The relation
  between a database and a later one is reflexive and transitive, so it is checked write by write.
\<close>

section \<open>Later databases\<close>

text \<open>A slot that is stuck was marked ambiguous before a prompt was pinned to it.\<close>

definition stuck :: "slot_row \<Rightarrow> bool" where
  "stuck s \<longleftrightarrow> s_state s = Ambiguous \<and> s_prompt s = None \<and> s_legacy s = 0"

definition slot_after :: "slot_row \<Rightarrow> slot_row \<Rightarrow> bool" where
  "slot_after s t \<longleftrightarrow>
     s_id t = s_id s \<and> s_worker t = s_worker s \<and> s_lane t = s_lane s \<and> s_generation t = s_generation s \<and> s_phase t = s_phase s \<and>
     s_directive t = s_directive s \<and> s_task t = s_task s \<and> s_review t = s_review s \<and> s_designated t = s_designated s \<and>
     (s_prompt s \<noteq> None \<longrightarrow> s_prompt t = s_prompt s \<and> s_prompt_sha t = s_prompt_sha s) \<and>
     s_legacy t = s_legacy s \<and> (s_state s = Terminal \<or> stuck s \<longrightarrow> t = s) \<and> (s_state t = Prepared \<longrightarrow> s_state s = Prepared)"

definition review_after :: "review_row \<Rightarrow> review_row \<Rightarrow> bool" where
  "review_after v w \<longleftrightarrow>
     v_id w = v_id v \<and> v_generation w = v_generation v \<and> v_root_entry w = v_root_entry v \<and> v_root_slot w = v_root_slot v \<and>
     v_critic_worker w = v_critic_worker v \<and> (v_critic_slot v \<noteq> None \<longrightarrow> v_critic_slot w = v_critic_slot v) \<and>
     (v_confirmation v \<noteq> None \<longrightarrow> v_confirmation w = v_confirmation v) \<and> (v_state v \<in> {VNotConfirmed, VResolved} \<longrightarrow> w = v)"

definition later :: "coord_db \<Rightarrow> coord_db \<Rightarrow> bool" where
  "later db d \<longleftrightarrow>
     (\<forall>s \<in> set (db_slots db). \<exists>t \<in> set (db_slots d). slot_after s t) \<and>
     (\<forall>v \<in> set (db_reviews db). \<exists>w \<in> set (db_reviews d). review_after v w) \<and>
     (\<forall>t \<in> set (db_tasks db). t_frozen t \<noteq> None \<longrightarrow> t \<in> set (db_tasks d)) \<and>
     set (db_evidence db) \<subseteq> set (db_evidence d) \<and> set (db_recommendations db) \<subseteq> set (db_recommendations d) \<and>
     set (db_resolutions db) \<subseteq> set (db_resolutions d)"

definition distinct_slots :: "coord_db \<Rightarrow> bool" where
  "distinct_slots db \<longleftrightarrow> distinct (map s_id (db_slots db))"

definition grows :: "'a tx \<Rightarrow> bool" where
  "grows m \<longleftrightarrow> (\<forall>db x d. distinct_slots db \<longrightarrow> m db = Inr (x, d) \<longrightarrow> distinct_slots d \<and> later db d)"

lemma slot_after_refl [simp]: "slot_after s s"
  by (simp add: slot_after_def)

lemma slot_after_trans: "slot_after s t \<Longrightarrow> slot_after t u \<Longrightarrow> slot_after s u"
  unfolding slot_after_def by metis

lemma review_after_refl [simp]: "review_after v v"
  by (simp add: review_after_def)

lemma review_after_trans: "review_after v w \<Longrightarrow> review_after w x \<Longrightarrow> review_after v x"
  unfolding review_after_def by metis

lemma later_refl [simp]: "later db db"
  by (auto simp: later_def intro: slot_after_refl review_after_refl)

lemma later_trans: "later a b \<Longrightarrow> later b c \<Longrightarrow> later a c"
proof -
  assume ab: "later a b" and bc: "later b c"
  have "\<exists>u \<in> set (db_slots c). slot_after s u" if "s \<in> set (db_slots a)" for s
    using that ab bc unfolding later_def by (meson slot_after_trans)
  moreover have "\<exists>x \<in> set (db_reviews c). review_after v x" if "v \<in> set (db_reviews a)" for v
    using that ab bc unfolding later_def by (meson review_after_trans)
  ultimately show "later a c" using ab bc unfolding later_def by (auto dest: subsetD)
qed

named_theorems grow \<open>transactions that take nothing back\<close>

lemma growsD: "grows m \<Longrightarrow> m db = Inr (x, d) \<Longrightarrow> distinct_slots db \<Longrightarrow> distinct_slots d \<and> later db d"
  unfolding grows_def by blast

lemma grows_bind: "grows m \<Longrightarrow> (\<And>x. grows (f x)) \<Longrightarrow> grows (tx_bind m f)"
  unfolding grows_def tx_bind_ok using later_trans by metis

lemma grows_then: "grows m \<Longrightarrow> grows n \<Longrightarrow> grows (tx_then m n)"
  unfolding tx_then_def by (rule grows_bind)

lemma grows_when: "grows m \<Longrightarrow> grows (tx_when b m)"
  unfolding grows_def by (auto simp: tx_ok)

lemma grows_cases:
  "(b \<Longrightarrow> grows m) \<Longrightarrow> (\<not> b \<Longrightarrow> grows n) \<Longrightarrow> grows (if b then m else n)"
  "(y = None \<Longrightarrow> grows m) \<Longrightarrow> (\<And>z. y = Some z \<Longrightarrow> grows (f z)) \<Longrightarrow> grows (case y of None \<Rightarrow> m | Some z \<Rightarrow> f z)"
  by (auto split: option.splits)

section \<open>Single writes\<close>

lemma update_after:
  assumes "r \<in> set rows" "P r \<Longrightarrow> R r (f r)" "\<And>x. R x x"
  shows "\<exists>r' \<in> set (update_rows P f rows). R r r'"
proof
  show "(if P r then f r else r) \<in> set (update_rows P f rows)" using assms(1) by (simp add: update_rows_def)
  show "R r (if P r then f r else r)" using assms(2,3) by simp
qed

lemma later_slots:
  assumes "\<And>s. s \<in> set (db_slots db) \<Longrightarrow> P s \<Longrightarrow> slot_after s (f s)"
  shows "later db (db\<lparr>db_slots := update_rows P f (db_slots db)\<rparr>)"
  unfolding later_def using assms update_after[where R = slot_after] by (auto intro: review_after_refl)

lemma later_reviews:
  assumes "\<And>v. v \<in> set (db_reviews db) \<Longrightarrow> P v \<Longrightarrow> review_after v (f v)"
  shows "later db (db\<lparr>db_reviews := update_rows P f (db_reviews db)\<rparr>)"
  unfolding later_def using assms update_after[where R = review_after] by (auto intro: slot_after_refl)

lemma distinct_update: "(\<And>s. s_id (f s) = s_id s) \<Longrightarrow> distinct_slots (db\<lparr>db_slots := update_rows P f (db_slots db)\<rparr>) = distinct_slots db"
  by (simp add: distinct_slots_def update_rows_field)

lemma later_simps [simp]:
  "later db (db\<lparr>db_workers := w\<rparr>)" "later db (db\<lparr>db_cursors := c\<rparr>)" "later db (db\<lparr>db_candidates := k\<rparr>)" "later db (db\<lparr>db_project := p\<rparr>)"
  "later db (db\<lparr>db_slots := db_slots db @ [s]\<rparr>)" "later db (db\<lparr>db_tasks := db_tasks db @ [t]\<rparr>)" "later db (db\<lparr>db_evidence := db_evidence db @ [e]\<rparr>)"
  "later db (db\<lparr>db_recommendations := db_recommendations db @ [r]\<rparr>)" "later db (db\<lparr>db_resolutions := db_resolutions db @ [x]\<rparr>)"
  "later db (db\<lparr>db_reviews := db_reviews db @ [v]\<rparr>)"
  by (auto simp: later_def intro: slot_after_refl review_after_refl)

lemma distinct_slots_simps [simp]:
  "distinct_slots (db\<lparr>db_workers := w\<rparr>) = distinct_slots db" "distinct_slots (db\<lparr>db_cursors := c\<rparr>) = distinct_slots db"
  "distinct_slots (db\<lparr>db_candidates := k\<rparr>) = distinct_slots db" "distinct_slots (db\<lparr>db_project := p\<rparr>) = distinct_slots db"
  "distinct_slots (db\<lparr>db_tasks := t\<rparr>) = distinct_slots db" "distinct_slots (db\<lparr>db_evidence := e\<rparr>) = distinct_slots db"
  "distinct_slots (db\<lparr>db_recommendations := r\<rparr>) = distinct_slots db" "distinct_slots (db\<lparr>db_resolutions := x\<rparr>) = distinct_slots db"
  "distinct_slots (db\<lparr>db_reviews := v\<rparr>) = distinct_slots db"
  by (simp_all add: distinct_slots_def)

lemma grows_basic [grow]:
  "grows (tx_return x)" "grows (tx_raise e)" "grows (tx_read g)" "grows (tx_lift h)" "grows (tx_check c)"
  "grows (cas_project P f e)" "grows (insert_evidence_row r)" "grows (insert_candidate k)" "grows (insert_resolution x2)" "grows (insert_recommendation q)"
  "grows (insert_task S t)" "grows (insert_review v)"
  "grows (set_candidate i P2 f2)" "grows (write_worker_state w l st g2 ph now)" "grows (tx_write (\<lambda>db. db\<lparr>db_cursors := fc db\<rparr>))"
  by (auto simp: grows_def tx_ok set_candidate_def write_worker_state_def)

lemma grows_insert_slot [grow]: "grows (insert_slot S s)"
  by (auto simp: grows_def tx_ok distinct_slots_def slot_insertable_def list_all_iff)

lemma grows_slots:
  assumes "\<And>s. P s \<Longrightarrow> slot_after s (f s)" "\<And>s. s_id (f s) = s_id s"
  shows "grows (cas_slots P f e)" "grows (tx_write (\<lambda>db. db\<lparr>db_slots := update_rows P f (db_slots db)\<rparr>))"
  using assms by (auto simp: grows_def tx_ok distinct_update intro: later_slots)

lemma grows_reviews:
  assumes "\<And>v. P v \<Longrightarrow> review_after v (f v)"
  shows "grows (cas_reviews P f e)"
  using assms by (auto simp: grows_def tx_ok intro: later_reviews)

lemma grows_tasks:
  assumes "\<And>t. P t \<Longrightarrow> t_frozen t = None"
  shows "grows (cas_tasks P f e)" "grows (tx_write (\<lambda>db. db\<lparr>db_tasks := update_rows P f (db_tasks db)\<rparr>))"
proof -
  have "t \<in> set (update_rows P f ts)" if "t \<in> set ts" "t_frozen t \<noteq> None" for t ts
    using assms[of t] that by (auto simp: update_rows_def image_iff)
  then have "later db (db\<lparr>db_tasks := update_rows P f (db_tasks db)\<rparr>)" for db
    by (auto simp: later_def intro: slot_after_refl review_after_refl)
  then show "grows (cas_tasks P f e)" "grows (tx_write (\<lambda>db. db\<lparr>db_tasks := update_rows P f (db_tasks db)\<rparr>))"
    by (auto simp: grows_def tx_ok)
qed

section \<open>The operations\<close>

lemma grows_fetch [grow]: "grows (fetch_candidate i)"
  unfolding fetch_candidate_def by (rule grow)

lemma grows_evidence [grow]: "grows (insert_evidence r)"
  unfolding insert_evidence_def by (rule grows_cases grows_bind grow)+

lemma grows_carry: "grows (carry_tasks S g stamp ls)"
proof (induction ls)
  case (Cons wl ls)
  then show ?case by (cases wl) (simp, (rule grows_cases grows_bind grows_then grow | assumption)+)
qed (simp add: grow)

lemma grows_advance [grow]: "grows (advance_generation_if_ready S now)"
  unfolding advance_generation_if_ready_def enter_critic_review_def close_unconfirmed_review_def next_generation_def copy_forward_generation_tasks_def
  by (rule grows_cases grows_bind grows_then grows_when grows_carry grows_reviews grow | (simp add: review_after_def; fail))+

lemma grows_expire [grow]: "grows (terminalize_expired_prepared S s now)"
  unfolding terminalize_expired_prepared_def
  by (rule grows_cases grows_bind grows_then grows_slots grow | (simp add: slot_after_def stuck_def; fail))+

lemma grows_slot_admission [grow]: "grows (slot_admission_tx S s r)"
  unfolding slot_admission_tx_def by (rule grows_cases grows_bind grows_then grow)+

lemma grows_admit [grow]: "grows (admit_tx S uid worker lane now)"
proof -
  have r: "grows (reserve_slot S uid worker lane p review now)" for p review
    unfolding reserve_slot_def freeze_task_def claim_review_def Let_def
    by (auto intro!: grows_cases grows_bind grows_then grows_when grows_tasks grows_reviews grow simp: review_after_def split: prod.splits)
  show ?thesis
    unfolding admit_tx_def admit_existing_def admit_fresh_def Let_def
    by (rule grows_cases grows_bind grows_then r grow)+
qed

lemma grows_activate [grow]: "grows (activate_tx S i now)"
  unfolding activate_tx_def
  by (rule grows_cases grows_bind grows_then grows_when grows_slots grow | (simp add: slot_after_def stuck_def; fail))+

section \<open>Writes to a slot whose binding was checked\<close>

definition grows_from :: "coord_db \<Rightarrow> 'a tx \<Rightarrow> bool" where
  "grows_from db m \<longleftrightarrow> (\<forall>x d. m db = Inr (x, d) \<longrightarrow> distinct_slots d \<and> later db d)"

lemma stuck_unbound: "stuck s \<Longrightarrow> validate_slot_task_binding S db s \<noteq> None"
  unfolding stuck_def validate_slot_task_binding_def check_prompt_def by (auto split: option.splits sum.splits)

lemma grows_slot_of:
  assumes "\<And>db s. distinct_slots db \<Longrightarrow> slot_of db i = Some s \<Longrightarrow> \<not> stuck s \<Longrightarrow> \<not> b s \<Longrightarrow> grows_from db (g s)"
  shows "grows (tx_bind (tx_read (\<lambda>db. slot_of db i)) (\<lambda>row. case row of None \<Rightarrow> tx_raise e
    | Some s \<Rightarrow> if b s then tx_raise e2 else tx_then (tx_check (\<lambda>db. validate_slot_task_binding S db s)) (g s)))"
proof -
  have "grows_from db (case slot_of db i of None \<Rightarrow> tx_raise e
    | Some s \<Rightarrow> if b s then tx_raise e2 else tx_then (tx_check (\<lambda>db. validate_slot_task_binding S db s)) (g s))"
    if d: "distinct_slots db" for db
  proof (cases "slot_of db i")
    case (Some s)
    have "grows_from db (g s)" if "\<not> b s" "validate_slot_task_binding S db s = None"
      using assms[OF d Some] stuck_unbound that by blast
    then show ?thesis by (auto simp: Some grows_from_def tx_ok)
  qed (simp add: grows_from_def tx_ok)
  then show ?thesis by (simp add: grows_def grows_from_def tx_ok)
qed

lemmas grows_any_slot_of = grows_slot_of[where b = "\<lambda>_. False", unfolded if_False]

lemma grows_from_if: "(b \<Longrightarrow> grows_from db m) \<Longrightarrow> (\<not> b \<Longrightarrow> grows_from db n) \<Longrightarrow> grows_from db (if b then m else n)"
  by simp

lemma grows_from_when: "(b \<Longrightarrow> grows_from db m) \<Longrightarrow> (\<not> b \<Longrightarrow> grows_from db (tx_return ())) \<Longrightarrow> grows_from db (tx_when b m)"
  by (auto simp: tx_when_def)

lemma grows_from_grows: "grows m \<Longrightarrow> distinct_slots db \<Longrightarrow> grows_from db m"
  by (auto simp: grows_def grows_from_def)

lemma grows_from_then: "grows_from db m \<Longrightarrow> grows n \<Longrightarrow> grows_from db (tx_then m n)"
  unfolding grows_from_def tx_then_ok grows_def using later_trans by blast

lemma grows_from_slot:
  assumes "distinct_slots db" "slot_of db i = Some s" "\<And>q. P q \<Longrightarrow> s_id q = i" "P s \<Longrightarrow> slot_after s (f s)" "\<And>q. s_id (f q) = s_id q"
  shows "grows_from db (cas_slots P f e)" "grows_from db (tx_write (\<lambda>db. db\<lparr>db_slots := update_rows P f (db_slots db)\<rparr>))"
proof -
  have s: "s \<in> set (db_slots db)" "s_id s = i" using assms(2) by (auto simp: slot_of_def find_Some_iff)
  have "q = s" if "q \<in> set (db_slots db)" "P q" for q
    using assms(1,3) s that by (auto simp: distinct_slots_def distinct_map inj_on_def)
  then have "later db (db\<lparr>db_slots := update_rows P f (db_slots db)\<rparr>)" using assms(4) by (intro later_slots) auto
  then show "grows_from db (cas_slots P f e)" "grows_from db (tx_write (\<lambda>db. db\<lparr>db_slots := update_rows P f (db_slots db)\<rparr>))"
    using assms(1,5) by (auto simp: grows_from_def tx_ok distinct_update)
qed

lemma grows_mark_ambiguous [grow]: "grows (mark_ambiguous_tx S i now)"
  unfolding mark_ambiguous_tx_def
  by (rule grows_slot_of, rule grows_from_then, erule (1) grows_from_slot) (auto simp: slot_after_def is_open_def grow)

lemma pinned_after:
  "is_open s \<Longrightarrow> \<not> stuck s \<Longrightarrow> s_prompt s = None \<Longrightarrow>
   slot_after s (s\<lparr>s_prompt := Some x, s_prompt_sha := y, s_prompt_task_sha := z\<rparr>)"
  by (auto simp: slot_after_def is_open_def)

lemma grows_pin [grow]: "grows (pin_tx S i prompt)"
  unfolding pin_tx_def
  by (rule grows_slot_of grows_from_if grows_from_then grows_from_when grows_cases grows_bind grow | erule (1) grows_from_slot |
      (rule grows_from_grows; (rule grow | assumption)) | (simp add: pinned_after; fail))+

lemma completed_after:
  "s_state s \<noteq> Terminal \<Longrightarrow> \<not> stuck s \<Longrightarrow> slot_after s (s\<lparr>s_state := Terminal, s_terminal := t, s_outcome := u\<rparr>)"
  by (simp add: slot_after_def)

lemma grows_complete [grow]: "grows (complete_tx S i outcome now)"
proof -
  have rv: "grows (cas_reviews (\<lambda>v. v_id v = r \<and> v_critic_slot v = Some i \<and> v_state v \<in> {VActive, VConfirmed})
     (\<lambda>v. v\<lparr>v_terminal := Some (case v_terminal v of None \<Rightarrow> now | Some x \<Rightarrow> x)\<rparr>) e)" for r e
    by (rule grows_reviews) (auto simp: review_after_def)
  have ct: "grows (case (b, y) of (True, Some r) \<Rightarrow> f r | _ \<Rightarrow> tx_return ())" if "\<And>r. grows (f r)" for b y f
    using that grow by (auto split: option.splits bool.splits)
  show ?thesis unfolding complete_tx_def
    by (rule grows_any_slot_of grows_from_if grows_from_then grows_cases grows_bind grows_then ct rv grow | erule (1) grows_from_slot |
      (rule grows_from_grows; (rule grows_cases grow | assumption)+) | (simp add: completed_after; fail))+
qed

section \<open>Evidence, tasks and candidates\<close>

lemma grows_ensure_review [grow]: "grows (ensure_review_for_root S entry slot g stamp)"
  unfolding ensure_review_for_root_def by (rule grows_cases grows_bind grows_then grow)+

lemma grows_ensure_recommendation [grow]: "grows (ensure_recommendation uid review root_entry critic_entry g now)"
  unfolding ensure_recommendation_def Let_def by (rule grows_cases grows_bind grows_then grow)+

lemma grows_confirm_review [grow]: "grows (confirm_review v entry)"
  unfolding confirm_review_def by (rule grows_cases grows_reviews grow | (simp add: review_after_def; fail))+

lemma grows_confirm [grow]: "grows (confirm_root_tx S uid worker root_entry entry slot now)"
  unfolding confirm_root_tx_def by (rule grows_cases grows_bind grows_then grow)+

lemma grows_record_root [grow]: "grows (record_root_tx S worker kind entry slot now)"
  unfolding record_root_tx_def by (rule grows_cases grows_bind grows_then grow)+

lemma grows_accept_one [grow]: "grows (accept_identity S uid worker s idn now)"
  unfolding accept_identity_def by (cases idn) (simp only: prod.case, (rule grows_cases grows_bind grows_then grow)+)

lemma grows_accept [grow]: "grows (accept_identities S uid worker s is now acc)"
proof (induction "is" arbitrary: acc)
  case (Cons i "is")
  have "grows (case x of (v, r) \<Rightarrow> accept_identities S uid worker s is now (if s_lane s = ''root'' then (v, snd acc) else (v, r)))" for x
    by (cases x) (simp add: Cons)
  then show ?case by (simp add: grows_bind grow)
qed (simp add: grow)

lemma grows_reconcile [grow]: "grows (reconcile_tx S uid slot worker entries now)"
proof -
  have "grows (case x of (v, r) \<Rightarrow> tx_return (f v r))" for x and f :: "string option \<Rightarrow> string option \<Rightarrow> reconciliation"
    by (cases x) (simp add: grow)
  then show ?thesis unfolding reconcile_tx_def by (intro grows_bind grows_then grow)
qed

lemma grows_freeze [grow]: "grows (freeze_required_generation_tasks S g stamp)"
  unfolding freeze_required_generation_tasks_def Let_def
  by (rule grows_cases grows_bind grows_then grows_tasks grow | (simp; fail))+

lemma grows_resolve [grow]: "grows (resolve_tx S i rid resolution ack b now)"
  unfolding resolve_tx_def Let_def
  by (rule grows_cases grows_bind grows_then grows_reviews grow | (simp add: review_after_def; fail))+

lemma grows_stage [grow]: "grows (stage_task_tx S worker task now lane digest nbytes)"
  unfolding stage_task_tx_def restage_task_def Let_def
  by (rule grows_cases grows_bind grows_then grows_tasks grow | (simp; fail))+

lemma grows_candidates [grow]:
  "grows (register_tx S worker i k now)" "grows (terminalize_tx S worker i slot outcome releases now)" "grows (reuse_tx S worker i k now)"
  "grows (release_unknown_tx S i resolution fact_active now)" "grows (observe_tx worker lane i st generation now)"
  unfolding register_tx_def terminalize_tx_def reuse_tx_def release_unknown_tx_def observe_tx_def Let_def
  by (rule grows_cases grows_bind grows_then grows_when grow)+

lemma grows_initialize [grow]: "grows (initialize_tx S now)"
  unfolding initialize_tx_def by (rule grows_cases grows_bind grows_then grow | (auto simp: grows_def tx_ok; fail))+

section \<open>Every operation\<close>

definition after :: "coord_db \<Rightarrow> coord_db \<Rightarrow> bool" where
  "after db d \<longleftrightarrow> (distinct_slots db \<longrightarrow> distinct_slots d \<and> later db d)"

lemma after_refl [simp]: "after db db"
  by (simp add: after_def)

lemma transact_after: "grows m \<Longrightarrow> after db (snd (transact m db))"
  by (auto simp: after_def transact_def grows_def split: sum.splits)

lemma step_after: "after db (snd (run_op S oper db))"
proof (cases oper)
  case (OActivate slot now)
  then show ?thesis using transact_after[OF grows_activate, of db S slot now]
    by (auto simp: raised_def activate_def split: option.splits prod.splits sum.splits)
next
  case (OComplete slot outcome now later)
  then show ?thesis using transact_after[OF grows_complete, of db S slot outcome now]
    by (auto simp: raised_def complete_def split: option.splits prod.splits sum.splits)
next
  case (OCursor worker stream cursor generation now)
  show ?thesis unfolding OCursor
    by (auto simp: raised_def set_memory_cursor_def Let_def intro!: transact_after grows_cases grows_bind grows_then grow split: option.splits)
qed (auto simp: raised_def initialize_def admit_def pin_prompt_def mark_ambiguous_def record_root_evidence_def
    confirm_root_evidence_def reconcile_terminal_memory_entries_def validate_open_recommendation_def resolve_recommendation_def
    terminalize_candidate_def record_exact_fact_reuse_def resolve_candidate_outcome_unknown_def stage_task_assignment_def
    register_candidate_def record_candidate_def Let_def
    intro!: transact_after grow split: sum.splits option.splits)

lemma reach_distinct_slots: "coord_inv S db \<Longrightarrow> distinct_slots db"
  by (auto simp: coord_inv_def slots_inv_def distinct_slots_def)

lemma steps_later:
  assumes "(coord_step S)\<^sup>*\<^sup>* db d" "distinct_slots db"
  shows "distinct_slots d \<and> later db d"
  using assms(1)
proof (induction)
  case (step d e)
  obtain oper x where "run_op S oper d = (x, e)" using step(2) by (auto elim: coord_stepE)
  then show ?case using step_after[of d S oper] step(3) later_trans unfolding after_def by auto
qed (simp add: assms(2))

section \<open>Append-only history\<close>

text \<open>
  Property C9. History is append-only: whatever operations follow on a reachable database, terminal slots
  and closed reviews stay exactly as they are, a pinned prompt and its hash are never changed, frozen
  tasks stay, and no evidence, recommendation or resolution is lost or altered.
\<close>

theorem history_append_only:
  assumes "reach (coord_init S) (coord_step S) db" "(coord_step S)\<^sup>*\<^sup>* db d"
  shows "(\<forall>s \<in> set (db_slots db). (s_state s = Terminal \<longrightarrow> s \<in> set (db_slots d)) \<and>
      (s_prompt s \<noteq> None \<longrightarrow> (\<exists>t \<in> set (db_slots d). s_id t = s_id s \<and> s_prompt t = s_prompt s \<and> s_prompt_sha t = s_prompt_sha s))) \<and>
    (\<forall>v \<in> set (db_reviews db). v_state v \<in> {VNotConfirmed, VResolved} \<longrightarrow> v \<in> set (db_reviews d)) \<and>
    (\<forall>t \<in> set (db_tasks db). t_frozen t \<noteq> None \<longrightarrow> t \<in> set (db_tasks d)) \<and>
    set (db_evidence db) \<subseteq> set (db_evidence d) \<and> set (db_recommendations db) \<subseteq> set (db_recommendations d) \<and>
    set (db_resolutions db) \<subseteq> set (db_resolutions d)"
proof -
  have l: "later db d" using steps_later[OF assms(2) reach_distinct_slots[OF coord_system.inv_reach[OF assms(1)]]] by blast
  have s: "\<exists>t \<in> set (db_slots d). slot_after s t" if "s \<in> set (db_slots db)" for s using l that unfolding later_def by blast
  have v: "\<exists>w \<in> set (db_reviews d). review_after v w" if "v \<in> set (db_reviews db)" for v using l that unfolding later_def by blast
  show ?thesis
    using l by (auto simp: later_def dest!: s v) (auto simp: slot_after_def review_after_def)
qed

theorem history_append_only_witness:
  "let db = run_ops demo_store demo_admit demo_start; d = run_ops demo_store [OComplete ''slot_1'' ''ok'' 5 5, OInitialize 6] db in
   map (\<lambda>t. t_frozen t = None) (db_tasks db) = [False, False] \<and> set (db_tasks db) \<subseteq> set (db_tasks d)"
proof -
  let ?db = "run_ops demo_store demo_admit demo_start"
  have "map (\<lambda>t. t_frozen t = None) (db_tasks ?db) = [False, False]" using demo_admitted by simp
  then have f: "t_frozen t \<noteq> None" if "t \<in> set (db_tasks ?db)" for t
    using that by (metis (mono_tags) image_eqI image_set insertE list.set(1) list.set(2) emptyE)
  show ?thesis
    using history_append_only[OF demo_reach steps_ops, of demo_admit "[OComplete ''slot_1'' ''ok'' 5 5, OInitialize 6]"] demo_admitted f
    by (auto simp only: Let_def prod.inject)
qed

section \<open>A slot without a prompt\<close>

lemma stuck_closes:
  assumes "s \<in> set (db_slots db)" "stuck s"
  shows "\<exists>e. initialize S now db = (Inl e, db)"
proof -
  have audit: "audit_task_bindings S d \<noteq> None" if "s \<in> set (db_slots d)" for d
  proof (cases "state_row d")
    case (Inr p)
    have "validate_slot_task_binding S d s = None" if "audit_task_bindings S d = None"
      using that \<open>s \<in> set (db_slots d)\<close> unfolding audit_task_bindings_def Inr sum.case first_error_None by simp
    then show ?thesis using stuck_unbound[OF assms(2)] by blast
  qed (simp add: audit_task_bindings_def)
  have "initialize_tx S now db \<noteq> Inr x" for x
    using audit[of db] audit[of "db\<lparr>db_project := Some (first_project S now)\<rparr>"] assms(1)
    by (cases x) (auto simp: initialize_tx_def tx_ok split: option.splits)
  then show ?thesis by (auto simp: initialize_def transact_def split: sum.splits)
qed

lemma stuck_stays:
  assumes "coord_inv S db" "s \<in> set (db_slots db)" "stuck s" "(coord_step S)\<^sup>*\<^sup>* db d"
  shows "s \<in> set (db_slots d)"
  using steps_later[OF assms(4) reach_distinct_slots[OF assms(1)]] assms(2,3) unfolding later_def slot_after_def by blast

lemma stuck_generation:
  assumes "coord_inv S db" "s \<in> set (db_slots db)" "stuck s" "(coord_step S)\<^sup>*\<^sup>* db d"
  shows "coord_inv S d \<and> generation_of d = generation_of db"
  using assms(4)
proof (induction)
  case (step d e)
  obtain oper x where r: "run_op S oper d = (x, e)" using step(2) by (auto elim: coord_stepE)
  have "s \<in> set (db_slots e)" using stuck_stays[OF assms(1-3)] step(1,2) by (meson rtranclp.rtrancl_into_rtrancl)
  then have open_slot: "\<not> list_all (\<lambda>s. s_state s = Terminal) (db_slots e)" using assms(3) by (auto simp: list_all_iff stuck_def intro!: bexI[of _ s])
  obtain n where n: "generation_of d = Some n" using step(3) by (auto simp: coord_inv_def generation_of_def)
  have "generation_of e = Some n" using generation_change[of S d oper x e n] open_slot step(3) r n by blast
  moreover have "coord_inv S e" using step_inv[of S d oper] step(3) r by simp
  ultimately show ?case using step(3) n by simp
qed (simp add: assms(1))

text \<open>
  Property C10. A slot marked ambiguous before a prompt was pinned to it bricks the project: the operation
  succeeds, and from then on, whatever operations follow, the store can never be opened again and the
  generation never ends.
\<close>

theorem ambiguous_bricks:
  assumes "reach (coord_init S) (coord_step S) db" "slot_of db i = Some s" "validate_identifier i = None"
    and "s_state s = Prepared" "s_prompt s = None" "validate_slot_task_binding S db s = None"
  shows "\<exists>d. mark_ambiguous S i now db = (Inr (), d) \<and>
    (\<forall>d'. (coord_step S)\<^sup>*\<^sup>* d d' \<longrightarrow> generation_of d' = generation_of db \<and> (\<forall>t. \<exists>e. initialize S t d' = (Inl e, d')))"
proof -
  have inv: "coord_inv S db" using assms(1) by (rule coord_system.inv_reach)
  have s: "s \<in> set (db_slots db)" "s_id s = i" "is_open s" using assms(2,4) by (auto simp: slot_of_def find_Some_iff is_open_def)
  have legacy: "s_legacy s = 0" using assms(4,6) by (auto simp: validate_slot_task_binding_def fail_if_def split: if_splits)
  have "(\<lambda>q. s_id q = i \<and> is_open q) q \<longleftrightarrow> q = s" if "q \<in> set (db_slots db)" for q
    using reach_distinct_slots[OF inv] s that by (auto simp: distinct_slots_def distinct_map inj_on_def)
  then have "filter (\<lambda>q. s_id q = i \<and> is_open q) (db_slots db) = filter (\<lambda>q. q = s) (db_slots db)" by (rule filter_cong[OF refl])
  moreover have "length (filter (\<lambda>q. q = s) (db_slots db)) = 1"
    using reach_distinct_slots[OF inv] s(1) by (simp add: distinct_slots_def distinct_map distinct_length_filter)
  ultimately have one: "one_row (\<lambda>q. s_id q = i \<and> is_open q) (db_slots db)" by (simp add: one_row_def)
  define d where "d = snd (mark_ambiguous S i now db)"
  have ok: "mark_ambiguous S i now db = (Inr (), d)" and slots: "db_slots d = update_rows (\<lambda>q. s_id q = i \<and> is_open q) (\<lambda>q. q\<lparr>s_state := Ambiguous\<rparr>) (db_slots db)"
    and project: "db_project d = db_project db"
    using assms(2,3,6) s(3) one
    by (simp_all add: d_def mark_ambiguous_def transact_def mark_ambiguous_tx_def tx_bind_def tx_read_def tx_then_def tx_check_def cas_slots_def write_worker_state_def tx_write_def)
  let ?s = "s\<lparr>s_state := Ambiguous\<rparr>"
  have st: "?s \<in> set (db_slots d)" "stuck ?s" using s legacy assms(5) by (auto simp: slots update_rows_def stuck_def)
  have invd: "coord_inv S d" using step_inv[OF inv, of "OAmbiguous i now"] ok by (simp add: raised_def)
  have g: "generation_of d = generation_of db" using project by (simp add: generation_of_def)
  have "generation_of d' = generation_of db \<and> (\<forall>t. \<exists>e. initialize S t d' = (Inl e, d'))" if "(coord_step S)\<^sup>*\<^sup>* d d'" for d'
    using stuck_generation[OF invd st that] g stuck_closes[OF stuck_stays[OF invd st that] st(2)] by simp
  then show ?thesis using ok by blast
qed

theorem ambiguous_bricks_witness:
  "let db = run_ops demo_store demo_admit demo_start in
   \<exists>d. mark_ambiguous demo_store ''slot_1'' 3 db = (Inr (), d) \<and>
    (\<forall>d'. (coord_step demo_store)\<^sup>*\<^sup>* d d' \<longrightarrow> (\<forall>t. \<exists>e. initialize demo_store t d' = (Inl e, d')))"
proof -
  let ?db = "run_ops demo_store demo_admit demo_start"
  obtain s rest where s: "db_slots ?db = s # rest" "s_id s = ''slot_1''" "s_state s = Prepared" "s_prompt s = None"
      "validate_slot_task_binding demo_store ?db s = None"
    using demo_admitted by (auto simp only: prod.inject map_eq_Cons_conv)
  have "slot_of ?db ''slot_1'' = Some s" using s by (simp add: slot_of_def)
  moreover have "validate_identifier ''slot_1'' = None" by code_simp
  ultimately show ?thesis
    unfolding Let_def using ambiguous_bricks[OF demo_reach, of demo_admit "''slot_1''" s 3, OF _ _ s(3-5)] by blast
qed

end
