(* ===== verification/CoordReopen.thy ===== *)
theory CoordReopen
  imports CoordHistory
begin

text \<open>
  When a coordination store (\<open>danus/coordination/store.py\<close>) can be opened again: every slot of a reachable
  database passes the audit of its task and prompt, or is stuck, and a store opens exactly when no slot is
  stuck.
\<close>

section \<open>Bindings\<close>

text \<open>Every slot but the one named is bound or stuck.\<close>

definition good_but :: "coord_store \<Rightarrow> string set \<Rightarrow> coord_db \<Rightarrow> bool" where
  "good_but S X db \<longleftrightarrow> distinct_slots db \<and>
     (\<forall>s \<in> set (db_slots db). s_id s \<notin> X \<longrightarrow> stuck s \<or> validate_slot_task_binding S db s = None)"

abbreviation good :: "coord_store \<Rightarrow> coord_db \<Rightarrow> bool" where
  "good S \<equiv> good_but S {}"

definition tasks_kept :: "coord_db \<Rightarrow> coord_db \<Rightarrow> bool" where
  "tasks_kept db d \<longleftrightarrow> (\<forall>w g r. task_of db w g = Some r \<longrightarrow> t_frozen r \<noteq> None \<longrightarrow> task_of d w g = Some r)"

lemma binding_mono:
  assumes "tasks_kept db d" "validate_slot_task_binding S db s = None"
  shows "validate_slot_task_binding S d s = None"
proof (cases "s_legacy s = 0")
  case True
  obtain a where a: "task_of db (s_worker s) (s_generation s) = Some a" "t_frozen a \<noteq> None" using binding_task[OF assms(2) True] by blast
  then have "task_of d (s_worker s) (s_generation s) = task_of db (s_worker s) (s_generation s)" using assms(1) by (simp add: tasks_kept_def)
  then have "validate_slot_task_binding S d s = validate_slot_task_binding S db s" by (simp only: validate_slot_task_binding_def)
  then show ?thesis using assms(2) by simp
next
  case False
  then show ?thesis using assms(2) by (simp add: validate_slot_task_binding_def split: if_splits)
qed

lemma tasks_kept_same: "db_tasks d = db_tasks db \<Longrightarrow> tasks_kept db d"
  by (simp add: tasks_kept_def task_of_def)

lemma tasks_kept_append: "db_tasks d = db_tasks db @ ts \<Longrightarrow> tasks_kept db d"
proof -
  have "find P (xs @ ts) = Some r" if "find P xs = Some r" for P :: "task_row \<Rightarrow> bool" and xs r
    using that by (induction xs) (auto split: if_splits)
  then show "db_tasks d = db_tasks db @ ts \<Longrightarrow> tasks_kept db d" by (simp add: tasks_kept_def task_of_def)
qed

lemma tasks_kept_update:
  assumes "db_tasks d = update_rows P f (db_tasks db)" "\<And>t. P t \<Longrightarrow> t_frozen t = None"
    "\<And>t. t_worker (f t) = t_worker t" "\<And>t. t_generation (f t) = t_generation t"
  shows "tasks_kept db d"
proof -
  have "find Q (map (\<lambda>t. if P t then f t else t) xs) = map_option (\<lambda>t. if P t then f t else t) (find Q xs)"
    if "Q = (\<lambda>t. t_worker t = w \<and> t_generation t = g)" for Q xs w g
    by (rule find_map_eq) (simp add: that assms(3,4))
  then show ?thesis using assms(1,2) by (auto simp: tasks_kept_def task_of_def update_rows_map)
qed

lemma good_mono: "good_but S X db \<Longrightarrow> db_slots d = db_slots db \<Longrightarrow> tasks_kept db d \<Longrightarrow> good_but S X d"
  unfolding good_but_def distinct_slots_def using binding_mono by metis

section \<open>Writes elsewhere\<close>

named_theorems bound \<open>transactions that keep the bindings\<close>

lemma good_same:
  assumes "\<And>db x d. m db = Inr (x, d) \<Longrightarrow> db_slots d = db_slots db \<and> tasks_kept db d"
  shows "keeps (good_but S X) m"
  using assms good_mono unfolding keeps_def by blast

lemma bound_basic [bound]:
  "keeps (good_but S X) (tx_return x)" "keeps (good_but S X) (tx_raise e)" "keeps (good_but S X) (tx_read g)" "keeps (good_but S X) (tx_lift h)"
  "keeps (good_but S X) (tx_check c)" "keeps (good_but S X) (cas_project P f e)" "keeps (good_but S X) (insert_evidence_row r)"
  "keeps (good_but S X) (insert_candidate k)" "keeps (good_but S X) (insert_resolution x2)" "keeps (good_but S X) (insert_recommendation q)"
  "keeps (good_but S X) (insert_review v)" "keeps (good_but S X) (cas_reviews P3 f3 e)"
  "keeps (good_but S X) (set_candidate i P2 f2)" "keeps (good_but S X) (write_worker_state w l st g2 ph now)"
  "keeps (good_but S X) (tx_write (\<lambda>db. db\<lparr>db_cursors := fc db\<rparr>))"
  by (rule good_same; auto simp: tx_ok set_candidate_def write_worker_state_def intro: tasks_kept_same)+

lemma bound_task [bound]: "keeps (good_but S X) (insert_task S' t)"
  by (rule good_same) (auto simp: tx_ok intro: tasks_kept_append)

lemma bound_tasks:
  assumes "\<And>t. P t \<Longrightarrow> t_frozen t = None" "\<And>t. t_worker (f t) = t_worker t" "\<And>t. t_generation (f t) = t_generation t"
  shows "keeps (good_but S X) (cas_tasks P f e)" "keeps (good_but S X) (tx_write (\<lambda>db. db\<lparr>db_tasks := update_rows P f (db_tasks db)\<rparr>))"
  by (rule good_same; auto simp: tx_ok intro: tasks_kept_update[OF _ assms])+

lemma bound_cases:
  "(b \<Longrightarrow> keeps I m) \<Longrightarrow> (\<not> b \<Longrightarrow> keeps I n) \<Longrightarrow> keeps I (if b then m else n)"
  "(y = None \<Longrightarrow> keeps I m) \<Longrightarrow> (\<And>z. y = Some z \<Longrightarrow> keeps I (f z)) \<Longrightarrow> keeps I (case y of None \<Rightarrow> m | Some z \<Rightarrow> f z)"
  by (auto split: option.splits)

lemmas bounds = bound_cases keeps_tx_bind keeps_then keeps_when

lemma bound_carry [bound]: "keeps (good_but S X) (carry_tasks S' g stamp ls)"
proof (induction ls)
  case (Cons wl ls)
  then show ?case by (cases wl) (simp, (rule bounds bound | assumption)+)
qed (simp add: bound)

lemma bound_advance [bound]: "keeps (good_but S X) (advance_generation_if_ready S' now)"
  unfolding advance_generation_if_ready_def enter_critic_review_def close_unconfirmed_review_def next_generation_def copy_forward_generation_tasks_def
  by (rule bounds bound)+

lemma bound_evidence [bound]: "keeps (good_but S X) (insert_evidence r)"
  unfolding insert_evidence_def by (rule bounds bound)+

lemma bound_ensure_review [bound]: "keeps (good_but S X) (ensure_review_for_root S' entry slot g stamp)"
  unfolding ensure_review_for_root_def by (rule bounds bound)+

lemma bound_ensure_recommendation [bound]: "keeps (good_but S X) (ensure_recommendation uid review root_entry critic_entry g now)"
  unfolding ensure_recommendation_def Let_def by (rule bounds bound)+

lemma bound_confirm_review [bound]: "keeps (good_but S X) (confirm_review v entry)"
  unfolding confirm_review_def by (rule bounds bound)+

lemma bound_confirm [bound]: "keeps (good_but S X) (confirm_root_tx S' uid worker root_entry entry slot now)"
  unfolding confirm_root_tx_def by (rule bounds bound)+

lemma bound_record_root [bound]: "keeps (good_but S X) (record_root_tx S' worker kind entry slot now)"
  unfolding record_root_tx_def by (rule bounds bound)+

lemma bound_accept_one [bound]: "keeps (good_but S X) (accept_identity S' uid worker s idn now)"
  unfolding accept_identity_def by (cases idn) (simp only: prod.case, (rule bounds bound)+)

lemma bound_accept [bound]: "keeps (good_but S X) (accept_identities S' uid worker s is now acc)"
proof (induction "is" arbitrary: acc)
  case (Cons i "is")
  have "keeps (good_but S X) (case x of (v, r) \<Rightarrow> accept_identities S' uid worker s is now (if s_lane s = ''root'' then (v, snd acc) else (v, r)))" for x
    by (cases x) (simp add: Cons)
  then show ?case by (simp add: keeps_tx_bind bound)
qed (simp add: bound)

lemma bound_reconcile [bound]: "keeps (good_but S X) (reconcile_tx S' uid slot worker entries now)"
proof -
  have "keeps (good_but S X) (case x of (v, r) \<Rightarrow> tx_return (f v r))" for x and f :: "string option \<Rightarrow> string option \<Rightarrow> reconciliation"
    by (cases x) (simp add: bound)
  then show ?thesis unfolding reconcile_tx_def by (intro keeps_tx_bind keeps_then bound)
qed

lemma bound_freeze [bound]: "keeps (good_but S X) (freeze_required_generation_tasks S' g stamp)"
  unfolding freeze_required_generation_tasks_def Let_def by (rule bounds bound_tasks bound | (simp; fail))+

lemma bound_resolve [bound]: "keeps (good_but S X) (resolve_tx S' i rid resolution ack b now)"
  unfolding resolve_tx_def Let_def by (rule bounds bound)+

lemma bound_stage [bound]: "keeps (good_but S X) (stage_task_tx S' worker task now lane digest nbytes)"
  unfolding stage_task_tx_def restage_task_def Let_def by (rule bounds bound_tasks bound | (simp; fail))+

lemma bound_candidates [bound]:
  "keeps (good_but S X) (register_tx S' worker i k now)" "keeps (good_but S X) (terminalize_tx S' worker i slot outcome releases now)"
  "keeps (good_but S X) (reuse_tx S' worker i k now)" "keeps (good_but S X) (release_unknown_tx S' i resolution fact_active now)"
  "keeps (good_but S X) (observe_tx worker lane i st generation now)"
  unfolding register_tx_def terminalize_tx_def reuse_tx_def release_unknown_tx_def observe_tx_def fetch_candidate_def Let_def
  by (rule bounds bound)+

lemma bound_initialize [bound]: "keeps (good_but S X) (initialize_tx S' now)"
proof -
  have "keeps (good_but S X) (tx_write (\<lambda>db. db\<lparr>db_project := Some p\<rparr>))" for p
    by (rule good_same) (auto simp: tx_ok intro: tasks_kept_same)
  then show ?thesis unfolding initialize_tx_def by (intro keeps_tx_bind keeps_then bound_cases bound)
qed

section \<open>Writes to slots\<close>

lemma task_of_slots: "task_of (db\<lparr>db_slots := ss\<rparr>) w g = task_of db w g"
  by (simp add: task_of_def)

lemma validate_slots [simp]: "validate_slot_task_binding S (db\<lparr>db_slots := ss\<rparr>) s = validate_slot_task_binding S db s"
  by (simp only: validate_slot_task_binding_def task_of_slots)

text \<open>What the audit of a slot accepts.\<close>

lemma binding_None:
  "validate_slot_task_binding S db s = None \<longleftrightarrow>
     s_legacy s = 1 \<and> s_state s = Terminal \<and> s_task s = None \<and> s_task_sha s = None \<and> s_task_bytes s = None \<and> s_prompt_task_sha s = None \<or>
     s_legacy s = 0 \<and> (\<exists>task digest nbytes a x. s_task s = Some task \<and> task_identity (st_hash S) task = Inr (digest, nbytes) \<and>
       s_task_sha s = Some digest \<and> s_task_bytes s = Some nbytes \<and> task_of db (s_worker s) (s_generation s) = Some a \<and>
       validate_generation_task_row S a = Inr x \<and> t_lane a = s_lane s \<and> t_task a = task \<and> t_sha a = digest \<and> t_bytes a = nbytes \<and>
       t_frozen a \<noteq> None \<and> check_prompt (st_hash S) s digest = None)"
  unfolding validate_slot_task_binding_def
  by (cases "s_legacy s = 1"; cases "s_task s"; cases "task_identity (st_hash S) (the (s_task s))";
      cases "task_of db (s_worker s) (s_generation s)"; cases "validate_generation_task_row S (the (task_of db (s_worker s) (s_generation s)))")
    (auto simp: fail_if_def split: prod.splits if_splits)

lemma prompt_None:
  "check_prompt H s digest = None \<longleftrightarrow>
     s_prompt s = None \<and> s_prompt_sha s = None \<and> s_prompt_task_sha s = None \<and> s_state s \<notin> {Active, Ambiguous} \<or>
     (\<exists>p h. s_prompt s = Some p \<and> p \<noteq> [] \<and> int (utf8_len p) \<le> MAX_PINNED_PROMPT_BYTES \<and> s_prompt_sha s = Some h \<and> is_hex64 h \<and>
       H (utf8_encode p) = h \<and> s_prompt_task_sha s = Some digest \<and> binds_prompt s p)"
  by (auto simp: check_prompt_def split: option.splits)

lemma binds_prompt_state [simp]: "binds_prompt (s\<lparr>s_state := st\<rparr>) p = binds_prompt s p"
  "binds_prompt (s\<lparr>s_terminal := t\<rparr>) p = binds_prompt s p" "binds_prompt (s\<lparr>s_outcome := u\<rparr>) p = binds_prompt s p"
  by (simp_all add: binds_prompt_def prompt_binding_markers_def)

lemma ended_bound:
  "validate_slot_task_binding S db s = None \<Longrightarrow>
   validate_slot_task_binding S db (s\<lparr>s_state := Terminal, s_terminal := t, s_outcome := u\<rparr>) = None"
  unfolding binding_None prompt_None by (elim disjE conjE exE) auto

lemma ambiguous_bound:
  "validate_slot_task_binding S db s = None \<Longrightarrow> is_open s \<Longrightarrow>
   stuck (s\<lparr>s_state := Ambiguous\<rparr>) \<or> validate_slot_task_binding S db (s\<lparr>s_state := Ambiguous\<rparr>) = None"
  unfolding binding_None prompt_None stuck_def is_open_def by (elim disjE conjE exE) auto

lemma good_write:
  assumes "good_but S X db" "\<And>q. s_id (f q) = s_id q"
    and "\<And>q. q \<in> set (db_slots db) \<Longrightarrow> P q \<Longrightarrow> s_id q \<notin> Y \<Longrightarrow> stuck (f q) \<or> validate_slot_task_binding S db (f q) = None" "X \<subseteq> Y"
  shows "good_but S Y (db\<lparr>db_slots := update_rows P f (db_slots db)\<rparr>)"
proof -
  have "distinct_slots (db\<lparr>db_slots := update_rows P f (db_slots db)\<rparr>)" using assms(1,2) by (simp add: good_but_def distinct_update)
  moreover have "stuck q' \<or> validate_slot_task_binding S db q' = None" if "q' \<in> set (update_rows P f (db_slots db))" "s_id q' \<notin> Y" for q'
  proof -
    obtain q where q: "q \<in> set (db_slots db)" "q' = (if P q then f q else q)" using \<open>q' \<in> _\<close> by (auto simp: update_rows_def)
    then have "s_id q \<notin> Y" using \<open>s_id q' \<notin> Y\<close> assms(2) by (simp split: if_splits)
    then show ?thesis using q assms(1,3,4) by (auto simp: good_but_def)
  qed
  ultimately show ?thesis by (simp add: good_but_def)
qed

lemma good_exempt:
  assumes "good S db" "\<And>q. P q \<Longrightarrow> s_id q = i" "\<And>q. s_id (f q) = s_id q"
  shows "good_but S {i} (db\<lparr>db_slots := update_rows P f (db_slots db)\<rparr>)"
  by (rule good_write[OF assms(1,3)]) (use assms(2) in auto)

lemma good_weaken: "good S db \<Longrightarrow> good_but S X db"
  by (auto simp: good_but_def)

lemma slot_unique: "good_but S X db \<Longrightarrow> slot_of db i = Some s \<Longrightarrow> q \<in> set (db_slots db) \<Longrightarrow> s_id q = i \<Longrightarrow> q = s"
  unfolding good_but_def distinct_slots_def slot_of_def using distinct_map_eq[of s_id "db_slots db"] by (auto dest: find_some)

lemma slot_found: "slot_of db i = Some s \<Longrightarrow> s \<in> set (db_slots db) \<and> s_id s = i"
  unfolding slot_of_def by (auto dest: find_some)

lemma good_checked:
  assumes "good_but S {i} db" "slot_of db i = Some q" "validate_slot_task_binding S db q = None"
  shows "good S db"
  unfolding good_but_def using assms(1,3) slot_unique[OF assms(1,2)] by (auto simp: good_but_def)

lemma bound_expire [bound]: "keeps (good S) (terminalize_expired_prepared S s now)"
proof -
  have "keeps (good S) (cas_slots (\<lambda>q. s_id q = s_id s \<and> s_state q = Prepared)
          (\<lambda>q. q\<lparr>s_state := Terminal, s_terminal := Some now, s_outcome := Some PREPARED_DEADLINE_OUTCOME\<rparr>) e)" for e
    unfolding keeps_def cas_ok
    by (intro allI impI, elim conjE, hypsubst, rule good_write) (auto simp: good_but_def stuck_def intro!: ended_bound)
  then show ?thesis unfolding terminalize_expired_prepared_def by (intro bounds bound)
qed

lemma bound_admission [bound]: "keeps I (slot_admission_tx S s r)"
  unfolding keeps_def by (auto dest: admission_row)

lemma bound_mark_ambiguous [bound]: "keeps (good S) (mark_ambiguous_tx S i now)"
proof (unfold keeps_def, intro allI impI)
  fix db x d
  assume g: "good S db" and run: "mark_ambiguous_tx S i now db = Inr (x, d)"
  obtain s d1 where s: "slot_of db i = Some s" "is_open s" "validate_slot_task_binding S db s = None"
      and d1: "d1 = db\<lparr>db_slots := update_rows (\<lambda>q. s_id q = i \<and> is_open q) (\<lambda>q. q\<lparr>s_state := Ambiguous\<rparr>) (db_slots db)\<rparr>"
      and d: "write_worker_state (s_worker s) (s_lane s) ''ambiguous'' (s_generation s) (s_phase s) now d1 = Inr ((), d)"
    using run by (auto simp: mark_ambiguous_tx_def tx_ok split: option.splits if_splits)
  have "good S d1" unfolding d1
    by (rule good_write[OF g]) (use slot_unique[OF g s(1)] ambiguous_bound[OF s(3,2)] in auto)
  then show "good S d" by (rule keeps_applyD[OF bound_basic(14) d])
qed

lemma bound_pin [bound]: "keeps (good S) (pin_tx S i prompt)"
proof (unfold keeps_def, intro allI impI)
  fix db x d
  assume g: "good S db" and run: "pin_tx S i prompt db = Inr (x, d)"
  obtain s where s: "slot_of db i = Some s" using run by (auto simp: pin_tx_def tx_ok split: option.splits)
  let ?f = "\<lambda>q. q\<lparr>s_prompt := Some prompt, s_prompt_sha := Some (st_hash S (utf8_encode prompt)), s_prompt_task_sha := s_task_sha s\<rparr>"
  define d1 where "d1 = (if s_prompt s = None then db\<lparr>db_slots := update_rows (\<lambda>q. s_id q = i \<and> s_prompt q = None) ?f (db_slots db)\<rparr> else db)"
  obtain q where q: "slot_of d1 i = Some q" "slot_admission_tx S q (s_prompt s \<noteq> None) d1 = Inr (x, d)"
    using run s unfolding d1_def by (auto simp: pin_tx_def tx_ok split: option.splits if_splits)
  have "good_but S {i} d1"
    using good_weaken[OF g] good_exempt[OF g, of "\<lambda>q. s_id q = i \<and> s_prompt q = None" i ?f] by (simp add: d1_def)
  then show "good S d" using admission_row[OF q(2)] q(1) good_checked by blast
qed

lemma bound_activate [bound]: "keeps (good S) (activate_tx S i now)"
proof (unfold keeps_def, intro allI impI)
  fix db x d
  assume g: "good S db" and run: "activate_tx S i now db = Inr (x, d)"
  consider s where "terminalize_expired_prepared S s now db = Inr ((), d)"
    | s d1 q a where "slot_of db i = Some s" "slot_of d1 i = Some q" "slot_admission_tx S q (s_state s \<noteq> Prepared) d1 = Inr (a, d)"
      "d1 = db \<or> d1 = db\<lparr>db_slots := update_rows (\<lambda>q. s_id q = i \<and> s_state q = Prepared) (\<lambda>q. q\<lparr>s_state := Active, s_activated := Some now\<rparr>) (db_slots db)\<rparr>"
    using run by (auto simp: activate_tx_def tx_ok split: option.splits if_splits)
  then show "good S d"
  proof cases
    case 1
    then show ?thesis using keeps_applyD[OF bound_expire _ g] by blast
  next
    case 2
    have "good_but S {i} d1"
      using 2(4) good_weaken[OF g] good_exempt[OF g, of "\<lambda>q. s_id q = i \<and> s_state q = Prepared" i "\<lambda>q. q\<lparr>s_state := Active, s_activated := Some now\<rparr>"] by auto
    then show ?thesis using admission_row[OF 2(3)] 2(2) good_checked by blast
  qed
qed

lemma bound_complete [bound]: "keeps (good S) (complete_tx S i outcome now)"
proof (unfold keeps_def, intro allI impI)
  fix db x d
  assume g: "good S db" and run: "complete_tx S i outcome now db = Inr (x, d)"
  let ?f = "\<lambda>q. q\<lparr>s_state := Terminal, s_terminal := Some now, s_outcome := Some outcome\<rparr>"
  let ?d1 = "db\<lparr>db_slots := update_rows (\<lambda>q. s_id q = i) ?f (db_slots db)\<rparr>"
  obtain s where s: "slot_of db i = Some s" "validate_slot_task_binding S db s = None" using run by (auto simp: complete_tx_def tx_ok split: option.splits)
  show "good S d"
  proof (cases "s_state s = Terminal")
    case True
    then show ?thesis using run s g by (auto simp: complete_tx_def tx_ok split: if_splits)
  next
    case False
    let ?m = "case (s_phase s = CRITIC_REVIEW_PHASE, s_review s) of
          (True, Some r) \<Rightarrow> cas_reviews (\<lambda>v. v_id v = r \<and> v_critic_slot v = Some i \<and> v_state v \<in> {VActive, VConfirmed})
            (\<lambda>v. v\<lparr>v_terminal := Some (case v_terminal v of None \<Rightarrow> now | Some x \<Rightarrow> x)\<rparr>) (SlotErr TerminalReceiptConflict)
        | _ \<Rightarrow> tx_return ()"
    have stamp: "keeps (good S) ?m" by (auto split: option.splits bool.splits intro: bound)
    have d1: "good S ?d1"
      by (rule good_write[OF g]) (use slot_unique[OF g s(1)] ended_bound[OF s(2)] in auto)
    obtain d2 d3 where d2: "?m ?d1 = Inr ((), d2)"
        and d3: "write_worker_state (s_worker s) (s_lane s) ''terminal'' (s_generation s) (s_phase s) now d2 = Inr ((), d3)"
        and d: "tx_bind (advance_generation_if_ready S now) (\<lambda>_. tx_return ()) d3 = Inr ((), d)"
      using run s False unfolding complete_tx_def tx_bind_ok tx_then_ok by (auto simp: tx_ok)
    show ?thesis
      by (rule keeps_applyD[OF keeps_tx_bind[OF bound_advance bound_basic(1)] d keeps_applyD[OF bound_basic(14) d3 keeps_applyD[OF stamp d2 d1]]])
  qed
qed

lemma reserved_parts:
  assumes "reserved S uid worker lane p review now db s d"
  shows "validate_slot_task_binding S d s = None" "slot_insertable S s (db_slots db)" "db_slots d = db_slots db @ [s]" "tasks_kept db d"
proof -
  have "\<exists>(a :: task_row) ts vs ks. d = db\<lparr>db_slots := db_slots db @ [s], db_tasks := ts, db_reviews := vs, db_workers := ks\<rparr> \<and>
      ts = (if t_frozen a = None then update_rows (\<lambda>t. t_worker t = t_worker a \<and> t_generation t = t_generation a \<and> t_frozen t = None)
            (\<lambda>t. t\<lparr>t_frozen := Some now\<rparr>) (db_tasks db) else db_tasks db) \<and>
      slot_insertable S s (db_slots db) \<and> validate_slot_task_binding S d s = None"
    using assms unfolding reserved_def by (elim exE conjE) (intro exI conjI; assumption)
  then obtain a :: task_row and ts vs ks where d: "d = db\<lparr>db_slots := db_slots db @ [s], db_tasks := ts, db_reviews := vs, db_workers := ks\<rparr>"
      and r: "ts = (if t_frozen a = None then update_rows (\<lambda>t. t_worker t = t_worker a \<and> t_generation t = t_generation a \<and> t_frozen t = None)
            (\<lambda>t. t\<lparr>t_frozen := Some now\<rparr>) (db_tasks db) else db_tasks db)"
        "slot_insertable S s (db_slots db)" "validate_slot_task_binding S d s = None"
    by (elim exE conjE)
  show "validate_slot_task_binding S d s = None" "slot_insertable S s (db_slots db)" "db_slots d = db_slots db @ [s]" using r(2,3) by (simp_all add: d)
  show "tasks_kept db d"
  proof (cases "t_frozen a = None")
    case True
    show ?thesis
      by (rule tasks_kept_update[of d "\<lambda>t. t_worker t = t_worker a \<and> t_generation t = t_generation a \<and> t_frozen t = None"
            "\<lambda>t. t\<lparr>t_frozen := Some now\<rparr>" db]) (simp_all add: d r(1) True)
  next
    case False
    show ?thesis by (rule tasks_kept_same) (simp add: d r(1) if_not_P[OF False])
  qed
qed

lemma bound_admit:
  assumes "coord_inv S db" "good S db" "admit_tx S uid worker lane now db = Inr (r, d)"
  shows "good S d"
proof -
  obtain p where p: "db_project db = Some p" using assms(1) by (auto simp: coord_inv_def)
  show ?thesis
  proof (cases "find (\<lambda>s. s_worker s = worker \<and> is_open s) (db_slots db)")
    case (Some s)
    have "keeps (good S) (admit_existing S worker lane b s now)" for b unfolding admit_existing_def by (rule bounds bound)+
    moreover have "admit_existing S worker lane (p_deadline p \<le> now) s now db = Inr (r, d)"
      using assms(3) Some p by (simp add: admit_tx_def tx_run state_row_def)
    ultimately show ?thesis using assms(2) unfolding keeps_def by blast
  next
    case None
    then have run: "admit_fresh S uid worker lane p now db = Inr (r, d)" using assms(3) p by (auto simp: admit_tx_def tx_run state_row_def)
    show ?thesis
    proof (cases "r = None \<and> (\<exists>ks. d = db\<lparr>db_workers := ks\<rparr>)")
      case True
      then obtain ks where d: "d = db\<lparr>db_workers := ks\<rparr>" by blast
      show ?thesis by (rule good_mono[OF assms(2)]) (simp_all add: d tasks_kept_same)
    next
      case False
      obtain v where run2: "reserve_slot S uid worker lane p v now db = Inr (r, d)"
        using run False by (auto simp: admit_fresh_def Let_def tx_run tx_ok write_worker_state_def split: if_splits sum.splits)
      have "reviews_valid db (db_reviews db)" using assms(1) by (auto simp: coord_inv_def reviews_inv_def)
      then obtain s where res: "reserved S uid worker lane p (if p_phase p = CRITIC_REVIEW_PHASE then v else None) now db s d"
        using reserve_effect[OF run2] by blast
      note s = reserved_parts[OF res]
      have "stuck q \<or> validate_slot_task_binding S d q = None" if "q \<in> set (db_slots d)" for q
        using that s(1,3) assms(2) binding_mono[OF s(4)] by (auto simp: good_but_def)
      moreover have "distinct_slots d" using assms(2) s(2,3) by (auto simp: good_but_def distinct_slots_def slot_insertable_def list_all_iff)
      ultimately show ?thesis by (simp add: good_but_def)
    qed
  qed
qed

section \<open>Every step\<close>

lemma transact_good: "keeps (good S) m \<Longrightarrow> good S db \<Longrightarrow> good S (snd (transact m db))"
  by (auto simp: transact_def keeps_def split: sum.splits)

lemma step_good:
  assumes "coord_inv S db" "good S db"
  shows "good S (snd (run_op S oper db))"
proof (cases oper)
  case (OAdmit uid worker now)
  show ?thesis unfolding OAdmit using assms bound_admit[OF assms]
    by (auto simp: raised_def admit_def transact_def split: sum.splits)
next
  case (OActivate slot now)
  then show ?thesis using assms transact_good[OF bound_activate assms(2), of slot now]
    by (auto simp: raised_def activate_def split: option.splits prod.splits sum.splits)
next
  case (OComplete slot outcome now later)
  then show ?thesis using assms transact_good[OF bound_complete assms(2), of slot outcome now]
    by (auto simp: raised_def complete_def split: option.splits prod.splits sum.splits)
next
  case (OCursor worker stream cursor generation now)
  show ?thesis unfolding OCursor using assms
    by (auto simp: raised_def set_memory_cursor_def Let_def intro!: transact_good bound_cases keeps_tx_bind keeps_then bound split: option.splits)
qed (use assms in \<open>auto simp: raised_def initialize_def pin_prompt_def mark_ambiguous_def record_root_evidence_def
    confirm_root_evidence_def reconcile_terminal_memory_entries_def validate_open_recommendation_def resolve_recommendation_def
    terminalize_candidate_def record_exact_fact_reuse_def resolve_candidate_outcome_unknown_def stage_task_assignment_def
    register_candidate_def record_candidate_def Let_def
    intro!: transact_good bound split: sum.splits option.splits\<close>)

interpretation bound_system: inductive_invariant "coord_init S" "coord_step S" "\<lambda>db. coord_inv S db \<and> good S db" for S
proof unfold_locales
  fix db assume "coord_init S db"
  then show "coord_inv S db \<and> good S db"
    using init_inv coord_initD by (fastforce simp: good_but_def distinct_slots_def empty_db_def)
next
  fix db d assume "coord_inv S db \<and> good S db" "coord_step S db d"
  then show "coord_inv S d \<and> good S d" using step_inv step_good by (metis coord_stepE snd_conv)
qed

section \<open>Opening a store again\<close>

lemma audit_exact:
  assumes "coord_inv S db" "good S db"
  shows "audit_task_bindings S db = None \<longleftrightarrow> \<not> list_ex stuck (db_slots db)"
proof -
  obtain p where p: "db_project db = Some p" "header_inv S p" "tasks_inv S p (db_tasks db)" using assms(1) by (auto simp: coord_inv_def)
  have "check_schema_version S p = None" using p(2) by (simp add: check_schema_version_def header_inv_def database_schema_version_def)
  moreover have "(case validate_generation_task_row S a of Inl e \<Rightarrow> Some e | Inr _ \<Rightarrow> None) = None \<and> \<not> t_generation a > p_generation p + 1 \<and>
      \<not> (t_generation a = p_generation p + 1 \<and> p_phase p \<noteq> OWNER_ACTION_REQUIRED_PHASE)" if "a \<in> set (db_tasks db)" for a
    using p(3) that by (cases "validate_generation_task_row S a") (auto simp: tasks_inv_def task_inv_def)
  moreover have "validate_slot_task_binding S db s = None \<longleftrightarrow> \<not> stuck s" if "s \<in> set (db_slots db)" for s
    using assms(2) that stuck_unbound unfolding good_but_def by blast
  moreover have "state_row db = Inr p" using p(1) by (simp add: state_row_def)
  ultimately show ?thesis
    by (simp add: audit_task_bindings_def first_error_None list_ex_iff ball_Un)
qed

text \<open>
  Property C11. A store opens again exactly when no slot was marked ambiguous before its prompt was pinned:
  on a reachable database opening it succeeds and leaves the database alone if there is no such slot, and
  raises otherwise; no other state a store can reach is ever refused.
\<close>

theorem reopen_exact:
  assumes "reach (coord_init S) (coord_step S) db"
  shows "initialize S now db = (Inr (), db) \<longleftrightarrow> \<not> list_ex (\<lambda>s. s_state s = Ambiguous \<and> s_prompt s = None \<and> s_legacy s = 0) (db_slots db)"
proof -
  have i: "coord_inv S db" "good S db" using bound_system.inv_reach[OF assms] by blast+
  obtain p where p: "db_project db = Some p" "header_inv S p" "cands_inv p (db_candidates db)" "store_ok S" using i(1) by (auto simp: coord_inv_def)
  have "check_config S p = None" "check_supported p = None" "check_expandable S p = None"
    using p(2) by (auto simp: check_config_def check_supported_def check_expandable_def header_inv_def database_schema_version_def)
  moreover have "check_overlay_identity db = None"
    using p(3) by (auto simp: check_overlay_identity_def list_ex_iff cands_inv_def)
  ultimately have "initialize S now db = (Inr (), db) \<longleftrightarrow> audit_task_bindings S db = None"
    using p(1) by (simp add: initialize_def transact_ok initialize_tx_def tx_ok)
  then show ?thesis using audit_exact[OF i] unfolding stuck_def by simp
qed

theorem reopen_exact_witness:
  "initialize demo_store 9 (run_ops demo_store demo_admit demo_start) = (Inr (), run_ops demo_store demo_admit demo_start)"
proof -
  let ?db = "run_ops demo_store demo_admit demo_start"
  have "map s_state (db_slots ?db) = map (\<lambda>(i, st, p, e). st) (map (\<lambda>s. (s_id s, s_state s, s_prompt s, validate_slot_task_binding demo_store ?db s)) (db_slots ?db))"
    by simp
  also have "\<dots> = [Prepared, Prepared]" using demo_admitted by (simp only: prod.inject) simp
  finally have "list_all (\<lambda>st. st = Prepared) (map s_state (db_slots ?db))" by simp
  then have "\<not> list_ex (\<lambda>s. s_state s = Ambiguous \<and> s_prompt s = None \<and> s_legacy s = 0) (db_slots ?db)"
    by (auto simp: list_all_iff list_ex_iff)
  then show ?thesis using reopen_exact[OF demo_reach] by blast
qed

end
