(* ===== verification/CoordErrors.thy ===== *)
theory CoordErrors
  imports CoordHistory
begin

text \<open>
  What the coordination store (\<open>danus/coordination/store.py\<close>) reports and raises: the status of a reachable
  database always exists and says exactly when the owner may act, and an operation that raises leaves the
  database alone.
\<close>

section \<open>The status is total\<close>

lemma staged_total:
  assumes "tasks_inv S p (db_tasks db)" "distinct (keys ls)" "\<And>w l. (w, l) \<in> set ls \<Longrightarrow> map_of (roster_lanes S) w = Some l"
  shows "\<exists>r. staged_tasks S db g ls = Inr r"
  using assms(2,3)
proof (induction ls)
  case (Cons wl ls)
  obtain w l where wl: "wl = (w, l)" by (cases wl)
  obtain r where r: "staged_tasks S db g ls = Inr r" using Cons by auto
  show ?case
  proof (cases "task_of db w g")
    case (Some t)
    then have t: "t \<in> set (db_tasks db)" "t_worker t = w" using task_ofD by blast+
    then obtain x where x: "validate_generation_task_row S t = Inr x"
      using assms(1) by (cases "validate_generation_task_row S t") (auto simp: tasks_inv_def task_inv_def)
    then have "t_lane t = l" using validated_task[OF x] Cons.prems(2)[of w l] t(2) by (simp add: wl)
    then show ?thesis using Some x r by (cases r) (simp add: wl)
  qed (use r in \<open>cases r, simp add: wl\<close>)
qed simp

lemma projection_total:
  assumes "coord_inv S db"
  shows "\<exists>x. task_staging_projection S g db = Inr x"
proof -
  obtain p where p: "store_ok S" "tasks_inv S p (db_tasks db)" using assms by (auto simp: coord_inv_def)
  obtain r where r: "staged_tasks S db g (roster_lanes S) = Inr r"
    using staged_total[OF p(2), of "roster_lanes S" g] p(1) map_of_is_SomeI unfolding store_ok_def by metis
  have "has_key (roster_lanes S) (t_worker t)" if t: "t \<in> set (db_tasks db)" for t
  proof -
    obtain x where "validate_generation_task_row S t = Inr x"
      using p(2) t by (cases "validate_generation_task_row S t") (auto simp: tasks_inv_def task_inv_def)
    then have "(t_worker t, t_lane t) \<in> set (roster_lanes S)" using validated_task map_of_SomeD by fast
    then show ?thesis by (force simp: image_iff)
  qed
  then have "\<not> list_ex (\<lambda>t. t_generation t = g \<and> \<not> has_key (roster_lanes S) (t_worker t)) (db_tasks db)"
    by (auto simp: list_ex_iff)
  then show ?thesis using r by (cases r) (simp add: task_staging_projection_def)
qed

lemma active_review_total: "coord_inv S db \<Longrightarrow> \<exists>r. active_review db = Inr r"
proof -
  assume "coord_inv S db"
  then obtain p where p: "db_project db = Some p" "reviews_inv S p db" by (auto simp: coord_inv_def)
  show ?thesis
  proof (cases "p_review p")
    case (Some i)
    then obtain v where v: "v \<in> set (db_reviews db)" "v_id v = i" "live_review (v_state v)" using p(2) by (auto simp: reviews_inv_def)
    have "distinct (map v_id (db_reviews db))" using p(2) by (simp add: reviews_inv_def reviews_valid_def)
    then have "review_of db i = Some v" using find_unique[of v_id "db_reviews db" v] v by (simp add: review_of_def)
    then show ?thesis using p(1) Some v(3) by (simp add: active_review_def state_row_def)
  qed (use p(1) in \<open>simp add: active_review_def state_row_def\<close>)
qed

lemma open_recommendation_exact:
  assumes "coord_inv S db" "db_project db = Some p" "p_phase p = OWNER_ACTION_REQUIRED_PHASE"
  shows "\<exists>i r. p_recommendation p = Some i \<and> recommendation_of db i = Some r \<and>
    (isl (open_recommendation i db) \<longleftrightarrow> list_ex (\<lambda>s. s_state s \<noteq> Terminal) (db_slots db) \<or> active_candidate db \<noteq> None)"
proof -
  have a: "advice_inv p (db_reviews db) (db_recommendations db) (db_resolutions db)" "reviews_inv S p db" "slots_inv S p (db_slots db)"
    using assms(1,2) by (auto simp: coord_inv_def)
  obtain i where i: "p_recommendation p = Some i" "i \<notin> set (map x_recommendation (db_resolutions db))"
    using a(1) assms(3) by (auto simp: advice_inv_def)
  obtain r v where r: "r \<in> set (db_recommendations db)" "r_id r = i" "r_generation r = p_generation p" "r_review r = p_review p"
      and v: "v \<in> set (db_reviews db)" "r_review r = Some (v_id v)" "r_root_entry r = v_root_entry v" "v_confirmation v = Some (r_critic_entry r)"
    using a(1) i(1) unfolding advice_inv_def by metis
  have q: "r_state r = OWNER_ACTION_REQUIRED_PHASE" "r_authorized r = 0" "r_request r = None" using a(1) r(1) by (auto simp: advice_inv_def)
  have rec: "recommendation_of db i = Some r" using a(1) r find_unique[of r_id "db_recommendations db" r] by (simp add: recommendation_of_def advice_inv_def)
  have rev: "review_of db (v_id v) = Some v"
    using a(2) v(1) find_unique[of v_id "db_reviews db" v] by (simp add: review_of_def reviews_inv_def reviews_valid_def)
  obtain w where w: "w \<in> set (db_reviews db)" "v_id w = v_id v" "live_review (v_state w)"
    using a(2) r(4) v(2) unfolding reviews_inv_def by metis
  have "w = v" using distinct_map_eq[of v_id "db_reviews db" w v] a(2) w v(1) by (simp add: reviews_inv_def reviews_valid_def)
  then have st: "v_state v = VConfirmed" "v_generation v = p_generation p"
    using a(2) w v(1) assms(3) by (auto simp: reviews_inv_def review_inv_def review_stage_def)
  have cb: "confirmed_binding db r (v_id v)" using rev st r(3) v(3,4) by (simp add: confirmed_binding_def)
  have res: "resolution_of db i = None" using i(2) by (auto simp: resolution_of_def find_None_iff)
  have "nonterminal_slots db (r_generation r) \<longleftrightarrow> list_ex (\<lambda>s. s_state s \<noteq> Terminal) (db_slots db)"
    using a(3) r(3) by (auto simp: nonterminal_slots_def list_ex_iff slots_inv_def slot_inv_def is_open_terminal)
  then have "isl (open_recommendation i db) \<longleftrightarrow> list_ex (\<lambda>s. s_state s \<noteq> Terminal) (db_slots db) \<or> active_candidate db \<noteq> None"
    using rec res assms(2,3) i(1) q r(3) r(4)[symmetric] v(2) cb
    by (simp add: open_recommendation_def state_row_def then_check_def fail_if_def split: option.splits)
  then show ?thesis using i(1) rec by blast
qed

lemma status_total: "coord_inv S db \<Longrightarrow> \<exists>r. project_status S None now db = Inr r"
proof -
  assume i: "coord_inv S db"
  obtain p where "db_project db = Some p" using i by (auto simp: coord_inv_def)
  moreover obtain r where "active_review db = Inr r" using active_review_total[OF i] by blast
  moreover obtain x where "task_staging_projection S (if p_phase p = OWNER_ACTION_REQUIRED_PHASE then p_generation p + 1 else p_generation p) db = Inr x"
    using projection_total[OF i] by blast
  ultimately show ?thesis by (simp add: project_status_def state_row_def Let_def)
qed

text \<open>
  Property C12. The status of a reachable database can always be read, and it is exact: a recommendation is
  present exactly at the owner's gate, it is ready exactly when in addition every paid slot is terminal and
  no candidate is being verified, and the slots that count as paid or reserved stay within the budget.
\<close>

theorem status_exact:
  assumes "reach (coord_init S) (coord_step S) db"
  shows "\<exists>r. project_status S None now db = Inr r \<and>
    (ps_present r \<longleftrightarrow> ps_phase r = OWNER_ACTION_REQUIRED_PHASE) \<and>
    (ps_ready r \<longleftrightarrow> ps_phase r = OWNER_ACTION_REQUIRED_PHASE \<and> list_all (\<lambda>s. s_state s = Terminal) (db_slots db) \<and> ps_candidate r = None) \<and>
    int (ps_paid_active r + ps_reserved r) \<le> max_paid_workers (st_config S)"
proof -
  have i: "coord_inv S db" using assms by (rule coord_system.inv_reach)
  obtain r where r: "project_status S None now db = Inr r" using status_total[OF i] by blast
  obtain p where p: "db_project db = Some p" "advice_inv p (db_reviews db) (db_recommendations db) (db_resolutions db)"
    using i by (auto simp: coord_inv_def)
  have f: "ps_phase r = p_phase p" "ps_candidate r = active_candidate db"
      "ps_present r \<longleftrightarrow> (case p_recommendation p of None \<Rightarrow> None | Some i \<Rightarrow> recommendation_of db i) \<noteq> None"
      "ps_ready r \<longleftrightarrow> ps_present r \<and> \<not> isl (open_recommendation (the (p_recommendation p)) db)"
      "ps_paid_active r = length (filter (\<lambda>s. s_state s \<in> {Active, Ambiguous}) (db_slots db))"
      "ps_reserved r = length (filter (\<lambda>s. s_state s = Prepared) (db_slots db))"
    using r p(1) by (auto simp: project_status_def state_row_def Let_def split: sum.splits)
  have "ps_present r \<longleftrightarrow> p_phase p = OWNER_ACTION_REQUIRED_PHASE"
    using f(3) p(2) open_recommendation_exact[OF i p(1)] by (cases "p_recommendation p") (auto simp: advice_inv_def)
  moreover have "ps_ready r \<longleftrightarrow> p_phase p = OWNER_ACTION_REQUIRED_PHASE \<and> list_all (\<lambda>s. s_state s = Terminal) (db_slots db) \<and> active_candidate db = None"
    using f(4) calculation open_recommendation_exact[OF i p(1)] by (auto simp: list_all_iff list_ex_iff)
  moreover have "length (filter is_open ss) = length (filter (\<lambda>s. s_state s \<in> {Active, Ambiguous}) ss) + length (filter (\<lambda>s. s_state s = Prepared) ss)" for ss
    by (induction ss) (auto simp: is_open_def)
  then have "int (ps_paid_active r + ps_reserved r) \<le> max_paid_workers (st_config S)"
    using open_budget[OF i] f(5,6) by metis
  ultimately show ?thesis using r f(1,2) by simp
qed

theorem status_exact_witness:
  "\<exists>r. project_status demo_store None 3 (run_ops demo_store demo_admit demo_start) = Inr r \<and>
    (ps_present r \<longleftrightarrow> ps_phase r = OWNER_ACTION_REQUIRED_PHASE) \<and> int (ps_paid_active r + ps_reserved r) \<le> max_paid_workers (st_config demo_store)"
  using status_exact[OF demo_reach, of 3 demo_admit] by blast

section \<open>Errors\<close>

lemma expired_slot:
  assumes "terminalize_expired_prepared S s now db = Inr ((), d)" "distinct_slots db"
  shows "\<exists>t \<in> set (db_slots d). s_id t = s_id s \<and> s_state t = Terminal \<and> s_outcome t = Some PREPARED_DEADLINE_OUTCOME"
proof -
  let ?P = "\<lambda>q. s_id q = s_id s \<and> s_state q = Prepared"
  let ?f = "\<lambda>q. q\<lparr>s_state := Terminal, s_terminal := Some now, s_outcome := Some PREPARED_DEADLINE_OUTCOME\<rparr>"
  let ?d = "db\<lparr>db_slots := update_rows ?P ?f (db_slots db)\<rparr>"
  have one: "one_row ?P (db_slots db)"
      and rest: "tx_then (write_worker_state (s_worker s) (s_lane s) ''phase_expired_not_dispatched'' (s_generation s) (s_phase s) now)
         (tx_bind (advance_generation_if_ready S now) (\<lambda>_. tx_return ())) ?d = Inr ((), d)"
    using assms(1) unfolding terminalize_expired_prepared_def by (auto simp: tx_ok split: if_splits)
  obtain q where q: "q \<in> set (db_slots db)" "?P q" using one by (rule one_rowE)
  have t: "?f q \<in> set (db_slots ?d)" using q by (force simp: update_rows_def)
  have "grows (tx_then (write_worker_state (s_worker s) (s_lane s) ''phase_expired_not_dispatched'' (s_generation s) (s_phase s) now)
         (tx_bind (advance_generation_if_ready S now) (\<lambda>_. tx_return ())))"
    by (rule grows_then grows_bind grow)+
  moreover have "distinct_slots ?d" using assms(2) by (simp add: distinct_update)
  ultimately have "later ?d d" using rest unfolding grows_def by blast
  then have "?f q \<in> set (db_slots d)" using t unfolding later_def slot_after_def by fastforce
  then show ?thesis by (rule rev_bexI) (use q in simp)
qed

lemma transact_raised: "fst (transact m db) = Inl e \<Longrightarrow> snd (transact m db) = db"
  by (simp add: transact_def split: sum.splits)

lemma raise_keeps:
  assumes "coord_inv S db" "run_op S oper db = (Some e, d)"
  shows "d = db \<or> (\<exists>i now. oper = OActivate i now \<and> e = SlotErr DeadlineBeforeActivation \<and>
    (\<exists>t \<in> set (db_slots d). s_id t = i \<and> s_state t = Terminal \<and> s_outcome t = Some PREPARED_DEADLINE_OUTCOME))"
proof (cases oper)
  case (OActivate i now)
  show ?thesis
  proof (cases "transact (activate_tx S i now) db")
    case (Pair r d2)
    show ?thesis
    proof (cases r)
      case (Inl x)
      have "d2 = db" by (rule transact_error[OF Pair[unfolded Inl]])
      then show ?thesis using assms(2) Pair Inl by (auto simp: OActivate raised_def activate_def split: option.splits)
    next
      case (Inr x)
      have run: "activate_tx S i now db = Inr (x, d2)" using Pair by (simp add: Inr transact_ok)
      show ?thesis
      proof (cases x)
        case (Inl err)
        obtain s where s: "slot_of db i = Some s" "terminalize_expired_prepared S s now db = Inr ((), d2)" "err = SlotErr DeadlineBeforeActivation"
          using run Inl by (auto simp: activate_tx_def tx_ok split: option.splits if_splits)
        have "\<exists>t \<in> set (db_slots d2). s_id t = i \<and> s_state t = Terminal \<and> s_outcome t = Some PREPARED_DEADLINE_OUTCOME"
          using expired_slot[OF s(2) reach_distinct_slots[OF assms(1)]] s(1) by (auto simp: slot_of_def find_Some_iff)
        then show ?thesis using assms(2) Pair Inr Inl s(3) by (auto simp: OActivate raised_def activate_def split: option.splits)
      qed (use assms(2) Pair Inr in \<open>auto simp: OActivate raised_def activate_def split: option.splits\<close>)
    qed
  qed
next
  case (OComplete i outcome now t)
  show ?thesis
  proof (cases "transact (complete_tx S i outcome now) db")
    case (Pair r d2)
    show ?thesis
    proof (cases r)
      case (Inl x)
      have "d2 = db" by (rule transact_error[OF Pair[unfolded Inl]])
      then show ?thesis using assms(2) Pair Inl by (auto simp: OComplete raised_def complete_def split: option.splits)
    next
      case (Inr x)
      have "coord_inv S d2" using transact_keeps[OF keeps_complete assms(1), of i outcome now] Pair by simp
      then obtain rep where "project_status S None t d2 = Inr rep" using status_total by blast
      then show ?thesis using assms(2) Pair Inr by (auto simp: OComplete raised_def complete_def split: option.splits)
    qed
  qed
next
  case (OCursor worker stream cursor generation now)
  show ?thesis using assms(2) unfolding OCursor
    by (auto simp: raised_def set_memory_cursor_def Let_def dest: transact_raised split: option.splits sum.splits)
qed (use assms(2) in \<open>auto simp: raised_def initialize_def admit_def pin_prompt_def mark_ambiguous_def record_root_evidence_def
    confirm_root_evidence_def reconcile_terminal_memory_entries_def validate_open_recommendation_def resolve_recommendation_def
    terminalize_candidate_def record_exact_fact_reuse_def resolve_candidate_outcome_unknown_def stage_task_assignment_def
    register_candidate_def record_candidate_def Let_def transact_def split: sum.splits option.splits if_splits\<close>)



end
