(* ===== verification/Spec2Isabelle.thy ===== *)
theory Spec2Isabelle
  imports Prelude Json Sha256 Roles Policy Verification Schema SchedulerSafe FactGraphLog CoordReopen CoordErrors
begin

text \<open>
  A verification library for Danus, a system in which language-model workers prove mathematical facts
  and a shared graph keeps the facts that a verifier accepted. The source is Python, under
  \<open>src/danus\<close>. The library models the parts that decide what becomes a fact and what stays one.

  \<^bold>\<open>The program.\<close> A worker submits a candidate through the gateway. The gateway looks its tools up in a
  role table (\<open>gateway/roles.py\<close>). The verifier service queues the candidate in a scheduler that
  coalesces equal requests, runs one paid verifier at a time and caches results
  (\<open>verify/scheduler.py\<close>); the verifier's answer is checked by a deterministic validator
  (\<open>core/verification.py\<close>) against the text it was given, a bounded extract of the graph. An accepted
  candidate becomes a content-addressed file of the fact graph (\<open>core/factgraph.py\<close>, with the schemas of
  \<open>core/schema.py\<close>). A fact found wrong is revoked together with everything that depends on it. The
  coordination policy (\<open>coordination/policy.py\<close>) selects the workers and issues bounded directives; the
  coordination store (\<open>coordination/store.py\<close>), a database of one project, decides which worker may run a
  paid round when, freezes the project while a candidate is verified, and takes an obstacle of the root
  worker through a critic's review to the owner's decision.

  \<^bold>\<open>Theories.\<close>
  \<^item> \<open>Prelude\<close>: Python's string operations (white space, lines, \<open>strip\<close>, \<open>split\<close>, joining), ordered
    dictionaries, checks that return the first error.
  \<^item> \<open>Json\<close>: \<open>json.dumps\<close> and \<open>json.loads\<close> with their options and hooks; the parser runs on fuel one more
    than the length of its text, which every nesting and every item consumes, and reading what was
    written gives the value back (\<open>loads_dumps\<close> and its variants).
  \<^item> \<open>Sha256\<close>: \<open>hashlib.sha256\<close>. The locale \<open>hexdigest\<close> states the only law the other theories use, that a
    digest is 64 lower-case hexadecimal digits; it is interpreted on the definition.
  \<^item> \<open>Roles\<close>, \<open>Policy\<close>, \<open>Verification\<close>, \<open>Schema\<close>: the four modules of the same names, function by function;
    every \<open>raise\<close> is a constructor of an error type.
  \<^item> \<open>Scheduler\<close>, \<open>SchedulerFlow\<close>, \<open>SchedulerSafe\<close>: the scheduler as a record, its critical sections as
    functions, and all interleavings of its callers as a step relation; the invariants by rule
    induction; the properties.
  \<^item> \<open>FactFile\<close>: the file format of a fact (\<open>serialize_fact\<close>, \<open>parse_frontmatter\<close>, \<open>statement_of\<close>,
    \<open>_proof_of\<close>, \<open>_validate_fact_integrity\<close>, the update of references, the selection of definitions).
  \<^item> \<open>FactContext\<close>, \<open>FactIdentity\<close>: bounded contexts and full identities over one state of the files, an
    association list from paths to texts.
  \<^item> \<open>Storage\<close>: a disk has visible files and, for each change not yet synchronised, the older contents
    that a loss of power may bring back. A computation runs on a disk under a schedule of faults: each
    primitive step goes, fails with an operating system error, or is where the process stops. Python's
    exceptions are outcomes, so handlers and re-raising are part of the model.
  \<^item> \<open>StorageLogic\<close>: \<open>holds m Q d\<close>, all runs of a computation from a disk, with rules for sequencing,
    handlers and the file operations.
  \<^item> \<open>FactGraph\<close>: the write side of the graph: the markers of the add transaction, its recovery, the
    glossary gate, \<open>add\<close>, the revocation journal, \<open>revoke\<close>, \<open>set_external_refs\<close>.
  \<^item> \<open>FactGraphAdd\<close>, \<open>FactGraphCommit\<close>, \<open>FactGraphCrash\<close>, \<open>FactGraphAtomic\<close>, \<open>FactGraphCompletes\<close>: crash
    safety of the add transaction. A \<open>box\<close> bounds the contents that may survive in each file the
    transaction touches; a disk is \<open>before_add\<close> or \<open>after_add\<close> when its box resolves one way, and
    \<open>undecided\<close> between the commit marker and its synchronisation. Every step keeps a run inside these
    sets, restarts and interrupted recoveries stay inside, and a recovery without faults returns.
  \<^item> \<open>FactGraphRevoke\<close>, \<open>FactGraphLog\<close>: a revocation against its specification on the two stores, and two
    defects of it.

  \<^item> \<open>CoordRows\<close>, \<open>CoordTx\<close>: the tables of the coordination store as records and lists of rows; a
    transaction maps a database to an error or to a value and a database (\<open>transact\<close> is \<open>BEGIN\<close> to \<open>COMMIT\<close>
    or \<open>ROLLBACK\<close>), an \<open>UPDATE\<close> with a row count is a compare-and-swap (\<open>cas_slots\<close> and the like), and the
    \<open>CHECK\<close>, \<open>UNIQUE\<close> and \<open>REFERENCES\<close> clauses are conditions of the inserts.
  \<^item> \<open>CoordTasks\<close>, \<open>CoordSlots\<close>, \<open>CoordStatus\<close>, \<open>CoordEvidence\<close>, \<open>CoordCand\<close>: the operations, one definition
    per method, in the order of the source: staging and freezing tasks; reviews, admission, prompts,
    activation and the advance of a generation; status and completion; evidence, recommendations,
    resolutions, reconciliation and cursors; candidate receipts and the opening of the store.
  \<^item> \<open>CoordInv\<close>, \<open>CoordKeep\<close>, \<open>CoordKeepSlots\<close>, \<open>CoordKeepAll\<close>, \<open>CoordKeepAdvice\<close>: \<open>coord_inv\<close>, what the
    tables of a reachable database say about each other, and that every transaction keeps it (\<open>keeps\<close>, with
    one rule per combinator). \<open>CoordOps\<close>, \<open>CoordStep\<close>: the operations as one step relation, an instance of
    \<open>inductive_invariant\<close>. \<open>CoordMoves\<close>: how each operation moves the gate of the project (generation,
    phase, review and recommendation).
  \<^item> \<open>CoordRounds\<close>: the store refines a machine of rounds; generations end closed; the paid budget. The
    witnesses run a project of two workers (\<open>CoordDemo\<close>). \<open>CoordHistory\<close>: what no operation takes
    back, by a relation between a database and a later one, and the defect of slots marked ambiguous
    without a prompt. \<open>CoordReopen\<close>: a store opens again exactly when it has no such slot.
    \<open>CoordErrors\<close>: the status can always be read and is exact; an operation that raises changes nothing.

  \<^bold>\<open>Parameters.\<close> The digest, the text of a float (\<open>float\<close> and \<open>repr\<close>), the global glossary file, random
  identifiers and clock readings are arguments (\<open>env_hash\<close>, \<open>env_float\<close>, \<open>env_global\<close>, transaction ids and
  times, the \<open>uid\<close> of slots and recommendations). Strings are lists of the characters 0 to 255; what the
  code does with other code points it does by the same cases. In the coordination store a time stamp is a
  rational number and a column has one type: what SQLite does with values of another type, or a clock that
  is not a finite number, is outside the model.

  \<^bold>\<open>Not modelled.\<close> The file locks (a computation runs alone), temporary files, permissions and encodings;
  in the coordination store the ownership and mode checks of its files and the migrations of the schemas
  4, 5 and 6; the execution loop, the hot join, the servers and command lines, which are mostly process
  and network interaction; ranking by floating-point scores; the tools that write papers and
  summaries. The manifest lists every part with its reason.
\<close>

end
